(* ===== verification/Prelude.thy ===== *)
theory Prelude
  imports Main "HOL-Library.Word" "HOL-Library.Multiset" "HOL-Library.Char_ord"
    "HOL-Library.List_Lexorder"
begin

text \<open>
  What every component shares: Rust's three-valued \<open>Ordering\<close>, comparators and the stable
  sort that \<open>slice::sort_by\<close> is, the \<open>Result\<close> plumbing, and the one error type the
  collectors raise.  The locales \<open>comparator_on\<close> and \<open>linear_comparator_on\<close> state what a
  comparison function promises its callers; every comparison of the program is interpreted in
  one of them by the theory that defines it.
\<close>

named_theorems cmp_simps \<open>equations of comparison functions\<close>
named_theorems wf_intros \<open>an operation keeps a component's well-formedness\<close>

type_synonym str = string
type_synonym i64 = "64 word"
type_synonym u64 = "64 word"

section \<open>Errors and results\<close>

text \<open>
  \<open>CollectionError\<close> carries one message.  A message is a format string and what was put in
  it; the model keeps the two apart, because how Rust's formatter escapes an argument is not
  something the program decides anything on.
\<close>

datatype collection_error = CollectionError (template: str) (arguments: "str list")

text \<open>A message that embeds another one at its end.\<close>

definition within :: "str \<Rightarrow> str list \<Rightarrow> collection_error \<Rightarrow> collection_error" where
  "within t args e = CollectionError (t @ template e) (args @ arguments e)"

type_synonym 'a collected = "collection_error + 'a"

fun option_list :: "'a option \<Rightarrow> 'a list" where
  "option_list None = []"
| "option_list (Some x) = [x]"

text \<open>\<open>Iterator::find_map\<close> and \<open>Iterator::nth\<close>.\<close>

fun find_map :: "('a \<Rightarrow> 'b option) \<Rightarrow> 'a list \<Rightarrow> 'b option" where
  "find_map f [] = None"
| "find_map f (x # xs) = (case f x of Some y \<Rightarrow> Some y | None \<Rightarrow> find_map f xs)"

definition nth_opt :: "nat \<Rightarrow> 'a list \<Rightarrow> 'a option" where
  "nth_opt n xs = (if n < length xs then Some (xs ! n) else None)"

lemma find_map_Some_iff:
  "find_map f xs = Some y \<longleftrightarrow> (\<exists>us x vs. xs = us @ x # vs \<and> (\<forall>u \<in> set us. f u = None) \<and> f x = Some y)"
proof (induction xs)
  case (Cons a xs)
  show ?case
  proof (cases "f a")
    case None
    have "(\<exists>us x vs. a # xs = us @ x # vs \<and> (\<forall>u \<in> set us. f u = None) \<and> f x = Some y) \<longleftrightarrow>
      (\<exists>us x vs. xs = us @ x # vs \<and> (\<forall>u \<in> set us. f u = None) \<and> f x = Some y)" (is "?l \<longleftrightarrow> ?r")
    proof
      assume ?l
      then obtain us x vs where "a # xs = us @ x # vs" "\<forall>u \<in> set us. f u = None" "f x = Some y" by blast
      with None show ?r by (cases us) auto
    next
      assume ?r
      then obtain us x vs where "xs = us @ x # vs" "\<forall>u \<in> set us. f u = None" "f x = Some y" by blast
      with None have "a # xs = (a # us) @ x # vs \<and> (\<forall>u \<in> set (a # us). f u = None) \<and> f x = Some y" by simp
      then show ?l by blast
    qed
    with Cons None show ?thesis by simp
  next
    case (Some b)
    show ?thesis
    proof
      assume "find_map f (a # xs) = Some y"
      with Some have "a # xs = [] @ a # xs \<and> (\<forall>u \<in> set []. f u = None) \<and> f a = Some y" by simp
      then show "\<exists>us x vs. a # xs = us @ x # vs \<and> (\<forall>u \<in> set us. f u = None) \<and> f x = Some y" by blast
    next
      assume "\<exists>us x vs. a # xs = us @ x # vs \<and> (\<forall>u \<in> set us. f u = None) \<and> f x = Some y"
      then obtain us x vs where "a # xs = us @ x # vs" "\<forall>u \<in> set us. f u = None" "f x = Some y" by blast
      with Some show "find_map f (a # xs) = Some y" by (cases us) auto
    qed
  qed
qed simp

lemma find_map_None_iff: "find_map f xs = None \<longleftrightarrow> (\<forall>x \<in> set xs. f x = None)"
  by (induction xs) (auto split: option.splits)

fun and_then :: "'e + 'a \<Rightarrow> ('a \<Rightarrow> 'e + 'b) \<Rightarrow> 'e + 'b" where
  "and_then (Inl e) f = Inl e"
| "and_then (Inr a) f = f a"

fun map_ok :: "('a \<Rightarrow> 'b) \<Rightarrow> 'e + 'a \<Rightarrow> 'e + 'b" where
  "map_ok f (Inl e) = Inl e"
| "map_ok f (Inr a) = Inr (f a)"

fun map_err :: "('e \<Rightarrow> 'f) \<Rightarrow> 'e + 'a \<Rightarrow> 'f + 'a" where
  "map_err f (Inl e) = Inl (f e)"
| "map_err f (Inr a) = Inr a"

fun ok_or :: "'e \<Rightarrow> 'a option \<Rightarrow> 'e + 'a" where
  "ok_or e None = Inl e"
| "ok_or e (Some a) = Inr a"

fun result_ok :: "'e + 'a \<Rightarrow> 'a option" where
  "result_ok (Inl e) = None"
| "result_ok (Inr a) = Some a"

text \<open>\<open>collect::<Result<Vec<_>, _>>()\<close>: the values, or the first error.\<close>

fun collect_results :: "('e + 'a) list \<Rightarrow> 'e + 'a list" where
  "collect_results [] = Inr []"
| "collect_results (r # rs) = and_then r (\<lambda>a. map_ok ((#) a) (collect_results rs))"

lemma and_then_Inr_iff: "and_then r f = Inr b \<longleftrightarrow> (\<exists>a. r = Inr a \<and> f a = Inr b)"
  by (cases r) auto

lemma map_ok_Inr_iff: "map_ok f r = Inr b \<longleftrightarrow> (\<exists>a. r = Inr a \<and> b = f a)"
  by (cases r) auto

lemma map_err_Inr_iff: "map_err f r = Inr b \<longleftrightarrow> r = Inr b"
  by (cases r) auto

lemma ok_or_Inr_iff: "ok_or e r = Inr b \<longleftrightarrow> r = Some b"
  by (cases r) auto

lemmas result_iffs = and_then_Inr_iff map_ok_Inr_iff map_err_Inr_iff ok_or_Inr_iff

lemma and_then_cong [fundef_cong]:
  assumes "r = r'" and "\<And>a. r' = Inr a \<Longrightarrow> f a = g a"
  shows "and_then r f = and_then r' g"
  using assms by (cases r') auto

lemma collect_results_Inr_iff: "collect_results rs = Inr xs \<longleftrightarrow> rs = map Inr xs"
proof (induction rs arbitrary: xs)
  case Nil
  then show ?case by auto
next
  case (Cons r rs)
  show ?case
  proof (cases r)
    case (Inl e)
    then show ?thesis by auto
  next
    case (Inr a)
    show ?thesis
    proof (cases "collect_results rs")
      case (Inl e)
      with Cons.IH Inr show ?thesis by (auto simp: Cons_eq_map_conv)
    next
      case Inr': (Inr as)
      from Cons.IH[of as] Inr' have rs: "rs = map Inr as" by simp
      show ?thesis using Inr Inr' rs by (auto simp: Cons_eq_map_conv inj_map_eq_map)
    qed
  qed
qed

section \<open>Comparisons\<close>

datatype comparison = Less | Equal | Greater

fun reverse :: "comparison \<Rightarrow> comparison" where
  "reverse Less = Greater"
| "reverse Equal = Equal"
| "reverse Greater = Less"

fun then_with :: "comparison \<Rightarrow> comparison \<Rightarrow> comparison" where
  "then_with Equal c = c"
| "then_with Less c = Less"
| "then_with Greater c = Greater"

lemma reverse_reverse [simp]: "reverse (reverse c) = c"
  by (cases c) auto

lemma reverse_eq_iff [simp]:
  "reverse c = Less \<longleftrightarrow> c = Greater" "reverse c = Greater \<longleftrightarrow> c = Less" "reverse c = Equal \<longleftrightarrow> c = Equal"
  by (cases c; simp)+

lemma reverse_then_with [simp]: "reverse (then_with a b) = then_with (reverse a) (reverse b)"
  by (cases a) auto

lemma then_with_Equal_iff [simp]: "then_with a b = Equal \<longleftrightarrow> a = Equal \<and> b = Equal"
  by (cases a) auto

lemma then_with_right_Equal [simp]: "then_with c Equal = c"
  by (cases c) auto

lemma then_with_assoc: "then_with (then_with a b) c = then_with a (then_with b c)"
  by (cases a) auto

lemma then_with_Greater_iff: "then_with a b = Greater \<longleftrightarrow> a = Greater \<or> a = Equal \<and> b = Greater"
  by (cases a) auto

text \<open>\<open>Ord::cmp\<close> on a type whose order HOL knows: integers, booleans, text by its bytes.\<close>

definition cmp_of :: "'a::linorder \<Rightarrow> 'a \<Rightarrow> comparison" where
  "cmp_of x y = (if x < y then Less else if x = y then Equal else Greater)"

lemma cmp_of_iff [cmp_simps]:
  "cmp_of x y = Less \<longleftrightarrow> x < y" "cmp_of x y = Equal \<longleftrightarrow> x = y" "cmp_of x y = Greater \<longleftrightarrow> y < x"
  by (auto simp: cmp_of_def)

lemma cmp_of_same [simp]: "cmp_of x x = Equal"
  by (simp add: cmp_of_def)

lemma reverse_cmp_of: "cmp_of y x = reverse (cmp_of x y)"
  by (auto simp: cmp_of_def)

text \<open>Two runs of items compared pairwise, the shorter first where it is a prefix of the other.\<close>

fun lexicographic :: "('a \<Rightarrow> 'a \<Rightarrow> comparison) \<Rightarrow> 'a list \<Rightarrow> 'a list \<Rightarrow> comparison" where
  "lexicographic cmp [] [] = Equal"
| "lexicographic cmp [] (y # ys) = Less"
| "lexicographic cmp (x # xs) [] = Greater"
| "lexicographic cmp (x # xs) (y # ys) =
     (case cmp x y of Equal \<Rightarrow> lexicographic cmp xs ys | unequal \<Rightarrow> unequal)"

lemma lexicographic_cong [fundef_cong]:
  assumes "xs = xs'" and "ys = ys'"
    and "\<And>x y. x \<in> set xs' \<Longrightarrow> y \<in> set ys' \<Longrightarrow> f x y = g x y"
  shows "lexicographic f xs ys = lexicographic g xs' ys'"
proof -
  have "(\<And>x y. x \<in> set xs' \<Longrightarrow> y \<in> set ys' \<Longrightarrow> f x y = g x y) \<Longrightarrow>
    lexicographic f xs' ys' = lexicographic g xs' ys'"
    by (induction f xs' ys' rule: lexicographic.induct) (auto split: comparison.splits)
  with assms show ?thesis by simp
qed

lemma lexicographic_map:
  "lexicographic (\<lambda>x y. cmp (f x) (f y)) xs ys = lexicographic cmp (map f xs) (map f ys)"
  by (induction cmp "map f xs" "map f ys" arbitrary: xs ys rule: lexicographic.induct)
    (auto simp: Cons_eq_map_conv split: comparison.splits)

lemma lexicographic_Equal_iff:
  assumes "\<And>x y. x \<in> set xs \<Longrightarrow> y \<in> set ys \<Longrightarrow> cmp x y = Equal \<longleftrightarrow> x = y"
  shows "lexicographic cmp xs ys = Equal \<longleftrightarrow> xs = ys"
  using assms
proof (induction cmp xs ys rule: lexicographic.induct)
  case (4 cmp x xs y ys)
  have xy: "cmp x y = Equal \<longleftrightarrow> x = y" using "4.prems" by simp
  have "lexicographic cmp xs ys = Equal \<longleftrightarrow> xs = ys" if "cmp x y = Equal"
    using 4 that by simp
  with xy show ?case by (cases "cmp x y") simp_all
qed auto

lemma lexicographic_reverse:
  assumes "\<And>x y. x \<in> set xs \<Longrightarrow> y \<in> set ys \<Longrightarrow> cmp y x = reverse (cmp x y)"
  shows "lexicographic cmp ys xs = reverse (lexicographic cmp xs ys)"
  using assms by (induction cmp xs ys rule: lexicographic.induct) (auto split: comparison.splits)

text \<open>
  Transitivity of the lexicographic order, from what is known of the items of the middle list:
  the form an induction over a tree can use.
\<close>

lemma lexicographic_trans:
  assumes "\<And>x y z. x \<in> set xs \<Longrightarrow> y \<in> set ys \<Longrightarrow> z \<in> set zs \<Longrightarrow>
      cmp x y \<noteq> Greater \<Longrightarrow> cmp y z \<noteq> Greater \<Longrightarrow> cmp x z \<noteq> Greater \<and> (cmp x z = Equal \<longrightarrow> cmp x y = Equal \<and> cmp y z = Equal)"
    and "lexicographic cmp xs ys \<noteq> Greater" and "lexicographic cmp ys zs \<noteq> Greater"
  shows "lexicographic cmp xs zs \<noteq> Greater"
  using assms
proof (induction xs arbitrary: ys zs)
  case Nil
  then show ?case by (cases zs) auto
next
  case (Cons x xs)
  from Cons.prems(2) obtain y ys' where ys: "ys = y # ys'" by (cases ys) auto
  with Cons.prems(3) obtain z zs' where zs: "zs = z # zs'" by (cases zs) auto
  have xy: "cmp x y \<noteq> Greater" and yz: "cmp y z \<noteq> Greater"
    using Cons.prems(2,3) ys zs by (auto split: comparison.splits)
  note xz = Cons.prems(1)[of x y z, unfolded ys zs, simplified, OF xy yz]
  show ?case
  proof (cases "cmp x z = Equal")
    case True
    with xz have "cmp x y = Equal" "cmp y z = Equal" by auto
    with Cons.prems ys zs True Cons.IH[of ys' zs'] show ?thesis by (auto split: comparison.splits)
  next
    case False
    with xz ys zs show ?thesis by (cases "cmp x z") auto
  qed
qed

section \<open>The stable sort\<close>

text \<open>
  \<open>slice::sort_by\<close> is a stable sort.  What it computes for a total order is fixed by that,
  and insertion from the right is one program that computes it.
\<close>

fun insert_by :: "('a \<Rightarrow> 'a \<Rightarrow> comparison) \<Rightarrow> 'a \<Rightarrow> 'a list \<Rightarrow> 'a list" where
  "insert_by cmp x [] = [x]"
| "insert_by cmp x (y # ys) = (if cmp x y = Greater then y # insert_by cmp x ys else x # y # ys)"

fun sort_by :: "('a \<Rightarrow> 'a \<Rightarrow> comparison) \<Rightarrow> 'a list \<Rightarrow> 'a list" where
  "sort_by cmp [] = []"
| "sort_by cmp (x # xs) = insert_by cmp x (sort_by cmp xs)"

lemma mset_insert_by [simp]: "mset (insert_by cmp x xs) = add_mset x (mset xs)"
  by (induction xs) auto

lemma mset_sort_by [simp]: "mset (sort_by cmp xs) = mset xs"
  by (induction xs) auto

lemma set_insert_by [simp]: "set (insert_by cmp x xs) = insert x (set xs)"
  by (induction xs) auto

lemma set_sort_by [simp]: "set (sort_by cmp xs) = set xs"
  by (induction xs) auto

lemma length_sort_by [simp]: "length (sort_by cmp xs) = length xs"
  by (metis mset_sort_by size_mset)

lemma insert_by_cong:
  assumes "\<And>y. y \<in> set ys \<Longrightarrow> f x y = g x y"
  shows "insert_by f x ys = insert_by g x ys"
  using assms by (induction ys) auto

lemma sort_by_cong [fundef_cong]:
  assumes "xs = ys" and "\<And>x y. x \<in> set ys \<Longrightarrow> y \<in> set ys \<Longrightarrow> f x y = g x y"
  shows "sort_by f xs = sort_by g ys"
proof -
  have "(\<And>x y. x \<in> set ys \<Longrightarrow> y \<in> set ys \<Longrightarrow> f x y = g x y) \<Longrightarrow> sort_by f ys = sort_by g ys"
    by (induction ys) (auto intro: insert_by_cong)
  with assms show ?thesis by simp
qed

lemma map_insert_by:
  "map f (insert_by (\<lambda>x y. cmp (f x) (f y)) x xs) = insert_by cmp (f x) (map f xs)"
  by (induction xs) auto

lemma map_sort_by: "map f (sort_by (\<lambda>x y. cmp (f x) (f y)) xs) = sort_by cmp (map f xs)"
  by (induction xs) (auto simp: map_insert_by)

abbreviation sorted_by :: "('a \<Rightarrow> 'a \<Rightarrow> comparison) \<Rightarrow> 'a list \<Rightarrow> bool" where
  "sorted_by cmp \<equiv> sorted_wrt (\<lambda>x y. cmp x y \<noteq> Greater)"

lemma insert_by_first: "(\<And>y. y \<in> set ys \<Longrightarrow> cmp x y \<noteq> Greater) \<Longrightarrow> insert_by cmp x ys = x # ys"
  by (cases ys) auto

lemma sort_by_sorted: "sorted_by cmp xs \<Longrightarrow> sort_by cmp xs = xs"
  by (induction xs) (auto simp: insert_by_first)

section \<open>What a comparison promises\<close>

locale comparator_on =
  fixes cmp :: "'a \<Rightarrow> 'a \<Rightarrow> comparison" and A :: "'a set"
  assumes cmp_swap: "x \<in> A \<Longrightarrow> y \<in> A \<Longrightarrow> cmp y x = reverse (cmp x y)"
    and cmp_trans: "x \<in> A \<Longrightarrow> y \<in> A \<Longrightarrow> z \<in> A \<Longrightarrow>
      cmp x y \<noteq> Greater \<Longrightarrow> cmp y z \<noteq> Greater \<Longrightarrow> cmp x z \<noteq> Greater"
begin

lemma cmp_refl: "x \<in> A \<Longrightarrow> cmp x x = Equal"
  using cmp_swap[of x x] by (cases "cmp x x") auto

lemma cmp_total: "x \<in> A \<Longrightarrow> y \<in> A \<Longrightarrow> cmp x y \<noteq> Greater \<or> cmp y x \<noteq> Greater"
  using cmp_swap[of x y] by auto

lemma cmp_trans_strong:
  assumes "x \<in> A" "y \<in> A" "z \<in> A" "cmp x y \<noteq> Greater" "cmp y z \<noteq> Greater"
  shows "cmp x z \<noteq> Greater \<and> (cmp x z = Equal \<longrightarrow> cmp x y = Equal \<and> cmp y z = Equal)"
proof -
  have xz: "cmp x z \<noteq> Greater" using assms by (rule cmp_trans)
  have "cmp x y = Equal \<and> cmp y z = Equal" if "cmp x z = Equal"
  proof -
    from that assms have zx: "cmp z x \<noteq> Greater" using cmp_swap[of x z] by auto
    with assms have "cmp y x \<noteq> Greater" and "cmp z y \<noteq> Greater"
      using cmp_trans[of y z x] cmp_trans[of z x y] by simp_all
    with assms show ?thesis
      using cmp_swap[of x y] cmp_swap[of y z] by (cases "cmp x y"; cases "cmp y z") auto
  qed
  with xz show ?thesis by blast
qed

lemma sorted_insert_by:
  assumes "x \<in> A" "set ys \<subseteq> A" "sorted_by cmp ys"
  shows "sorted_by cmp (insert_by cmp x ys)"
  using assms
proof (induction ys)
  case Nil
  then show ?case by simp
next
  case (Cons y ys)
  have A: "x \<in> A" "y \<in> A" "set ys \<subseteq> A" using Cons.prems by auto
  show ?case
  proof (cases "cmp x y = Greater")
    case True
    then have "cmp y x \<noteq> Greater" using A cmp_swap[of x y] by simp
    with Cons True A show ?thesis by auto
  next
    case False
    have "cmp x z \<noteq> Greater" if "z \<in> set ys" for z
      using that False A Cons.prems cmp_trans[of x y z] by auto
    with Cons.prems False show ?thesis by auto
  qed
qed

lemma sorted_sort_by: "set xs \<subseteq> A \<Longrightarrow> sorted_by cmp (sort_by cmp xs)"
  by (induction xs) (auto intro!: sorted_insert_by)

lemma sort_by_idem: "set xs \<subseteq> A \<Longrightarrow> sort_by cmp (sort_by cmp xs) = sort_by cmp xs"
  by (simp add: sort_by_sorted sorted_sort_by)

end

locale linear_comparator_on = comparator_on +
  assumes cmp_eq: "x \<in> A \<Longrightarrow> y \<in> A \<Longrightarrow> cmp x y = Equal \<Longrightarrow> x = y"
begin

lemma sorted_unique:
  assumes "mset xs = mset ys" "set xs \<subseteq> A" "sorted_by cmp xs" "sorted_by cmp ys"
  shows "xs = ys"
  using assms
proof (induction xs arbitrary: ys)
  case Nil
  then show ?case by simp
next
  case (Cons x xs)
  then obtain y ys' where ys: "ys = y # ys'" by (cases ys) auto
  have sets: "set (x # xs) = set ys" using Cons.prems(1) by (metis set_mset_mset)
  have "x = y"
  proof (rule ccontr)
    assume ne: "x \<noteq> y"
    from sets ys ne have "x \<in> set ys'" "y \<in> set xs" by auto
    with Cons.prems ys have "cmp y x \<noteq> Greater" "cmp x y \<noteq> Greater" by auto
    moreover have "x \<in> A" "y \<in> A" using Cons.prems(2) \<open>y \<in> set xs\<close> by auto
    ultimately show False using ne cmp_swap[of x y] cmp_eq[of x y] by (cases "cmp x y") auto
  qed
  with Cons ys show ?case by simp
qed

text \<open>The one thing a canonical order is for: how the items arrived no longer shows.\<close>

lemma sort_by_mset:
  assumes "mset xs = mset ys" "set xs \<subseteq> A"
  shows "sort_by cmp xs = sort_by cmp ys"
proof -
  have "set ys \<subseteq> A" using assms by (metis set_mset_mset)
  with assms show ?thesis by (intro sorted_unique) (auto intro: sorted_sort_by)
qed

end

lemma comparator_pullback:
  assumes "comparator_on cmp B" and "f ` A \<subseteq> B"
  shows "comparator_on (\<lambda>x y. cmp (f x) (f y)) A"
proof -
  have B: "f x \<in> B" if "x \<in> A" for x using that assms(2) by auto
  show ?thesis
  proof
    fix x y assume "x \<in> A" "y \<in> A"
    then show "cmp (f y) (f x) = reverse (cmp (f x) (f y))"
      by (intro comparator_on.cmp_swap[OF assms(1)] B)
  next
    fix x y z
    assume "x \<in> A" "y \<in> A" "z \<in> A" "cmp (f x) (f y) \<noteq> Greater" "cmp (f y) (f z) \<noteq> Greater"
    then show "cmp (f x) (f z) \<noteq> Greater"
      by (intro comparator_on.cmp_trans[OF assms(1), of "f x" "f y" "f z"] B)
  qed
qed

lemma linear_comparator_pullback:
  assumes "linear_comparator_on cmp B" and "f ` A \<subseteq> B" and "inj_on f A"
  shows "linear_comparator_on (\<lambda>x y. cmp (f x) (f y)) A"
proof -
  have "comparator_on cmp B" using assms(1) by (simp add: linear_comparator_on_def)
  then have "comparator_on (\<lambda>x y. cmp (f x) (f y)) A" using assms(2) by (rule comparator_pullback)
  moreover have "linear_comparator_on_axioms (\<lambda>x y. cmp (f x) (f y)) A"
  proof
    fix x y assume xy: "x \<in> A" "y \<in> A" "cmp (f x) (f y) = Equal"
    then have "f x = f y" using assms(2) by (intro linear_comparator_on.cmp_eq[OF assms(1)]) auto
    with xy assms(3) show "x = y" by (simp add: inj_on_def)
  qed
  ultimately show ?thesis by (simp add: linear_comparator_on_def)
qed

lemma linear_comparatorI:
  assumes "\<And>x y. x \<in> A \<Longrightarrow> y \<in> A \<Longrightarrow> cmp y x = reverse (cmp x y)"
    and "\<And>x y z. x \<in> A \<Longrightarrow> y \<in> A \<Longrightarrow> z \<in> A \<Longrightarrow> cmp x y \<noteq> Greater \<Longrightarrow> cmp y z \<noteq> Greater \<Longrightarrow> cmp x z \<noteq> Greater"
    and "\<And>x y. x \<in> A \<Longrightarrow> y \<in> A \<Longrightarrow> cmp x y = Equal \<Longrightarrow> x = y"
  shows "linear_comparator_on cmp A"
  using assms by unfold_locales blast+

lemma linear_comparator_cong:
  assumes "linear_comparator_on f A" and "\<And>x y. x \<in> A \<Longrightarrow> y \<in> A \<Longrightarrow> g x y = f x y"
  shows "linear_comparator_on g A"
proof (rule linear_comparatorI)
  note f = assms(1)[unfolded linear_comparator_on_def, THEN conjunct1]
  show "g y x = reverse (g x y)" if "x \<in> A" "y \<in> A" for x y
    using that comparator_on.cmp_swap[OF f that] by (simp add: assms(2))
  show "g x z \<noteq> Greater" if "x \<in> A" "y \<in> A" "z \<in> A" "g x y \<noteq> Greater" "g y z \<noteq> Greater" for x y z
    using that comparator_on.cmp_trans[OF f that(1-3)] by (simp add: assms(2))
  show "x = y" if "x \<in> A" "y \<in> A" "g x y = Equal" for x y
    using that linear_comparator_on.cmp_eq[OF assms(1) that(1,2)] by (simp add: assms(2))
qed

lemma linear_comparator_subset: "linear_comparator_on f A \<Longrightarrow> B \<subseteq> A \<Longrightarrow> linear_comparator_on f B"
  using linear_comparator_pullback[of f A "\<lambda>x. x" B] by simp

interpretation cmp_of: linear_comparator_on "cmp_of :: 'a::linorder \<Rightarrow> 'a \<Rightarrow> comparison" UNIV
  by unfold_locales (auto simp: cmp_of_def split: if_splits)

section \<open>Building comparisons from comparisons\<close>

text \<open>
  The ways the source composes comparisons, each of which keeps the promise: item by item along
  two lists, one comparison deciding what another leaves equal, an absent value before a present
  one, and values of different kinds by the rank of their kind.
\<close>

context linear_comparator_on
begin

lemma lexicographic_linear: "linear_comparator_on (lexicographic cmp) (lists A)"
proof (rule linear_comparatorI)
  fix xs ys zs assume "xs \<in> lists A" "ys \<in> lists A" "zs \<in> lists A"
  then have A: "set xs \<subseteq> A" "set ys \<subseteq> A" "set zs \<subseteq> A" by auto
  show "lexicographic cmp ys xs = reverse (lexicographic cmp xs ys)"
    using A by (intro lexicographic_reverse cmp_swap) auto
  show "lexicographic cmp xs zs \<noteq> Greater"
    if "lexicographic cmp xs ys \<noteq> Greater" "lexicographic cmp ys zs \<noteq> Greater"
    using A that by (intro lexicographic_trans[of xs ys zs] cmp_trans_strong) auto
  have "cmp x y = Equal \<longleftrightarrow> x = y" if "x \<in> set xs" "y \<in> set ys" for x y
    using A that cmp_refl[of x] cmp_eq[of x y] by auto
  then show "xs = ys" if "lexicographic cmp xs ys = Equal"
    using that lexicographic_Equal_iff[of xs ys cmp] by simp
qed

end

fun compare_options :: "('a \<Rightarrow> 'a \<Rightarrow> comparison) \<Rightarrow> 'a option \<Rightarrow> 'a option \<Rightarrow> comparison" where
  "compare_options cmp None None = Equal"
| "compare_options cmp None (Some y) = Less"
| "compare_options cmp (Some x) None = Greater"
| "compare_options cmp (Some x) (Some y) = cmp x y"

definition compare_ranked :: "('a \<Rightarrow> nat) \<Rightarrow> ('a \<Rightarrow> 'a \<Rightarrow> comparison) \<Rightarrow> 'a \<Rightarrow> 'a \<Rightarrow> comparison" where
  "compare_ranked rank cmp x y = (if rank x = rank y then cmp x y else cmp_of (rank x) (rank y))"

context linear_comparator_on
begin

lemma options_linear: "linear_comparator_on (compare_options cmp) (insert None (Some ` A))"
proof (rule linear_comparatorI)
  fix x y z assume A: "x \<in> insert None (Some ` A)" "y \<in> insert None (Some ` A)" "z \<in> insert None (Some ` A)"
  show "compare_options cmp y x = reverse (compare_options cmp x y)"
    using A cmp_swap[of "the x" "the y"] by (cases x; cases y) auto
  show "compare_options cmp x z \<noteq> Greater"
    if "compare_options cmp x y \<noteq> Greater" "compare_options cmp y z \<noteq> Greater"
    using A that cmp_trans[of "the x" "the y" "the z"] by (cases x; cases y; cases z) auto
  show "x = y" if "compare_options cmp x y = Equal"
    using A that cmp_eq[of "the x" "the y"] by (cases x; cases y) auto
qed

end

lemma then_with_linear:
  assumes "comparator_on f A" and "comparator_on g A"
    and "\<And>x y. x \<in> A \<Longrightarrow> y \<in> A \<Longrightarrow> f x y = Equal \<Longrightarrow> g x y = Equal \<Longrightarrow> x = y"
  shows "linear_comparator_on (\<lambda>x y. then_with (f x y) (g x y)) A"
proof (rule linear_comparatorI)
  show "then_with (f y x) (g y x) = reverse (then_with (f x y) (g x y))"
    if "x \<in> A" "y \<in> A" for x y
    using comparator_on.cmp_swap[OF assms(1) that] comparator_on.cmp_swap[OF assms(2) that] by simp
  show "then_with (f x z) (g x z) \<noteq> Greater"
    if "x \<in> A" "y \<in> A" "z \<in> A" "then_with (f x y) (g x y) \<noteq> Greater" "then_with (f y z) (g y z) \<noteq> Greater"
    for x y z
    using that comparator_on.cmp_trans_strong[OF assms(1) that(1-3)]
      comparator_on.cmp_trans[OF assms(2) that(1-3)]
    by (auto simp: then_with_Greater_iff)
  show "x = y" if "x \<in> A" "y \<in> A" "then_with (f x y) (g x y) = Equal" for x y
    using that by (auto intro: assms(3))
qed

lemma linear_imp_comparator: "linear_comparator_on f A \<Longrightarrow> comparator_on f A"
  by (simp add: linear_comparator_on_def)

lemma compare_ranked_linear:
  assumes "\<And>r. linear_comparator_on cmp {x \<in> A. rank x = r}"
  shows "linear_comparator_on (compare_ranked rank cmp) A"
proof (rule linear_comparatorI)
  note lin = assms and pre = assms[unfolded linear_comparator_on_def, THEN conjunct1]
  show "compare_ranked rank cmp y x = reverse (compare_ranked rank cmp x y)" if "x \<in> A" "y \<in> A" for x y
    using that comparator_on.cmp_swap[OF pre[of "rank x"], of x y]
    by (auto simp: compare_ranked_def reverse_cmp_of[of "rank x" "rank y"])
  show "compare_ranked rank cmp x z \<noteq> Greater"
    if "x \<in> A" "y \<in> A" "z \<in> A" "compare_ranked rank cmp x y \<noteq> Greater" "compare_ranked rank cmp y z \<noteq> Greater" for x y z
    using that comparator_on.cmp_trans[OF pre[of "rank x"], of x y z]
    by (auto simp: compare_ranked_def cmp_simps split: if_splits)
  show "x = y" if "x \<in> A" "y \<in> A" "compare_ranked rank cmp x y = Equal" for x y
    using that linear_comparator_on.cmp_eq[OF lin[of "rank x"], of x y]
    by (auto simp: compare_ranked_def cmp_simps split: if_splits)
qed

end
