(* ===== verification/Text.thy ===== *)
theory Text
  imports Prelude
begin

text \<open>
  What the source uses of \<open>str\<close>: text is its UTF-8 bytes, and a \<open>char\<close> of the source is the
  run of bytes that encodes it.  Comparisons, lengths and searches for an ASCII character work
  on the bytes, as Rust's do; the Unicode classes the source asks about (\<open>char::is_whitespace\<close>,
  \<open>char::is_control\<close>) are the byte sequences that encode their members.
\<close>

section \<open>Characters\<close>

definition utf8_width :: "char \<Rightarrow> nat" where
  "utf8_width c = (let b = (of_char c :: nat) in
     if b < 0x80 then 1 else if b < 0xE0 then 2 else if b < 0xF0 then 3 else 4)"

lemma utf8_width_pos [simp]: "0 < utf8_width c"
  by (simp add: utf8_width_def Let_def)

text \<open>\<open>str::chars\<close>, each character as the bytes that encode it.\<close>

function chars_of :: "str \<Rightarrow> str list" where
  "chars_of [] = []"
| "chars_of (c # cs) = take (utf8_width c) (c # cs) # chars_of (drop (utf8_width c) (c # cs))"
  by pat_completeness auto
termination
  by (relation "measure length") auto

declare chars_of.simps(2) [simp del]

lemma concat_chars_of [simp]: "concat (chars_of s) = s"
proof (induction s rule: chars_of.induct)
  case (2 c cs)
  have "concat (chars_of (c # cs))
      = take (utf8_width c) (c # cs) @ concat (chars_of (drop (utf8_width c) (c # cs)))"
    by (simp only: chars_of.simps(2) concat.simps)
  also have "\<dots> = take (utf8_width c) (c # cs) @ drop (utf8_width c) (c # cs)"
    by (simp only: 2)
  finally show ?case by (simp only: append_take_drop_id)
qed simp

lemma Nil_notin_chars_of: "c \<in> set (chars_of s) \<Longrightarrow> c \<noteq> []"
proof (induction s rule: chars_of.induct)
  case (2 x cs)
  have "utf8_width x \<noteq> 0" using utf8_width_pos[of x] by linarith
  then have ne: "take (utf8_width x) (x # cs) \<noteq> []" by (simp only: take_eq_Nil) simp
  from "2.prems" have "c = take (utf8_width x) (x # cs)
      \<or> c \<in> set (chars_of (drop (utf8_width x) (x # cs)))"
    by (simp only: chars_of.simps(2) list.set insert_iff)
  then show ?case
  proof
    assume "c = take (utf8_width x) (x # cs)"
    with ne show ?thesis by (simp only: not_False_eq_True)
  qed (rule "2.IH")
qed simp

definition is_ascii_lowercase :: "char \<Rightarrow> bool" where
  "is_ascii_lowercase c = (of_char c \<in> {97..122::nat})"

definition is_ascii_uppercase :: "char \<Rightarrow> bool" where
  "is_ascii_uppercase c = (of_char c \<in> {65..90::nat})"

definition is_ascii_digit :: "char \<Rightarrow> bool" where
  "is_ascii_digit c = (of_char c \<in> {48..57::nat})"

definition is_ascii_alphabetic :: "char \<Rightarrow> bool" where
  "is_ascii_alphabetic c = (is_ascii_lowercase c \<or> is_ascii_uppercase c)"

definition is_ascii_alphanumeric :: "char \<Rightarrow> bool" where
  "is_ascii_alphanumeric c = (is_ascii_alphabetic c \<or> is_ascii_digit c)"

lemmas ascii_class_defs = is_ascii_lowercase_def is_ascii_uppercase_def is_ascii_digit_def
  is_ascii_alphabetic_def is_ascii_alphanumeric_def

text \<open>Unicode \<open>White_Space\<close>, as encoded.\<close>

definition is_whitespace :: "str \<Rightarrow> bool" where
  "is_whitespace ch = (case map of_char ch of
      [b] \<Rightarrow> (b::nat) \<in> {9..13} \<or> b = 32
    | [b1, b2] \<Rightarrow> b1 = 0xC2 \<and> b2 \<in> {0x85, 0xA0}
    | [b1, b2, b3] \<Rightarrow>
        b1 = 0xE1 \<and> b2 = 0x9A \<and> b3 = 0x80
        \<or> b1 = 0xE2 \<and> b2 = 0x80 \<and> (b3 \<in> {0x80..0x8A} \<or> b3 \<in> {0xA8, 0xA9, 0xAF})
        \<or> b1 = 0xE2 \<and> b2 = 0x81 \<and> b3 = 0x9F
        \<or> b1 = 0xE3 \<and> b2 = 0x80 \<and> b3 = 0x80
    | _ \<Rightarrow> False)"

text \<open>Unicode category \<open>Cc\<close>: the C0 and C1 controls and DEL.\<close>

definition is_control :: "str \<Rightarrow> bool" where
  "is_control ch = (case map of_char ch of
      [b] \<Rightarrow> (b::nat) < 32 \<or> b = 127
    | [b1, b2] \<Rightarrow> b1 = 0xC2 \<and> b2 \<in> {0x80..0x9F}
    | _ \<Rightarrow> False)"

section \<open>Trimming, prefixes, splitting\<close>

definition trim_start :: "str \<Rightarrow> str" where
  "trim_start s = concat (dropWhile is_whitespace (chars_of s))"

definition trim_end :: "str \<Rightarrow> str" where
  "trim_end s = concat (rev (dropWhile is_whitespace (rev (chars_of s))))"

definition trim :: "str \<Rightarrow> str" where
  "trim s = trim_start (trim_end s)"

definition trim_end_matches :: "char \<Rightarrow> str \<Rightarrow> str" where
  "trim_end_matches c s = rev (dropWhile ((=) c) (rev s))"

definition starts_with :: "str \<Rightarrow> str \<Rightarrow> bool" where
  "starts_with p s = (take (length p) s = p)"

definition strip_prefix :: "str \<Rightarrow> str \<Rightarrow> str option" where
  "strip_prefix p s = (if starts_with p s then Some (drop (length p) s) else None)"

lemma starts_with_iff: "starts_with p s \<longleftrightarrow> (\<exists>r. s = p @ r)"
  unfolding starts_with_def by (metis append_eq_conv_conj append_take_drop_id)

lemma strip_prefix_Some_iff: "strip_prefix p s = Some r \<longleftrightarrow> s = p @ r"
  unfolding strip_prefix_def starts_with_def
  by (metis append_eq_conv_conj append_take_drop_id option.inject option.distinct(1))

lemma strip_prefix_append [simp]: "strip_prefix p (p @ r) = Some r"
  by (simp add: strip_prefix_Some_iff)

text \<open>\<open>str::split\<close> on one ASCII character: always at least one piece.\<close>

fun split_on :: "char \<Rightarrow> str \<Rightarrow> str list" where
  "split_on c [] = [[]]"
| "split_on c (x # xs) = (if x = c then [] # split_on c xs
     else (case split_on c xs of p # ps \<Rightarrow> (x # p) # ps | [] \<Rightarrow> [[x]]))"

lemma split_on_nonempty [simp]: "split_on c s \<noteq> []"
  by (cases s) (auto split: list.splits)

lemma split_on_no_sep: "p \<in> set (split_on c s) \<Longrightarrow> c \<notin> set p"
  by (induction s arbitrary: p) (auto split: if_splits list.splits)

lemma split_on_fresh: "c \<notin> set s \<Longrightarrow> split_on c s = [s]"
  by (induction s) auto

lemma split_on_append: "c \<notin> set s \<Longrightarrow> split_on c (s @ c # t) = s # split_on c t"
  by (induction s) auto

lemma trim_end_matches_append: "\<exists>n. s = trim_end_matches c s @ replicate n c"
proof -
  have "\<forall>x \<in> set (takeWhile ((=) c) (rev s)). x = c" by (auto dest: set_takeWhileD)
  then obtain n where n: "takeWhile ((=) c) (rev s) = replicate n c"
    by (metis replicate_length_same)
  have "s = rev (takeWhile ((=) c) (rev s) @ dropWhile ((=) c) (rev s))" by simp
  then have "s = trim_end_matches c s @ replicate n c"
    by (simp only: n trim_end_matches_def rev_append rev_replicate)
  then show ?thesis by blast
qed

lemma trim_end_matches_last: "trim_end_matches c s = [] \<or> last (trim_end_matches c s) \<noteq> c"
proof (cases "dropWhile ((=) c) (rev s)")
  case Nil
  then show ?thesis by (simp add: trim_end_matches_def)
next
  case (Cons x xs)
  then have "x \<noteq> c" by (metis hd_dropWhile list.sel(1) list.distinct(1))
  with Cons show ?thesis by (simp add: trim_end_matches_def)
qed

lemma trim_end_matches_id: "s = [] \<or> last s \<noteq> c \<Longrightarrow> trim_end_matches c s = s"
  by (cases s rule: rev_cases) (auto simp: trim_end_matches_def)

section \<open>Numbers as text\<close>

definition digit :: "nat \<Rightarrow> char" where
  "digit n = char_of (if n < 10 then 48 + n else 87 + n)"

fun positional :: "nat \<Rightarrow> nat \<Rightarrow> str" where
  "positional b n = (if b < 2 \<or> n < b then [digit n] else positional b (n div b) @ [digit (n mod b)])"

declare positional.simps [simp del]

definition show_nat :: "nat \<Rightarrow> str" where
  "show_nat n = positional 10 n"

definition show_int :: "int \<Rightarrow> str" where
  "show_int i = (if i < 0 then CHR ''-'' # show_nat (nat (- i)) else show_nat (nat i))"

text \<open>\<open>{:0w}\<close>: padded with zeroes on the left to a width, never cut.\<close>

definition zero_padded :: "nat \<Rightarrow> str \<Rightarrow> str" where
  "zero_padded w s = replicate (w - length s) (CHR ''0'') @ s"

definition hex_of_bytes :: "str \<Rightarrow> str" where
  "hex_of_bytes bs = concat (map (\<lambda>b. zero_padded 2 (positional 16 (of_char b))) bs)"

text \<open>The digits of a number in a base, read back: printing in a base loses nothing.\<close>

definition digit_value :: "char \<Rightarrow> nat" where
  "digit_value c = (if of_char c < (87::nat) then of_char c - 48 else of_char c - 87)"

definition number_of :: "nat \<Rightarrow> str \<Rightarrow> nat" where
  "number_of b s = foldl (\<lambda>n c. b * n + digit_value c) 0 s"

lemma digit_value_digit [simp]: "n < 16 \<Longrightarrow> digit_value (digit n) = n"
  by (simp add: digit_value_def digit_def)

lemma number_of_positional: "2 \<le> b \<Longrightarrow> b \<le> 16 \<Longrightarrow> number_of b (positional b n) = n"
proof (induction b n rule: positional.induct)
  case (1 b n)
  show ?case
  proof (cases "n < b")
    case True
    with 1 show ?thesis by (simp add: positional.simps[of b n] number_of_def)
  next
    case False
    with 1 have IH: "number_of b (positional b (n div b)) = n div b" by simp
    have "n mod b < b" using "1.prems" by simp
    with "1.prems" have "n mod b < 16" by linarith
    with False IH "1.prems" show ?thesis
      by (simp add: positional.simps[of b n] number_of_def)
  qed
qed

lemma number_of_zero_padded: "number_of b (zero_padded w s) = number_of b s"
proof -
  have "foldl (\<lambda>n c. b * n + digit_value c) 0 (replicate k (CHR ''0'')) = 0" for k
    by (induction k) (auto simp: digit_value_def)
  then show ?thesis by (simp add: number_of_def zero_padded_def)
qed

lemma positional_inj: "2 \<le> b \<Longrightarrow> b \<le> 16 \<Longrightarrow> positional b m = positional b n \<Longrightarrow> m = n"
  by (metis number_of_positional)

lemma positional_digits:
  "2 \<le> b \<Longrightarrow> b \<le> 16 \<Longrightarrow> c \<in> set (positional b n) \<Longrightarrow> \<exists>k < b. c = digit k"
proof (induction b n rule: positional.induct)
  case (1 b n)
  show ?case
  proof (cases "n < b")
    case True
    with 1 show ?thesis by (auto simp: positional.simps[of b n])
  next
    case False
    with "1.prems" have "c \<in> set (positional b (n div b)) \<or> c = digit (n mod b)"
      by (auto simp: positional.simps[of b n])
    moreover have "\<exists>k < b. digit (n mod b) = digit k"
      by (rule exI[of _ "n mod b"]) (use "1.prems" in simp)
    ultimately show ?thesis using 1 False by auto
  qed
qed

lemma positional_nonempty [simp]: "positional b n \<noteq> []"
  by (subst positional.simps) simp

lemma of_char_digit: "n < 16 \<Longrightarrow> of_char (digit n) = (if n < 10 then 48 + n else 87 + n)"
  by (simp add: digit_def)

lemma show_int_inj: "show_int i = show_int j \<Longrightarrow> i = j"
proof -
  assume eq: "show_int i = show_int j"
  have no_sign: "hd (show_nat n) \<noteq> CHR ''-''" for n
  proof -
    have "hd (show_nat n) \<in> set (positional 10 n)" by (simp add: show_nat_def)
    then obtain k where k: "k < 10" "hd (show_nat n) = digit k"
      using positional_digits[of 10 "hd (show_nat n)" n] by auto
    then have "of_char (hd (show_nat n)) = 48 + k" by (simp add: of_char_digit)
    then show ?thesis by auto
  qed
  have inj: "m = n" if "show_nat m = show_nat n" for m n
    using that positional_inj[of 10 m n] by (simp add: show_nat_def)
  show "i = j"
    using eq no_sign inj by (cases "i < 0"; cases "j < 0") (auto simp: show_int_def dest: inj, (metis list.sel(1))+)
qed

lemma length_positional: "2 \<le> b \<Longrightarrow> n < b ^ k \<Longrightarrow> 0 < k \<Longrightarrow> length (positional b n) \<le> k"
proof (induction b n arbitrary: k rule: positional.induct)
  case (1 b n)
  show ?case
  proof (cases "n < b")
    case True
    with 1 show ?thesis by (simp add: positional.simps[of b n])
  next
    case False
    with "1.prems" obtain j where k: "k = Suc j" "0 < j"
      by (cases k; cases "k - 1") auto
    have "n div b < b ^ j" using "1.prems" k by (simp add: less_mult_imp_div_less mult.commute)
    with 1 False k have "length (positional b (n div b)) \<le> j" by simp
    with False k "1.prems" show ?thesis by (simp add: positional.simps[of b n])
  qed
qed

lemma length_zero_padded: "length s \<le> w \<Longrightarrow> length (zero_padded w s) = w"
  by (simp add: zero_padded_def)

section \<open>Numbers as bytes\<close>

text \<open>\<open>u64::to_be_bytes\<close> and \<open>i64::to_be_bytes\<close>: eight bytes, the most significant first.\<close>

definition to_be_bytes :: "64 word \<Rightarrow> str" where
  "to_be_bytes w = map (\<lambda>i. char_of (drop_bit (8 * i) (uint w))) [7, 6, 5, 4, 3, 2, 1, 0]"

lemma length_to_be_bytes [simp]: "length (to_be_bytes w) = 8"
  by (simp add: to_be_bytes_def)

lemma to_be_bytes_inj: "to_be_bytes v = to_be_bytes w \<Longrightarrow> v = w"
proof -
  assume eq: "to_be_bytes v = to_be_bytes w"
  have byte: "take_bit 8 (drop_bit (8 * i) (uint v)) = take_bit 8 (drop_bit (8 * i) (uint w))"
    if "i < 8" for i
  proof -
    from that have "i \<in> set [7, 6, 5, 4, 3, 2, 1, 0]" by auto
    with eq have "char_of (drop_bit (8 * i) (uint v)) = (char_of (drop_bit (8 * i) (uint w)) :: char)"
      unfolding to_be_bytes_def map_eq_conv by blast
    then have "of_char (char_of (drop_bit (8 * i) (uint v)) :: char)
        = (of_char (char_of (drop_bit (8 * i) (uint w)) :: char) :: int)" by simp
    then show ?thesis by (simp add: take_bit_eq_mod)
  qed
  show "v = w"
  proof (rule bit_word_eqI)
    fix n assume n: "n < LENGTH(64)"
    define i where "i = n div 8"
    have i: "i < 8" "n = 8 * i + n mod 8" using n by (auto simp: i_def)
    have "bit (take_bit 8 (drop_bit (8 * i) (uint v))) (n mod 8)
        = bit (take_bit 8 (drop_bit (8 * i) (uint w))) (n mod 8)" using byte[OF i(1)] by simp
    then have "bit (uint v) (8 * i + n mod 8) = bit (uint w) (8 * i + n mod 8)"
      by (simp add: bit_simps)
    with i(2) n show "bit v n = bit w n" by (simp add: bit_uint_iff)
  qed
qed

section \<open>UTF-8\<close>

text \<open>
  The byte sequences \<open>str::from_utf8\<close> accepts: every encoding the shortest one, no surrogates,
  nothing above \<open>U+10FFFF\<close>.
\<close>

definition continuation :: "char \<Rightarrow> bool" where
  "continuation c \<longleftrightarrow> (let n = of_char c :: nat in 128 \<le> n \<and> n < 192)"

definition between :: "nat \<Rightarrow> nat \<Rightarrow> char \<Rightarrow> bool" where
  "between lo hi c \<longleftrightarrow> (let n = of_char c :: nat in lo \<le> n \<and> n \<le> hi)"

fun valid_utf8 :: "str \<Rightarrow> bool" where
  "valid_utf8 [] = True"
| "valid_utf8 (a # rest) =
     (if between 0 127 a then valid_utf8 rest
      else case rest of
        [] \<Rightarrow> False
      | b # rest \<Rightarrow>
          if between 194 223 a then continuation b \<and> valid_utf8 rest
          else case rest of
            [] \<Rightarrow> False
          | c # rest \<Rightarrow>
              if between 224 239 a
              then (if between 224 224 a then between 160 191 b
                    else if between 237 237 a then between 128 159 b else continuation b)
                \<and> continuation c \<and> valid_utf8 rest
              else case rest of
                [] \<Rightarrow> False
              | d # rest \<Rightarrow>
                  between 240 244 a
                  \<and> (if between 240 240 a then between 144 191 b
                     else if between 244 244 a then between 128 143 b else continuation b)
                  \<and> continuation c \<and> continuation d \<and> valid_utf8 rest)"

declare valid_utf8.simps(2) [simp del]

lemma valid_utf8_ascii: "(\<And>c. c \<in> set s \<Longrightarrow> between 0 127 c) \<Longrightarrow> valid_utf8 s"
  by (induction s) (auto simp: valid_utf8.simps)

section \<open>Sorted and deduplicated\<close>

text \<open>\<open>Vec::dedup\<close>: of equal neighbours the first.\<close>

fun dedup :: "'a list \<Rightarrow> 'a list" where
  "dedup (x # y # xs) = (if x = y then dedup (x # xs) else x # dedup (y # xs))"
| "dedup xs = xs"

lemma set_dedup [simp]: "set (dedup xs) = set xs"
  by (induction xs rule: dedup.induct) auto

lemma sorted_dedup: "sorted xs \<Longrightarrow> sorted_wrt (<) (dedup xs)"
proof (induction xs rule: dedup.induct)
  case (1 x y xs)
  then show ?case by (cases "x = y") (auto simp: order_le_less)
qed simp_all

lemma sorted_sort_by_cmp_of: "sorted (sort_by cmp_of xs)"
  using cmp_of.sorted_sort_by[of xs] by (simp add: cmp_simps not_less)

definition sorted_set :: "str list \<Rightarrow> str list" where
  "sorted_set xs = dedup (sort_by cmp_of xs)"

lemma sorted_set_props: "set (sorted_set xs) = set xs" "sorted_wrt (<) (sorted_set xs)"
  by (simp_all add: sorted_set_def sorted_dedup sorted_sort_by_cmp_of)

lemma sorted_set_unique: "set xs = set ys \<Longrightarrow> sorted_set xs = sorted_set ys"
  using sorted_set_props[of xs] sorted_set_props[of ys]
  by (intro strict_sorted_equal) simp_all

end
