(* ===== verification/Annotations.thy ===== *)
theory Annotations
  imports Text "HOL-Library.Product_Lexorder"
begin

text \<open>
  The leaves of an observation and everything that is said about one: scalars
  (\<open>observation/scalar.rs\<close>), the four judgements a collector attaches
  (\<open>observation/annotation.rs\<close>), the two axes a document is presented on (\<open>view.rs\<close>,
  \<open>presentation.rs\<close>), and the digest that stands in for a withheld value (\<open>digest.rs\<close>,
  \<open>observation/redaction.rs\<close>).  SHA-256 and XXH3-64 are the crates \<open>sha2\<close> and \<open>xxhash_rust\<close>;
  they are the fields of the parameter \<open>hashes\<close>.
\<close>

section \<open>Scalars\<close>

datatype scalar = Null | Boolean bool | Integer i64 | Text str

fun scalar_rank :: "scalar \<Rightarrow> nat" where
  "scalar_rank Null = 0"
| "scalar_rank (Boolean _) = 1"
| "scalar_rank (Integer _) = 2"
| "scalar_rank (Text _) = 3"

fun compare_scalars :: "scalar \<Rightarrow> scalar \<Rightarrow> comparison" where
  "compare_scalars (Boolean a) (Boolean b) = cmp_of a b"
| "compare_scalars (Integer a) (Integer b) = cmp_of (sint a) (sint b)"
| "compare_scalars (Text a) (Text b) = cmp_of a b"
| "compare_scalars a b = cmp_of (scalar_rank a) (scalar_rank b)"

interpretation scalars: linear_comparator_on compare_scalars UNIV
proof
  fix x y z :: scalar
  show "compare_scalars y x = reverse (compare_scalars x y)"
    by (cases x; cases y) (simp_all, (metis reverse_cmp_of)+)
  show "compare_scalars x y \<noteq> Greater \<Longrightarrow> compare_scalars y z \<noteq> Greater \<Longrightarrow> compare_scalars x z \<noteq> Greater"
    by (cases x; cases y; cases z) (auto simp: cmp_simps cmp_of_def split: if_splits)
  show "compare_scalars x y = Equal \<Longrightarrow> x = y"
    by (cases x; cases y) (auto simp: cmp_simps dest: signed_word_eqI)
qed

section \<open>Judgements\<close>

datatype volatility = Stable | Volatile
datatype sensitivity = Public | Sensitive
datatype completeness = Whole | Incomplete
datatype fidelity = Exact | Approximate

text \<open>
  \<open>derive(PartialOrd, Ord)\<close> on a fieldless enum: the order of the declaration, the default
  first.
\<close>

instantiation volatility :: linorder
begin
definition less_eq_volatility :: "volatility \<Rightarrow> volatility \<Rightarrow> bool" where
  "a \<le> b = (a = Stable \<or> b = Volatile)"
definition less_volatility :: "volatility \<Rightarrow> volatility \<Rightarrow> bool" where
  "a < b = (a = Stable \<and> b = Volatile)"
instance
  by standard (auto simp: less_eq_volatility_def less_volatility_def intro: volatility.exhaust)
end

instantiation sensitivity :: linorder
begin
definition less_eq_sensitivity :: "sensitivity \<Rightarrow> sensitivity \<Rightarrow> bool" where
  "a \<le> b = (a = Public \<or> b = Sensitive)"
definition less_sensitivity :: "sensitivity \<Rightarrow> sensitivity \<Rightarrow> bool" where
  "a < b = (a = Public \<and> b = Sensitive)"
instance
  by standard (auto simp: less_eq_sensitivity_def less_sensitivity_def intro: sensitivity.exhaust)
end

instantiation completeness :: linorder
begin
definition less_eq_completeness :: "completeness \<Rightarrow> completeness \<Rightarrow> bool" where
  "a \<le> b = (a = Whole \<or> b = Incomplete)"
definition less_completeness :: "completeness \<Rightarrow> completeness \<Rightarrow> bool" where
  "a < b = (a = Whole \<and> b = Incomplete)"
instance
  by standard (auto simp: less_eq_completeness_def less_completeness_def intro: completeness.exhaust)
end

instantiation fidelity :: linorder
begin
definition less_eq_fidelity :: "fidelity \<Rightarrow> fidelity \<Rightarrow> bool" where
  "a \<le> b = (a = Exact \<or> b = Approximate)"
definition less_fidelity :: "fidelity \<Rightarrow> fidelity \<Rightarrow> bool" where
  "a < b = (a = Exact \<and> b = Approximate)"
instance
  by standard (auto simp: less_eq_fidelity_def less_fidelity_def intro: fidelity.exhaust)
end

section \<open>What a document shows\<close>

datatype view = Complete | Diffable
datatype disclosure = Redacted | Raw

record presentation =
  view :: view
  disclosure :: disclosure

definition presentation_from :: "view \<Rightarrow> presentation" where
  "presentation_from v = \<lparr>view = v, disclosure = Redacted\<rparr>"

definition diffable :: presentation where
  "diffable = presentation_from Diffable"

definition complete :: presentation where
  "complete = presentation_from Complete"

definition raw :: "presentation \<Rightarrow> presentation" where
  "raw p = p\<lparr>disclosure := Raw\<rparr>"

lemma presentation_simps [simp]:
  "view diffable = Diffable" "disclosure diffable = Redacted"
  "view complete = Complete" "disclosure complete = Redacted"
  "view (raw p) = view p" "disclosure (raw p) = Raw"
  "view (presentation_from v) = v" "disclosure (presentation_from v) = Redacted"
  by (simp_all add: diffable_def complete_def raw_def presentation_from_def)

section \<open>Digests and redaction\<close>

record hashes =
  sha256 :: "str \<Rightarrow> str"
  xxh3_64 :: "str \<Rightarrow> u64"

datatype xxh3_digest = Xxh3Digest u64

definition digest_of :: "hashes \<Rightarrow> str \<Rightarrow> xxh3_digest" where
  "digest_of H material = Xxh3Digest (xxh3_64 H material)"

fun digest_text :: "xxh3_digest \<Rightarrow> str" where
  "digest_text (Xxh3Digest d) = zero_padded 16 (positional 16 (unat d))"

lemma length_digest_text: "length (digest_text d) = 16"
proof (cases d)
  case (Xxh3Digest w)
  have "unat w < 16 ^ 16" using unsigned_less[of w, where ?'a = nat] by simp
  with Xxh3Digest show ?thesis by (simp add: length_zero_padded length_positional)
qed

lemma digest_text_inj: "digest_text d = digest_text e \<Longrightarrow> d = e"
proof (cases d; cases e)
  fix v w assume eq: "digest_text d = digest_text e" "d = Xxh3Digest v" "e = Xxh3Digest w"
  then have "number_of 16 (positional 16 (unat v)) = number_of 16 (positional 16 (unat w))"
    by (metis digest_text.simps number_of_zero_padded)
  then have "unat v = unat w" by (simp add: number_of_positional)
  with eq show "d = e" by (simp add: unsigned_word_eqI)
qed

definition redaction_prefix :: str where
  "redaction_prefix = ''redacted:sha256+xxh3:''"

fun material_of :: "scalar \<Rightarrow> str option" where
  "material_of Null = None"
| "material_of (Boolean b) = Some (''boolean:'' @ (if b then ''true'' else ''false''))"
| "material_of (Integer i) = Some (''integer:'' @ show_int (sint i))"
| "material_of (Text t) = Some t"

definition redacted :: "hashes \<Rightarrow> scalar \<Rightarrow> str option" where
  "redacted H s = (case material_of s of
      None \<Rightarrow> None
    | Some material \<Rightarrow>
        (let hex = hex_of_bytes (sha256 H material)
         in Some (redaction_prefix @ digest_text (digest_of H hex))))"

text \<open>The scalar a presentation shows: the value, or the digest standing in for it.\<close>

definition shown :: "hashes \<Rightarrow> scalar \<Rightarrow> bool \<Rightarrow> scalar" where
  "shown H s withheld = (case (if withheld then redacted H s else None) of
      Some stand_in \<Rightarrow> Text stand_in
    | None \<Rightarrow> s)"

lemma redacted_None_iff [simp]: "redacted H s = None \<longleftrightarrow> s = Null"
  by (cases s) (auto simp: redacted_def Let_def)

lemma shown_open [simp]: "shown H s False = s"
  by (simp add: shown_def)

text \<open>
  A withheld value is shown as one fixed-width stand-in whose only dependence on the value is the
  digest, and a null withholds nothing.
\<close>

lemma shown_withheld:
  "shown H s True = Null \<and> s = Null \<or>
   (\<exists>d. shown H s True = Text (redaction_prefix @ digest_text d) \<and> s \<noteq> Null)"
  by (cases s) (auto simp: shown_def redacted_def Let_def)

lemma shown_withheld_length:
  "s \<noteq> Null \<Longrightarrow> shown H s True = Text t \<Longrightarrow> length t = 37"
  by (cases s) (auto simp: shown_def redacted_def Let_def redaction_prefix_def length_digest_text)

text \<open>
  Material is shared by two scalars only where one is a text spelling the other's tag: the
  residue the comment of \<open>material_of\<close> documents.
\<close>

lemma material_of_inj:
  assumes "material_of s = material_of s'" and "\<forall>t. s \<noteq> Text t" and "\<forall>t. s' \<noteq> Text t"
  shows "s = s'"
  using assms by (cases s; cases s') (auto split: if_splits dest!: show_int_inj signed_word_eqI)

end
