(* ===== verification/BTree.thy ===== *)
theory BTree
  imports Prelude
begin

text \<open>
  \<open>BTreeMap\<close>, which is where every open shape of the document gets its fixed order: an
  association list with strictly increasing keys.  The locale \<open>ordered_map\<close> is what the
  clients rely on, and its lemmas are what they use.
\<close>

type_synonym ('k, 'v) btree = "('k \<times> 'v) list"

fun btree_insert :: "'k::linorder \<Rightarrow> 'v \<Rightarrow> ('k, 'v) btree \<Rightarrow> ('k, 'v) btree" where
  "btree_insert k v [] = [(k, v)]"
| "btree_insert k v ((k', v') # m) =
     (if k < k' then (k, v) # (k', v') # m
      else if k = k' then (k, v) # m
      else (k', v') # btree_insert k v m)"

definition btree_get :: "'k \<Rightarrow> ('k, 'v) btree \<Rightarrow> 'v option" where
  "btree_get k m = map_of m k"

definition btree_sorted :: "('k::linorder, 'v) btree \<Rightarrow> bool" where
  "btree_sorted m = sorted_wrt (<) (map fst m)"

definition btree_collect :: "('k::linorder \<times> 'v) list \<Rightarrow> ('k, 'v) btree" where
  "btree_collect kvs = foldl (\<lambda>m (k, v). btree_insert k v m) [] kvs"

section \<open>The interface\<close>

locale ordered_map =
  fixes empty :: "'m"
    and insert :: "'k::linorder \<Rightarrow> 'v \<Rightarrow> 'm \<Rightarrow> 'm"
    and get :: "'k \<Rightarrow> 'm \<Rightarrow> 'v option"
    and entries :: "'m \<Rightarrow> ('k \<times> 'v) list"
    and invar :: "'m \<Rightarrow> bool"
  assumes invar_empty: "invar empty"
    and invar_insert: "invar m \<Longrightarrow> invar (insert k v m)"
    and get_empty: "get k empty = None"
    and get_insert: "invar m \<Longrightarrow> get k' (insert k v m) = (if k' = k then Some v else get k' m)"
    and entries_sorted: "invar m \<Longrightarrow> sorted_wrt (<) (map fst (entries m))"
    and entries_get: "invar m \<Longrightarrow> (k, v) \<in> set (entries m) \<longleftrightarrow> get k m = Some v"
    and entries_inj: "invar m \<Longrightarrow> invar m' \<Longrightarrow> entries m = entries m' \<Longrightarrow> m = m'"
begin

definition collect :: "('k \<times> 'v) list \<Rightarrow> 'm" where
  "collect kvs = foldl (\<lambda>m (k, v). insert k v m) empty kvs"

lemma collect_snoc: "collect (kvs @ [(k, v)]) = insert k v (collect kvs)"
  by (simp add: collect_def)

lemma invar_collect: "invar (collect kvs)"
  by (induction kvs rule: rev_induct) (auto simp: collect_def invar_empty invar_insert)

text \<open>Of two equal keys the last one offered is kept.\<close>

lemma get_collect: "get k (collect kvs) = map_of (rev kvs) k"
proof (induction kvs rule: rev_induct)
  case Nil
  show ?case by (simp add: collect_def get_empty)
next
  case (snoc kv kvs)
  then show ?case by (cases kv) (simp add: collect_snoc get_insert invar_collect)
qed

text \<open>Two maps that answer alike are the same map: nothing of how they were built is left.\<close>

lemma map_ext:
  assumes "invar m" "invar m'" "\<And>k. get k m = get k m'"
  shows "m = m'"
proof -
  have set: "set (entries m) = set (entries m')"
    using assms by (auto simp: entries_get)
  have "distinct (map fst (entries m))" using entries_sorted[OF assms(1)]
    by (simp add: strict_sorted_iff)
  then have "inj_on fst (set (entries m) \<union> set (entries m'))" using set by (simp add: distinct_map)
  then have "entries m = entries m'"
    using entries_sorted[OF assms(1)] entries_sorted[OF assms(2)] set
    by (intro map_sorted_distinct_set_unique) (auto simp: strict_sorted_iff)
  with assms show ?thesis by (blast intro: entries_inj)
qed

lemma collect_perm:
  assumes "mset kvs = mset kvs'" "distinct (map fst kvs)"
  shows "collect kvs = collect kvs'"
proof (rule map_ext[OF invar_collect invar_collect])
  fix k
  have "set kvs = set kvs'" using assms(1) by (metis set_mset_mset)
  moreover have "distinct (map fst kvs')"
    using assms by (metis mset_map mset_eq_imp_distinct_iff)
  ultimately have "map_of (rev kvs) = map_of (rev kvs')"
    using assms(2) by (intro map_of_inject_set[THEN iffD2]) (simp_all add: rev_map[symmetric])
  then show "get k (collect kvs) = get k (collect kvs')" by (simp add: get_collect)
qed

end

section \<open>The association list provides it\<close>

lemma set_btree_insert: "set (map fst (btree_insert k v m)) = insert k (set (map fst m))"
proof (induction m)
  case (Cons kv m)
  obtain k' v' where "kv = (k', v')" by (cases kv)
  with Cons show ?case by (simp add: insert_commute)
qed simp

lemma btree_sorted_Nil [simp]: "btree_sorted []"
  by (simp add: btree_sorted_def)

lemma btree_sorted_insert [wf_intros]: "btree_sorted m \<Longrightarrow> btree_sorted (btree_insert k v m)"
proof (induction m)
  case Nil
  then show ?case by (simp add: btree_sorted_def)
next
  case (Cons kv m)
  obtain k' v' where kv: "kv = (k', v')" by (cases kv)
  have sub: "btree_sorted m" "\<forall>x \<in> set (map fst m). k' < x"
    using Cons.prems kv by (auto simp: btree_sorted_def)
  have "btree_sorted ((k', v') # btree_insert k v m)" if "k' < k"
    using Cons.IH[OF sub(1)] sub(2) that set_btree_insert[of k v m] by (auto simp: btree_sorted_def)
  with Cons.prems kv sub show ?case by (auto simp: btree_sorted_def)
qed

lemma btree_get_insert:
  "btree_sorted m \<Longrightarrow> btree_get k' (btree_insert k v m) = (if k' = k then Some v else btree_get k' m)"
  by (induction m) (auto simp: btree_get_def btree_sorted_def split: if_splits)

interpretation btree: ordered_map "[]" btree_insert btree_get id btree_sorted
  rewrites "id m = m" and "ordered_map.collect [] btree_insert = btree_collect"
proof -
  show om: "ordered_map [] btree_insert btree_get id btree_sorted"
  proof (unfold_locales, goal_cases)
    case (5 m)
    then show ?case by (simp add: btree_sorted_def)
  next
    case (6 m k v)
    then have "distinct (map fst m)" by (simp add: btree_sorted_def strict_sorted_iff)
    then show ?case by (auto simp: btree_get_def)
  qed (simp_all add: btree_get_insert wf_intros, simp add: btree_get_def)
  show "ordered_map.collect [] btree_insert = btree_collect"
    by (rule ext) (simp add: ordered_map.collect_def[OF om] btree_collect_def)
qed simp

lemma btree_insert_above: "\<forall>k' \<in> set (map fst m). k' < k \<Longrightarrow> btree_insert k v m = m @ [(k, v)]"
proof (induction m)
  case (Cons kv m)
  obtain k' v' where "kv = (k', v')" by (cases kv)
  moreover from this Cons.prems have "\<not> k < k'" "k \<noteq> k'" by auto
  ultimately show ?case using Cons by simp
qed simp

text \<open>A sorted list collects to itself.\<close>

lemma btree_collect_sorted: "btree_sorted m \<Longrightarrow> btree_collect m = m"
proof (induction m rule: rev_induct)
  case Nil
  then show ?case by (simp add: btree_collect_def)
next
  case (snoc kv m)
  obtain k v where kv: "kv = (k, v)" by (cases kv)
  from snoc.prems kv have "btree_sorted m" "\<forall>k' \<in> set (map fst m). k' < k"
    by (auto simp: btree_sorted_def sorted_wrt_append)
  with snoc.IH kv show ?case by (simp add: btree.collect_snoc btree_insert_above)
qed

lemma set_btree_collect: "set (map fst (btree_collect kvs)) = set (map fst kvs)"
proof -
  have "k \<in> set (map fst (btree_collect kvs)) \<longleftrightarrow> btree_get k (btree_collect kvs) \<noteq> None" for k
    by (simp add: btree_get_def map_of_eq_None_iff)
  then show ?thesis by (auto simp: btree.get_collect map_of_eq_None_iff image_iff)
qed

lemma btree_collect_subset: "set (btree_collect kvs) \<subseteq> set kvs"
proof
  fix kv assume "kv \<in> set (btree_collect kvs)"
  then have "btree_get (fst kv) (btree_collect kvs) = Some (snd kv)"
    using btree.entries_get[OF btree.invar_collect, of "fst kv" "snd kv" kvs] by simp
  then have "map_of (rev kvs) (fst kv) = Some (snd kv)" by (simp add: btree.get_collect)
  then show "kv \<in> set kvs" using map_of_SomeD by fastforce
qed

lemma btree_collect_distinct:
  assumes "distinct (map fst kvs)"
  shows "set (btree_collect kvs) = set kvs"
proof -
  have "(k, v) \<in> set (btree_collect kvs) \<longleftrightarrow> (k, v) \<in> set kvs" for k v
    using assms btree.entries_get[OF btree.invar_collect, of k v kvs]
    by (simp add: btree.get_collect rev_map[symmetric])
  then show ?thesis by auto
qed

end
