(* ===== verification/Observation.thy ===== *)
theory Observation
  imports Annotations BTree
begin

text \<open>
  One observed value and what its collector asserted about it (\<open>observation.rs\<close>): the tree, its
  constructors, the marks, the counters the operator's summary reads, and the borrowed view of a
  tree under a presentation.  Sets need the order of \<open>order.rs\<close> and are in \<open>SetOrder\<close>.
\<close>

section \<open>The tree\<close>

datatype observation = Observation
    (volatility_of: volatility)
    (sensitivity_of: sensitivity)
    (completeness_of: completeness)
    (fidelity_of: fidelity)
    (content_of: content)
and content =
    Scalar scalar
  | Object "(str, observation) btree"
  | Sequence "observation list"
  | SetOf "observation list" "str list"

fun children :: "content \<Rightarrow> observation list" where
  "children (Scalar s) = []"
| "children (Object es) = map snd es"
| "children (Sequence items) = items"
| "children (SetOf items leading) = items"

lemma size_child: "ob' \<in> set (children (content_of ob)) \<Longrightarrow> size ob' < size ob"
proof (cases ob)
  case (Observation v s c f content)
  assume "ob' \<in> set (children (content_of ob))"
  moreover have "ob' \<in> set items \<Longrightarrow> size ob' \<le> size_list size items" for items
    by (rule size_list_estimation') auto
  moreover have "ob' \<in> snd ` set es \<Longrightarrow> size ob' \<le> size_list (size_prod (\<lambda>x. 0) size) es"
    for es :: "(str \<times> observation) list"
    by (auto intro!: size_list_estimation')
  ultimately show ?thesis using Observation by (cases content) fastforce+
qed

lemma observation_induct [case_names child]:
  assumes "\<And>ob. (\<And>ob'. ob' \<in> set (children (content_of ob)) \<Longrightarrow> P ob') \<Longrightarrow> P ob"
  shows "P ob"
  by (induction ob rule: measure_induct_rule[of size]) (blast intro: assms size_child)

section \<open>Constructors and marks\<close>

definition unannotated :: "content \<Rightarrow> observation" where
  "unannotated content = Observation Stable Public Whole Exact content"

definition scalar :: "scalar \<Rightarrow> observation" where
  "scalar value = unannotated (Scalar value)"

definition null :: observation where
  "null = scalar Null"

definition boolean :: "bool \<Rightarrow> observation" where
  "boolean value = scalar (Boolean value)"

definition integer :: "i64 \<Rightarrow> observation" where
  "integer value = scalar (Integer value)"

definition text_of :: "str \<Rightarrow> observation" where
  "text_of value = scalar (Text value)"

definition object :: "(str \<times> observation) list \<Rightarrow> observation" where
  "object entries = unannotated (Object (btree_collect entries))"

definition sequence :: "observation list \<Rightarrow> observation" where
  "sequence items = unannotated (Sequence items)"

definition observation_of_digest :: "xxh3_digest \<Rightarrow> observation" where
  "observation_of_digest d = text_of (digest_text d)"

text \<open>\<open>error.rs\<close>, the failures of the document model.\<close>

datatype fingerprint_error =
    EmptyIdentifier str
  | MalformedIdentifier str str
  | WhitespaceInIdentifier str str
  | DuplicateFacetName str
  | RepeatedKey str

fun keyed_loop :: "(str, observation) btree \<Rightarrow> (str \<times> observation) list
    \<Rightarrow> fingerprint_error + (str, observation) btree" where
  "keyed_loop m [] = Inr m"
| "keyed_loop m ((key, observation) # entries) =
     (case btree_get key m of
        None \<Rightarrow> keyed_loop (btree_insert key observation m) entries
      | Some _ \<Rightarrow> Inl (RepeatedKey key))"

definition keyed :: "(str \<times> observation) list \<Rightarrow> fingerprint_error + observation" where
  "keyed entries = map_ok (\<lambda>m. unannotated (Object m)) (keyed_loop [] entries)"

fun volatile :: "observation \<Rightarrow> observation" where
  "volatile (Observation v s c f content) = Observation Volatile s c f content"

fun sensitive :: "observation \<Rightarrow> observation" where
  "sensitive (Observation v s c f content) = Observation v Sensitive c f content"

fun incomplete :: "observation \<Rightarrow> observation" where
  "incomplete (Observation v s c f content) = Observation v s Incomplete f content"

fun approximate :: "observation \<Rightarrow> observation" where
  "approximate (Observation v s c f content) = Observation v s c Approximate content"

definition incomplete_when :: "observation \<Rightarrow> bool \<Rightarrow> observation" where
  "incomplete_when ob failed = (if failed then incomplete ob else ob)"

lemma content_of_marks [simp]:
  "content_of (volatile ob) = content_of ob" "content_of (sensitive ob) = content_of ob"
  "content_of (incomplete ob) = content_of ob" "content_of (approximate ob) = content_of ob"
  by (cases ob; simp)+

text \<open>A keyed object holds every entry it was given, or refuses naming a key given twice.\<close>

lemma keyed_loop_spec:
  assumes "btree_sorted m"
  shows "case keyed_loop m entries of
      Inr m' \<Rightarrow> btree_sorted m' \<and> distinct (map fst entries) \<and> set m' = set m \<union> set entries
        \<and> set (map fst m) \<inter> set (map fst entries) = {}
    | Inl e \<Rightarrow> \<exists>key. e = RepeatedKey key
        \<and> (\<not> distinct (map fst entries) \<or> set (map fst m) \<inter> set (map fst entries) \<noteq> {})"
  using assms
proof (induction m entries rule: keyed_loop.induct)
  case (2 m key ob entries)
  show ?case
  proof (cases "btree_get key m")
    case None
    then have fresh: "key \<notin> set (map fst m)" by (simp add: btree_get_def map_of_eq_None_iff)
    have sorted': "btree_sorted (btree_insert key ob m)" using "2.prems" by (rule wf_intros)
    have "(k, v) \<in> set (btree_insert key ob m) \<longleftrightarrow> (k, v) \<in> insert (key, ob) (set m)" for k v
      using btree.entries_get[OF sorted', of k v] btree.entries_get[OF "2.prems", of k v] fresh
        btree_get_insert[OF "2.prems", of k key ob]
      by (auto split: if_splits simp: image_iff)
    then have set': "set (btree_insert key ob m) = insert (key, ob) (set m)" by auto
    then have keys': "set (map fst (btree_insert key ob m)) = insert key (set (map fst m))"
      by (simp only: set_btree_insert)
    from "2.IH"[OF None sorted'] None fresh show ?thesis
      by (auto simp: set' keys' image_iff split: sum.splits)
  next
    case (Some v)
    then have "key \<in> set (map fst m)" by (metis btree_get_def domI dom_map_of_conv_image_fst list.set_map)
    with Some show ?thesis by auto
  qed
qed simp

section \<open>Counting what could not be read\<close>

fun approximate_items :: "observation \<Rightarrow> nat" where
  "approximate_items (Observation v s c f content) =
     (if f = Approximate then 1 else 0) +
     (case content of
        Scalar _ \<Rightarrow> 0
      | Object es \<Rightarrow> sum_list (map (\<lambda>(_, child). approximate_items child) es)
      | Sequence items \<Rightarrow> sum_list (map approximate_items items)
      | SetOf items _ \<Rightarrow> sum_list (map approximate_items items))"

fun incomplete_items :: "observation \<Rightarrow> nat" where
  "incomplete_items (Observation v s c f content) =
     (if c = Incomplete then 1 else 0) +
     (case content of
        Scalar _ \<Rightarrow> 0
      | Object es \<Rightarrow> sum_list (map (\<lambda>(_, child). incomplete_items child) es)
      | Sequence items \<Rightarrow> sum_list (map incomplete_items items)
      | SetOf items _ \<Rightarrow> sum_list (map incomplete_items items))"

declare approximate_items.simps [simp del] incomplete_items.simps [simp del]

lemma incomplete_items_eq:
  "incomplete_items ob = (if completeness_of ob = Incomplete then 1 else 0)
     + sum_list (map incomplete_items (children (content_of ob)))"
  by (cases ob) (auto simp: incomplete_items.simps comp_def case_prod_unfold split: content.split)

lemma approximate_items_eq:
  "approximate_items ob = (if fidelity_of ob = Approximate then 1 else 0)
     + sum_list (map approximate_items (children (content_of ob)))"
  by (cases ob) (auto simp: approximate_items.simps comp_def case_prod_unfold split: content.split)

section \<open>The borrowed view\<close>

definition dropped_by :: "observation \<Rightarrow> presentation \<Rightarrow> bool" where
  "dropped_by ob p = (view p = Diffable \<and> volatility_of ob = Volatile)"

definition withheld_under :: "observation \<Rightarrow> presentation \<Rightarrow> bool \<Rightarrow> bool" where
  "withheld_under ob p inherited =
     (disclosure p = Redacted \<and> (inherited \<or> sensitivity_of ob = Sensitive))"

datatype visible = Visible
  (observation_of: observation) (presentation_of: presentation) (withheld_of: bool)

definition visible_under :: "presentation \<Rightarrow> bool \<Rightarrow> observation \<Rightarrow> visible option" where
  "visible_under p inherited ob = (if dropped_by ob p then None
     else Some (Visible ob p (withheld_under ob p inherited)))"

definition visible_in :: "presentation \<Rightarrow> observation \<Rightarrow> visible option" where
  "visible_in p ob = visible_under p False ob"

datatype visible_content =
    VScalar scalar
  | VObject "(str, observation) btree" presentation bool
  | VSequence "observation list" presentation bool
  | VSet "observation list" "str list" presentation bool

fun content_shown :: "hashes \<Rightarrow> visible \<Rightarrow> visible_content" where
  "content_shown H (Visible ob p w) = (case content_of ob of
      Scalar s \<Rightarrow> VScalar (shown H s w)
    | Object es \<Rightarrow> VObject es p w
    | Sequence items \<Rightarrow> VSequence items p w
    | SetOf items leading \<Rightarrow> VSet items leading p w)"

definition object_iter :: "(str, observation) btree \<Rightarrow> presentation \<Rightarrow> bool \<Rightarrow> (str \<times> visible) list" where
  "object_iter es p inherited =
     List.map_filter (\<lambda>(key, child). map_option (Pair key) (visible_under p inherited child)) es"

definition object_get :: "(str, observation) btree \<Rightarrow> presentation \<Rightarrow> bool \<Rightarrow> str \<Rightarrow> visible option" where
  "object_get es p w key = Option.bind (btree_get key es) (visible_under p w)"

definition visible_items :: "observation list \<Rightarrow> presentation \<Rightarrow> bool \<Rightarrow> visible list" where
  "visible_items items p inherited = List.map_filter (visible_under p inherited) items"

lemma visible_under_SomeD:
  "visible_under p w ob = Some v \<Longrightarrow> observation_of v = ob \<and> presentation_of v = p"
  by (auto simp: visible_under_def split: if_splits)

lemma set_map_filter: "set (List.map_filter f xs) = {y. \<exists>x \<in> set xs. f x = Some y}"
  by (induction xs) (auto simp: map_filter_simps split: option.splits)

lemma mset_map_filter_cong: "mset xs = mset ys \<Longrightarrow> mset (List.map_filter f xs) = mset (List.map_filter f ys)"
  by (simp add: map_filter_def)

lemma visible_items_sub:
  "v \<in> set (visible_items items p w) \<Longrightarrow> observation_of v \<in> set items"
  by (auto simp: visible_items_def set_map_filter dest: visible_under_SomeD)

lemma object_iter_sub:
  "(k, v) \<in> set (object_iter es p w) \<Longrightarrow> observation_of v \<in> snd ` set es"
  unfolding object_iter_def set_map_filter
  by (auto dest!: visible_under_SomeD intro: rev_image_eqI)

lemma object_get_sub: "object_get es p w key = Some v \<Longrightarrow> observation_of v \<in> snd ` set es"
  by (auto simp: object_get_def btree_get_def bind_eq_Some_conv dest!: map_of_SomeD visible_under_SomeD)
    (metis image_eqI snd_conv)

text \<open>In the complete, raw view everything is shown, as it stands.\<close>

lemma visible_under_complete_raw: "visible_under (raw complete) w ob = Some (Visible ob (raw complete) False)"
  by (simp add: visible_under_def dropped_by_def withheld_under_def)

lemma visible_items_complete_raw:
  "visible_items items (raw complete) w = map (\<lambda>ob. Visible ob (raw complete) False) items"
  by (induction items) (auto simp: visible_items_def map_filter_simps visible_under_complete_raw)

lemma object_iter_complete_raw:
  "object_iter es (raw complete) w = map (\<lambda>(k, ob). (k, Visible ob (raw complete) False)) es"
  by (induction es) (auto simp: object_iter_def map_filter_simps visible_under_complete_raw)

end
