(* ===== verification/Values.thy ===== *)
theory Values
  imports Observation Text
begin

text \<open>
  The vocabulary collectors share (\<open>rastro-collector/src/value_objects\<close>): text the host reported,
  absolute paths, walked trees, sizes and the names built on them.  Each type is a newtype whose
  constructor is the only way in; a well-formedness predicate says what it guarantees.
\<close>

datatype non_empty_text = NonEmptyText (text_str: str)
datatype absolute_path = AbsolutePath (path_text: non_empty_text)
datatype walked_tree = WalkedTree (tree_path: absolute_path)
datatype byte_size = ByteSize (bytes: i64)
datatype environment_variable_name = EnvironmentVariableName (variable_text: non_empty_text)
datatype process_name = ProcessName non_empty_text
datatype setting_value = SettingValue non_empty_text

definition non_empty_text_new :: "str \<Rightarrow> str \<Rightarrow> non_empty_text collected" where
  "non_empty_text_new value kind =
     (if value = [] then Inl (CollectionError ''a {kind} cannot be empty'' [kind])
      else Inr (NonEmptyText value))"

text \<open>The derived \<open>Ord\<close> of the newtypes that key a map.\<close>

instantiation non_empty_text :: linorder
begin

definition less_eq_non_empty_text :: "non_empty_text \<Rightarrow> non_empty_text \<Rightarrow> bool" where
  "less_eq_non_empty_text m n \<longleftrightarrow> text_str m \<le> text_str n"

definition less_non_empty_text :: "non_empty_text \<Rightarrow> non_empty_text \<Rightarrow> bool" where
  "less_non_empty_text m n \<longleftrightarrow> text_str m < text_str n"

instance
  by standard (auto simp: less_eq_non_empty_text_def less_non_empty_text_def non_empty_text.expand)

end

instantiation absolute_path :: linorder
begin

definition less_eq_absolute_path :: "absolute_path \<Rightarrow> absolute_path \<Rightarrow> bool" where
  "less_eq_absolute_path m n \<longleftrightarrow> path_text m \<le> path_text n"

definition less_absolute_path :: "absolute_path \<Rightarrow> absolute_path \<Rightarrow> bool" where
  "less_absolute_path m n \<longleftrightarrow> path_text m < path_text n"

instance
  by standard (auto simp: less_eq_absolute_path_def less_absolute_path_def absolute_path.expand)

end

instantiation environment_variable_name :: linorder
begin

definition less_eq_environment_variable_name :: "environment_variable_name \<Rightarrow> environment_variable_name \<Rightarrow> bool" where
  "less_eq_environment_variable_name m n \<longleftrightarrow> variable_text m \<le> variable_text n"

definition less_environment_variable_name :: "environment_variable_name \<Rightarrow> environment_variable_name \<Rightarrow> bool" where
  "less_environment_variable_name m n \<longleftrightarrow> variable_text m < variable_text n"

instance
  by standard (auto simp: less_eq_environment_variable_name_def less_environment_variable_name_def environment_variable_name.expand)

end

definition absolute_path_new :: "str \<Rightarrow> str \<Rightarrow> absolute_path collected" where
  "absolute_path_new value kind = and_then (non_empty_text_new value kind) (\<lambda>text.
     if \<not> starts_with ''/'' (text_str text)
     then Inl (CollectionError ''a {kind} is an absolute path, but the host reported {:?}'' [kind, text_str text])
     else Inr (AbsolutePath text))"

definition path_str :: "absolute_path \<Rightarrow> str" where
  "path_str p = text_str (path_text p)"

definition tree_str :: "walked_tree \<Rightarrow> str" where
  "tree_str t = path_str (tree_path t)"

definition walked_tree_new :: "str \<Rightarrow> walked_tree collected" where
  "walked_tree_new value = and_then (absolute_path_new value ''walked tree'') (\<lambda>path.
     let trimmed = trim_end_matches (CHR ''/'') (path_str path);
         normalised = (if trimmed = [] then ''/'' else trimmed)
     in map_ok WalkedTree (absolute_path_new normalised ''walked tree''))"

definition is_root :: "walked_tree \<Rightarrow> bool" where
  "is_root t \<longleftrightarrow> tree_str t = ''/''"

definition contains :: "walked_tree \<Rightarrow> absolute_path \<Rightarrow> bool" where
  "contains t path \<longleftrightarrow> is_root t \<or>
     (let candidate = path_str path; tree = tree_str t
      in candidate = tree \<or> starts_with (tree @ ''/'') candidate)"

definition depth :: "walked_tree \<Rightarrow> nat" where
  "depth t = length (filter (\<lambda>component. component \<noteq> []) (split_on (CHR ''/'') (tree_str t)))"

text \<open>\<open>i64::try_from(u64)\<close>.\<close>

definition i64_of_u64 :: "u64 \<Rightarrow> i64 option" where
  "i64_of_u64 w = (if unat w < 2 ^ 63 then Some w else None)"

definition byte_size_new :: "u64 \<Rightarrow> str \<Rightarrow> byte_size collected" where
  "byte_size_new n kind = (case i64_of_u64 n of
      None \<Rightarrow> Inl (CollectionError ''a {kind} of {bytes} bytes is too large to record as an integer''
        [kind, show_nat (unat n)])
    | Some i \<Rightarrow> Inr (ByteSize i))"

definition environment_variable_name_new :: "str \<Rightarrow> environment_variable_name collected" where
  "environment_variable_name_new value =
     and_then (non_empty_text_new value ''environment variable name'') (\<lambda>text.
       if CHR ''='' \<in> set (text_str text)
       then Inl (CollectionError
         ''the environment variable name {:?} holds the separator, so the entry was split in the wrong place''
         [text_str text])
       else Inr (EnvironmentVariableName text))"

definition process_name_new :: "str \<Rightarrow> process_name collected" where
  "process_name_new value = map_ok ProcessName (non_empty_text_new value ''process name'')"

definition setting_value_new :: "str \<Rightarrow> str \<Rightarrow> setting_value collected" where
  "setting_value_new value kind = map_ok SettingValue (non_empty_text_new value kind)"

fun process_name_observed :: "process_name \<Rightarrow> observation" where
  "process_name_observed (ProcessName t) = text_of (text_str t)"

fun setting_value_observed :: "setting_value \<Rightarrow> observation" where
  "setting_value_observed (SettingValue t) = text_of (text_str t)"

section \<open>What the constructors guarantee\<close>

definition path_ok :: "absolute_path \<Rightarrow> bool" where
  "path_ok p \<longleftrightarrow> starts_with ''/'' (path_str p)"

text \<open>
  A tree is the root, or a path that does not end in a separator: \<open>/var/log/\<close> and \<open>/var/log\<close> are
  one tree.
\<close>

definition tree_ok :: "walked_tree \<Rightarrow> bool" where
  "tree_ok t \<longleftrightarrow> path_ok (tree_path t) \<and> (is_root t \<or> last (tree_str t) \<noteq> CHR ''/'')"

lemma absolute_path_new_iff:
  "absolute_path_new value kind = Inr p \<longleftrightarrow> p = AbsolutePath (NonEmptyText value) \<and> starts_with ''/'' value"
  by (auto simp: absolute_path_new_def non_empty_text_new_def starts_with_def)

lemma path_str_simps [simp]: "path_str (AbsolutePath (NonEmptyText s)) = s"
  by (simp add: path_str_def)

lemma path_str_inject: "path_str p = path_str q \<longleftrightarrow> p = q"
  by (cases p; cases q) (auto simp: path_str_def non_empty_text.expand)

lemma tree_str_inject: "tree_str t = tree_str u \<longleftrightarrow> t = u"
  by (cases t; cases u) (auto simp: tree_str_def path_str_inject)

lemma starts_slash: "starts_with ''/'' s \<longleftrightarrow> (\<exists>r. s = CHR ''/'' # r)"
  by (auto simp: starts_with_iff)

lemma walked_tree_new_ok:
  assumes "walked_tree_new value = Inr t"
  shows "tree_ok t" "tree_str t = (if list_all (\<lambda>c. c = CHR ''/'') value then ''/'' else trim_end_matches (CHR ''/'') value)"
proof -
  let ?s = "trim_end_matches (CHR ''/'') value"
  from assms have v: "starts_with ''/'' value"
    by (auto simp: walked_tree_new_def and_then_Inr_iff absolute_path_new_iff)
  from assms have t: "tree_str t = (if ?s = [] then ''/'' else ?s)" "starts_with ''/'' (tree_str t)"
    by (auto simp: walked_tree_new_def and_then_Inr_iff absolute_path_new_iff Let_def map_ok_Inr_iff
        tree_str_def split: if_splits)
  then show "tree_ok t"
    using trim_end_matches_last[of "CHR ''/''" "value"] by (auto simp: tree_ok_def path_ok_def is_root_def tree_str_def)
  have "?s = [] \<longleftrightarrow> list_all (\<lambda>c. c = CHR ''/'') value"
    by (simp add: trim_end_matches_def list_all_iff dropWhile_eq_Nil_conv eq_commute[of "CHR ''/''"])
  with t show "tree_str t = (if list_all (\<lambda>c. c = CHR ''/'') value then ''/'' else ?s)" by simp
qed

lemma walked_tree_new_total:
  "starts_with ''/'' value \<Longrightarrow> \<exists>t. walked_tree_new value = Inr t"
proof -
  let ?s = "trim_end_matches (CHR ''/'') value"
  assume v: "starts_with ''/'' value"
  obtain n where "value = ?s @ replicate n (CHR ''/'')" using trim_end_matches_append by blast
  with v have "starts_with ''/'' (if ?s = [] then ''/'' else ?s)"
    by (cases ?s) (auto simp: starts_slash)
  with v show ?thesis
    by (cases "?s = []") (auto simp: walked_tree_new_def absolute_path_new_def non_empty_text_new_def starts_slash path_str_def)
qed

lemma walked_tree_new_plain:
  assumes "starts_with ''/'' s" "s = ''/'' \<or> last s \<noteq> CHR ''/''"
  shows "walked_tree_new s = Inr (WalkedTree (AbsolutePath (NonEmptyText s)))"
proof -
  obtain t where t: "walked_tree_new s = Inr t" using walked_tree_new_total[OF assms(1)] by blast
  have "tree_str t = s"
  proof (cases "s = ''/''")
    case False
    with assms have last: "s \<noteq> []" "last s \<noteq> CHR ''/''" by (simp_all add: starts_with_def split: if_splits) (auto)
    then have "\<not> list_all (\<lambda>c. c = CHR ''/'') s" unfolding list_all_iff using last_in_set by blast
    with last show ?thesis using walked_tree_new_ok(2)[OF t] by (simp add: trim_end_matches_id)
  qed (use walked_tree_new_ok(2)[OF t] in simp)
  then have "t = WalkedTree (AbsolutePath (NonEmptyText s))"
    by (cases t; cases "tree_path t"; cases "path_text (tree_path t)") (auto simp: tree_str_def path_str_def)
  with t show ?thesis by simp
qed

section \<open>Depth and containment\<close>

lemma split_on_join: "c \<notin> set s \<Longrightarrow> split_on c (s @ c # t) = s # split_on c t"
  by (rule split_on_append)

lemma split_on_app_sep: "split_on c (s @ c # t) = split_on c s @ split_on c t"
proof (induction s)
  case (Cons x s)
  then show ?case by (cases "split_on c s") (auto split: list.splits)
qed simp

abbreviation components :: "str \<Rightarrow> str list" where
  "components s \<equiv> filter (\<lambda>component. component \<noteq> []) (split_on (CHR ''/'') s)"

lemma components_below: "components (s @ CHR ''/'' # r) = components s @ components r"
  by (simp add: split_on_app_sep)

lemma components_nonempty: "s \<noteq> [] \<Longrightarrow> last s \<noteq> CHR ''/'' \<Longrightarrow> components s \<noteq> []"
proof (induction s)
  case (Cons x s)
  show ?case
  proof (cases s)
    case Nil
    with Cons.prems show ?thesis by simp
  next
    case (Cons y ys)
    with Cons.IH Cons.prems have "components s \<noteq> []" by simp
    then show ?thesis by (cases "split_on (CHR ''/'') s") (auto split: if_splits)
  qed
qed simp

lemma starts_with_trans: "starts_with p q \<Longrightarrow> starts_with q s \<Longrightarrow> starts_with p s"
  by (auto simp: starts_with_iff)

lemma starts_with_comparable:
  assumes "starts_with p s" "starts_with q s"
  shows "starts_with p q \<or> starts_with q p"
  using assms by (auto simp: starts_with_iff append_eq_append_conv2)

text \<open>Two trees that contain one path are nested: one contains the other's root.\<close>

lemma contains_iff:
  "contains t p \<longleftrightarrow> is_root t \<or> path_str p = tree_str t \<or> (\<exists>r. path_str p = tree_str t @ CHR ''/'' # r)"
  by (auto simp: contains_def Let_def starts_with_iff)

lemma shared_start: "a @ x = b @ y \<Longrightarrow> length a \<le> length b \<Longrightarrow> \<exists>d. b = a @ d"
  by (auto simp: append_eq_append_conv2)

lemma contains_nested:
  assumes "contains t p" "contains u p"
  shows "contains t (tree_path u) \<or> contains u (tree_path t)"
proof (cases "is_root t \<or> is_root u")
  case True
  then show ?thesis by (auto simp: contains_iff)
next
  case False
  then have slash: "\<exists>r. path_str p @ ''/'' = (tree_str v @ ''/'') @ r" if "contains v p" "\<not> is_root v" for v
    using that by (auto simp: contains_iff)
  from slash[OF assms(1)] slash[OF assms(2)] False
  obtain r r' where eq: "(tree_str t @ ''/'') @ r = (tree_str u @ ''/'') @ r'" by metis
  show ?thesis
  proof (cases "length (tree_str t) \<le> length (tree_str u)")
    case True
    with eq obtain d where "tree_str u @ ''/'' = (tree_str t @ ''/'') @ d"
      using shared_start[OF eq] by auto
    then have "tree_str u = tree_str t \<or> (\<exists>r. tree_str u = tree_str t @ CHR ''/'' # r)"
      by (cases d rule: rev_cases) auto
    then show ?thesis by (auto simp: contains_iff tree_str_def)
  next
    case False
    with eq obtain d where "tree_str t @ ''/'' = (tree_str u @ ''/'') @ d"
      using shared_start[OF eq[symmetric]] by auto
    then have "tree_str t = tree_str u \<or> (\<exists>r. tree_str t = tree_str u @ CHR ''/'' # r)"
      by (cases d rule: rev_cases) auto
    then show ?thesis by (auto simp: contains_iff tree_str_def)
  qed
qed

lemma depth_root: "is_root t \<Longrightarrow> depth t = 0"
  by (simp add: depth_def is_root_def)

lemma depth_pos: "tree_ok t \<Longrightarrow> \<not> is_root t \<Longrightarrow> 0 < depth t"
  using components_nonempty[of "tree_str t"]
  by (auto simp: tree_ok_def depth_def path_ok_def tree_str_def starts_slash)

text \<open>A tree strictly inside another sits strictly deeper, so the deepest match is unique.\<close>

lemma contains_depth:
  assumes "tree_ok t" "tree_ok u" "contains t (tree_path u)" "t \<noteq> u"
  shows "depth t < depth u"
proof (cases "is_root t")
  case True
  have "\<not> is_root u" using True assms(4) by (metis is_root_def tree_str_inject)
  with True assms(2) show ?thesis by (simp add: depth_root depth_pos)
next
  case False
  with assms(3,4) obtain r where u: "tree_str u = tree_str t @ CHR ''/'' # r"
    by (auto simp: contains_iff tree_str_def path_str_inject walked_tree.expand)
  have "\<not> is_root u"
    using u assms(1) False by (auto simp: is_root_def tree_ok_def path_ok_def tree_str_def[symmetric] starts_slash)
  with assms(2) u have "r \<noteq> []" "last r \<noteq> CHR ''/''"
    by (cases "r = []"; auto simp: tree_ok_def)+
  then have "components r \<noteq> []" by (rule components_nonempty)
  then show ?thesis by (simp add: depth_def u components_below)
qed

lemma contains_same_depth:
  assumes "tree_ok t" "tree_ok u" "contains t p" "contains u p" "depth t = depth u"
  shows "t = u"
  using contains_nested[OF assms(3,4)] contains_depth[OF assms(1,2)] contains_depth[OF assms(2,1)] assms(5)
  by fastforce

end
