(* ===== verification/Facets.thy ===== *)
theory Facets
  imports Observation Text
begin

text \<open>
  Facets and the fingerprint that holds them (\<open>lib.rs\<close>, \<open>facet.rs\<close>, \<open>collector.rs\<close>,
  \<open>collector/identity.rs\<close>, \<open>error.rs\<close>): the identifiers a document is keyed by, one collector's
  contribution, and the document as the one place duplicate names are refused.
\<close>

section \<open>Identifiers\<close>

definition legal_identifier_char :: "char \<Rightarrow> bool" where
  "legal_identifier_char c \<longleftrightarrow> is_ascii_lowercase c \<or> is_ascii_digit c \<or> c = CHR ''-'' \<or> c = CHR ''_''"

text \<open>
  A character above \<open>0x7f\<close> is none of these, nor is any byte of its encoding, so the test over
  characters is the test over bytes.
\<close>

definition into_document_identifier :: "str \<Rightarrow> str \<Rightarrow> fingerprint_error + str" where
  "into_document_identifier value kind =
     (if value = [] then Inl (EmptyIdentifier kind)
      else if list_all legal_identifier_char value then Inr value
      else Inl (MalformedIdentifier kind value))"

datatype facet_name = FacetName (facet_name_str: str)
datatype collector_id = CollectorId (collector_id_str: str)
datatype collector_version = CollectorVersion (collector_version_str: str)

definition facet_name_new :: "str \<Rightarrow> fingerprint_error + facet_name" where
  "facet_name_new value = map_ok FacetName (into_document_identifier value ''facet name'')"

definition collector_id_new :: "str \<Rightarrow> fingerprint_error + collector_id" where
  "collector_id_new value = map_ok CollectorId (into_document_identifier value ''collector id'')"

definition collector_version_new :: "str \<Rightarrow> fingerprint_error + collector_version" where
  "collector_version_new value =
     (if value = [] then Inl (EmptyIdentifier ''collector version'')
      else if list_ex is_whitespace (chars_of value)
      then Inl (WhitespaceInIdentifier ''collector version'' value)
      else Inr (CollectorVersion value))"

instantiation facet_name :: linorder
begin

definition less_eq_facet_name :: "facet_name \<Rightarrow> facet_name \<Rightarrow> bool" where
  "less_eq_facet_name m n \<longleftrightarrow> facet_name_str m \<le> facet_name_str n"

definition less_facet_name :: "facet_name \<Rightarrow> facet_name \<Rightarrow> bool" where
  "less_facet_name m n \<longleftrightarrow> facet_name_str m < facet_name_str n"

instance
  by standard (auto simp: less_eq_facet_name_def less_facet_name_def facet_name.expand)

end

section \<open>One facet\<close>

datatype collector_category = Metadata | State

record collector_identity =
  identity_id :: collector_id
  identity_version :: collector_version

text \<open>The message of a failed facet is kept as the error that carries it, unrendered.\<close>

datatype facet_outcome = FacetOk observation | FacetAbsent | FacetError collection_error

record facet =
  name :: facet_name
  collector :: collector_identity
  category :: collector_category
  outcome :: facet_outcome

definition facet_new :: "facet_name \<Rightarrow> collector_identity \<Rightarrow> collector_category \<Rightarrow> facet_outcome \<Rightarrow> facet" where
  "facet_new n c k out = \<lparr> name = n, collector = c, category = k, outcome = out \<rparr>"

section \<open>The fingerprint\<close>

datatype fingerprint = Fingerprint (facets: "facet list")

definition schema_version :: nat where
  "schema_version = 1"

text \<open>The loop over \<open>windows(2)\<close>: the name of the first two neighbours that share one.\<close>

fun shared_name :: "facet list \<Rightarrow> facet_name option" where
  "shared_name (l # r # rest) = (if name l = name r then Some (name l) else shared_name (r # rest))"
| "shared_name _ = None"

definition from_facets :: "facet list \<Rightarrow> fingerprint_error + fingerprint" where
  "from_facets given =
     (let sorted_facets = sort_by (\<lambda>l r. cmp_of (name l) (name r)) given
      in case shared_name sorted_facets of
           Some n \<Rightarrow> Inl (DuplicateFacetName (facet_name_str n))
         | None \<Rightarrow> Inr (Fingerprint sorted_facets))"

definition facets_in :: "collector_category \<Rightarrow> fingerprint \<Rightarrow> facet list" where
  "facets_in k fp = filter (\<lambda>f. category f = k) (facets fp)"

section \<open>Lemmas\<close>

interpretation by_name: comparator_on "\<lambda>l r. cmp_of (name l) (name r)" UNIV
  by (rule comparator_pullback[OF cmp_of.comparator_on_axioms]) simp

lemma shared_name_map: "map name fs = map name gs \<Longrightarrow> shared_name fs = shared_name gs"
proof (induction fs arbitrary: gs rule: shared_name.induct)
  case (1 l r rest)
  then show ?case by (cases gs rule: shared_name.cases) auto
qed auto

lemma map_name_sorted: "map name (sort_by (\<lambda>l r. cmp_of (name l) (name r)) fs) = sort_by cmp_of (map name fs)"
  by (rule map_sort_by)

lemma shared_name_None:
  "sorted_by cmp_of (map name fs) \<Longrightarrow> shared_name fs = None \<longleftrightarrow> distinct (map name fs)"
proof (induction fs rule: shared_name.induct)
  case (1 l r rest)
  have "name l \<notin> name ` set rest" if "name l \<noteq> name r"
    using that "1.prems" by (fastforce simp: cmp_simps)
  with 1 show ?case by (auto simp: image_iff)
qed simp_all

lemma shared_name_Some: "shared_name fs = Some n \<Longrightarrow> \<exists>xs l r ys. fs = xs @ l # r # ys \<and> name l = n \<and> name r = n"
proof (induction fs rule: shared_name.induct)
  case (1 l r rest)
  show ?case
  proof (cases "name l = name r")
    case True
    with "1.prems" have "l # r # rest = [] @ l # r # rest \<and> name l = n \<and> name r = n" by simp
    then show ?thesis by blast
  next
    case False
    with 1 obtain xs a b ys where "r # rest = xs @ a # b # ys" "name a = n" "name b = n" by auto
    then have "l # r # rest = (l # xs) @ a # b # ys \<and> name a = n \<and> name b = n" by simp
    then show ?thesis by blast
  qed
qed simp_all

lemma from_facets_Inr_iff:
  "from_facets fs = Inr fp \<longleftrightarrow> distinct (map name fs)
     \<and> fp = Fingerprint (sort_by (\<lambda>l r. cmp_of (name l) (name r)) fs)"
proof -
  let ?s = "sort_by (\<lambda>l r. cmp_of (name l) (name r)) fs"
  have "sorted_by cmp_of (map name ?s)"
    unfolding map_name_sorted by (rule cmp_of.sorted_sort_by) simp
  then have "shared_name ?s = None \<longleftrightarrow> distinct (map name ?s)" by (rule shared_name_None)
  also have "\<dots> \<longleftrightarrow> distinct (map name fs)"
    by (metis map_name_sorted mset_eq_imp_distinct_iff mset_sort_by)
  finally show ?thesis by (auto simp: from_facets_def Let_def split: option.split)
qed

lemma from_facets_sorted:
  assumes "from_facets fs = Inr fp"
  shows "sorted_wrt (\<lambda>l r. name l < name r) (facets fp)" "mset (facets fp) = mset fs"
proof -
  let ?s = "sort_by (\<lambda>l r. cmp_of (name l) (name r)) fs"
  from assms have fp: "fp = Fingerprint ?s" and dist: "distinct (map name fs)"
    by (auto simp: from_facets_Inr_iff)
  have "sorted_by (\<lambda>l r. cmp_of (name l) (name r)) ?s" by (rule by_name.sorted_sort_by) simp
  then have le: "sorted_wrt (\<le>) (map name ?s)"
    unfolding sorted_wrt_map by (rule sorted_wrt_mono_rel[rotated]) (simp add: cmp_simps not_less)
  have "distinct (map name ?s)" using dist by (metis map_name_sorted mset_eq_imp_distinct_iff mset_sort_by)
  with le have "sorted_wrt (<) (map name ?s)" by (simp add: strict_sorted_iff)
  with fp show "sorted_wrt (\<lambda>l r. name l < name r) (facets fp)" by (simp add: sorted_wrt_map)
  from fp show "mset (facets fp) = mset fs" by simp
qed

lemma from_facets_Inl:
  assumes "from_facets fs = Inl e"
  shows "\<exists>n l r. e = DuplicateFacetName (facet_name_str n) \<and> {#l, r#} \<subseteq># mset fs \<and> name l = n \<and> name r = n"
proof -
  let ?s = "sort_by (\<lambda>l r. cmp_of (name l) (name r)) fs"
  from assms obtain n where n: "e = DuplicateFacetName (facet_name_str n)" "shared_name ?s = Some n"
    by (auto simp: from_facets_def Let_def split: option.splits)
  from shared_name_Some[OF n(2)] obtain xs l r ys where s: "?s = xs @ l # r # ys" "name l = n" "name r = n"
    by blast
  have "{#l, r#} \<subseteq># mset ?s" unfolding s(1) by simp
  then have "{#l, r#} \<subseteq># mset fs" by simp
  with n(1) s(2,3) show ?thesis by blast
qed

text \<open>Facets that share no name may come back in any order.\<close>

lemma from_facets_mset:
  assumes "mset fs = mset gs"
  shows "from_facets fs = from_facets gs"
proof -
  let ?c = "\<lambda>l r. cmp_of (name l) (name r)"
  have names: "map name (sort_by ?c fs) = map name (sort_by ?c gs)"
    unfolding map_name_sorted using assms by (intro cmp_of.sort_by_mset) simp_all
  have "sort_by ?c fs = sort_by ?c gs" if dist: "distinct (map name fs)"
  proof -
    have lin: "linear_comparator_on ?c (set fs)"
      by (rule linear_comparator_pullback[OF cmp_of.linear_comparator_on_axioms])
        (use dist in \<open>auto simp: distinct_map\<close>)
    from assms show ?thesis by (intro linear_comparator_on.sort_by_mset[OF lin]) auto
  qed
  moreover have "distinct (map name fs)" if "shared_name (sort_by ?c fs) = None"
    using that from_facets_Inr_iff[of fs "Fingerprint (sort_by ?c fs)"] by (simp add: from_facets_def Let_def)
  ultimately show ?thesis using shared_name_map[OF names]
    by (auto simp: from_facets_def Let_def split: option.split)
qed

end
