(* ===== verification/Claims.thy ===== *)
theory Claims
  imports Values Facets
begin

text \<open>
  The collector port (\<open>rastro-collector/src/lib.rs\<close>) and the claims that travel through it
  (\<open>claims.rs\<close>): a collector as the answers it gives, one facet from those answers, and the three
  readings a claim can ask for.
\<close>

section \<open>Claims\<close>

datatype claim_qualifier = ClaimQualifier (qualifier_str: str)

definition claim_qualifier_new :: "str \<Rightarrow> claim_qualifier collected" where
  "claim_qualifier_new value =
     (if value = []
      then Inl (CollectionError ''a claim qualifier names the entry that asked, so it cannot be empty'' [])
      else if CHR '':'' \<in> set value
      then Inl (CollectionError
        ''the claim qualifier {value:?} holds {SEPARATOR:?}, which is what joins it to the facet name, so the composed claimant could not be read back''
        [value, '':''])
      else Inr (ClaimQualifier value))"

datatype claimed_reading = ClaimMetadataOnly | ClaimChurns | ClaimSealed

record filesystem_claim =
  claim_tree :: walked_tree
  claim_reading :: claimed_reading
  claim_qualifier :: "claim_qualifier option"

definition claim_of :: "walked_tree \<Rightarrow> claimed_reading \<Rightarrow> filesystem_claim" where
  "claim_of t reading = \<lparr> claim_tree = t, claim_reading = reading, claim_qualifier = None \<rparr>"

definition claim_metadata_only :: "walked_tree \<Rightarrow> filesystem_claim" where
  "claim_metadata_only t = claim_of t ClaimMetadataOnly"

definition claim_churns :: "walked_tree \<Rightarrow> filesystem_claim" where
  "claim_churns t = claim_of t ClaimChurns"

definition claim_sealed :: "walked_tree \<Rightarrow> filesystem_claim" where
  "claim_sealed t = claim_of t ClaimSealed"

definition for_entry :: "filesystem_claim \<Rightarrow> claim_qualifier \<Rightarrow> filesystem_claim" where
  "for_entry claim q = claim\<lparr> claim_qualifier := Some q \<rparr>"

section \<open>The collector port\<close>

datatype presence = Present | Absent | Undetermined collection_error

datatype concurrency = Shared | Exclusive

text \<open>What a collector answers, each answer the one it gives in this run.\<close>

record collector_port =
  collector_name :: facet_name
  collector_identity :: collector_identity
  collector_category :: collector_category
  collector_presence :: presence
  collector_collect :: "observation collected"
  collector_claims :: "filesystem_claim list"
  collector_concurrency :: concurrency

definition facet_of :: "collector_port \<Rightarrow> facet" where
  "facet_of c = facet_new (collector_name c) (collector_identity c) (collector_category c)
     (case collector_presence c of
        Absent \<Rightarrow> FacetAbsent
      | Undetermined reason \<Rightarrow> FacetError reason
      | Present \<Rightarrow> (case collector_collect c of
            Inr ob \<Rightarrow> FacetOk ob
          | Inl failure \<Rightarrow> FacetError failure))"

lemma name_facet_of [simp]: "name (facet_of c) = collector_name c"
  by (simp add: facet_of_def facet_new_def)

text \<open>
  A facet never says a subject is absent unless the collector said so, and holds data only where
  the subject was present and read.
\<close>

lemma facet_of_outcome:
  "outcome (facet_of c) = FacetAbsent \<longleftrightarrow> collector_presence c = Absent"
  "outcome (facet_of c) = FacetOk ob \<longleftrightarrow> collector_presence c = Present \<and> collector_collect c = Inr ob"
  "outcome (facet_of c) = FacetError e \<longleftrightarrow>
     collector_presence c = Undetermined e \<or> collector_presence c = Present \<and> collector_collect c = Inl e"
  by (auto simp: facet_of_def facet_new_def split: presence.split sum.split)

text \<open>A qualifier that was accepted can be told from the facet name it is joined to.\<close>

lemma claim_qualifier_new_iff:
  "claim_qualifier_new s = Inr q \<longleftrightarrow> q = ClaimQualifier s \<and> s \<noteq> [] \<and> CHR '':'' \<notin> set s"
  by (auto simp: claim_qualifier_new_def)

end
