(* ===== verification/HostRun.thy ===== *)
theory HostRun
  imports Claims
begin

text \<open>
  The use case (\<open>rastro-collector/src/fingerprint_host.rs\<close>): shared collectors run together on a
  small pool of workers drawing from one cursor, exclusive ones run alone after every worker has
  been joined.  The threads are a step relation, one atomic action of one thread per step, so
  every interleaving of them is a sequence of steps; a panicking collector is not modelled (its
  unwinding ends the run without a document).
\<close>

section \<open>The threads\<close>

definition at_once :: nat where
  "at_once = 4"

text \<open>
  Where a worker is in its loop: about to draw from the cursor; holding a collector it has drawn;
  having told the caller the collector started; holding the facet, with the caller told that too;
  or out of the loop.
\<close>

datatype worker = Drawing | Drawn collector_port | Asking collector_port | Reported facet | Joined

datatype event = Started facet_name | Finished facet_name facet_outcome

record run_state =
  cursor :: nat
  workers :: "worker list"
  collected :: "facet list"
  waiting :: "collector_port list"
  alone :: "collector_port option"
  events :: "event list"

definition shared_of :: "collector_port list \<Rightarrow> collector_port list" where
  "shared_of cs = filter (\<lambda>c. collector_concurrency c = Shared) cs"

definition exclusive_of :: "collector_port list \<Rightarrow> collector_port list" where
  "exclusive_of cs = filter (\<lambda>c. collector_concurrency c \<noteq> Shared) cs"

definition run_start :: "collector_port list \<Rightarrow> run_state" where
  "run_start cs = \<lparr> cursor = 0, workers = replicate (min at_once (length (shared_of cs))) Drawing,
     collected = [], waiting = exclusive_of cs, alone = None, events = [] \<rparr>"

inductive run_step :: "collector_port list \<Rightarrow> run_state \<Rightarrow> run_state \<Rightarrow> bool" for cs where
  draw: "\<lbrakk> i < length (workers s); workers s ! i = Drawing; cursor s < length (shared_of cs) \<rbrakk>
    \<Longrightarrow> run_step cs s (s\<lparr> cursor := Suc (cursor s),
          workers := (workers s)[i := Drawn (shared_of cs ! cursor s)] \<rparr>)"
| leave: "\<lbrakk> i < length (workers s); workers s ! i = Drawing; \<not> cursor s < length (shared_of cs) \<rbrakk>
    \<Longrightarrow> run_step cs s (s\<lparr> cursor := Suc (cursor s), workers := (workers s)[i := Joined] \<rparr>)"
| tell_started: "\<lbrakk> i < length (workers s); workers s ! i = Drawn c \<rbrakk>
    \<Longrightarrow> run_step cs s (s\<lparr> workers := (workers s)[i := Asking c],
          events := events s @ [Started (collector_name c)] \<rparr>)"
| tell_finished: "\<lbrakk> i < length (workers s); workers s ! i = Asking c \<rbrakk>
    \<Longrightarrow> run_step cs s (s\<lparr> workers := (workers s)[i := Reported (facet_of c)],
          events := events s @ [Finished (name (facet_of c)) (outcome (facet_of c))] \<rparr>)"
| push: "\<lbrakk> i < length (workers s); workers s ! i = Reported f \<rbrakk>
    \<Longrightarrow> run_step cs s (s\<lparr> workers := (workers s)[i := Drawing], collected := collected s @ [f] \<rparr>)"
| alone_started: "\<lbrakk> \<forall>w \<in> set (workers s). w = Joined; alone s = None; waiting s = c # rest \<rbrakk>
    \<Longrightarrow> run_step cs s (s\<lparr> waiting := rest, alone := Some c,
          events := events s @ [Started (collector_name c)] \<rparr>)"
| alone_finished: "alone s = Some c
    \<Longrightarrow> run_step cs s (s\<lparr> alone := None, collected := collected s @ [facet_of c],
          events := events s @ [Finished (name (facet_of c)) (outcome (facet_of c))] \<rparr>)"

inductive_cases run_stepE: "run_step cs s s'"

definition run_over :: "run_state \<Rightarrow> bool" where
  "run_over s \<longleftrightarrow> (\<forall>w \<in> set (workers s). w = Joined) \<and> waiting s = [] \<and> alone s = None"

text \<open>What \<open>run\<close> returns from a state in which every thread has finished.\<close>

definition run_result :: "run_state \<Rightarrow> fingerprint_error + fingerprint" where
  "run_result s = from_facets (collected s)"

abbreviation reached :: "collector_port list \<Rightarrow> run_state \<Rightarrow> bool" where
  "reached cs \<equiv> (run_step cs)\<^sup>*\<^sup>* (run_start cs)"

section \<open>What every step keeps\<close>

fun in_hand :: "worker \<Rightarrow> facet multiset" where
  "in_hand (Drawn c) = {#facet_of c#}"
| "in_hand (Asking c) = {#facet_of c#}"
| "in_hand (Reported f) = {#f#}"
| "in_hand _ = {#}"

definition facets_due :: "collector_port list \<Rightarrow> run_state \<Rightarrow> facet multiset" where
  "facets_due cs s = mset (collected s) + sum_list (map in_hand (workers s))
     + mset (map facet_of (drop (cursor s) (shared_of cs)))
     + mset (map facet_of (waiting s)) + (case alone s of None \<Rightarrow> {#} | Some c \<Rightarrow> {#facet_of c#})"

definition run_ok :: "collector_port list \<Rightarrow> run_state \<Rightarrow> bool" where
  "run_ok cs s \<longleftrightarrow> facets_due cs s = mset (map facet_of cs)
     \<and> length (workers s) = min at_once (length (shared_of cs))
     \<and> (Joined \<in> set (workers s) \<longrightarrow> length (shared_of cs) \<le> cursor s)
     \<and> (alone s \<noteq> None \<longrightarrow> (\<forall>w \<in> set (workers s). w = Joined))"

lemma mset_facets_split:
  "mset (map facet_of cs) = mset (map facet_of (shared_of cs)) + mset (map facet_of (exclusive_of cs))"
  by (induction cs) (auto simp: shared_of_def exclusive_of_def)

lemma sum_replicate_empty: "sum_list (replicate n {#}) = {#}"
  by (induction n) auto

lemma run_ok_start: "run_ok cs (run_start cs)"
  using mset_facets_split[of cs]
  by (simp add: run_ok_def facets_due_def run_start_def sum_replicate_empty)

lemma in_hand_update:
  assumes "i < length ws"
  shows "sum_list (map in_hand (ws[i := w])) + in_hand (ws ! i) = sum_list (map in_hand ws) + in_hand w"
  using assms by (induction ws arbitrary: i) (auto split: nat.split simp: ac_simps)

lemma in_hand_move:
  assumes "i < length ws" "in_hand w = in_hand (ws ! i) + d"
  shows "sum_list (map in_hand (ws[i := w])) = sum_list (map in_hand ws) + d"
  using in_hand_update[OF assms(1), of w] assms(2) by (simp add: ac_simps)

lemma busy_not_alone:
  assumes "run_ok cs s" "i < length (workers s)" "workers s ! i \<noteq> Joined"
  shows "alone s = None"
  using assms unfolding run_ok_def by (metis nth_mem)

lemma run_ok_step: "run_step cs s s' \<Longrightarrow> run_ok cs s \<Longrightarrow> run_ok cs s'"
proof (induction rule: run_step.induct)
  case (draw i s)
  let ?w = "Drawn (shared_of cs ! cursor s)"
  have "sum_list (map in_hand ((workers s)[i := ?w])) = sum_list (map in_hand (workers s)) + in_hand ?w"
    using draw by (intro in_hand_move) simp_all
  moreover have "drop (cursor s) (shared_of cs) = shared_of cs ! cursor s # drop (Suc (cursor s)) (shared_of cs)"
    using draw by (simp add: Cons_nth_drop_Suc)
  moreover have "Joined \<in> set ((workers s)[i := ?w]) \<Longrightarrow> Joined \<in> set (workers s)"
    using set_update_subset_insert[of "workers s" i ?w] by auto
  moreover have "alone s = None"
    using draw by (auto intro!: busy_not_alone[of cs s i])
  ultimately show ?case using draw.prems by (auto simp: run_ok_def facets_due_def)
next
  case (leave i s)
  have "sum_list (map in_hand ((workers s)[i := Joined])) = sum_list (map in_hand (workers s)) + {#}"
    using leave by (intro in_hand_move) simp_all
  moreover have "alone s = None"
    using leave by (auto intro!: busy_not_alone[of cs s i])
  ultimately show ?case using leave by (auto simp: run_ok_def facets_due_def)
next
  case (tell_started i s c)
  have "sum_list (map in_hand ((workers s)[i := Asking c])) = sum_list (map in_hand (workers s)) + {#}"
    using tell_started by (intro in_hand_move) simp_all
  moreover have "Joined \<in> set ((workers s)[i := Asking c]) \<Longrightarrow> Joined \<in> set (workers s)"
    using set_update_subset_insert[of "workers s" i "Asking c"] by auto
  moreover have "alone s = None"
    using tell_started by (auto intro!: busy_not_alone[of cs s i])
  ultimately show ?case using tell_started by (auto simp: run_ok_def facets_due_def)
next
  case (tell_finished i s c)
  have "sum_list (map in_hand ((workers s)[i := Reported (facet_of c)])) = sum_list (map in_hand (workers s)) + {#}"
    using tell_finished by (intro in_hand_move) simp_all
  moreover have "Joined \<in> set ((workers s)[i := Reported (facet_of c)]) \<Longrightarrow> Joined \<in> set (workers s)"
    using set_update_subset_insert[of "workers s" i "Reported (facet_of c)"] by auto
  moreover have "alone s = None"
    using tell_finished by (auto intro!: busy_not_alone[of cs s i])
  ultimately show ?case using tell_finished by (auto simp: run_ok_def facets_due_def)
next
  case (push i s f)
  have "sum_list (map in_hand ((workers s)[i := Drawing])) + {#f#} = sum_list (map in_hand (workers s))"
    using in_hand_update[OF push(1), of Drawing] push(2) by simp
  then have "sum_list (map in_hand (workers s)) = add_mset f (sum_list (map in_hand ((workers s)[i := Drawing])))"
    by (simp add: ac_simps)
  moreover have "Joined \<in> set ((workers s)[i := Drawing]) \<Longrightarrow> Joined \<in> set (workers s)"
    using set_update_subset_insert[of "workers s" i Drawing] by auto
  moreover have "alone s = None"
    using push by (auto intro!: busy_not_alone[of cs s i])
  ultimately show ?case using push by (auto simp: run_ok_def facets_due_def)
next
  case (alone_started s c rest)
  then show ?case by (auto simp: run_ok_def facets_due_def)
next
  case (alone_finished s c)
  then show ?case by (auto simp: run_ok_def facets_due_def)
qed

lemma run_ok_reached: "reached cs s \<Longrightarrow> run_ok cs s"
  by (induction rule: rtranclp_induct) (auto intro: run_ok_start run_ok_step)

lemma run_over_facets:
  assumes "run_ok cs s" "run_over s"
  shows "mset (collected s) = mset (map facet_of cs)"
proof -
  have "map in_hand (workers s) = replicate (length (workers s)) {#}"
    using assms(2) by (intro nth_equalityI) (auto simp: run_over_def dest: bspec[OF _ nth_mem])
  then have none: "sum_list (map in_hand (workers s)) = {#}" by (simp add: sum_replicate_empty)
  have "length (shared_of cs) \<le> cursor s"
  proof (cases "workers s")
    case Nil
    with assms(1) show ?thesis by (auto simp: run_ok_def at_once_def)
  next
    case (Cons w ws)
    with assms show ?thesis by (auto simp: run_ok_def run_over_def)
  qed
  with assms none show ?thesis by (simp add: run_ok_def run_over_def facets_due_def)
qed

section \<open>Every schedule ends\<close>

fun worker_steps :: "worker \<Rightarrow> nat" where
  "worker_steps Drawing = 1"
| "worker_steps (Drawn _) = 4"
| "worker_steps (Asking _) = 3"
| "worker_steps (Reported _) = 2"
| "worker_steps Joined = 0"

definition steps_left :: "collector_port list \<Rightarrow> run_state \<Rightarrow> nat" where
  "steps_left cs s = 4 * (length (shared_of cs) - cursor s) + sum_list (map worker_steps (workers s))
     + 2 * length (waiting s) + (case alone s of None \<Rightarrow> 0 | Some _ \<Rightarrow> 1)"

lemma worker_steps_update:
  "i < length ws \<Longrightarrow> sum_list (map worker_steps (ws[i := w])) + worker_steps (ws ! i)
     = sum_list (map worker_steps ws) + worker_steps w"
  by (induction ws arbitrary: i) (auto split: nat.split)

lemma steps_left_step: "run_step cs s s' \<Longrightarrow> steps_left cs s' < steps_left cs s"
proof (induction rule: run_step.induct)
  case (draw i s)
  then show ?case using worker_steps_update[OF draw(1), of "Drawn (shared_of cs ! cursor s)"]
    by (simp add: steps_left_def)
next
  case (leave i s)
  then show ?case using worker_steps_update[OF leave(1), of Joined] by (simp add: steps_left_def)
next
  case (tell_started i s c)
  then show ?case using worker_steps_update[OF tell_started(1), of "Asking c"] by (simp add: steps_left_def)
next
  case (tell_finished i s c)
  then show ?case using worker_steps_update[OF tell_finished(1), of "Reported (facet_of c)"]
    by (simp add: steps_left_def)
next
  case (push i s f)
  then show ?case using worker_steps_update[OF push(1), of Drawing] by (simp add: steps_left_def)
qed (auto simp: steps_left_def)

text \<open>Nothing waits for ever: some thread can move until all are finished.\<close>

lemma run_progress:
  assumes "\<not> run_over s"
  shows "\<exists>s'. run_step cs s s'"
proof (cases "\<forall>w \<in> set (workers s). w = Joined")
  case True
  with assms consider c where "alone s = Some c" | c rest where "alone s = None" "waiting s = c # rest"
    by (cases "alone s"; cases "waiting s") (auto simp: run_over_def)
  then show ?thesis using True by cases (blast intro: run_step.intros)+
next
  case False
  then obtain i where i: "i < length (workers s)" "workers s ! i \<noteq> Joined" by (auto simp: in_set_conv_nth)
  then show ?thesis
    by (cases "workers s ! i"; cases "cursor s < length (shared_of cs)") (blast intro: run_step.intros)+
qed

lemma run_ends: "\<exists>s'. (run_step cs)\<^sup>*\<^sup>* s s' \<and> run_over s'"
proof (induction s rule: measure_induct_rule[of "steps_left cs"])
  case (less s)
  show ?case
  proof (cases "run_over s")
    case False
    then obtain s1 where "run_step cs s s1" using run_progress by blast
    with less[OF steps_left_step] show ?thesis by (meson converse_rtranclp_into_rtranclp)
  qed auto
qed

lemma run_bounded: "(run_step cs ^^ n) s s' \<Longrightarrow> n + steps_left cs s' \<le> steps_left cs s"
proof (induction n arbitrary: s')
  case (Suc n)
  then obtain s1 where "(run_step cs ^^ n) s s1" "run_step cs s1 s'" by auto
  with Suc.IH[of s1] steps_left_step[of cs s1 s'] show ?case by simp
qed simp

end
