(* ===== verification/SetOrder.thy ===== *)
theory SetOrder
  imports Observation
begin

text \<open>
  The order the port gives a set (\<open>observation/order.rs\<close>), the sets it is given to
  (\<open>Observation::set_by\<close>, \<open>VisibleSet::iter\<close>) and the owned view that has to agree with it
  (\<open>Observation::in_view\<close>).  The comparison of the source recurses through sets it sorts with
  itself; the proofs go through \<open>canon\<close>, the tree a view shows with its sets already in order,
  on which the same comparison is plainly structural.
\<close>

section \<open>Comparing what a view shows\<close>

fun shape_rank :: "visible_content \<Rightarrow> nat" where
  "shape_rank (VScalar _) = 0"
| "shape_rank (VObject _ _ _) = 1"
| "shape_rank (VSequence _ _ _) = 2"
| "shape_rank (VSet _ _ _ _) = 3"

fun first_unequal :: "comparison list \<Rightarrow> comparison" where
  "first_unequal [] = Equal"
| "first_unequal (Equal # cs) = first_unequal cs"
| "first_unequal (c # cs) = c"

abbreviation vsize :: "visible \<Rightarrow> nat" where
  "vsize v \<equiv> size (observation_of v)"

lemma content_shown_children:
  "content_shown H v = VObject es p w \<Longrightarrow> content_of (observation_of v) = Object es \<and> presentation_of v = p \<and> withheld_of v = w"
  "content_shown H v = VSequence items p w \<Longrightarrow> content_of (observation_of v) = Sequence items \<and> presentation_of v = p \<and> withheld_of v = w"
  "content_shown H v = VSet items leading p w \<Longrightarrow> content_of (observation_of v) = SetOf items leading \<and> presentation_of v = p \<and> withheld_of v = w"
  by (cases v; auto split: content.splits)+

lemma vsize_object_iter:
  assumes "content_shown H v = VObject es p w" "x \<in> set (object_iter es p w)"
  shows "vsize (snd x) < vsize v"
proof (rule size_child)
  have "observation_of (snd x) \<in> snd ` set es"
    using assms(2) object_iter_sub[of "fst x" "snd x"] by simp
  with content_shown_children(1)[OF assms(1)]
  show "observation_of (snd x) \<in> set (children (content_of (observation_of v)))" by simp
qed

lemma vsize_object_get:
  assumes "content_shown H v = VObject es p w" "object_get es p w key = Some x"
  shows "vsize x < vsize v"
proof (rule size_child)
  show "observation_of x \<in> set (children (content_of (observation_of v)))"
    using object_get_sub[OF assms(2)] content_shown_children(1)[OF assms(1)] by simp
qed

lemma vsize_sequence:
  assumes "content_shown H v = VSequence items p w" "x \<in> set (visible_items items p w)"
  shows "vsize x < vsize v"
proof (rule size_child)
  show "observation_of x \<in> set (children (content_of (observation_of v)))"
    using visible_items_sub[OF assms(2)] content_shown_children(2)[OF assms(1)] by simp
qed

lemma vsize_set:
  assumes "content_shown H v = VSet items leading p w" "x \<in> set (visible_items items p w)"
  shows "vsize x < vsize v"
proof (rule size_child)
  show "observation_of x \<in> set (children (content_of (observation_of v)))"
    using visible_items_sub[OF assms(2)] content_shown_children(3)[OF assms(1)] by simp
qed

lemma below_max:
  "a < l \<Longrightarrow> a < max l r" "a < r \<Longrightarrow> a < max l r" "a < l \<Longrightarrow> a \<le> max l r" "a < r \<Longrightarrow> a \<le> max l r"
  "Suc (2 * l) < 2 * r \<longleftrightarrow> l < r" "2 * l < Suc (2 * r) \<longleftrightarrow> l \<le> r" for a l r :: nat
  by auto

lemmas vsize_smaller = vsize_object_iter vsize_object_iter[of _ _ _ _ _ "(k, x)" for k x, unfolded snd_conv]
  vsize_object_get vsize_sequence vsize_set

lemmas vsize_below_max = vsize_smaller[OF sym, THEN below_max(1)] vsize_smaller[OF sym, THEN below_max(2)]
  vsize_smaller[OF sym, THEN below_max(3)] vsize_smaller[OF sym, THEN below_max(4)]

function compare :: "hashes \<Rightarrow> visible \<Rightarrow> visible \<Rightarrow> comparison"
  and compare_led_by :: "hashes \<Rightarrow> str list \<Rightarrow> visible \<Rightarrow> visible \<Rightarrow> comparison" where
  "compare H left right =
     (case (content_shown H left, content_shown H right) of
        (VScalar a, VScalar b) \<Rightarrow> compare_scalars a b
      | (VObject a pa wa, VObject b pb wb) \<Rightarrow>
          lexicographic
            (\<lambda>x y. then_with (cmp_of (fst x) (fst y)) (compare H (snd x) (snd y)))
            (object_iter a pa wa) (object_iter b pb wb)
      | (VSequence a pa wa, VSequence b pb wb) \<Rightarrow>
          lexicographic (\<lambda>x y. compare H x y) (visible_items a pa wa) (visible_items b pb wb)
      | (VSet a la pa wa, VSet b lb pb wb) \<Rightarrow>
          lexicographic (\<lambda>x y. compare H x y)
            (sort_by (\<lambda>x y. compare_led_by H la x y) (visible_items a pa wa))
            (sort_by (\<lambda>x y. compare_led_by H lb x y) (visible_items b pb wb))
      | (l, r) \<Rightarrow> cmp_of (shape_rank l) (shape_rank r))"
| "compare_led_by H leading left right =
     then_with
       (case (content_shown H left, content_shown H right) of
          (VObject a pa wa, VObject b pb wb) \<Rightarrow>
            first_unequal (map (\<lambda>key.
                case (object_get a pa wa key, object_get b pb wb key) of
                  (None, None) \<Rightarrow> Equal
                | (None, Some _) \<Rightarrow> Less
                | (Some _, None) \<Rightarrow> Greater
                | (Some x, Some y) \<Rightarrow> compare H x y) leading)
        | _ \<Rightarrow> Equal)
       (compare H left right)"
  by pat_completeness auto
termination
proof (relation "measure (\<lambda>x. case x of
    Inl (H, l, r) \<Rightarrow> 2 * max (vsize l) (vsize r)
  | Inr (H, leading, l, r) \<Rightarrow> Suc (2 * max (vsize l) (vsize r)))", goal_cases)
qed (simp_all add: below_max(5,6), (auto intro: vsize_below_max)+)

declare compare.simps [simp del] compare_led_by.simps [simp del]

definition set_iter :: "hashes \<Rightarrow> observation list \<Rightarrow> str list \<Rightarrow> presentation \<Rightarrow> bool \<Rightarrow> visible list" where
  "set_iter H items leading p w = sort_by (compare_led_by H leading) (visible_items items p w)"

section \<open>The order a set is stored in\<close>

definition annotations_of :: "observation \<Rightarrow> volatility \<times> sensitivity \<times> completeness \<times> fidelity" where
  "annotations_of ob = (volatility_of ob, sensitivity_of ob, completeness_of ob, fidelity_of ob)"

lemma size_object_child: "content_of ob = Object es \<Longrightarrow> (k, c) \<in> set es \<Longrightarrow> size c < size ob"
  by (rule size_child) (auto intro: rev_image_eqI)

lemma size_sequence_child: "content_of ob = Sequence items \<Longrightarrow> c \<in> set items \<Longrightarrow> size c < size ob"
  by (rule size_child) simp

lemma size_set_child: "content_of ob = SetOf items leading \<Longrightarrow> c \<in> set items \<Longrightarrow> size c < size ob"
  by (rule size_child) simp

lemmas size_content_child = size_object_child size_sequence_child size_set_child
  size_object_child[OF sym] size_sequence_child[OF sym] size_set_child[OF sym]

function compare_annotations :: "observation \<Rightarrow> observation \<Rightarrow> comparison" where
  "compare_annotations left right =
     then_with (cmp_of (annotations_of left) (annotations_of right))
       (case (content_of left, content_of right) of
          (Object a, Object b) \<Rightarrow> lexicographic (\<lambda>x y. compare_annotations x y) (map snd a) (map snd b)
        | (Sequence a, Sequence b) \<Rightarrow> lexicographic (\<lambda>x y. compare_annotations x y) a b
        | (SetOf a left_leading, SetOf b right_leading) \<Rightarrow>
            then_with (cmp_of left_leading right_leading)
              (lexicographic (\<lambda>x y. compare_annotations x y) a b)
        | _ \<Rightarrow> Equal)"
  by pat_completeness auto
termination
  by (relation "measure (\<lambda>(l, r). size l)") (auto intro: size_content_child)

declare compare_annotations.simps [simp del]

definition compare_stored :: "hashes \<Rightarrow> str list \<Rightarrow> observation \<Rightarrow> observation \<Rightarrow> comparison" where
  "compare_stored H leading left right =
     then_with
       (case (visible_in (raw complete) left, visible_in (raw complete) right) of
          (Some l, Some r) \<Rightarrow> compare_led_by H leading l r
        | _ \<Rightarrow> Equal \<comment> \<open>unreachable: the complete view drops nothing\<close>)
       (compare_annotations left right)"

definition sort_observations :: "hashes \<Rightarrow> observation list \<Rightarrow> str list \<Rightarrow> observation list" where
  "sort_observations H items leading = sort_by (compare_stored H leading) items"

definition set_by :: "hashes \<Rightarrow> str list \<Rightarrow> observation list \<Rightarrow> observation" where
  "set_by H leading items = unannotated (SetOf (sort_observations H items leading) leading)"

definition set_of :: "hashes \<Rightarrow> observation list \<Rightarrow> observation" where
  "set_of H items = set_by H [] items"

section \<open>The owned view\<close>

lemma map_filter_cong [fundef_cong]:
  "xs = ys \<Longrightarrow> (\<And>x. x \<in> set ys \<Longrightarrow> f x = g x) \<Longrightarrow> List.map_filter f xs = List.map_filter g ys"
  by (induction ys arbitrary: xs) (auto simp: map_filter_simps split: option.split)

function materialised :: "hashes \<Rightarrow> presentation \<Rightarrow> bool \<Rightarrow> observation \<Rightarrow> observation option" where
  "materialised H p inherited ob =
     (if dropped_by ob p then None
      else
        let withheld = withheld_under ob p inherited;
            content = (case content_of ob of
                Scalar s \<Rightarrow> Scalar (shown H s withheld)
              | Object entries \<Rightarrow>
                  Object (btree_collect
                    (List.map_filter
                      (\<lambda>(key, child). map_option (Pair key) (materialised H p withheld child)) entries))
              | Sequence items \<Rightarrow> Sequence (List.map_filter (\<lambda>item. materialised H p withheld item) items)
              | SetOf items leading \<Rightarrow>
                  SetOf (sort_observations H
                    (List.map_filter (\<lambda>item. materialised H p withheld item) items) leading) leading)
        in Some (Observation (volatility_of ob) (sensitivity_of ob) (completeness_of ob)
                   (fidelity_of ob) content))"
  by pat_completeness auto
termination
  by (relation "measure (\<lambda>(H, p, w, ob). size ob)")
    (auto intro: size_content_child)

declare materialised.simps [simp del]

definition in_view :: "hashes \<Rightarrow> presentation \<Rightarrow> observation \<Rightarrow> observation option" where
  "in_view H p ob = materialised H p False ob"

end
