(* ===== verification/Canon.thy ===== *)
theory Canon
  imports SetOrder
begin

text \<open>
  What a view shows, as one tree with every set in order: the abstract specification of
  \<open>order.rs\<close>.  On it the comparison is a linear order by structural recursion
  (\<open>compare_shown\<close>), and \<open>compare_canon\<close> says the source's mutually recursive comparison is
  that order.  Everything the document's determinism rests on follows from it.
\<close>

datatype shown_tree =
    ShownScalar (the_scalar: scalar)
  | ShownObject (the_entries: "(str \<times> shown_tree) list")
  | ShownSequence (the_items: "shown_tree list")
  | ShownSet (the_items: "shown_tree list")

function canon :: "hashes \<Rightarrow> visible \<Rightarrow> shown_tree" where
  "canon H v = (case content_shown H v of
      VScalar s \<Rightarrow> ShownScalar s
    | VObject es p w \<Rightarrow> ShownObject (map (\<lambda>x. (fst x, canon H (snd x))) (object_iter es p w))
    | VSequence items p w \<Rightarrow> ShownSequence (map (\<lambda>x. canon H x) (visible_items items p w))
    | VSet items leading p w \<Rightarrow> ShownSet (map (\<lambda>x. canon H x) (set_iter H items leading p w)))"
  by pat_completeness auto
termination
  by (relation "measure (\<lambda>(H, v). vsize v)") (auto simp: set_iter_def intro: vsize_smaller)

declare canon.simps [simp del]

lemma canon_shapes:
  "content_shown H v = VScalar s \<Longrightarrow> canon H v = ShownScalar s"
  "content_shown H v = VObject es p w \<Longrightarrow>
    canon H v = ShownObject (map (\<lambda>x. (fst x, canon H (snd x))) (object_iter es p w))"
  "content_shown H v = VSequence items p w \<Longrightarrow> canon H v = ShownSequence (map (canon H) (visible_items items p w))"
  "content_shown H v = VSet items leading p w \<Longrightarrow> canon H v = ShownSet (map (canon H) (set_iter H items leading p w))"
  by (subst canon.simps, simp)+

section \<open>The order on shown trees\<close>

fun tree_rank :: "shown_tree \<Rightarrow> nat" where
  "tree_rank (ShownScalar _) = 0"
| "tree_rank (ShownObject _) = 1"
| "tree_rank (ShownSequence _) = 2"
| "tree_rank (ShownSet _) = 3"

lemma tree_rank_iffs:
  "tree_rank x = 0 \<longleftrightarrow> (\<exists>s. x = ShownScalar s)"
  "tree_rank x = Suc 0 \<longleftrightarrow> (\<exists>es. x = ShownObject es)"
  "tree_rank x = 2 \<longleftrightarrow> (\<exists>xs. x = ShownSequence xs)"
  "tree_rank x = 3 \<longleftrightarrow> (\<exists>xs. x = ShownSet xs)"
  by (cases x; simp)+

abbreviation compare_entries :: "('a \<Rightarrow> 'a \<Rightarrow> comparison) \<Rightarrow> str \<times> 'a \<Rightarrow> str \<times> 'a \<Rightarrow> comparison" where
  "compare_entries cmp x y \<equiv> then_with (cmp_of (fst x) (fst y)) (cmp (snd x) (snd y))"

function compare_shown :: "shown_tree \<Rightarrow> shown_tree \<Rightarrow> comparison" where
  "compare_shown x y =
     (case (x, y) of
        (ShownScalar a, ShownScalar b) \<Rightarrow> compare_scalars a b
      | (ShownObject a, ShownObject b) \<Rightarrow>
          lexicographic (\<lambda>x y. then_with (cmp_of (fst x) (fst y)) (compare_shown (snd x) (snd y))) a b
      | (ShownSequence a, ShownSequence b) \<Rightarrow> lexicographic (\<lambda>x y. compare_shown x y) a b
      | (ShownSet a, ShownSet b) \<Rightarrow> lexicographic (\<lambda>x y. compare_shown x y) a b
      | _ \<Rightarrow> cmp_of (tree_rank x) (tree_rank y))"
  by pat_completeness auto
termination
  by (relation "measure (\<lambda>(x, y). size x)")
    (auto simp: less_Suc_eq_le intro!: size_list_estimation' le_SucI)

declare compare_shown.simps [simp del]

lemma size_shown_children:
  "(k, x) \<in> set es \<Longrightarrow> size x < size (ShownObject es)"
  "x \<in> set xs \<Longrightarrow> size x < size (ShownSequence xs)"
  "x \<in> set xs \<Longrightarrow> size x < size (ShownSet xs)"
  by (auto simp: less_Suc_eq_le intro!: size_list_estimation' le_SucI)

lemma compare_shown_eqs [simp]:
  "compare_shown (ShownScalar a) (ShownScalar b) = compare_scalars a b"
  "compare_shown (ShownObject es) (ShownObject fs) = lexicographic (compare_entries compare_shown) es fs"
  "compare_shown (ShownSequence xs) (ShownSequence ys) = lexicographic compare_shown xs ys"
  "compare_shown (ShownSet xs) (ShownSet ys) = lexicographic compare_shown xs ys"
  by (subst compare_shown.simps, simp)+

lemma compare_shown_mixed: "tree_rank x \<noteq> tree_rank y \<Longrightarrow> compare_shown x y = cmp_of (tree_rank x) (tree_rank y)"
  by (subst compare_shown.simps) (cases x; cases y; simp)

lemma compare_shown_ranked: "compare_shown = compare_ranked tree_rank compare_shown"
  by (intro ext) (simp add: compare_ranked_def compare_shown_mixed)

lemma compare_entries_linear:
  assumes "linear_comparator_on cmp A"
  shows "linear_comparator_on (compare_entries cmp) (UNIV \<times> A)"
proof (rule then_with_linear)
  show "comparator_on (\<lambda>x y. cmp_of (fst x) (fst y)) (UNIV \<times> A)"
    by (rule comparator_pullback[OF cmp_of.comparator_on_axioms]) simp
  show "comparator_on (\<lambda>x y. cmp (snd x) (snd y)) (UNIV \<times> A)"
    by (rule comparator_pullback[OF linear_imp_comparator[OF assms]]) auto
  show "x = y" if "x \<in> UNIV \<times> A" "y \<in> UNIV \<times> A" "cmp_of (fst x) (fst y) = Equal"
    "cmp (snd x) (snd y) = Equal" for x y
    using that linear_comparator_on.cmp_eq[OF assms, of "snd x" "snd y"] by (auto simp: cmp_simps)
qed

text \<open>The order is linear: up to any size, and so altogether.\<close>

lemma compare_shown_linear_upto: "linear_comparator_on compare_shown {x. size x < n}"
proof (induction n)
  case 0
  show ?case by unfold_locales auto
next
  case (Suc n)
  let ?A = "{x. size x < n}" and ?B = "{x. size x < Suc n}"
  have "linear_comparator_on compare_shown {x \<in> ?B. tree_rank x = r}" for r
  proof -
    let ?C = "{x \<in> ?B. tree_rank x = r}"
    consider (scalar) "r = 0" | (object) "r = 1" | (sequence) "r = 2" | (set) "r = 3" | (none) "3 < r" by linarith
    then show ?thesis
    proof cases
      case scalar
      have "linear_comparator_on (\<lambda>x y. compare_scalars (the_scalar x) (the_scalar y)) ?C"
        by (rule linear_comparator_pullback[OF scalars.linear_comparator_on_axioms])
          (auto simp: inj_on_def scalar tree_rank_iffs)
      then show ?thesis
        by (rule linear_comparator_cong) (auto simp: scalar tree_rank_iffs)
    next
      case object
      have "linear_comparator_on (\<lambda>x y. lexicographic (compare_entries compare_shown) (the_entries x) (the_entries y)) ?C"
        by (rule linear_comparator_pullback[OF linear_comparator_on.lexicographic_linear[OF compare_entries_linear[OF Suc]]])
          (auto simp: inj_on_def object tree_rank_iffs dest: size_shown_children)
      then show ?thesis
        by (rule linear_comparator_cong) (auto simp: object tree_rank_iffs)
    next
      case sequence
      have "linear_comparator_on (\<lambda>x y. lexicographic compare_shown (the_items x) (the_items y)) ?C"
        by (rule linear_comparator_pullback[OF linear_comparator_on.lexicographic_linear[OF Suc]])
          (auto simp: inj_on_def sequence tree_rank_iffs dest: size_shown_children)
      then show ?thesis
        by (rule linear_comparator_cong) (auto simp: sequence tree_rank_iffs)
    next
      case set
      have "linear_comparator_on (\<lambda>x y. lexicographic compare_shown (the_items x) (the_items y)) ?C"
        by (rule linear_comparator_pullback[OF linear_comparator_on.lexicographic_linear[OF Suc]])
          (auto simp: inj_on_def set tree_rank_iffs dest: size_shown_children)
      then show ?thesis
        by (rule linear_comparator_cong) (auto simp: set tree_rank_iffs)
    next
      case none
      have "tree_rank x \<le> 3" for x by (cases x) auto
      with none have "?C = {}" by (auto simp: not_le[symmetric])
      then show ?thesis by unfold_locales auto
    qed
  qed
  then have "linear_comparator_on (compare_ranked tree_rank compare_shown) ?B" by (rule compare_ranked_linear)
  then show ?case using compare_shown_ranked by simp
qed

interpretation shown: linear_comparator_on compare_shown UNIV
proof (rule linear_comparatorI)
  fix x y z :: shown_tree
  let ?n = "Suc (max (size x) (max (size y) (size z)))"
  have mem: "x \<in> {t. size t < ?n}" "y \<in> {t. size t < ?n}" "z \<in> {t. size t < ?n}" by auto
  note lin = compare_shown_linear_upto[of ?n]
  note pre = linear_imp_comparator[OF lin]
  show "compare_shown y x = reverse (compare_shown x y)" by (rule comparator_on.cmp_swap[OF pre mem(1,2)])
  show "compare_shown x y \<noteq> Greater \<Longrightarrow> compare_shown y z \<noteq> Greater \<Longrightarrow> compare_shown x z \<noteq> Greater"
    by (rule comparator_on.cmp_trans[OF pre mem])
  show "compare_shown x y = Equal \<Longrightarrow> x = y" by (rule linear_comparator_on.cmp_eq[OF lin mem(1,2)])
qed


section \<open>Led by named fields\<close>

definition leading_fields :: "str list \<Rightarrow> shown_tree \<Rightarrow> shown_tree option list" where
  "leading_fields leading t = (case t of ShownObject es \<Rightarrow> map (map_of es) leading | _ \<Rightarrow> [])"

definition compare_led_shown :: "str list \<Rightarrow> shown_tree \<Rightarrow> shown_tree \<Rightarrow> comparison" where
  "compare_led_shown leading = compare_ranked tree_rank
     (\<lambda>x y. then_with
        (lexicographic (compare_options compare_shown) (leading_fields leading x) (leading_fields leading y))
        (compare_shown x y))"

interpretation led: linear_comparator_on "compare_led_shown leading" UNIV for leading
proof -
  have "linear_comparator_on (compare_options compare_shown) UNIV"
    using shown.options_linear by (simp add: notin_range_Some[symmetric] UNIV_option_conv)
  then have "linear_comparator_on (lexicographic (compare_options compare_shown)) UNIV"
    using linear_comparator_on.lexicographic_linear by fastforce
  then have fields: "comparator_on (\<lambda>x y. lexicographic (compare_options compare_shown)
      (leading_fields leading x) (leading_fields leading y)) A" for A
    by (rule comparator_pullback[OF linear_imp_comparator]) simp
  have "comparator_on compare_shown A" for A
    using linear_comparator_subset[OF shown.linear_comparator_on_axioms] linear_imp_comparator by blast
  then have "linear_comparator_on (\<lambda>x y. then_with (lexicographic (compare_options compare_shown)
      (leading_fields leading x) (leading_fields leading y)) (compare_shown x y)) A" for A
    by (intro then_with_linear[OF fields]) (auto intro: shown.cmp_eq)
  then show "linear_comparator_on (compare_led_shown leading) UNIV"
    unfolding compare_led_shown_def by (rule compare_ranked_linear)
qed

section \<open>The comparison of the source is that order\<close>

text \<open>
  Objects as the source can build them: \<open>BTreeMap\<close>s, at every depth.  The field \<open>content\<close> is private
  and every constructor keeps this.
\<close>

function keys_ok :: "observation \<Rightarrow> bool" where
  "keys_ok ob \<longleftrightarrow>
     (case content_of ob of Object es \<Rightarrow> btree_sorted es | _ \<Rightarrow> True)
     \<and> (\<forall>child \<in> set (children (content_of ob)). keys_ok child)"
  by pat_completeness auto
termination
  by (relation "measure size") (auto intro: size_child)

declare keys_ok.simps [simp del]

lemma keys_ok_child: "keys_ok ob \<Longrightarrow> child \<in> set (children (content_of ob)) \<Longrightarrow> keys_ok child"
  by (subst (asm) keys_ok.simps) blast

lemma keys_ok_object: "keys_ok ob \<Longrightarrow> content_of ob = Object es \<Longrightarrow> btree_sorted es"
  by (subst (asm) keys_ok.simps) simp

abbreviation vkeys_ok :: "visible \<Rightarrow> bool" where
  "vkeys_ok v \<equiv> keys_ok (observation_of v)"

lemma vkeys_ok_children:
  assumes "vkeys_ok v"
  shows "content_shown H v = VObject es p w \<Longrightarrow> x \<in> set (object_iter es p w) \<Longrightarrow> vkeys_ok (snd x)"
    and "content_shown H v = VObject es p w \<Longrightarrow> object_get es p w key = Some x' \<Longrightarrow> vkeys_ok x'"
    and "content_shown H v = VSequence items p w \<Longrightarrow> x' \<in> set (visible_items items p w) \<Longrightarrow> vkeys_ok x'"
    and "content_shown H v = VSet items leading p w \<Longrightarrow> x' \<in> set (visible_items items p w) \<Longrightarrow> vkeys_ok x'"
    and "content_shown H v = VObject es p w \<Longrightarrow> btree_sorted es"
proof -
  note child = keys_ok_child[OF assms]
  show "vkeys_ok (snd x)" if "content_shown H v = VObject es p w" "x \<in> set (object_iter es p w)"
    using content_shown_children(1)[OF that(1)] object_iter_sub[of "fst x" "snd x"] that(2)
    by (intro child) simp
  show "vkeys_ok x'" if "content_shown H v = VObject es p w" "object_get es p w key = Some x'"
    using content_shown_children(1)[OF that(1)] object_get_sub[OF that(2)] by (intro child) simp
  show "vkeys_ok x'" if "content_shown H v = VSequence items p w" "x' \<in> set (visible_items items p w)"
    using content_shown_children(2)[OF that(1)] visible_items_sub[OF that(2)] by (intro child) simp
  show "vkeys_ok x'" if "content_shown H v = VSet items leading p w" "x' \<in> set (visible_items items p w)"
    using content_shown_children(3)[OF that(1)] visible_items_sub[OF that(2)] by (intro child) simp
  show "btree_sorted es" if "content_shown H v = VObject es p w"
    using content_shown_children(1)[OF that] keys_ok_object[OF assms] by blast
qed

lemma object_get_iter:
  assumes "btree_sorted es"
  shows "object_get es p w key = map_of (object_iter es p w) key"
proof -
  have "distinct (map fst es)" using assms by (simp add: btree_sorted_def strict_sorted_iff)
  then show ?thesis
    unfolding object_get_def object_iter_def btree_get_def
  proof (induction es)
    case (Cons e es)
    have "map_of (List.map_filter (\<lambda>(key, child). map_option (Pair key) (visible_under p w child)) es) k = None"
      if "k \<notin> set (map fst es)" for k
      using that by (force simp: map_of_eq_None_iff set_map_filter)
    with Cons show ?case by (cases e) (auto simp: map_filter_simps split: option.splits)
  qed (simp add: map_filter_simps)
qed

lemma map_of_map_snd: "map_of (map (\<lambda>x. (fst x, f (snd x))) xs) k = map_option f (map_of xs k)"
  by (induction xs) auto

lemma canon_object_get:
  assumes "content_shown H v = VObject es p w" "vkeys_ok v"
  shows "map_option (canon H) (object_get es p w key)
    = map_of (map (\<lambda>x. (fst x, canon H (snd x))) (object_iter es p w)) key"
  using object_get_iter[OF vkeys_ok_children(5)[OF assms(2,1)], of p w key]
  by (simp add: map_of_map_snd)

lemma first_unequal_lexicographic:
  "first_unequal (map (\<lambda>k. cmp (f k) (g k)) ks) = lexicographic cmp (map f ks) (map g ks)"
proof (induction ks)
  case (Cons k ks)
  then show ?case by (cases "cmp (f k) (g k)") auto
qed simp


text \<open>
  The two comparisons, one size up: everything an item holds is smaller than the item.
\<close>

lemma compare_step:
  assumes IH: "\<And>l r. vsize l < n \<Longrightarrow> vsize r < n \<Longrightarrow> vkeys_ok l \<Longrightarrow> vkeys_ok r \<Longrightarrow>
      compare H l r = compare_shown (canon H l) (canon H r)"
    and le: "vsize left \<le> n" "vsize right \<le> n" and ok: "vkeys_ok left" "vkeys_ok right"
  shows "compare H left right = compare_shown (canon H left) (canon H right)"
proof -
  note okl = vkeys_ok_children[OF ok(1), where H = H] and okr = vkeys_ok_children[OF ok(2), where H = H]
  have items: "lexicographic (compare H) xs ys = lexicographic compare_shown (map (canon H) xs) (map (canon H) ys)"
    if "\<And>x. x \<in> set xs \<Longrightarrow> vsize x < vsize left \<and> vkeys_ok x"
      "\<And>y. y \<in> set ys \<Longrightarrow> vsize y < vsize right \<and> vkeys_ok y" for xs ys
  proof -
    have "lexicographic (compare H) xs ys = lexicographic (\<lambda>x y. compare_shown (canon H x) (canon H y)) xs ys"
      using that le by (intro lexicographic_cong IH) (auto intro: less_le_trans)
    then show ?thesis by (simp add: lexicographic_map)
  qed
  have entries: "lexicographic (compare_entries (compare H)) es fs
      = lexicographic (compare_entries compare_shown)
          (map (\<lambda>x. (fst x, canon H (snd x))) es) (map (\<lambda>x. (fst x, canon H (snd x))) fs)"
    if "\<And>x. x \<in> set es \<Longrightarrow> vsize (snd x) < vsize left \<and> vkeys_ok (snd x)"
      "\<And>y. y \<in> set fs \<Longrightarrow> vsize (snd y) < vsize right \<and> vkeys_ok (snd y)" for es fs
  proof -
    have "lexicographic (compare_entries (compare H)) es fs
        = lexicographic (\<lambda>x y. compare_entries compare_shown (fst x, canon H (snd x)) (fst y, canon H (snd y))) es fs"
    proof (intro lexicographic_cong)
      fix x y assume "x \<in> set es" "y \<in> set fs"
      with that[of x] that(2)[of y] le IH[of "snd x" "snd y"]
      show "compare_entries (compare H) x y
          = compare_entries compare_shown (fst x, canon H (snd x)) (fst y, canon H (snd y))"
        using less_le_trans by auto
    qed simp_all
    then show ?thesis
      by (simp only: lexicographic_map[where f = "\<lambda>x. (fst x, canon H (snd x))" and cmp = "compare_entries compare_shown"])
  qed
  show ?thesis
  proof (cases "content_shown H left"; cases "content_shown H right")
    fix a pa wa b pb wb
    assume shape: "content_shown H left = VObject a pa wa" "content_shown H right = VObject b pb wb"
    show ?thesis using okl okr shape
      by (subst compare.simps) (simp add: canon_shapes entries vsize_object_iter)
  next
    fix a pa wa b pb wb
    assume shape: "content_shown H left = VSequence a pa wa" "content_shown H right = VSequence b pb wb"
    show ?thesis using okl okr shape
      by (subst compare.simps) (simp add: canon_shapes items vsize_sequence)
  next
    fix a la pa wa b lb pb wb
    assume shape: "content_shown H left = VSet a la pa wa" "content_shown H right = VSet b lb pb wb"
    have "lexicographic (compare H) (set_iter H a la pa wa) (set_iter H b lb pb wb)
        = lexicographic compare_shown (map (canon H) (set_iter H a la pa wa)) (map (canon H) (set_iter H b lb pb wb))"
      using okl(4)[OF shape(1)] okr(4)[OF shape(2)] vsize_set[OF shape(1)] vsize_set[OF shape(2)]
      by (intro items) (simp_all add: set_iter_def)
    then show ?thesis
      by (subst compare.simps) (simp add: shape canon_shapes(4)[OF shape(1)] canon_shapes(4)[OF shape(2)] set_iter_def)
  qed (subst compare.simps, simp add: canon_shapes compare_shown_mixed)+
qed

text \<open>
  The source's comparison is the structural one on what is shown.
\<close>

lemma compare_canon_upto:
  "vsize l < n \<Longrightarrow> vsize r < n \<Longrightarrow> vkeys_ok l \<Longrightarrow> vkeys_ok r \<Longrightarrow>
    compare H l r = compare_shown (canon H l) (canon H r)"
proof (induction n arbitrary: l r)
  case (Suc n)
  show ?case by (rule compare_step[OF Suc.IH]) (use Suc.prems in \<open>simp_all add: less_Suc_eq_le\<close>)
qed simp

lemma compare_canon:
  assumes "vkeys_ok l" "vkeys_ok r"
  shows "compare H l r = compare_shown (canon H l) (canon H r)"
  using assms by (intro compare_canon_upto[where n = "Suc (max (vsize l) (vsize r))"]) auto

lemma tree_rank_canon: "tree_rank (canon H v) = shape_rank (content_shown H v)"
  by (subst canon.simps) (auto split: visible_content.split)

lemma compare_led_canon:
  assumes ok: "vkeys_ok l" "vkeys_ok r"
  shows "compare_led_by H leading l r = compare_led_shown leading (canon H l) (canon H r)"
proof -
  note whole = compare_canon[OF ok, of H]
  have fields: "first_unequal (map (\<lambda>key. case (object_get a pa wa key, object_get b pb wb key) of
                  (None, None) \<Rightarrow> Equal
                | (None, Some _) \<Rightarrow> Less
                | (Some _, None) \<Rightarrow> Greater
                | (Some x, Some y) \<Rightarrow> compare H x y) leading)
      = lexicographic (compare_options compare_shown)
          (leading_fields leading (canon H l)) (leading_fields leading (canon H r))"
    if shape: "content_shown H l = VObject a pa wa" "content_shown H r = VObject b pb wb"
    for a pa wa b pb wb
  proof -
    let ?e = "\<lambda>es p w. map (\<lambda>x. (fst x, canon H (snd x))) (object_iter es p w)"
    have "(case (object_get a pa wa key, object_get b pb wb key) of
                  (None, None) \<Rightarrow> Equal
                | (None, Some _) \<Rightarrow> Less
                | (Some _, None) \<Rightarrow> Greater
                | (Some x, Some y) \<Rightarrow> compare H x y)
        = compare_options compare_shown (map_of (?e a pa wa) key) (map_of (?e b pb wb) key)" for key
      using compare_canon[OF vkeys_ok_children(2)[OF ok(1) shape(1)] vkeys_ok_children(2)[OF ok(2) shape(2)], where H = H]
      by (auto simp: canon_object_get[OF shape(1) ok(1), symmetric] canon_object_get[OF shape(2) ok(2), symmetric]
          split: option.split)
    then show ?thesis
      by (simp add: first_unequal_lexicographic leading_fields_def canon_shapes shape)
  qed
  have fields': "first_unequal (map (\<lambda>key. case object_get a pa wa key of
          None \<Rightarrow> (case object_get b pb wb key of None \<Rightarrow> Equal | Some _ \<Rightarrow> Less)
        | Some x \<Rightarrow> (case object_get b pb wb key of None \<Rightarrow> Greater | Some y \<Rightarrow> compare H x y)) leading)
      = lexicographic (compare_options compare_shown)
          (leading_fields leading (canon H l)) (leading_fields leading (canon H r))"
    if "content_shown H l = VObject a pa wa" "content_shown H r = VObject b pb wb" for a pa wa b pb wb
    using fields[OF that] by simp
  show ?thesis
  proof (cases "shape_rank (content_shown H l) = shape_rank (content_shown H r)")
    case False
    then show ?thesis
      by (auto simp: compare_led_by.simps compare_led_shown_def compare_ranked_def tree_rank_canon
          whole compare_shown_mixed cmp_simps split: visible_content.split)
  next
    case True
    then show ?thesis
      by (cases "content_shown H l"; cases "content_shown H r")
        (auto simp: compare_led_by.simps compare_led_shown_def compare_ranked_def tree_rank_canon
          whole fields' leading_fields_def[of _ "ShownScalar _"] leading_fields_def[of _ "ShownSequence _"]
          leading_fields_def[of _ "ShownSet _"] canon_shapes(1,3,4))
  qed
qed

lemma canon_set_iter:
  assumes "\<And>ob. ob \<in> set items \<Longrightarrow> keys_ok ob"
  shows "map (canon H) (set_iter H items leading p w)
    = sort_by (compare_led_shown leading) (map (canon H) (visible_items items p w))"
proof -
  have "set_iter H items leading p w
      = sort_by (\<lambda>x y. compare_led_shown leading (canon H x) (canon H y)) (visible_items items p w)"
    unfolding set_iter_def
    by (intro sort_by_cong compare_led_canon refl) (auto intro: assms dest: visible_items_sub)
  then show ?thesis by (simp add: map_sort_by)
qed

end
