(* ===== verification/Views.thy ===== *)
theory Views
  imports Canon
begin

text \<open>
  What the order of \<open>order.rs\<close> and the two views of a tree are for.  The stored order of a set is a
  linear order on well-formed observations, so that the same items make the same set however they
  arrived; the owned view (\<open>in_view\<close>) and the borrowed one (\<open>visible_in\<close>) show the same tree; what a
  view drops has no influence on what it shows, and what it withholds is shown only as a digest.
\<close>

section \<open>Well-formed observations\<close>

function stored_ok :: "hashes \<Rightarrow> observation \<Rightarrow> bool" where
  "stored_ok H ob \<longleftrightarrow>
     (case content_of ob of
        Object es \<Rightarrow> btree_sorted es
      | SetOf items leading \<Rightarrow> sorted_by (compare_stored H leading) items
      | _ \<Rightarrow> True)
     \<and> (\<forall>child \<in> set (children (content_of ob)). stored_ok H child)"
  by pat_completeness auto
termination
  by (relation "measure (size \<circ> snd)") (auto intro: size_child)

declare stored_ok.simps [simp del]

lemma stored_ok_child: "stored_ok H ob \<Longrightarrow> child \<in> set (children (content_of ob)) \<Longrightarrow> stored_ok H child"
  by (subst (asm) stored_ok.simps) blast

lemma stored_ok_content:
  "stored_ok H ob \<Longrightarrow> content_of ob = Object es \<Longrightarrow> btree_sorted es"
  "stored_ok H ob \<Longrightarrow> content_of ob = SetOf items leading \<Longrightarrow> sorted_by (compare_stored H leading) items"
  by (subst (asm) stored_ok.simps; simp)+

lemma stored_keys_ok: "stored_ok H ob \<Longrightarrow> keys_ok ob"
proof (induction ob rule: observation_induct)
  case (child ob)
  then show ?case
    using stored_ok_child[OF child.prems]
    by (subst keys_ok.simps) (force split: content.split dest: stored_ok_content)
qed

section \<open>The whole tree of an observation\<close>

definition tree_of :: "hashes \<Rightarrow> observation \<Rightarrow> shown_tree" where
  "tree_of H ob = canon H (Visible ob (raw complete) False)"

lemma tree_of_shapes:
  "content_of ob = Scalar s \<Longrightarrow> tree_of H ob = ShownScalar s"
  "content_of ob = Object es \<Longrightarrow> tree_of H ob = ShownObject (map (\<lambda>x. (fst x, tree_of H (snd x))) es)"
  "content_of ob = Sequence items \<Longrightarrow> tree_of H ob = ShownSequence (map (tree_of H) items)"
  by (simp_all add: comp_def case_prod_unfold object_iter_complete_raw visible_items_complete_raw
      tree_of_def[abs_def] canon_shapes(1)[of _ _ s] canon_shapes(2)[of _ _ es "raw complete" False]
      canon_shapes(3)[of _ _ items "raw complete" False])

lemma tree_of_set:
  assumes "content_of ob = SetOf items leading" "\<And>item. item \<in> set items \<Longrightarrow> keys_ok item"
  shows "tree_of H ob = ShownSet (sort_by (compare_led_shown leading) (map (tree_of H) items))"
  using assms
  by (simp add: tree_of_def[abs_def] comp_def visible_items_complete_raw canon_set_iter
      canon_shapes(4)[of _ _ items leading "raw complete" False])

lemma compare_stored_led:
  assumes "keys_ok l" "keys_ok r"
  shows "compare_stored H leading l r
    = then_with (compare_led_shown leading (tree_of H l) (tree_of H r)) (compare_annotations l r)"
  using assms
  by (simp add: compare_stored_def visible_in_def visible_under_complete_raw compare_led_canon tree_of_def)

lemma tree_of_stored_set:
  assumes ok: "stored_ok H ob" and c: "content_of ob = SetOf items leading"
  shows "tree_of H ob = ShownSet (map (tree_of H) items)"
proof -
  have keys: "keys_ok item" if "item \<in> set items" for item
    using that stored_ok_child[OF ok] c by (auto intro: stored_keys_ok)
  have "sorted_by (\<lambda>x y. compare_led_shown leading (tree_of H x) (tree_of H y)) items"
    using stored_ok_content(2)[OF ok c]
    by (rule sorted_wrt_mono_rel[rotated]) (auto simp: compare_stored_led keys then_with_Greater_iff)
  then have "sorted_by (compare_led_shown leading) (map (tree_of H) items)" by (simp add: sorted_wrt_map)
  with keys c show ?thesis by (simp add: tree_of_set sort_by_sorted)
qed

section \<open>The annotations of an observation\<close>

datatype annotated = Annotated
  (its_annotations: "volatility \<times> sensitivity \<times> completeness \<times> fidelity")
  (its_leading: "str list") (its_children: "annotated list")

function annotated_of :: "observation \<Rightarrow> annotated" where
  "annotated_of ob = Annotated (annotations_of ob)
     (case content_of ob of SetOf _ leading \<Rightarrow> leading | _ \<Rightarrow> [])
     (map (\<lambda>x. annotated_of x) (children (content_of ob)))"
  by pat_completeness auto
termination
  by (relation "measure size") (auto intro: size_child)

declare annotated_of.simps [simp del]

function compare_annotated :: "annotated \<Rightarrow> annotated \<Rightarrow> comparison" where
  "compare_annotated x y = then_with
     (then_with (cmp_of (its_annotations x) (its_annotations y)) (cmp_of (its_leading x) (its_leading y)))
     (lexicographic (\<lambda>x y. compare_annotated x y) (its_children x) (its_children y))"
  by pat_completeness auto
termination
proof (relation "measure (size \<circ> fst)", goal_cases)
  case (2 x y a b)
  then show ?case by (cases x) (auto simp: less_Suc_eq_le intro!: size_list_estimation')
qed simp

declare compare_annotated.simps [simp del]

lemma size_annotated: "c \<in> set (its_children a) \<Longrightarrow> size c < size a"
  by (cases a) (auto simp: less_Suc_eq_le intro!: size_list_estimation')

lemma compare_annotated_eq:
  "compare_annotated = (\<lambda>x y. then_with
     (then_with (cmp_of (its_annotations x) (its_annotations y)) (cmp_of (its_leading x) (its_leading y)))
     (lexicographic compare_annotated (its_children x) (its_children y)))"
  by (intro ext) (subst compare_annotated.simps, simp)

lemma compare_annotated_upto: "linear_comparator_on compare_annotated {a. size a < n}"
proof (induction n)
  case 0
  show ?case by unfold_locales auto
next
  case (Suc n)
  let ?B = "{a. size a < Suc n}"
  have pull: "comparator_on (\<lambda>x y. cmp_of (f x) (f y)) ?B" for f :: "annotated \<Rightarrow> 'b::linorder"
    by (rule comparator_pullback[OF cmp_of.comparator_on_axioms]) simp
  have head: "linear_comparator_on (\<lambda>x y. then_with (cmp_of (fst x) (fst y)) (cmp_of (snd x) (snd y))) UNIV"
    for dummy :: "('b::linorder \<times> 'c::linorder)"
    by (intro then_with_linear comparator_pullback[OF cmp_of.comparator_on_axioms]) (auto simp: cmp_simps prod_eq_iff)
  have "comparator_on (\<lambda>x y. then_with (cmp_of (its_annotations x) (its_annotations y)) (cmp_of (its_leading x) (its_leading y))) ?B"
    using comparator_pullback[OF linear_imp_comparator[OF head], of "\<lambda>x. (its_annotations x, its_leading x)" ?B]
    by simp
  moreover have "comparator_on (\<lambda>x y. lexicographic compare_annotated (its_children x) (its_children y)) ?B"
    by (rule comparator_pullback[OF linear_imp_comparator[OF linear_comparator_on.lexicographic_linear[OF Suc]]])
      (auto dest: size_annotated)
  moreover have "x = y" if "x \<in> ?B" "y \<in> ?B"
    "then_with (cmp_of (its_annotations x) (its_annotations y)) (cmp_of (its_leading x) (its_leading y)) = Equal"
    "lexicographic compare_annotated (its_children x) (its_children y) = Equal" for x y
  proof -
    have "its_children x = its_children y"
      using that linear_comparator_on.cmp_eq[OF linear_comparator_on.lexicographic_linear[OF Suc], of "its_children x" "its_children y"]
      by (force dest: size_annotated)
    with that(3) show ?thesis by (cases x; cases y) (auto simp: cmp_simps)
  qed
  ultimately have "linear_comparator_on (\<lambda>x y. then_with
     (then_with (cmp_of (its_annotations x) (its_annotations y)) (cmp_of (its_leading x) (its_leading y)))
     (lexicographic compare_annotated (its_children x) (its_children y))) ?B"
    by (rule then_with_linear)
  then show ?case by (subst compare_annotated_eq)
qed

interpretation annotated: linear_comparator_on compare_annotated UNIV
proof (rule linear_comparatorI)
  fix x y z :: annotated
  let ?n = "Suc (max (size x) (max (size y) (size z)))"
  have mem: "x \<in> {t. size t < ?n}" "y \<in> {t. size t < ?n}" "z \<in> {t. size t < ?n}" by auto
  note lin = compare_annotated_upto[of ?n]
  note pre = linear_imp_comparator[OF lin]
  show "compare_annotated y x = reverse (compare_annotated x y)" by (rule comparator_on.cmp_swap[OF pre mem(1,2)])
  show "compare_annotated x y \<noteq> Greater \<Longrightarrow> compare_annotated y z \<noteq> Greater \<Longrightarrow> compare_annotated x z \<noteq> Greater"
    by (rule comparator_on.cmp_trans[OF pre mem])
  show "compare_annotated x y = Equal \<Longrightarrow> x = y" by (rule linear_comparator_on.cmp_eq[OF lin mem(1,2)])
qed

section \<open>The stored order is linear\<close>

lemma lexicographic_zip_cong:
  assumes "length xs = length ys" "length xs' = length xs" "length ys' = length ys"
    "\<And>i. i < length xs \<Longrightarrow> f (xs ! i) (ys ! i) = g (xs' ! i) (ys' ! i)"
  shows "lexicographic f xs ys = lexicographic g xs' ys'"
  using assms
proof (induction xs ys arbitrary: xs' ys' rule: list_induct2)
  case (Cons x xs y ys)
  then obtain x' xs'' y' ys'' where [simp]: "xs' = x' # xs''" "ys' = y' # ys''"
    by (metis Suc_length_conv length_Cons)
  from Cons.prems(3)[of 0] have "f x y = g x' y'" by simp
  moreover have "f (xs ! i) (ys ! i) = g (xs'' ! i) (ys'' ! i)" if "i < length xs" for i
    using Cons.prems(3)[of "Suc i"] that by simp
  then have "lexicographic f xs ys = lexicographic g xs'' ys''" using Cons.IH Cons.prems(1,2) by simp
  ultimately show ?case by (simp cong: comparison.case_cong)
qed simp

lemma lexicographic_children_cong:
  assumes "map t xs = map t ys"
    and "\<And>x y. x \<in> set xs \<Longrightarrow> y \<in> set ys \<Longrightarrow> t x = t y \<Longrightarrow> f x y = g (a x) (a y)"
  shows "lexicographic f xs ys = lexicographic g (map a xs) (map a ys)"
proof (rule lexicographic_zip_cong)
  show len: "length xs = length ys" using assms(1) by (rule map_eq_imp_length_eq)
  fix i assume "i < length xs"
  moreover from this have "t (xs ! i) = t (ys ! i)" using assms(1) len by (metis nth_map)
  ultimately show "f (xs ! i) (ys ! i) = g (map a xs ! i) (map a ys ! i)" using assms(2) len by simp
qed (simp_all add: assms(1))

text \<open>Where two observations show the same tree, their annotations are compared structurally.\<close>

lemma compare_annotations_annotated:
  assumes "tree_of H l = tree_of H r" "stored_ok H l" "stored_ok H r"
  shows "compare_annotations l r = compare_annotated (annotated_of l) (annotated_of r)"
  using assms
proof (induction l arbitrary: r rule: observation_induct)
  case (child l)
  note okl = child.prems(2) and okr = child.prems(3)
  have below: "lexicographic compare_annotations xs ys
      = lexicographic compare_annotated (map annotated_of xs) (map annotated_of ys)"
    if "map (tree_of H) xs = map (tree_of H) ys"
      "set xs \<subseteq> set (children (content_of l))" "set ys \<subseteq> set (children (content_of r))" for xs ys
    using that child.IH stored_ok_child[OF okl] stored_ok_child[OF okr]
    by (intro lexicographic_children_cong[where t = "tree_of H"]) blast+
  have head: "cmp_of [] [] = Equal" by (simp add: cmp_simps)
  show ?case
  proof (cases "content_of l")
    case (Scalar s)
    with child.prems obtain s' where "content_of r = Scalar s'"
      by (cases "content_of r") (auto simp: tree_of_shapes tree_of_stored_set)
    with Scalar show ?thesis
      by (simp add: compare_annotations.simps[of l] compare_annotated.simps annotated_of.simps)
  next
    case (Object es)
    with child.prems obtain es' where r: "content_of r = Object es'"
      by (cases "content_of r") (auto simp: tree_of_shapes tree_of_stored_set)
    from child.prems(1) Object r have eq: "map (\<lambda>x. (fst x, tree_of H (snd x))) es = map (\<lambda>x. (fst x, tree_of H (snd x))) es'"
      by (simp add: tree_of_shapes)
    have "map (tree_of H) (map snd es) = map (tree_of H) (map snd es')"
      using arg_cong[OF eq, of "map snd"] by (simp add: comp_def)
    from below[OF this] Object r show ?thesis
      by (simp add: compare_annotations.simps[of l] compare_annotated.simps annotated_of.simps cmp_simps)
  next
    case (Sequence items)
    with child.prems obtain items' where r: "content_of r = Sequence items'"
      by (cases "content_of r") (auto simp: tree_of_shapes tree_of_stored_set)
    from child.prems(1) Sequence r have "map (tree_of H) items = map (tree_of H) items'" by (simp add: tree_of_shapes)
    from below[OF this] Sequence r show ?thesis
      by (simp add: compare_annotations.simps[of l] compare_annotated.simps annotated_of.simps cmp_simps)
  next
    case (SetOf items leading)
    with child.prems obtain items' leading' where r: "content_of r = SetOf items' leading'"
      by (cases "content_of r") (auto simp: tree_of_shapes tree_of_stored_set)
    from child.prems(1) SetOf r have "map (tree_of H) items = map (tree_of H) items'"
      by (simp add: tree_of_stored_set[OF okl] tree_of_stored_set[OF okr])
    from below[OF this] SetOf r show ?thesis
      by (simp add: compare_annotations.simps[of l] compare_annotated.simps annotated_of.simps then_with_assoc)
  qed
qed

text \<open>A well-formed observation is its tree and its annotations.\<close>

lemma stored_identity:
  assumes "tree_of H l = tree_of H r" "annotated_of l = annotated_of r" "stored_ok H l" "stored_ok H r"
  shows "l = r"
  using assms
proof (induction l arbitrary: r rule: observation_induct)
  case (child l)
  note okl = child.prems(3) and okr = child.prems(4)
  have below: "xs = ys"
    if "map (tree_of H) xs = map (tree_of H) ys" "map annotated_of xs = map annotated_of ys"
      "set xs \<subseteq> set (children (content_of l))" "set ys \<subseteq> set (children (content_of r))" for xs ys
  proof (rule nth_equalityI)
    show len: "length xs = length ys" using that(1) by (rule map_eq_imp_length_eq)
    fix i assume i: "i < length xs"
    then have "tree_of H (xs ! i) = tree_of H (ys ! i)" "annotated_of (xs ! i) = annotated_of (ys ! i)"
      using that(1,2) len by (metis nth_map)+
    moreover have "xs ! i \<in> set (children (content_of l))" "ys ! i \<in> set (children (content_of r))"
      using i len that(3,4) by auto
    ultimately show "xs ! i = ys ! i"
      using child.IH stored_ok_child[OF okl] stored_ok_child[OF okr] by blast
  qed
  from child.prems(2) have ann: "annotations_of l = annotations_of r"
    and kids: "map annotated_of (children (content_of l)) = map annotated_of (children (content_of r))"
    by (simp_all add: annotated_of.simps)
  have "content_of l = content_of r"
  proof (cases "content_of l")
    case (Scalar s)
    with child.prems show ?thesis
      by (cases "content_of r") (auto simp: tree_of_shapes tree_of_stored_set)
  next
    case (Object es)
    with child.prems obtain es' where r: "content_of r = Object es'"
      by (cases "content_of r") (auto simp: tree_of_shapes tree_of_stored_set)
    from child.prems(1) Object r have eq: "map (\<lambda>x. (fst x, tree_of H (snd x))) es = map (\<lambda>x. (fst x, tree_of H (snd x))) es'"
      by (simp add: tree_of_shapes)
    have "map fst es = map fst es'" using arg_cong[OF eq, of "map fst"] by (simp add: comp_def)
    moreover have "map (tree_of H) (map snd es) = map (tree_of H) (map snd es')"
      using arg_cong[OF eq, of "map snd"] by (simp add: comp_def)
    then have "map snd es = map snd es'" using kids Object r by (intro below) simp_all
    ultimately have "es = es'" by (metis zip_map_fst_snd)
    with Object r show ?thesis by simp
  next
    case (Sequence items)
    with child.prems obtain items' where r: "content_of r = Sequence items'"
      by (cases "content_of r") (auto simp: tree_of_shapes tree_of_stored_set)
    have "items = items'" using child.prems(1) kids Sequence r
      by (intro below) (simp_all add: tree_of_shapes)
    with Sequence r show ?thesis by simp
  next
    case (SetOf items leading)
    with child.prems obtain items' leading' where r: "content_of r = SetOf items' leading'"
      by (cases "content_of r") (auto simp: tree_of_shapes tree_of_stored_set)
    have "items = items'" using child.prems(1) kids SetOf r
      by (intro below) (simp_all add: tree_of_stored_set[OF okl] tree_of_stored_set[OF okr])
    moreover have "leading = leading'" using child.prems(2) SetOf r by (simp add: annotated_of.simps)
    ultimately show ?thesis using SetOf r by simp
  qed
  with ann show ?case by (cases l; cases r) (simp add: annotations_of_def)
qed

interpretation stored: linear_comparator_on "compare_stored H leading" "{ob. stored_ok H ob}" for H leading
proof (rule linear_comparator_cong)
  let ?f = "\<lambda>ob. (tree_of H ob, annotated_of ob)"
  have pairs: "linear_comparator_on (\<lambda>x y. then_with (compare_led_shown leading (fst x) (fst y))
      (compare_annotated (snd x) (snd y))) (UNIV :: (shown_tree \<times> annotated) set)"
    by (intro then_with_linear comparator_pullback[OF linear_imp_comparator[OF led.linear_comparator_on_axioms]]
        comparator_pullback[OF linear_imp_comparator[OF annotated.linear_comparator_on_axioms]])
      (auto intro!: prod_eqI led.cmp_eq annotated.cmp_eq)
  have "inj_on ?f {ob. stored_ok H ob}" by (intro inj_onI) (auto intro: stored_identity)
  from linear_comparator_pullback[OF pairs _ this]
  show "linear_comparator_on (\<lambda>l r. then_with (compare_led_shown leading (tree_of H l) (tree_of H r))
      (compare_annotated (annotated_of l) (annotated_of r))) {ob. stored_ok H ob}" by simp
  fix l r assume "l \<in> {ob. stored_ok H ob}" "r \<in> {ob. stored_ok H ob}"
  then have ok: "stored_ok H l" "stored_ok H r" by auto
  show "compare_stored H leading l r = then_with (compare_led_shown leading (tree_of H l) (tree_of H r))
      (compare_annotated (annotated_of l) (annotated_of r))"
  proof (cases "compare_led_shown leading (tree_of H l) (tree_of H r) = Equal")
    case True
    then have "tree_of H l = tree_of H r" by (intro led.cmp_eq) auto
    with ok show ?thesis by (simp add: compare_stored_led stored_keys_ok compare_annotations_annotated)
  next
    case False
    then show ?thesis using ok
      by (cases "compare_led_shown leading (tree_of H l) (tree_of H r)")
        (simp_all add: compare_stored_led stored_keys_ok)
  qed
qed

section \<open>Building sets\<close>

lemma set_by_ok:
  assumes "\<And>item. item \<in> set items \<Longrightarrow> stored_ok H item"
  shows "stored_ok H (set_by H leading items)"
proof -
  have "sorted_by (compare_stored H leading) (sort_observations H items leading)"
    unfolding sort_observations_def using assms by (intro stored.sorted_sort_by) auto
  then show ?thesis using assms
    by (subst stored_ok.simps) (auto simp: set_by_def unannotated_def sort_observations_def)
qed

lemma object_ok: "(\<And>k c. (k, c) \<in> set entries \<Longrightarrow> stored_ok H c) \<Longrightarrow> stored_ok H (object entries)"
  using btree_collect_subset[of entries] btree.invar_collect[of entries]
  by (subst stored_ok.simps) (fastforce simp: object_def unannotated_def)

lemma sequence_ok: "(\<And>c. c \<in> set items \<Longrightarrow> stored_ok H c) \<Longrightarrow> stored_ok H (sequence items)"
  by (subst stored_ok.simps) (auto simp: sequence_def unannotated_def)

lemma scalar_ok: "stored_ok H (scalar s)"
  by (subst stored_ok.simps) (auto simp: scalar_def unannotated_def)

lemmas leaf_ok = scalar_ok[of _ Null, folded null_def] scalar_ok[of _ "Boolean b" for b, folded boolean_def]
  scalar_ok[of _ "Integer i" for i, folded integer_def] scalar_ok[of _ "Text t" for t, folded text_of_def]

lemma marks_ok:
  "stored_ok H (volatile ob) \<longleftrightarrow> stored_ok H ob" "stored_ok H (sensitive ob) \<longleftrightarrow> stored_ok H ob"
  "stored_ok H (incomplete ob) \<longleftrightarrow> stored_ok H ob" "stored_ok H (approximate ob) \<longleftrightarrow> stored_ok H ob"
  by ((subst (1 2) stored_ok.simps), simp)+

lemma set_by_mset:
  assumes "mset items = mset items'" "\<And>item. item \<in> set items \<Longrightarrow> stored_ok H item"
  shows "set_by H leading items = set_by H leading items'"
  unfolding set_by_def sort_observations_def using assms by (subst stored.sort_by_mset[of items items']) auto

section \<open>The two views agree\<close>

lemma map_filter_map: "map f (List.map_filter g xs) = List.map_filter (\<lambda>x. map_option f (g x)) xs"
  by (induction xs) (auto simp: map_filter_simps split: option.split)

lemma map_filter_entries_sorted:
  "btree_sorted es \<Longrightarrow> btree_sorted (List.map_filter (\<lambda>(k, c). map_option (Pair k) (g c)) es)"
proof (induction es)
  case (Cons e es)
  have "fst ` set (List.map_filter (\<lambda>(k, c). map_option (Pair k) (g c)) es) \<subseteq> fst ` set es"
    by (force simp: set_map_filter)
  with Cons show ?case
    by (cases e) (fastforce simp: map_filter_simps btree_sorted_def split: option.split)
qed (simp add: map_filter_simps)

lemma map_filter_entries_cong:
  assumes "\<And>c. c \<in> snd ` set es \<Longrightarrow> map_option f (g c) = map_option f' (g' c)"
  shows "map (\<lambda>x. (fst x, f (snd x))) (List.map_filter (\<lambda>(k, c). map_option (Pair k) (g c)) es)
    = map (\<lambda>x. (fst x, f' (snd x))) (List.map_filter (\<lambda>(k, c). map_option (Pair k) (g' c)) es)"
proof -
  have "map_option (\<lambda>x. (fst x, f (snd x))) (map_option (Pair k) (g c))
      = map_option (\<lambda>x. (fst x, f' (snd x))) (map_option (Pair k) (g' c))" if "(k, c) \<in> set es" for k c
  proof -
    have "map_option f (g c) = map_option f' (g' c)" using that assms by force
    then show ?thesis by (cases "g c"; cases "g' c") auto
  qed
  then show ?thesis by (auto simp: map_filter_map split_beta intro!: map_filter_cong)
qed

lemma materialised_cases:
  "materialised H p w ob = (if dropped_by ob p then None
     else Some (Observation (volatility_of ob) (sensitivity_of ob) (completeness_of ob) (fidelity_of ob)
       (case content_of ob of
          Scalar s \<Rightarrow> Scalar (shown H s (withheld_under ob p w))
        | Object es \<Rightarrow> Object (btree_collect
            (List.map_filter (\<lambda>(key, child). map_option (Pair key) (materialised H p (withheld_under ob p w) child)) es))
        | Sequence items \<Rightarrow> Sequence (List.map_filter (materialised H p (withheld_under ob p w)) items)
        | SetOf items leading \<Rightarrow> SetOf (sort_observations H
            (List.map_filter (materialised H p (withheld_under ob p w)) items) leading) leading)))"
  by (subst materialised.simps) (simp add: Let_def)

lemma materialised_ok:
  "keys_ok ob \<Longrightarrow> materialised H p w ob = Some ob' \<Longrightarrow> stored_ok H ob'"
proof (induction ob arbitrary: w ob' rule: observation_induct)
  case (child ob)
  let ?w = "withheld_under ob p w"
  note kids = keys_ok_child[OF child.prems(1)]
  have ok: "stored_ok H c'" if "materialised H p ?w c = Some c'" "c \<in> set (children (content_of ob))" for c c'
    using child.IH[OF that(2) kids[OF that(2)] that(1)] .
  show ?case
  proof (cases "content_of ob")
    case (Scalar s)
    with child.prems(2) show ?thesis
      by (subst stored_ok.simps) (auto simp: materialised_cases split: if_splits)
  next
    case (Object es)
    let ?es = "List.map_filter (\<lambda>(key, child). map_option (Pair key) (materialised H p ?w child)) es"
    have "btree_sorted ?es" by (rule map_filter_entries_sorted[OF keys_ok_object[OF child.prems(1) Object]])
    moreover have "stored_ok H c" if "(k, c) \<in> set ?es" for k c
      using that ok Object by (force simp: set_map_filter)
    ultimately show ?thesis using child.prems(2) Object
      by (subst stored_ok.simps) (auto simp: materialised_cases[of H p w ob] btree_collect_sorted split: if_splits)
  next
    case (Sequence items)
    have "stored_ok H c" if "c \<in> set (List.map_filter (materialised H p ?w) items)" for c
      using that ok Sequence by (force simp: set_map_filter)
    then show ?thesis using child.prems(2) Sequence
      by (subst stored_ok.simps) (auto simp: materialised_cases[of H p w ob] split: if_splits)
  next
    case (SetOf items leading)
    have "stored_ok H c" if "c \<in> set (List.map_filter (materialised H p ?w) items)" for c
      using that ok SetOf by (force simp: set_map_filter)
    then have "stored_ok H (set_by H leading (List.map_filter (materialised H p ?w) items))" by (rule set_by_ok)
    then show ?thesis using child.prems(2) SetOf
      by (subst (asm) stored_ok.simps, subst stored_ok.simps)
        (auto simp: set_by_def unannotated_def materialised_cases[of H p w ob] split: if_splits)
  qed
qed

lemma materialised_tree:
  "keys_ok ob \<Longrightarrow> map_option (tree_of H) (materialised H p w ob) = map_option (canon H) (visible_under p w ob)"
proof (induction ob arbitrary: w rule: observation_induct)
  case (child ob)
  let ?w = "withheld_under ob p w"
  note kids = keys_ok_child[OF child.prems]
  note IH = child.IH[OF _ kids, of _ ?w]
  show ?case
  proof (cases "dropped_by ob p")
    case True
    then show ?thesis by (simp add: materialised_cases visible_under_def)
  next
    case False
    then obtain ob' where ob': "materialised H p w ob = Some ob'" by (simp add: materialised_cases)
    have "tree_of H ob' = canon H (Visible ob p ?w)"
    proof (cases "content_of ob")
      case (Scalar s)
      with ob' False have "content_of ob' = Scalar (shown H s ?w)" by (auto simp: materialised_cases)
      with Scalar show ?thesis by (simp add: tree_of_shapes canon_shapes(1)[of _ _ "shown H s ?w"])
    next
      case (Object es)
      let ?es = "List.map_filter (\<lambda>(key, child). map_option (Pair key) (materialised H p ?w child)) es"
      have sorted: "btree_sorted ?es" by (rule map_filter_entries_sorted[OF keys_ok_object[OF child.prems Object]])
      have "content_of ob' = Object ?es" using ob' False Object
        by (auto simp: materialised_cases[of H p w ob] btree_collect_sorted[OF sorted])
      moreover have "map (\<lambda>x. (fst x, tree_of H (snd x))) ?es
          = map (\<lambda>x. (fst x, canon H (snd x))) (object_iter es p ?w)"
        unfolding object_iter_def using Object by (intro map_filter_entries_cong IH) simp_all
      ultimately show ?thesis using Object by (simp add: tree_of_shapes canon_shapes(2)[of _ _ es p ?w])
    next
      case (Sequence items)
      with ob' False have "content_of ob' = Sequence (List.map_filter (materialised H p ?w) items)"
        by (auto simp: materialised_cases[of H p w ob])
      moreover have "map (tree_of H) (List.map_filter (materialised H p ?w) items)
          = map (canon H) (visible_items items p ?w)"
        using Sequence IH by (simp add: visible_items_def map_filter_map cong: map_filter_cong)
      ultimately show ?thesis using Sequence
        by (simp add: tree_of_shapes canon_shapes(3)[of _ _ items p ?w])
    next
      case (SetOf items leading)
      let ?is = "List.map_filter (materialised H p ?w) items"
      from SetOf ob' False have c: "content_of ob' = SetOf (sort_observations H ?is leading) leading"
        by (auto simp: materialised_cases[of H p w ob])
      have keys: "keys_ok item" if "item \<in> set (sort_observations H ?is leading)" for item
        using that kids SetOf materialised_ok
        by (fastforce simp: sort_observations_def set_map_filter intro: stored_keys_ok)
      have "map (tree_of H) ?is = map (canon H) (visible_items items p ?w)"
        using SetOf IH by (simp add: visible_items_def map_filter_map cong: map_filter_cong)
      moreover have "mset (map (tree_of H) (sort_observations H ?is leading)) = mset (map (tree_of H) ?is)"
        by (simp add: sort_observations_def)
      ultimately have "sort_by (compare_led_shown leading) (map (tree_of H) (sort_observations H ?is leading))
          = sort_by (compare_led_shown leading) (map (canon H) (visible_items items p ?w))"
        by (intro led.sort_by_mset) simp_all
      then have "tree_of H ob' = ShownSet (sort_by (compare_led_shown leading) (map (canon H) (visible_items items p ?w)))"
        by (simp only: tree_of_set[OF c keys])
      then show ?thesis using kids SetOf
        by (simp add: canon_shapes(4)[of _ _ items leading p ?w] canon_set_iter)
    qed
    with False ob' show ?thesis by (simp add: visible_under_def)
  qed
qed

section \<open>What a view drops has no say\<close>

text \<open>An observation with every subtree a presentation drops taken out, in the order it was stored.\<close>

function without_dropped :: "presentation \<Rightarrow> observation \<Rightarrow> observation" where
  "without_dropped p ob = Observation (volatility_of ob) (sensitivity_of ob) (completeness_of ob) (fidelity_of ob)
     (case content_of ob of
        Scalar s \<Rightarrow> Scalar s
      | Object es \<Rightarrow> Object (map (\<lambda>x. (fst x, without_dropped p (snd x)))
          (filter (\<lambda>x. \<not> dropped_by (snd x) p) es))
      | Sequence items \<Rightarrow> Sequence (map (\<lambda>x. without_dropped p x) (filter (\<lambda>x. \<not> dropped_by x p) items))
      | SetOf items leading \<Rightarrow>
          SetOf (map (\<lambda>x. without_dropped p x) (filter (\<lambda>x. \<not> dropped_by x p) items)) leading)"
  by pat_completeness auto
termination
  by (relation "measure (size \<circ> snd)") (auto intro: size_content_child)

declare without_dropped.simps [simp del]

lemma without_dropped_shape:
  "content_of ob = Scalar s \<Longrightarrow> content_of (without_dropped p ob) = Scalar s"
  "content_of ob = Object es \<Longrightarrow> content_of (without_dropped p ob)
    = Object (map (\<lambda>x. (fst x, without_dropped p (snd x))) (filter (\<lambda>x. \<not> dropped_by (snd x) p) es))"
  "content_of ob = Sequence items \<Longrightarrow> content_of (without_dropped p ob)
    = Sequence (map (without_dropped p) (filter (\<lambda>x. \<not> dropped_by x p) items))"
  "content_of ob = SetOf items leading \<Longrightarrow> content_of (without_dropped p ob)
    = SetOf (map (without_dropped p) (filter (\<lambda>x. \<not> dropped_by x p) items)) leading"
  by (subst without_dropped.simps, simp)+

lemma without_dropped_marks [simp]:
  "dropped_by (without_dropped p ob) q = dropped_by ob q"
  "withheld_under (without_dropped p ob) q w = withheld_under ob q w"
  by (subst without_dropped.simps, simp add: dropped_by_def withheld_under_def)+

lemma btree_sorted_map_filter:
  "btree_sorted es \<Longrightarrow> btree_sorted (map (\<lambda>x. (fst x, f (snd x))) (filter P es))"
  by (induction es) (auto simp: btree_sorted_def)

lemma without_dropped_keys_ok: "keys_ok ob \<Longrightarrow> keys_ok (without_dropped p ob)"
proof (induction ob rule: observation_induct)
  case (child ob)
  note kids = child.IH[OF _ keys_ok_child[OF child.prems]]
  show ?case using kids keys_ok_object[OF child.prems]
    by (subst keys_ok.simps, cases "content_of ob")
      (force simp: without_dropped_shape btree_sorted_map_filter)+
qed

lemma map_filter_filtered:
  "List.map_filter f (map g (filter P xs)) = List.map_filter (\<lambda>x. if P x then f (g x) else None) xs"
  by (induction xs) (auto simp: map_filter_simps split: option.split)

lemma without_dropped_tree:
  "keys_ok ob \<Longrightarrow> map_option (canon H) (visible_under p w (without_dropped p ob))
    = map_option (canon H) (visible_under p w ob)"
proof (induction ob arbitrary: w rule: observation_induct)
  case (child ob)
  let ?w = "withheld_under ob p w" and ?ob = "without_dropped p ob"
  note kids = keys_ok_child[OF child.prems]
  have below: "map_option (canon H) (if \<not> dropped_by c p then visible_under p ?w (without_dropped p c) else None)
      = map_option (canon H) (visible_under p ?w c)" if "c \<in> set (children (content_of ob))" for c
    using child.IH[OF that kids[OF that], of ?w] by (cases "dropped_by c p") (simp_all add: visible_under_def)
  have items: "map (canon H) (visible_items (map (without_dropped p) (filter (\<lambda>x. \<not> dropped_by x p) items)) p ?w)
      = map (canon H) (visible_items items p ?w)" if "set items \<subseteq> set (children (content_of ob))" for items
    unfolding visible_items_def map_filter_filtered map_filter_map
    using that by (intro map_filter_cong refl below) blast
  have "canon H (Visible ?ob p ?w) = canon H (Visible ob p ?w)"
  proof (cases "content_of ob")
    case (Scalar s)
    then show ?thesis
      by (simp add: canon_shapes(1)[of _ _ "shown H s ?w"] without_dropped_shape)
  next
    case (Object es)
    let ?es = "map (\<lambda>x. (fst x, without_dropped p (snd x))) (filter (\<lambda>x. \<not> dropped_by (snd x) p) es)"
    let ?g = "\<lambda>c. if \<not> dropped_by c p then visible_under p ?w (without_dropped p c) else None"
    have "object_iter ?es p ?w = List.map_filter (\<lambda>(k, c). map_option (Pair k) (?g c)) es"
      unfolding object_iter_def map_filter_filtered by (intro map_filter_cong) auto
    moreover have "map (\<lambda>x. (fst x, canon H (snd x))) (List.map_filter (\<lambda>(k, c). map_option (Pair k) (?g c)) es)
        = map (\<lambda>x. (fst x, canon H (snd x))) (object_iter es p ?w)"
      unfolding object_iter_def using Object below by (intro map_filter_entries_cong) simp
    ultimately show ?thesis using Object
      by (simp add: canon_shapes(2)[of _ _ ?es p ?w] canon_shapes(2)[of _ _ es p ?w] without_dropped_shape)
  next
    case (Sequence xs)
    then show ?thesis using items[of xs]
      by (simp add: without_dropped_shape canon_shapes(3)[of _ _ xs p ?w]
          canon_shapes(3)[of _ _ "map (without_dropped p) (filter (\<lambda>x. \<not> dropped_by x p) xs)" p ?w])
  next
    case (SetOf xs leading)
    let ?xs = "map (without_dropped p) (filter (\<lambda>x. \<not> dropped_by x p) xs)"
    have "keys_ok c" if "c \<in> set ?xs" for c
      using that kids SetOf by (auto intro: without_dropped_keys_ok)
    then have "map (canon H) (set_iter H ?xs leading p ?w) = map (canon H) (set_iter H xs leading p ?w)"
      using SetOf items[of xs] kids by (subst (1 2) canon_set_iter) auto
    then show ?thesis using SetOf
      by (simp add: without_dropped_shape canon_shapes(4)[of _ _ xs leading p ?w]
          canon_shapes(4)[of _ _ ?xs leading p ?w])
  qed
  then show ?case by (simp add: visible_under_def)
qed

section \<open>What a view withholds is shown only as a digest\<close>

fun tree_scalars :: "shown_tree \<Rightarrow> scalar list" where
  "tree_scalars (ShownScalar s) = [s]"
| "tree_scalars (ShownObject es) = concat (map (\<lambda>(_, t). tree_scalars t) es)"
| "tree_scalars (ShownSequence ts) = concat (map tree_scalars ts)"
| "tree_scalars (ShownSet ts) = concat (map tree_scalars ts)"

text \<open>Below a withheld node everything the view reaches is withheld.\<close>

lemma withheld_below:
  assumes "withheld_of v" "disclosure (presentation_of v) = Redacted"
  shows "content_shown H v = VScalar s \<Longrightarrow> \<exists>s0. s = shown H s0 True"
    and "content_shown H v = VObject es p w \<Longrightarrow> x \<in> set (object_iter es p w) \<Longrightarrow>
      withheld_of (snd x) \<and> disclosure (presentation_of (snd x)) = Redacted"
    and "content_shown H v = VSequence items p w \<or> content_shown H v = VSet items leading p w \<Longrightarrow>
      y \<in> set (visible_items items p w) \<Longrightarrow> withheld_of y \<and> disclosure (presentation_of y) = Redacted"
  using assms
  by (cases v; auto simp: object_iter_def visible_items_def set_map_filter visible_under_def
      withheld_under_def split: content.splits if_splits)+

lemma withheld_scalars:
  assumes "withheld_of v" "disclosure (presentation_of v) = Redacted" "s \<in> set (tree_scalars (canon H v))"
  shows "\<exists>s0. s = shown H s0 True"
  using assms
proof (induction v arbitrary: s rule: measure_induct_rule[of vsize])
  case (less v)
  note below = withheld_below[OF less.prems(1,2), where H = H]
  show ?case
  proof (cases "content_shown H v")
    case (VScalar s')
    with less.prems below(1)[OF VScalar] show ?thesis by (simp add: canon_shapes)
  next
    case (VObject es p w)
    with less.prems(3) obtain x where "x \<in> set (object_iter es p w)" "s \<in> set (tree_scalars (canon H (snd x)))"
      by (auto simp: canon_shapes)
    with less.IH below(2)[OF VObject] vsize_object_iter[OF VObject] show ?thesis by blast
  next
    case (VSequence items p w)
    with less.prems(3) obtain x where "x \<in> set (visible_items items p w)" "s \<in> set (tree_scalars (canon H x))"
      by (auto simp: canon_shapes)
    with less.IH below(3) VSequence vsize_sequence[OF VSequence] show ?thesis by blast
  next
    case (VSet items leading p w)
    with less.prems(3) obtain x where "x \<in> set (visible_items items p w)" "s \<in> set (tree_scalars (canon H x))"
      by (auto simp: canon_shapes set_iter_def)
    with less.IH below(3) VSet vsize_set[OF VSet] show ?thesis by blast
  qed
qed

end
