(* ===== verification/Wire.thy ===== *)
theory Wire
  imports Facets Views
begin

text \<open>
  The wire shape (\<open>json.rs\<close>): which entries a document, a facet, a collector and an observation
  are written as, and in which order.  What the \<open>Serialize\<close> impls hand to \<open>serde_json\<close> is the
  value modelled here; turning it into text is that library's pretty printer, a parameter.
\<close>

datatype json =
    JNull
  | JBool bool
  | JInt int
  | JString str
  | JArray "json list"
  | JMap "(str \<times> json) list"

fun wire_scalar :: "scalar \<Rightarrow> json" where
  "wire_scalar Null = JNull"
| "wire_scalar (Boolean b) = JBool b"
| "wire_scalar (Integer i) = JInt (sint i)"
| "wire_scalar (Text t) = JString t"

function wire_observation :: "hashes \<Rightarrow> visible \<Rightarrow> json" where
  "wire_observation H v = (case content_shown H v of
      VScalar s \<Rightarrow> wire_scalar s
    | VObject es p w \<Rightarrow> JMap (map (\<lambda>x. (fst x, wire_observation H (snd x))) (object_iter es p w))
    | VSequence items p w \<Rightarrow> JArray (map (\<lambda>x. wire_observation H x) (visible_items items p w))
    | VSet items leading p w \<Rightarrow> JArray (map (\<lambda>x. wire_observation H x) (set_iter H items leading p w)))"
  by pat_completeness auto
termination
  by (relation "measure (\<lambda>(H, v). vsize v)") (auto simp: set_iter_def intro: vsize_smaller)

declare wire_observation.simps [simp del]

definition wire_collector :: "collector_identity \<Rightarrow> json" where
  "wire_collector c = JMap
     [(''id'', JString (collector_id_str (identity_id c))),
      (''version'', JString (collector_version_str (identity_version c)))]"

text \<open>What serialising needs from outside: the hashes and how a message is rendered.\<close>

record wire_env =
  hashing :: hashes
  render_message :: "collection_error \<Rightarrow> str"

definition wire_facet :: "wire_env \<Rightarrow> presentation \<Rightarrow> facet \<Rightarrow> json" where
  "wire_facet E p f = JMap
     ([(''name'', JString (facet_name_str (name f))), (''collector'', wire_collector (collector f))] @
      (case outcome f of
         FacetOk ob \<Rightarrow> (''status'', JString ''ok'') #
           (case visible_in p ob of Some v \<Rightarrow> [(''data'', wire_observation (hashing E) v)] | None \<Rightarrow> [])
       | FacetAbsent \<Rightarrow> [(''status'', JString ''absent'')]
       | FacetError m \<Rightarrow> [(''status'', JString ''error''), (''error'', JString (render_message E m))]))"

definition wire_document :: "wire_env \<Rightarrow> presentation \<Rightarrow> fingerprint \<Rightarrow> json" where
  "wire_document E p fp = JMap
     [(''schema_version'', JInt (int schema_version)),
      (''metadata'', JArray (map (wire_facet E p) (facets_in Metadata fp))),
      (''facets'', JArray (map (wire_facet E p) (facets_in State fp)))]"

definition to_canonical_json :: "(json \<Rightarrow> str) \<Rightarrow> wire_env \<Rightarrow> fingerprint \<Rightarrow> presentation \<Rightarrow> str" where
  "to_canonical_json pretty E fp p = pretty (wire_document E p fp) @ ''\<newline>''"

section \<open>A document is a function of what is shown\<close>

fun json_of :: "shown_tree \<Rightarrow> json" where
  "json_of (ShownScalar s) = wire_scalar s"
| "json_of (ShownObject es) = JMap (map (\<lambda>(k, t). (k, json_of t)) es)"
| "json_of (ShownSequence ts) = JArray (map json_of ts)"
| "json_of (ShownSet ts) = JArray (map json_of ts)"

lemma wire_observation_canon: "wire_observation H v = json_of (canon H v)"
proof (induction v rule: measure_induct_rule[of vsize])
  case (less v)
  show ?case
  proof (cases "content_shown H v")
    case (VScalar s)
    then show ?thesis by (simp add: wire_observation.simps[of H v] canon_shapes)
  next
    case (VObject es p w)
    with less.IH vsize_object_iter[OF VObject] show ?thesis
      by (simp add: wire_observation.simps[of H v] canon_shapes case_prod_unfold)
  next
    case (VSequence items p w)
    with less.IH vsize_sequence[OF VSequence] show ?thesis
      by (simp add: wire_observation.simps[of H v] canon_shapes)
  next
    case (VSet items leading p w)
    with less.IH vsize_set[OF VSet] show ?thesis
      by (simp add: wire_observation.simps[of H v] canon_shapes set_iter_def)
  qed
qed

text \<open>A facet with everything its view drops taken out of it.\<close>

definition settled :: "presentation \<Rightarrow> facet \<Rightarrow> facet" where
  "settled p f = (case outcome f of
      FacetOk ob \<Rightarrow> f\<lparr>outcome := (if dropped_by ob p then FacetOk (volatile null)
        else FacetOk (without_dropped p ob))\<rparr>
    | _ \<Rightarrow> f)"

definition facet_ok :: "facet \<Rightarrow> bool" where
  "facet_ok f \<longleftrightarrow> (case outcome f of FacetOk ob \<Rightarrow> keys_ok ob | _ \<Rightarrow> True)"

lemma wire_facet_settled:
  assumes "facet_ok f"
  shows "wire_facet E p (settled p f) = wire_facet E p f"
proof (cases "outcome f")
  case (FacetOk ob)
  with assms have keys: "keys_ok ob" by (simp add: facet_ok_def)
  show ?thesis
  proof (cases "dropped_by ob p")
    case True
    then have "dropped_by (volatile null) p" by (simp add: dropped_by_def null_def scalar_def unannotated_def)
    with True FacetOk show ?thesis
      by (simp add: wire_facet_def settled_def visible_in_def visible_under_def)
  next
    case False
    have "map_option (canon (hashing E)) (visible_in p (without_dropped p ob)) = map_option (canon (hashing E)) (visible_in p ob)"
      unfolding visible_in_def by (rule without_dropped_tree[OF keys])
    with False FacetOk show ?thesis
      by (cases "visible_in p (without_dropped p ob)"; cases "visible_in p ob")
        (auto simp: wire_facet_def settled_def wire_observation_canon)
  qed
qed (simp_all add: wire_facet_def settled_def)

lemma category_settled [simp]: "category (settled p f) = category f" "name (settled p f) = name f"
  by (simp_all add: settled_def split: facet_outcome.split)

lemma wire_document_settled:
  assumes "\<And>f. f \<in> set (facets fp) \<Longrightarrow> facet_ok f"
  shows "wire_document E p fp = wire_document E p (Fingerprint (map (settled p) (facets fp)))"
proof -
  have "map (wire_facet E p) (filter (\<lambda>f. category f = k) (map (settled p) (facets fp)))
      = map (wire_facet E p) (filter (\<lambda>f. category f = k) (facets fp))" for k
    using assms by (simp add: filter_map comp_def wire_facet_settled)
  then show ?thesis by (simp add: wire_document_def facets_in_def)
qed

end
