(* ===== verification/Determinism.thy ===== *)
theory Determinism
  imports HostRun Wire
begin

text \<open>
  The determinism contract of the whole run: facets compared up to what a view drops, however the
  collectors were registered and however the threads were scheduled, make one document.
\<close>

lemma shared_name_settled: "shared_name (map (settled p) fs) = shared_name fs"
  by (rule shared_name_map) simp

lemma sort_settled:
  "sort_by (\<lambda>l r. cmp_of (name l) (name r)) (map (settled p) fs)
    = map (settled p) (sort_by (\<lambda>l r. cmp_of (name l) (name r)) fs)"
  using map_sort_by[of "settled p" "\<lambda>l r. cmp_of (name l) (name r)" fs] by simp

lemma from_facets_settled:
  "from_facets (map (settled p) fs) = map_ok (\<lambda>fp. Fingerprint (map (settled p) (facets fp))) (from_facets fs)"
  by (simp add: from_facets_def Let_def sort_settled shared_name_settled split: option.split)

lemma run_result_facets:
  assumes "reached cs s" "run_over s"
  shows "run_result s = from_facets (map facet_of cs)"
  unfolding run_result_def by (rule from_facets_mset[OF run_over_facets[OF run_ok_reached[OF assms(1)] assms(2)]])

lemma settled_documents:
  assumes "mset (map (settled p) fs) = mset (map (settled p) gs)"
    and "\<And>f. f \<in> set fs \<union> set gs \<Longrightarrow> facet_ok f" and "from_facets fs = Inr fp"
  shows "\<exists>fp'. from_facets gs = Inr fp' \<and> to_canonical_json pretty E fp p = to_canonical_json pretty E fp' p"
proof -
  have "from_facets (map (settled p) fs) = from_facets (map (settled p) gs)" by (rule from_facets_mset[OF assms(1)])
  then obtain fp' where fp': "from_facets gs = Inr fp'"
    and same: "map (settled p) (facets fp) = map (settled p) (facets fp')"
    unfolding from_facets_settled assms(3) by (cases "from_facets gs") auto
  have "set (facets fp) = set fs" "set (facets fp') = set gs"
    using from_facets_sorted(2)[OF assms(3)] from_facets_sorted(2)[OF fp'] by (metis set_mset_mset)+
  with assms(2) have "wire_document E p fp = wire_document E p fp'"
    using wire_document_settled[of fp E p] wire_document_settled[of fp' E p] same by simp
  with fp' show ?thesis by (simp add: to_canonical_json_def)
qed

end
