(* ===== verification/Shortfall.thy ===== *)
theory Shortfall
  imports Facets
begin

text \<open>
  What a run could not see (\<open>shortfall.rs\<close>): facets that failed, and the items inside the facets
  that did not, as a summary for the operator.
\<close>

record failed_facet =
  failed_name :: facet_name
  failed_reason :: collection_error

record counted_facet =
  counted_name :: facet_name
  counted_items :: nat

record shortfall =
  failed :: "failed_facet list"
  incomplete_facets :: "counted_facet list"
  approximate_facets :: "counted_facet list"

text \<open>One pass over the facets, each pushed where its outcome puts it.\<close>

definition shortfall_facet :: "facet \<Rightarrow> shortfall \<Rightarrow> shortfall" where
  "shortfall_facet f acc = (case outcome f of
      FacetError m \<Rightarrow> acc\<lparr> failed := failed acc @ [\<lparr> failed_name = name f, failed_reason = m \<rparr>] \<rparr>
    | FacetOk ob \<Rightarrow>
        (let n = incomplete_items ob;
             acc = (if 0 < n then acc\<lparr> incomplete_facets :=
               incomplete_facets acc @ [\<lparr> counted_name = name f, counted_items = n \<rparr>] \<rparr> else acc);
             m = approximate_items ob
         in if 0 < m then acc\<lparr> approximate_facets :=
              approximate_facets acc @ [\<lparr> counted_name = name f, counted_items = m \<rparr>] \<rparr> else acc)
    | FacetAbsent \<Rightarrow> acc)"

definition shortfall_of :: "fingerprint \<Rightarrow> shortfall" where
  "shortfall_of fp =
     (let acc = fold shortfall_facet (facets fp) \<lparr> failed = [], incomplete_facets = [], approximate_facets = [] \<rparr>
      in \<lparr> failed = sort_by (\<lambda>l r. cmp_of (failed_name l) (failed_name r)) (failed acc),
           incomplete_facets = sort_by (\<lambda>l r. cmp_of (counted_name l) (counted_name r)) (incomplete_facets acc),
           approximate_facets = sort_by (\<lambda>l r. cmp_of (counted_name l) (counted_name r)) (approximate_facets acc) \<rparr>)"

definition shortfall_empty :: "shortfall \<Rightarrow> bool" where
  "shortfall_empty s \<longleftrightarrow> failed s = [] \<and> incomplete_facets s = [] \<and> approximate_facets s = []"

section \<open>The messages\<close>

definition counted :: "nat \<Rightarrow> str \<Rightarrow> str \<Rightarrow> str" where
  "counted n one many = (if n = 1 then ''1 '' @ one else show_nat n @ '' '' @ many)"

text \<open>
  \<open>str::lines\<close>: split at line feeds, the carriage return before each taken off with it, no empty
  last line.
\<close>

definition line_feed :: char where
  "line_feed = CHR 0x0A"

definition carriage_return :: char where
  "carriage_return = CHR 0x0D"

definition lines :: "str \<Rightarrow> str list" where
  "lines s = (let parts = split_on line_feed s;
                  ended = map (\<lambda>l. if l \<noteq> [] \<and> last l = carriage_return then butlast l else l) (butlast parts)
              in if last parts = [] then ended else ended @ [last parts])"

text \<open>
  \<open>char::escape_default\<close> on a control character: the three with a letter of their own, the rest by
  code point in lowercase hex.
\<close>

fun code_point :: "str \<Rightarrow> nat" where
  "code_point [a] = of_char a"
| "code_point [a, b] = (of_char a mod 32) * 64 + of_char b mod 64"
| "code_point _ = 0"

definition escape_control :: "str \<Rightarrow> str" where
  "escape_control c = (let n = code_point c in
     if n = 9 then [CHR 0x5C, CHR ''t'']
     else if n = 13 then [CHR 0x5C, CHR ''r'']
     else if n = 10 then [CHR 0x5C, CHR ''n'']
     else [CHR 0x5C, CHR ''u'', CHR ''{''] @ positional 16 n @ [CHR ''}''])"

text \<open>The horizontal ellipsis in its brackets, as the bytes that encode it.\<close>

definition elided :: str where
  "elided = '' ['' @ [CHR 0xE2, CHR 0x80, CHR 0xA6] @ '']''"

definition first_line_of :: "str \<Rightarrow> str" where
  "first_line_of reason =
     (let ls = lines (trim_end reason);
          head = (case ls of [] \<Rightarrow> [] | l # _ \<Rightarrow> l);
          first = concat (map (\<lambda>c. if is_control c then escape_control c else c) (chars_of head))
      in if 1 < length ls then first @ elided else first)"

definition messages :: "(collection_error \<Rightarrow> str) \<Rightarrow> shortfall \<Rightarrow> str list" where
  "messages render s =
     (if failed s \<noteq> [] then
        [counted (length (failed s)) ''facet'' ''facets'' @ '' could not be read:'' @
         concat (map (\<lambda>f. line_feed # ''  '' @ facet_name_str (failed_name f) @ '': ''
           @ first_line_of (render (failed_reason f))) (failed s))]
      else []) @
     (if incomplete_facets s \<noteq> [] then
        [(if length (incomplete_facets s) = 1 then ''1 facet is''
          else show_nat (length (incomplete_facets s)) @ '' facets are'') @ '' incomplete:'' @
         concat (map (\<lambda>f. line_feed # ''  '' @ facet_name_str (counted_name f) @ '': ''
           @ counted (counted_items f) ''item'' ''items'' @ '' could not be read'') (incomplete_facets s))]
      else []) @
     (if approximate_facets s \<noteq> [] then
        [(if length (approximate_facets s) = 1 then ''1 facet was''
          else show_nat (length (approximate_facets s)) @ '' facets were'') @ '' read with another version'' @ [CHR 0x27] @ ''s rules:'' @
         concat (map (\<lambda>f. line_feed # ''  '' @ facet_name_str (counted_name f) @ '': ''
           @ counted (counted_items f) ''item'' ''items'') (approximate_facets s))]
      else [])"

section \<open>What the summary says\<close>

lemma shortfall_fold:
  "failed (fold shortfall_facet fs acc) = failed acc @
     List.map_filter (\<lambda>f. case outcome f of FacetError m \<Rightarrow> Some \<lparr> failed_name = name f, failed_reason = m \<rparr> | _ \<Rightarrow> None) fs"
  "incomplete_facets (fold shortfall_facet fs acc) = incomplete_facets acc @
     List.map_filter (\<lambda>f. case outcome f of
         FacetOk ob \<Rightarrow> if 0 < incomplete_items ob then Some \<lparr> counted_name = name f, counted_items = incomplete_items ob \<rparr> else None
       | _ \<Rightarrow> None) fs"
  "approximate_facets (fold shortfall_facet fs acc) = approximate_facets acc @
     List.map_filter (\<lambda>f. case outcome f of
         FacetOk ob \<Rightarrow> if 0 < approximate_items ob then Some \<lparr> counted_name = name f, counted_items = approximate_items ob \<rparr> else None
       | _ \<Rightarrow> None) fs"
  by (induction fs arbitrary: acc)
    (auto simp: map_filter_simps shortfall_facet_def Let_def split: facet_outcome.split)

lemma set_shortfall:
  "set (failed (shortfall_of fp)) =
     {\<lparr> failed_name = name f, failed_reason = m \<rparr> |f m. f \<in> set (facets fp) \<and> outcome f = FacetError m}"
  "set (incomplete_facets (shortfall_of fp)) =
     {\<lparr> counted_name = name f, counted_items = incomplete_items ob \<rparr> |f ob.
        f \<in> set (facets fp) \<and> outcome f = FacetOk ob \<and> 0 < incomplete_items ob}"
  "set (approximate_facets (shortfall_of fp)) =
     {\<lparr> counted_name = name f, counted_items = approximate_items ob \<rparr> |f ob.
        f \<in> set (facets fp) \<and> outcome f = FacetOk ob \<and> 0 < approximate_items ob}"
proof -
  have err: "(case x of FacetError m \<Rightarrow> Some (g m) | _ \<Rightarrow> None) = Some y \<longleftrightarrow> (\<exists>m. x = FacetError m \<and> y = g m)"
    for x and g :: "collection_error \<Rightarrow> 'a" and y by (cases x) auto
  have ok: "(case x of FacetOk ob \<Rightarrow> if P ob then Some (g ob) else None | _ \<Rightarrow> None) = Some y
      \<longleftrightarrow> (\<exists>ob. x = FacetOk ob \<and> P ob \<and> y = g ob)"
    for x P and g :: "observation \<Rightarrow> 'a" and y by (cases x) auto
  show "set (failed (shortfall_of fp)) =
     {\<lparr> failed_name = name f, failed_reason = m \<rparr> |f m. f \<in> set (facets fp) \<and> outcome f = FacetError m}"
    by (simp add: shortfall_of_def Let_def shortfall_fold set_map_filter err) blast
  show "set (incomplete_facets (shortfall_of fp)) =
     {\<lparr> counted_name = name f, counted_items = incomplete_items ob \<rparr> |f ob.
        f \<in> set (facets fp) \<and> outcome f = FacetOk ob \<and> 0 < incomplete_items ob}"
    by (simp add: shortfall_of_def Let_def shortfall_fold set_map_filter ok) blast
  show "set (approximate_facets (shortfall_of fp)) =
     {\<lparr> counted_name = name f, counted_items = approximate_items ob \<rparr> |f ob.
        f \<in> set (facets fp) \<and> outcome f = FacetOk ob \<and> 0 < approximate_items ob}"
    by (simp add: shortfall_of_def Let_def shortfall_fold set_map_filter ok) blast
qed

text \<open>Every node of an observation, the node itself first.\<close>

function nodes :: "observation \<Rightarrow> observation list" where
  "nodes ob = ob # concat (map (\<lambda>x. nodes x) (children (content_of ob)))"
  by pat_completeness auto
termination
  by (relation "measure size") (auto intro: size_child)

declare nodes.simps [simp del]

lemma incomplete_items_nodes: "incomplete_items ob = length (filter (\<lambda>x. completeness_of x = Incomplete) (nodes ob))"
proof (induction ob rule: observation_induct)
  case (child ob)
  then have "sum_list (map incomplete_items (children (content_of ob)))
      = length (filter (\<lambda>x. completeness_of x = Incomplete) (concat (map nodes (children (content_of ob)))))"
    by (simp add: filter_concat length_concat comp_def cong: map_cong)
  then show ?case by (subst incomplete_items_eq, subst nodes.simps) simp
qed

lemma approximate_items_nodes: "approximate_items ob = length (filter (\<lambda>x. fidelity_of x = Approximate) (nodes ob))"
proof (induction ob rule: observation_induct)
  case (child ob)
  then have "sum_list (map approximate_items (children (content_of ob)))
      = length (filter (\<lambda>x. fidelity_of x = Approximate) (concat (map nodes (children (content_of ob)))))"
    by (simp add: filter_concat length_concat comp_def cong: map_cong)
  then show ?case by (subst approximate_items_eq, subst nodes.simps) simp
qed

definition whole :: "facet \<Rightarrow> bool" where
  "whole f \<longleftrightarrow> (case outcome f of
      FacetError _ \<Rightarrow> False
    | FacetAbsent \<Rightarrow> True
    | FacetOk ob \<Rightarrow> \<forall>x \<in> set (nodes ob). completeness_of x = Whole \<and> fidelity_of x = Exact)"

lemma shortfall_empty_iff: "shortfall_empty (shortfall_of fp) \<longleftrightarrow> (\<forall>f \<in> set (facets fp). whole f)"
proof -
  have marks: "incomplete_items ob = 0 \<and> approximate_items ob = 0 \<longleftrightarrow>
      (\<forall>x \<in> set (nodes ob). completeness_of x = Whole \<and> fidelity_of x = Exact)" for ob
    by (auto simp: incomplete_items_nodes approximate_items_nodes filter_empty_conv)
      (metis completeness.exhaust fidelity.exhaust)+
  have "whole f \<longleftrightarrow> (\<forall>m. outcome f \<noteq> FacetError m)
      \<and> (\<forall>ob. outcome f = FacetOk ob \<longrightarrow> incomplete_items ob = 0 \<and> approximate_items ob = 0)" for f
    unfolding marks by (cases "outcome f") (auto simp: whole_def)
  then show ?thesis
    unfolding shortfall_empty_def set_empty[symmetric] set_shortfall by auto
qed

end
