(* ===== verification/WalkPolicy.thy ===== *)
theory WalkPolicy
  imports Claims Views
begin

text \<open>
  Which trees the walk reads, which it only measures and which it stops at
  (\<open>collectors/filesystem/model/walk_policy.rs\<close>, \<open>policy_rule.rs\<close>, and the value objects
  \<open>claimant.rs\<close>, \<open>content_policy.rs\<close>, \<open>digest_algorithm.rs\<close>).  The table is a set of decisions: the
  rule for a path is the most specific tree containing it, and neither the order of the rules nor
  the order claims arrive in changes it.
\<close>

section \<open>Who decided, and what\<close>

record claimant =
  claimant_facet :: facet_name
  claimant_entry :: "claim_qualifier option"

definition claimant_whole :: "facet_name \<Rightarrow> claimant" where
  "claimant_whole facet = \<lparr> claimant_facet = facet, claimant_entry = None \<rparr>"

definition claimant_for :: "facet_name \<Rightarrow> claim_qualifier \<Rightarrow> claimant" where
  "claimant_for facet entry = \<lparr> claimant_facet = facet, claimant_entry = Some entry \<rparr>"

definition claimant_text :: "claimant \<Rightarrow> str" where
  "claimant_text c = (case claimant_entry c of
      Some entry \<Rightarrow> facet_name_str (claimant_facet c) @ '':'' @ qualifier_str entry
    | None \<Rightarrow> facet_name_str (claimant_facet c))"

text \<open>The derived order: by facet, and no entry before any.\<close>

definition compare_claimants :: "claimant \<Rightarrow> claimant \<Rightarrow> comparison" where
  "compare_claimants l r = then_with
     (cmp_of (facet_name_str (claimant_facet l)) (facet_name_str (claimant_facet r)))
     (compare_options (\<lambda>x y. cmp_of (qualifier_str x) (qualifier_str y)) (claimant_entry l) (claimant_entry r))"

datatype digest_algorithm = Sha256

fun digest_algorithm_str :: "digest_algorithm \<Rightarrow> str" where
  "digest_algorithm_str Sha256 = ''sha256''"

datatype content_policy = Hashed digest_algorithm | MetadataOnly | Churns | Sealed

fun churns :: "content_policy \<Rightarrow> bool" where
  "churns Churns = True"
| "churns Sealed = True"
| "churns _ = False"

definition is_descended :: "content_policy \<Rightarrow> bool" where
  "is_descended p \<longleftrightarrow> p \<noteq> Sealed"

fun content_policy_of :: "claimed_reading \<Rightarrow> content_policy" where
  "content_policy_of ClaimMetadataOnly = MetadataOnly"
| "content_policy_of ClaimChurns = Churns"
| "content_policy_of ClaimSealed = Sealed"

section \<open>One rule\<close>

record policy_rule =
  tree :: walked_tree
  content :: content_policy
  claimants :: "claimant list"

definition is_contested :: "policy_rule \<Rightarrow> bool" where
  "is_contested r \<longleftrightarrow> 1 < length (claimants r)"

fun join :: "str \<Rightarrow> str list \<Rightarrow> str" where
  "join sep [] = []"
| "join sep [x] = x"
| "join sep (x # xs) = x @ sep @ join sep xs"

definition contest :: "policy_rule \<Rightarrow> str option" where
  "contest r = (if is_contested r
     then Some (''claimed by '' @ join '', '' (map claimant_text (claimants r))
       @ '', so it was sealed rather than walked'')
     else None)"

definition contested_by :: "claimant \<Rightarrow> policy_rule \<Rightarrow> policy_rule" where
  "contested_by c r = r\<lparr> claimants := sort_by compare_claimants (claimants r @ [c]), content := Sealed \<rparr>"

definition rule_shipped :: "walked_tree \<Rightarrow> content_policy \<Rightarrow> policy_rule" where
  "rule_shipped t p = \<lparr> tree = t, content = p, claimants = [claimant_whole (FacetName ''filesystem'')] \<rparr>"

definition rule_configured :: "walked_tree \<Rightarrow> content_policy \<Rightarrow> policy_rule" where
  "rule_configured t p = \<lparr> tree = t, content = p, claimants = [claimant_whole (FacetName ''config'')] \<rparr>"

fun reading_of :: "content_policy \<Rightarrow> str" where
  "reading_of (Hashed _) = ''hashed''"
| "reading_of MetadataOnly = ''metadata_only''"
| "reading_of Churns = ''churns''"
| "reading_of Sealed = ''sealed''"

definition rule_observed :: "hashes \<Rightarrow> policy_rule \<Rightarrow> observation" where
  "rule_observed H r = object
     [(''claimed_by'', set_of H (map (\<lambda>c. text_of (claimant_text c)) (claimants r))),
      (''reading'', text_of (reading_of (content r)))]"

section \<open>The table\<close>

datatype walk_policy = WalkPolicy (rules: "policy_rule list")

text \<open>The loop of \<open>new\<close>: the first rule naming a tree an earlier one names.\<close>

fun named_twice :: "walked_tree list \<Rightarrow> policy_rule list \<Rightarrow> walked_tree option" where
  "named_twice seen [] = None"
| "named_twice seen (r # rs) =
     (if tree r \<in> set seen then Some (tree r) else named_twice (seen @ [tree r]) rs)"

definition walk_policy_new :: "policy_rule list \<Rightarrow> walk_policy collected" where
  "walk_policy_new rs = (case named_twice [] rs of
      Some t \<Rightarrow> Inl (CollectionError
        ''the policy table names {:?} twice, so there is no most specific rule for what is inside it'' [tree_str t])
    | None \<Rightarrow>
        if \<not> list_ex (\<lambda>r. is_root (tree r)) rs
        then Inl (CollectionError
          ''the policy table has no rule for /, so it cannot answer for every path the walk reaches'' [])
        else Inr (WalkPolicy rs))"

definition churns_without_meaning :: "str list" where
  "churns_without_meaning =
     [''/tmp'', ''/var/tmp'', ''/var/log'', ''/var/cache'', ''/var/lib/systemd/timesync'',
      ''/var/lib/systemd/random-seed'']"

text \<open>\<open>expect\<close> panics; a table that could not be built is the result of the panic.\<close>

definition shipped_rule :: "str \<Rightarrow> content_policy \<Rightarrow> policy_rule collected" where
  "shipped_rule t p = map_ok (\<lambda>t. rule_shipped t p) (walked_tree_new t)"

definition built_in :: "walk_policy collected" where
  "built_in = and_then
     (collect_results (shipped_rule ''/'' MetadataOnly
        # map (\<lambda>t. shipped_rule t Churns) churns_without_meaning))
     walk_policy_new"

definition claimant_of :: "facet_name \<Rightarrow> filesystem_claim \<Rightarrow> claimant" where
  "claimant_of facet claim = (case claim_qualifier claim of
      Some entry \<Rightarrow> claimant_for facet entry
    | None \<Rightarrow> claimant_whole facet)"

text \<open>\<open>rules.iter_mut().find(..)\<close>, with the change made to what it found.\<close>

fun update_first :: "('a \<Rightarrow> bool) \<Rightarrow> ('a \<Rightarrow> 'a) \<Rightarrow> 'a list \<Rightarrow> 'a list option" where
  "update_first P f [] = None"
| "update_first P f (x # xs) = (if P x then Some (f x # xs) else map_option ((#) x) (update_first P f xs))"

definition claim_into :: "facet_name \<Rightarrow> filesystem_claim \<Rightarrow> policy_rule list \<Rightarrow> policy_rule list" where
  "claim_into facet claim rs =
     (let c = claimant_of facet claim
      in case update_first (\<lambda>r. tree r = claim_tree claim) (contested_by c) rs of
           Some rs' \<Rightarrow> rs'
         | None \<Rightarrow> rs @ [\<lparr> tree = claim_tree claim, content = content_policy_of (claim_reading claim),
                          claimants = [c] \<rparr>])"

definition claimed :: "walk_policy \<Rightarrow> facet_name \<Rightarrow> filesystem_claim list \<Rightarrow> walk_policy collected" where
  "claimed p facet claims = walk_policy_new (fold (claim_into facet) claims (rules p))"

definition contested :: "walk_policy \<Rightarrow> policy_rule list" where
  "contested p = filter is_contested (rules p)"

definition configured :: "walk_policy \<Rightarrow> policy_rule list \<Rightarrow> walk_policy collected" where
  "configured p rs = walk_policy_new
     (filter (\<lambda>existing. \<not> list_ex (\<lambda>r. tree r = tree existing) rs) (rules p) @ rs)"

text \<open>\<open>max_by_key\<close>, which keeps the last of equal keys.\<close>

fun max_by_key :: "('a \<Rightarrow> nat) \<Rightarrow> 'a list \<Rightarrow> 'a option" where
  "max_by_key key [] = None"
| "max_by_key key (x # xs) = (case max_by_key key xs of
      None \<Rightarrow> Some x
    | Some y \<Rightarrow> Some (if key y < key x then x else y))"

definition rule_for :: "walk_policy \<Rightarrow> absolute_path \<Rightarrow> policy_rule option" where
  "rule_for p path = max_by_key (\<lambda>r. depth (tree r)) (filter (\<lambda>r. contains (tree r) path) (rules p))"

definition policy_for :: "walk_policy \<Rightarrow> absolute_path \<Rightarrow> content_policy option" where
  "policy_for p path = map_option content (rule_for p path)"

definition contest_at :: "walk_policy \<Rightarrow> absolute_path \<Rightarrow> policy_rule option" where
  "contest_at p path = (case rule_for p path of
      Some r \<Rightarrow> if is_contested r then Some r else None
    | None \<Rightarrow> None)"

definition policy_observed :: "hashes \<Rightarrow> walk_policy \<Rightarrow> observation" where
  "policy_observed H p = object (map (\<lambda>r. (tree_str (tree r), rule_observed H r)) (rules p))"

section \<open>The table answers for every path\<close>

interpretation claimants: linear_comparator_on compare_claimants UNIV
proof -
  have q: "linear_comparator_on (\<lambda>x y. cmp_of (qualifier_str x) (qualifier_str y)) UNIV"
    by (rule linear_comparator_pullback[OF cmp_of.linear_comparator_on_axioms])
      (auto simp: inj_on_def claim_qualifier.expand)
  then have options: "linear_comparator_on (compare_options (\<lambda>x y. cmp_of (qualifier_str x) (qualifier_str y))) UNIV"
    using linear_comparator_on.options_linear by (fastforce simp: UNIV_option_conv)
  have "linear_comparator_on (\<lambda>(l::claimant) (r::claimant). then_with (cmp_of (facet_name_str (claimant_facet l)) (facet_name_str (claimant_facet r)))
      (compare_options (\<lambda>x y. cmp_of (qualifier_str x) (qualifier_str y)) (claimant_entry l) (claimant_entry r))) UNIV"
    by (intro then_with_linear comparator_pullback[OF cmp_of.comparator_on_axioms]
        comparator_pullback[OF linear_imp_comparator[OF options]])
      (auto simp: cmp_simps intro!: claimant.equality facet_name.expand linear_comparator_on.cmp_eq[OF options])
  then show "linear_comparator_on compare_claimants UNIV" by (simp add: compare_claimants_def[abs_def])
qed

lemma named_twice_None:
  "named_twice seen rs = None \<longleftrightarrow> distinct (map tree rs) \<and> set (map tree rs) \<inter> set seen = {}"
  by (induction rs arbitrary: seen) auto

lemma walk_policy_new_iff:
  "walk_policy_new rs = Inr p \<longleftrightarrow>
     p = WalkPolicy rs \<and> distinct (map tree rs) \<and> (\<exists>r \<in> set rs. is_root (tree r))"
  using named_twice_None[of "[]" rs] by (auto simp: walk_policy_new_def list_ex_iff split: option.split)

definition policy_ok :: "walk_policy \<Rightarrow> bool" where
  "policy_ok p \<longleftrightarrow> distinct (map tree (rules p)) \<and> (\<exists>r \<in> set (rules p). is_root (tree r))
     \<and> (\<forall>r \<in> set (rules p). tree_ok (tree r))"

lemma max_by_key_None [simp]: "max_by_key key xs = None \<longleftrightarrow> xs = []"
  by (cases xs) (auto split: option.split)

lemma max_by_key_Some: "max_by_key key xs = Some x \<Longrightarrow> x \<in> set xs \<and> (\<forall>y \<in> set xs. key y \<le> key x)"
  by (induction xs arbitrary: x) (fastforce split: option.splits if_splits)+

lemma rule_for_spec:
  assumes ok: "policy_ok p"
  shows "rule_for p path = Some r \<longleftrightarrow> r \<in> set (rules p) \<and> contains (tree r) path
     \<and> (\<forall>r' \<in> set (rules p). contains (tree r') path \<longrightarrow> r' \<noteq> r \<longrightarrow> depth (tree r') < depth (tree r))"
    (is "_ \<longleftrightarrow> ?best r")
proof -
  let ?m = "filter (\<lambda>r. contains (tree r) path) (rules p)"
  have unique: "r = r'" if "r \<in> set (rules p)" "r' \<in> set (rules p)" "contains (tree r) path" "contains (tree r') path"
    "depth (tree r) = depth (tree r')" for r r'
  proof -
    have "tree r = tree r'" using that ok by (intro contains_same_depth) (auto simp: policy_ok_def)
    with ok that show ?thesis by (auto simp: policy_ok_def distinct_map inj_on_def)
  qed
  from ok obtain root where "root \<in> set (rules p)" "is_root (tree root)" by (auto simp: policy_ok_def)
  then have "?m \<noteq> []" by (force simp: contains_def filter_empty_conv)
  then obtain m where m: "rule_for p path = Some m"
    unfolding rule_for_def by (metis max_by_key_None not_None_eq)
  then have max: "m \<in> set ?m" "\<forall>y \<in> set ?m. depth (tree y) \<le> depth (tree m)"
    unfolding rule_for_def by (auto dest: max_by_key_Some)
  have "depth (tree r') < depth (tree m)" if "r' \<in> set (rules p)" "contains (tree r') path" "r' \<noteq> m" for r'
    using that max unique[of r' m] by (auto simp: order_le_less)
  with max have best: "?best m" by auto
  have "r = m" if "?best r"
  proof (rule ccontr)
    assume "r \<noteq> m"
    with that best have "depth (tree m) < depth (tree r)" "depth (tree r) < depth (tree m)" by blast+
    then show False by simp
  qed
  with best m show ?thesis by auto
qed

lemma rule_for_total: "policy_ok p \<Longrightarrow> \<exists>r. rule_for p path = Some r"
proof -
  assume "policy_ok p"
  then obtain root where "root \<in> set (rules p)" "is_root (tree root)" by (auto simp: policy_ok_def)
  then have "filter (\<lambda>r. contains (tree r) path) (rules p) \<noteq> []" by (force simp: contains_def filter_empty_conv)
  then show ?thesis unfolding rule_for_def by (metis max_by_key_None not_None_eq)
qed

lemma rule_for_set:
  assumes "policy_ok p" "policy_ok q" "set (rules p) = set (rules q)"
  shows "rule_for p path = rule_for q path"
proof -
  obtain r where "rule_for p path = Some r" using rule_for_total[OF assms(1)] by blast
  then show ?thesis using rule_for_spec[OF assms(1)] rule_for_spec[OF assms(2)] assms(3) by metis
qed

section \<open>Claims fold in, in any order\<close>

text \<open>A table read as the rule for each tree.\<close>

definition rule_at :: "policy_rule list \<Rightarrow> walked_tree \<Rightarrow> policy_rule option" where
  "rule_at rs t = List.find (\<lambda>r. tree r = t) rs"

definition claim_table :: "facet_name \<times> filesystem_claim \<Rightarrow> (walked_tree \<Rightarrow> policy_rule option)
    \<Rightarrow> walked_tree \<Rightarrow> policy_rule option" where
  "claim_table fc T = (let c = claimant_of (fst fc) (snd fc); t = claim_tree (snd fc)
     in T(t \<mapsto> (case T t of
          Some r \<Rightarrow> contested_by c r
        | None \<Rightarrow> \<lparr> tree = t, content = content_policy_of (claim_reading (snd fc)), claimants = [c] \<rparr>)))"

lemma update_first_None: "update_first P f xs = None \<longleftrightarrow> (\<forall>x \<in> set xs. \<not> P x)"
  by (induction xs) auto

lemma tree_contested_by [simp]: "tree (contested_by c r) = tree r"
  by (simp add: contested_by_def)

lemma update_first_trees:
  "update_first P (contested_by c) rs = Some rs' \<Longrightarrow> map tree rs' = map tree rs"
  by (induction rs arbitrary: rs') (auto split: if_splits)

lemma find_update_first:
  "update_first (\<lambda>r. tree r = t) (contested_by c) rs = Some rs' \<Longrightarrow>
     rule_at rs' = (rule_at rs)(t := map_option (contested_by c) (rule_at rs t))
     \<and> rule_at rs t \<noteq> None"
  by (induction rs arbitrary: rs') (auto simp: rule_at_def fun_eq_iff split: if_splits)

lemma rule_at_claim_into: "rule_at (claim_into facet claim rs) = claim_table (facet, claim) (rule_at rs)"
proof (cases "update_first (\<lambda>r. tree r = claim_tree claim) (contested_by (claimant_of facet claim)) rs")
  case None
  then have "\<forall>r \<in> set rs. tree r \<noteq> claim_tree claim" by (simp add: update_first_None)
  then have "List.find (\<lambda>r. tree r = t) (rs @ [r]) = (if t = claim_tree claim then (if tree r = t then Some r else None)
      else case List.find (\<lambda>r. tree r = t) rs of Some r \<Rightarrow> Some r | None \<Rightarrow> if tree r = t then Some r else None)"
    "List.find (\<lambda>r. tree r = claim_tree claim) rs = None" for t r
    by (induction rs) auto
  with None show ?thesis
    by (auto simp: claim_into_def claim_table_def rule_at_def fun_eq_iff Let_def split: option.split)
next
  case (Some rs')
  from find_update_first[OF this] Some show ?thesis
    by (auto simp: claim_into_def claim_table_def Let_def fun_eq_iff split: option.splits)
qed

lemma contested_by_commute: "contested_by c (contested_by d r) = contested_by d (contested_by c r)"
proof -
  have "sort_by compare_claimants (sort_by compare_claimants (xs @ [c]) @ [d])
      = sort_by compare_claimants (sort_by compare_claimants (xs @ [d]) @ [c])" for xs
    by (rule claimants.sort_by_mset) simp_all
  then show ?thesis by (simp add: contested_by_def)
qed

lemma contested_by_new:
  "contested_by d \<lparr> tree = t, content = k, claimants = [c] \<rparr>
    = contested_by c \<lparr> tree = t, content = k', claimants = [d] \<rparr>"
proof -
  have "sort_by compare_claimants [c, d] = sort_by compare_claimants [d, c]"
    by (rule claimants.sort_by_mset) simp_all
  then show ?thesis by (simp add: contested_by_def del: sort_by.simps)
qed

lemma claim_table_commute: "claim_table x \<circ> claim_table y = claim_table y \<circ> claim_table x"
proof (rule ext)
  fix T :: "walked_tree \<Rightarrow> policy_rule option"
  obtain f c g d where [simp]: "x = (f, c)" "y = (g, d)" by (cases x; cases y)
  show "(claim_table x \<circ> claim_table y) T = (claim_table y \<circ> claim_table x) T"
  proof (cases "claim_tree c = claim_tree d")
    case True
    then show ?thesis
      using contested_by_commute contested_by_new
      by (cases "T (claim_tree d)") (auto simp: claim_table_def Let_def)
  next
    case False
    then show ?thesis by (auto simp: claim_table_def Let_def fun_upd_twist)
  qed
qed

lemma trees_claim_into:
  "distinct (map tree rs) \<Longrightarrow> distinct (map tree (claim_into facet claim rs))"
  "set (map tree (claim_into facet claim rs)) = insert (claim_tree claim) (set (map tree rs))"
proof -
  let ?u = "update_first (\<lambda>r. tree r = claim_tree claim) (contested_by (claimant_of facet claim)) rs"
  show "distinct (map tree rs) \<Longrightarrow> distinct (map tree (claim_into facet claim rs))"
  proof (cases ?u)
    case None
    moreover from this have "\<forall>r \<in> set rs. tree r \<noteq> claim_tree claim" by (simp add: update_first_None)
    ultimately show "distinct (map tree rs) \<Longrightarrow> ?thesis" by (auto simp: claim_into_def Let_def)
  qed (simp add: claim_into_def Let_def update_first_trees)
  show "set (map tree (claim_into facet claim rs)) = insert (claim_tree claim) (set (map tree rs))"
  proof (cases ?u)
    case (Some rs')
    have "claim_tree claim \<in> tree ` set rs"
      using Some update_first_None[of "\<lambda>r. tree r = claim_tree claim" "contested_by (claimant_of facet claim)" rs] by force
    with Some update_first_trees[OF Some] show ?thesis
      by (simp add: claim_into_def Let_def del: set_map) (metis insert_absorb list.set_map)
  qed (auto simp: claim_into_def Let_def)
qed

text \<open>All the claims of a run, one after another.\<close>

definition claims_into :: "(facet_name \<times> filesystem_claim) list \<Rightarrow> policy_rule list \<Rightarrow> policy_rule list" where
  "claims_into asked = fold (\<lambda>(facet, claim). claim_into facet claim) asked"

lemma rule_at_claims_into: "rule_at (claims_into asked rs) = fold claim_table asked (rule_at rs)"
  unfolding claims_into_def by (induction asked arbitrary: rs) (auto simp: rule_at_claim_into)

lemma trees_claims_into:
  "distinct (map tree rs) \<Longrightarrow> distinct (map tree (claims_into asked rs))"
  "set (map tree (claims_into asked rs)) = claim_tree ` snd ` set asked \<union> set (map tree rs)"
  unfolding claims_into_def
  by (induction asked arbitrary: rs; simp add: trees_claim_into case_prod_unfold del: set_map; blast)+

lemma rule_at_set:
  assumes "distinct (map tree rs)"
  shows "r \<in> set rs \<longleftrightarrow> rule_at rs (tree r) = Some r"
proof -
  have "find (\<lambda>x. tree x = tree r) rs = Some r" if "r \<in> set rs"
    using that assms by (induction rs) (auto intro: rev_image_eqI)
  then show ?thesis by (auto simp: rule_at_def find_Some_iff)
qed

lemma claims_into_mset:
  assumes "mset asked = mset asked'" "distinct (map tree rs)"
  shows "set (claims_into asked rs) = set (claims_into asked' rs)"
proof -
  have "fold claim_table asked = fold claim_table asked'"
    using assms(1) by (intro fold_multiset_equiv) (auto simp: claim_table_commute)
  then have "rule_at (claims_into asked rs) = rule_at (claims_into asked' rs)"
    by (simp add: rule_at_claims_into)
  moreover note rule_at_set[OF trees_claims_into(1)[OF assms(2)]]
  ultimately show ?thesis by auto
qed

lemma policy_ok_claims:
  assumes "policy_ok p" "\<And>facet claim. (facet, claim) \<in> set asked \<Longrightarrow> tree_ok (claim_tree claim)"
  shows "policy_ok (WalkPolicy (claims_into asked (rules p)))"
    "walk_policy_new (claims_into asked (rules p)) = Inr (WalkPolicy (claims_into asked (rules p)))"
proof -
  let ?rs = "claims_into asked (rules p)"
  have dist: "distinct (map tree ?rs)" using assms(1) by (simp add: trees_claims_into policy_ok_def)
  have trees: "tree ` set ?rs = claim_tree ` snd ` set asked \<union> tree ` set (rules p)"
    using trees_claims_into(2)[of asked "rules p"] by simp
  have "\<exists>t \<in> tree ` set (rules p). is_root t" using assms(1) by (auto simp: policy_ok_def)
  with trees have "\<exists>t \<in> tree ` set ?rs. is_root t" by blast
  then have root: "\<exists>r \<in> set ?rs. is_root (tree r)" by blast
  have "\<forall>t \<in> tree ` set ?rs. tree_ok t" unfolding trees using assms by (auto simp: policy_ok_def)
  with dist root show "policy_ok (WalkPolicy ?rs)" by (auto simp: policy_ok_def)
  from dist root show "walk_policy_new ?rs = Inr (WalkPolicy ?rs)" by (simp add: walk_policy_new_iff)
qed

section \<open>What the claims on one tree come to\<close>

definition claim_tree_step :: "facet_name \<times> filesystem_claim \<Rightarrow> policy_rule option \<Rightarrow> policy_rule option" where
  "claim_tree_step fc known = Some (case known of
      Some r \<Rightarrow> contested_by (claimant_of (fst fc) (snd fc)) r
    | None \<Rightarrow> \<lparr> tree = claim_tree (snd fc), content = content_policy_of (claim_reading (snd fc)),
               claimants = [claimant_of (fst fc) (snd fc)] \<rparr>)"

lemma fold_claim_table:
  "fold claim_table asked T t = fold claim_tree_step (filter (\<lambda>fc. claim_tree (snd fc) = t) asked) (T t)"
  by (induction asked arbitrary: T) (auto simp: claim_table_def claim_tree_step_def Let_def)

lemma fold_claim_tree_step:
  "\<exists>r'. fold claim_tree_step fcs (Some r) = Some r' \<and> tree r' = tree r
     \<and> mset (claimants r') = mset (claimants r) + mset (map (\<lambda>fc. claimant_of (fst fc) (snd fc)) fcs)
     \<and> (fcs \<noteq> [] \<longrightarrow> content r' = Sealed \<and> sorted_by compare_claimants (claimants r'))
     \<and> (fcs = [] \<longrightarrow> r' = r)"
proof (induction fcs rule: rev_induct)
  case (snoc fc fcs)
  then obtain r' where r': "fold claim_tree_step fcs (Some r) = Some r'" "tree r' = tree r"
    "mset (claimants r') = mset (claimants r) + mset (map (\<lambda>fc. claimant_of (fst fc) (snd fc)) fcs)" by blast
  moreover have "claim_tree_step fc (Some r') = Some (contested_by (claimant_of (fst fc) (snd fc)) r')"
    by (simp add: claim_tree_step_def)
  ultimately show ?case by (simp add: contested_by_def claimants.sorted_sort_by)
qed simp

lemma claims_on_tree:
  fixes t asked rs
  defines "fcs \<equiv> filter (\<lambda>fc. claim_tree (snd fc) = t) asked"
  shows "fcs = [] \<Longrightarrow> rule_at (claims_into asked rs) t = rule_at rs t"
    and "rule_at rs t = None \<Longrightarrow> fcs = [(f, c)] \<Longrightarrow> rule_at (claims_into asked rs) t
      = Some \<lparr> tree = t, content = content_policy_of (claim_reading c), claimants = [claimant_of f c] \<rparr>"
    and "length fcs + (case rule_at rs t of None \<Rightarrow> 0 | Some _ \<Rightarrow> 1) > 1 \<Longrightarrow> fcs \<noteq> [] \<Longrightarrow>
      \<exists>r. rule_at (claims_into asked rs) t = Some r \<and> tree r = t \<and> content r = Sealed
        \<and> sorted_by compare_claimants (claimants r)
        \<and> mset (claimants r) = mset (case rule_at rs t of None \<Rightarrow> [] | Some r \<Rightarrow> claimants r)
            + mset (map (\<lambda>fc. claimant_of (fst fc) (snd fc)) fcs)"
proof -
  have at: "rule_at (claims_into asked rs) t = fold claim_tree_step fcs (rule_at rs t)"
    by (simp add: rule_at_claims_into fold_claim_table fcs_def)
  have trees: "claim_tree (snd fc) = t" if "fc \<in> set fcs" for fc using that by (simp add: fcs_def)
  show "rule_at (claims_into asked rs) t = rule_at rs t" if "fcs = []" using at that by simp
  show "rule_at (claims_into asked rs) t
      = Some \<lparr> tree = t, content = content_policy_of (claim_reading c), claimants = [claimant_of f c] \<rparr>"
    if "rule_at rs t = None" "fcs = [(f, c)]"
    using at that trees[of "(f, c)"] by (simp add: claim_tree_step_def)
  assume more: "length fcs + (case rule_at rs t of None \<Rightarrow> 0 | Some _ \<Rightarrow> 1) > 1" "fcs \<noteq> []"
  show "\<exists>r. rule_at (claims_into asked rs) t = Some r \<and> tree r = t \<and> content r = Sealed
        \<and> sorted_by compare_claimants (claimants r)
        \<and> mset (claimants r) = mset (case rule_at rs t of None \<Rightarrow> [] | Some r \<Rightarrow> claimants r)
            + mset (map (\<lambda>fc. claimant_of (fst fc) (snd fc)) fcs)"
  proof (cases "rule_at rs t")
    case None
    with more obtain fc fcs' where fcs: "fcs = fc # fcs'" "fcs' \<noteq> []"
      by (cases fcs) auto
    with at None trees[of fc] fold_claim_tree_step[of fcs' "the (claim_tree_step fc None)"]
    show ?thesis by (fastforce simp: claim_tree_step_def)
  next
    case (Some r)
    then have "tree r = t" by (auto simp: rule_at_def find_Some_iff)
    with at Some more(2) fold_claim_tree_step[of fcs r] show ?thesis by auto
  qed
qed

end
