(* ===== verification/Config.thy ===== *)
theory Config
  imports Text
begin

text \<open>
  What the operator asked rastro not to do (\<open>config.rs\<close>).  Reading TOML is the \<open>toml\<close> crate's and
  reading a file is the kernel's; both are parameters, and what the source does with their answers
  is modelled.
\<close>

record config =
  exclude :: "str list"
  walk_metadata_only :: "str list"
  walk_churns :: "str list"
  walk_sealed :: "str list"
  source :: "str option"

definition config_default :: config where
  "config_default = \<lparr> exclude = [], walk_metadata_only = [], walk_churns = [], walk_sealed = [], source = None \<rparr>"

text \<open>
  The toml parser's answer, its own error type left open.  A file never sets \<open>source\<close>, which is
  \<open>#[serde(skip)]\<close>.
\<close>

type_synonym 'e toml_parser = "str \<Rightarrow> 'e + config"

definition config_parse :: "'e toml_parser \<Rightarrow> str \<Rightarrow> 'e + config" where
  "config_parse from_str toml = map_ok
     (\<lambda>c. c\<lparr> exclude := dedup (sort_by cmp_of (exclude c)),
             walk_metadata_only := dedup (sort_by cmp_of (walk_metadata_only c)),
             walk_churns := dedup (sort_by cmp_of (walk_churns c)),
             walk_sealed := dedup (sort_by cmp_of (walk_sealed c)) \<rparr>)
     (from_str toml)"

datatype ('io, 'e) config_error =
    Unreadable str 'io
  | Malformed str 'e
  | UnrecordablePath str

definition config_load :: "'e toml_parser \<Rightarrow> (str \<Rightarrow> 'io + str) \<Rightarrow> str \<Rightarrow> ('io, 'e) config_error + config" where
  "config_load from_str read_to_string path =
     (if \<not> valid_utf8 path then Inl (UnrecordablePath path)
      else and_then (map_err (Unreadable path) (read_to_string path)) (\<lambda>toml.
        map_ok (\<lambda>c. c\<lparr> source := Some path \<rparr>)
          (map_err (Malformed path) (config_parse from_str toml))))"

definition named_or_default :: "'e toml_parser \<Rightarrow> (str \<Rightarrow> 'io + str) \<Rightarrow> str option
    \<Rightarrow> ('io, 'e) config_error + config" where
  "named_or_default from_str read_to_string path = (case path of
      Some path \<Rightarrow> config_load from_str read_to_string path
    | None \<Rightarrow> Inr config_default)"

section \<open>Two configs that mean the same\<close>

definition same_meaning :: "config \<Rightarrow> config \<Rightarrow> bool" where
  "same_meaning c d \<longleftrightarrow> set (exclude c) = set (exclude d)
     \<and> set (walk_metadata_only c) = set (walk_metadata_only d)
     \<and> set (walk_churns c) = set (walk_churns d)
     \<and> set (walk_sealed c) = set (walk_sealed d) \<and> source c = source d"

lemma config_parse_same:
  assumes "from_str s = Inr c" "from_str t = Inr d" "same_meaning c d"
  shows "config_parse from_str s = config_parse from_str t"
proof -
  have lists: "dedup (sort_by cmp_of (exclude c)) = dedup (sort_by cmp_of (exclude d))"
    "dedup (sort_by cmp_of (walk_metadata_only c)) = dedup (sort_by cmp_of (walk_metadata_only d))"
    "dedup (sort_by cmp_of (walk_churns c)) = dedup (sort_by cmp_of (walk_churns d))"
    "dedup (sort_by cmp_of (walk_sealed c)) = dedup (sort_by cmp_of (walk_sealed d))"
    using assms(3) by (auto simp: same_meaning_def intro: sorted_set_unique[unfolded sorted_set_def])
  show ?thesis using assms(3)
    by (simp add: config_parse_def assms(1,2) lists) (simp add: same_meaning_def)
qed

lemma config_parse_lists:
  assumes "config_parse from_str s = Inr c"
  shows "\<exists>raw. from_str s = Inr raw \<and> same_meaning c raw"
    "sorted_wrt (<) (exclude c) \<and> sorted_wrt (<) (walk_metadata_only c)
       \<and> sorted_wrt (<) (walk_churns c) \<and> sorted_wrt (<) (walk_sealed c)"
  using assms
  by (auto simp: config_parse_def map_ok_Inr_iff same_meaning_def sorted_dedup sorted_sort_by_cmp_of)

end
