(* ===== verification/Selection.thy ===== *)
theory Selection
  imports WalkPolicy Config HostRun
begin

text \<open>
  The registry (\<open>collectors.rs\<close>): which collectors a config leaves running, and the walk's table
  once every collector's claims and the operator's own rules are folded in.
\<close>

section \<open>Which collectors run\<close>

datatype selection_error =
    UnknownCollector str str
  | MetadataCollector str

record selection =
  running :: "collector_port list"
  excluded :: "str list"

definition names_of :: "collector_port list \<Rightarrow> str list" where
  "names_of cs = map (\<lambda>c. facet_name_str (collector_name c)) cs"

fun check_excluded :: "collector_port list \<Rightarrow> str list \<Rightarrow> selection_error + unit" where
  "check_excluded cs [] = Inr ()"
| "check_excluded cs (n # ns) =
     and_then (ok_or (UnknownCollector n (join '', '' (names_of cs)))
         (find (\<lambda>c. facet_name_str (collector_name c) = n) cs)) (\<lambda>c.
       if collector_category c = Metadata then Inl (MetadataCollector n) else check_excluded cs ns)"

definition selected :: "collector_port list \<Rightarrow> config \<Rightarrow> selection_error + selection" where
  "selected cs conf = map_ok (\<lambda>_.
     \<lparr> running = filter (\<lambda>c. \<not> list_ex (\<lambda>n. n = facet_name_str (collector_name c)) (exclude conf)) cs,
       excluded = exclude conf \<rparr>)
     (check_excluded cs (exclude conf))"

section \<open>The walk's table\<close>

record narrowed =
  narrowed_metadata_only :: "str list"
  narrowed_churns :: "str list"
  narrowed_sealed :: "str list"

definition narrowed_rule :: "content_policy \<Rightarrow> str \<Rightarrow> policy_rule collected" where
  "narrowed_rule p t = map_ok (\<lambda>t. rule_configured t p)
     (map_err (within ''the config named {tree:?} as a tree to narrow, and it is not one: '' [t]) (walked_tree_new t))"

definition narrowed_rules :: "narrowed \<Rightarrow> policy_rule list collected" where
  "narrowed_rules n = collect_results
     (map (narrowed_rule MetadataOnly) (narrowed_metadata_only n)
      @ map (narrowed_rule Churns) (narrowed_churns n)
      @ map (narrowed_rule Sealed) (narrowed_sealed n))"

fun fold_claims :: "collector_port list \<Rightarrow> walk_policy \<Rightarrow> walk_policy collected" where
  "fold_claims [] p = Inr p"
| "fold_claims (c # cs) p = and_then (claimed p (collector_name c) (collector_claims c)) (fold_claims cs)"

definition claimed_policy :: "collector_port list \<Rightarrow> narrowed \<Rightarrow> walk_policy collected" where
  "claimed_policy cs n =
     and_then built_in (\<lambda>shipped.
     and_then (fold_claims cs shipped) (\<lambda>p.
     and_then (narrowed_rules n) (configured p)))"

section \<open>What is selected\<close>

lemma check_excluded_Inr_iff:
  "check_excluded cs ns = Inr u \<longleftrightarrow> (\<forall>n \<in> set ns. \<exists>c. find (\<lambda>c. facet_name_str (collector_name c) = n) cs = Some c
     \<and> collector_category c \<noteq> Metadata)"
  by (induction ns) (auto simp: and_then_Inr_iff ok_or_Inr_iff)

lemma selected_Inr:
  assumes "selected cs conf = Inr s"
  shows "running s = filter (\<lambda>c. facet_name_str (collector_name c) \<notin> set (exclude conf)) cs"
    and "excluded s = exclude conf"
    and "n \<in> set (exclude conf) \<Longrightarrow> \<exists>c \<in> set cs. facet_name_str (collector_name c) = n \<and> collector_category c = State"
proof -
  from assms have s: "s = \<lparr> running = filter (\<lambda>c. \<not> list_ex (\<lambda>n. n = facet_name_str (collector_name c)) (exclude conf)) cs,
       excluded = exclude conf \<rparr>" and ok: "check_excluded cs (exclude conf) = Inr ()"
    by (auto simp: selected_def map_ok_Inr_iff)
  have "list_ex (\<lambda>n. n = m) ns \<longleftrightarrow> m \<in> set ns" for m :: str and ns by (auto simp: list_ex_iff)
  with s show "running s = filter (\<lambda>c. facet_name_str (collector_name c) \<notin> set (exclude conf)) cs" by simp
  from s show "excluded s = exclude conf" by simp
  assume "n \<in> set (exclude conf)"
  with ok obtain c where "find (\<lambda>c. facet_name_str (collector_name c) = n) cs = Some c" "collector_category c \<noteq> Metadata"
    unfolding check_excluded_Inr_iff by blast
  then show "\<exists>c \<in> set cs. facet_name_str (collector_name c) = n \<and> collector_category c = State"
    by (cases "collector_category c") (auto simp: find_Some_iff)
qed

lemma metadata_runs:
  assumes "selected cs conf = Inr s" "distinct (map collector_name cs)" "c \<in> set cs" "collector_category c = Metadata"
  shows "c \<in> set (running s)"
proof (rule ccontr)
  assume "c \<notin> set (running s)"
  with selected_Inr(1)[OF assms(1)] assms(3) have "facet_name_str (collector_name c) \<in> set (exclude conf)" by auto
  from selected_Inr(3)[OF assms(1) this] obtain d where
    d: "d \<in> set cs" "facet_name_str (collector_name d) = facet_name_str (collector_name c)" "collector_category d = State"
    by blast
  then have "collector_name d = collector_name c" by (simp add: facet_name.expand)
  with assms(2,3) d(1) have "d = c" by (auto simp: distinct_map inj_on_def)
  with d(3) assms(4) show False by simp
qed

section \<open>The table does not depend on the order of registration\<close>

definition asked_by :: "collector_port list \<Rightarrow> (facet_name \<times> filesystem_claim) list" where
  "asked_by cs = concat (map (\<lambda>c. map (Pair (collector_name c)) (collector_claims c)) cs)"

lemma mset_asked_by: "mset cs = mset ds \<Longrightarrow> mset (asked_by cs) = mset (asked_by ds)"
proof -
  have "mset (asked_by cs) = sum_list (map (\<lambda>c. mset (map (Pair (collector_name c)) (collector_claims c))) cs)" for cs
    unfolding asked_by_def by (induction cs) auto
  moreover assume "mset cs = mset ds"
  ultimately show ?thesis by (metis mset_map sum_mset_sum_list)
qed

lemma claims_into_append: "claims_into (xs @ ys) rs = claims_into ys (claims_into xs rs)"
  by (simp add: claims_into_def)

lemma claims_into_one: "claims_into (map (Pair f) claims) rs = fold (claim_into f) claims rs"
  by (simp add: claims_into_def fold_map comp_def)

lemma fold_claims_ok:
  assumes "policy_ok p" "\<And>c claim. c \<in> set cs \<Longrightarrow> claim \<in> set (collector_claims c) \<Longrightarrow> tree_ok (claim_tree claim)"
  shows "fold_claims cs p = Inr (WalkPolicy (claims_into (asked_by cs) (rules p)))
    \<and> policy_ok (WalkPolicy (claims_into (asked_by cs) (rules p)))"
  using assms
proof (induction cs arbitrary: p)
  case Nil
  then show ?case by (cases p) (simp add: asked_by_def claims_into_def)
next
  case (Cons c cs)
  let ?q = "WalkPolicy (fold (claim_into (collector_name c)) (collector_claims c) (rules p))"
  have asked: "asked_by (c # cs) = map (Pair (collector_name c)) (collector_claims c) @ asked_by cs"
    by (simp add: asked_by_def)
  have "policy_ok ?q" "claimed p (collector_name c) (collector_claims c) = Inr ?q"
    using policy_ok_claims[OF Cons.prems(1), of "map (Pair (collector_name c)) (collector_claims c)"] Cons.prems(2)[of c]
    by (auto simp: claims_into_one claimed_def)
  moreover from this(1) have "fold_claims cs ?q = Inr (WalkPolicy (claims_into (asked_by cs) (rules ?q)))
      \<and> policy_ok (WalkPolicy (claims_into (asked_by cs) (rules ?q)))"
    by (rule Cons.IH) (auto intro: Cons.prems(2))
  ultimately show ?case
    by (simp add: asked claims_into_append claims_into_one)
qed

lemma built_in_ok: "\<exists>p. built_in = Inr p \<and> policy_ok p"
proof -
  have one: "shipped_rule t p = Inr (rule_shipped (WalkedTree (AbsolutePath (NonEmptyText t))) p)"
    if "starts_with ''/'' t" "t = ''/'' \<or> last t \<noteq> CHR ''/''" for t p
    using that by (simp add: shipped_rule_def walked_tree_new_plain)
  let ?rs = "map (\<lambda>(t, p). rule_shipped (WalkedTree (AbsolutePath (NonEmptyText t))) p)
    ((''/'', MetadataOnly) # map (\<lambda>t. (t, Churns)) churns_without_meaning)"
  have "built_in = walk_policy_new ?rs"
    by (simp add: built_in_def churns_without_meaning_def one starts_with_def)
  also have "\<dots> = Inr (WalkPolicy ?rs)"
    by (simp add: walk_policy_new_iff churns_without_meaning_def rule_shipped_def is_root_def tree_str_def)
  finally have "built_in = Inr (WalkPolicy ?rs)" .
  moreover have "policy_ok (WalkPolicy ?rs)"
    by (simp add: policy_ok_def churns_without_meaning_def rule_shipped_def is_root_def tree_str_def tree_ok_def
        path_ok_def starts_with_def)
  ultimately show ?thesis by blast
qed

lemma collect_results_Inr: "collect_results rs = Inr xs \<longleftrightarrow> rs = map Inr xs"
  by (induction rs arbitrary: xs) (auto simp: and_then_Inr_iff map_ok_Inr_iff Cons_eq_map_conv)

lemma narrowed_rules_ok: "narrowed_rules n = Inr rs \<Longrightarrow> r \<in> set rs \<Longrightarrow> tree_ok (tree r)"
proof -
  assume "narrowed_rules n = Inr rs" "r \<in> set rs"
  then have "Inr r \<in> set (map (narrowed_rule MetadataOnly) (narrowed_metadata_only n)
      @ map (narrowed_rule Churns) (narrowed_churns n) @ map (narrowed_rule Sealed) (narrowed_sealed n))"
    unfolding narrowed_rules_def collect_results_Inr by simp
  then obtain p t where "narrowed_rule p t = Inr r" by (auto dest: sym)
  then show ?thesis
    by (auto simp: narrowed_rule_def map_ok_Inr_iff map_err_Inr_iff rule_configured_def dest: walked_tree_new_ok(1))
qed

lemma configured_iff:
  "configured p rs = Inr q \<longleftrightarrow>
     q = WalkPolicy (filter (\<lambda>existing. tree existing \<notin> tree ` set rs) (rules p) @ rs)
     \<and> distinct (map tree (rules q)) \<and> (\<exists>r \<in> set (rules q). is_root (tree r))"
proof -
  have "list_ex (\<lambda>r. tree r = t) rs \<longleftrightarrow> t \<in> tree ` set rs" for t by (auto simp: list_ex_iff)
  then show ?thesis unfolding configured_def walk_policy_new_iff by (auto simp del: map_append set_append)
qed

lemma configured_ok:
  assumes "policy_ok p" "configured p rs = Inr q" "\<And>r. r \<in> set rs \<Longrightarrow> tree_ok (tree r)"
  shows "policy_ok q"
  using assms by (auto simp: configured_iff policy_ok_def)

text \<open>Registering the collectors in another order gives a table with the same rules.\<close>

lemma claimed_policy_mset:
  assumes "mset cs = mset ds" "\<And>c claim. c \<in> set cs \<Longrightarrow> claim \<in> set (collector_claims c) \<Longrightarrow> tree_ok (claim_tree claim)"
    and "claimed_policy cs n = Inr p"
  shows "\<exists>q. claimed_policy ds n = Inr q \<and> set (rules q) = set (rules p) \<and> policy_ok p \<and> policy_ok q"
proof -
  obtain shipped where shipped: "built_in = Inr shipped" "policy_ok shipped" using built_in_ok by blast
  have sets: "set cs = set ds" using assms(1) by (metis set_mset_mset)
  note one = fold_claims_ok[OF shipped(2), of cs] and two = fold_claims_ok[OF shipped(2), of ds]
  let ?a = "WalkPolicy (claims_into (asked_by cs) (rules shipped))"
  let ?b = "WalkPolicy (claims_into (asked_by ds) (rules shipped))"
  from one assms(2) have a: "fold_claims cs shipped = Inr ?a" "policy_ok ?a" by blast+
  from two assms(2) sets have b: "fold_claims ds shipped = Inr ?b" "policy_ok ?b" by blast+
  have same: "set (rules ?a) = set (rules ?b)"
    using claims_into_mset[OF mset_asked_by[OF assms(1)], of "rules shipped"] shipped(2) by (simp add: policy_ok_def)
  from assms(3) have "and_then (narrowed_rules n) (configured ?a) = Inr p"
    unfolding claimed_policy_def shipped(1) and_then.simps a(1) .
  then obtain rs where rs: "narrowed_rules n = Inr rs" "configured ?a rs = Inr p"
    unfolding and_then_Inr_iff by blast
  let ?q = "WalkPolicy (filter (\<lambda>existing. tree existing \<notin> tree ` set rs) (rules ?b) @ rs)"
  note p = rs(2)[unfolded configured_iff]
  have sets': "set (rules ?q) = set (rules p)" using p same by simp
  have "distinct (map tree (rules ?q))"
    using p b(2) by (auto simp: policy_ok_def distinct_map inj_on_def)
  with p sets' have q: "configured ?b rs = Inr ?q" unfolding configured_iff by blast
  then have "claimed_policy ds n = Inr ?q" unfolding claimed_policy_def shipped(1) and_then.simps b(1) rs(1) .
  moreover have "policy_ok p" "policy_ok ?q"
    using configured_ok[OF a(2) rs(2)] configured_ok[OF b(2) q] narrowed_rules_ok[OF rs(1)] by blast+
  ultimately show ?thesis using sets' by blast
qed

end
