(* ===== verification/Paths.thy ===== *)
theory Paths
  imports Text
begin

text \<open>
  What the program uses of \<open>std::path\<close> on Unix: the components of a path, its file name, its
  parent and a join.  Two paths are equal when their components are, as in the library.
\<close>

datatype component = RootDir | CurDir | ParentDir | Normal str

type_synonym path = "component list"

text \<open>Empty parts and every \<open>.\<close> but a leading one are no component.\<close>

definition component_of :: "str \<Rightarrow> component" where
  "component_of part = (if part = ''..'' then ParentDir else Normal part)"

definition components :: "str \<Rightarrow> path" where
  "components s =
     (let parts = split_on (CHR ''/'') s;
          inner = map component_of (filter (\<lambda>part. part \<noteq> [] \<and> part \<noteq> ''.'') parts)
      in if starts_with ''/'' s then RootDir # inner
         else if hd parts = ''.'' then CurDir # inner
         else inner)"

definition file_name :: "path \<Rightarrow> str option" where
  "file_name p = (case rev p of Normal n # _ \<Rightarrow> Some n | _ \<Rightarrow> None)"

definition parent :: "path \<Rightarrow> path option" where
  "parent p = (case rev p of [] \<Rightarrow> None | RootDir # _ \<Rightarrow> None | _ # up \<Rightarrow> Some (rev up))"

text \<open>Joining something that starts at the root forgets what it is joined to.\<close>

definition joined :: "path \<Rightarrow> path \<Rightarrow> path" where
  "joined base p = (case p of RootDir # _ \<Rightarrow> p | CurDir # rest \<Rightarrow> (if base = [] then p else base @ rest) | _ \<Rightarrow> base @ p)"

text \<open>\<open>Path::join\<close> on texts.\<close>

definition text_joined :: "str \<Rightarrow> str \<Rightarrow> str" where
  "text_joined base p =
     (if starts_with ''/'' p then p
      else if base = [] \<or> last base = CHR ''/'' then base @ p
      else base @ CHR ''/'' # p)"

lemma file_name_SomeD: "file_name p = Some n \<Longrightarrow> p = butlast p @ [Normal n]"
  by (cases p rule: rev_cases) (auto simp: file_name_def split: component.splits)

lemma file_name_append [simp]: "file_name (p @ [Normal n]) = Some n"
  by (simp add: file_name_def)

lemma parent_append [simp]: "parent (p @ [Normal n]) = Some p"
  by (simp add: parent_def)

lemma parent_file_name: "file_name p = Some n \<Longrightarrow> parent p = Some (butlast p)"
  using parent_append[of "butlast p" n] file_name_SomeD[of p n] by simp

lemma joined_normal [simp]: "joined base [Normal n] = base @ [Normal n]"
  by (simp add: joined_def)

lemma components_name:
  "CHR ''/'' \<notin> set s \<Longrightarrow> s \<noteq> [] \<Longrightarrow> s \<noteq> ''.'' \<Longrightarrow> s \<noteq> ''..'' \<Longrightarrow> components s = [Normal s]"
  by (cases s) (auto simp: components_def split_on_fresh component_of_def starts_with_def Let_def)

end
