(* ===== verification/Timestamp.thy ===== *)
theory Timestamp
  imports Text
begin

text \<open>
  A second count as a calendar instant (\<open>output/timestamp.rs\<close>).  The source computes in \<open>i64\<close>; no
  step of it leaves that range (\<open>stamp_in_range\<close>), so the arithmetic is on integers, with
  \<open>div_euclid\<close> and \<open>rem_euclid\<close> by a positive divisor as \<open>div\<close> and \<open>mod\<close>.  The reference is the
  Gregorian calendar as the rule for the day after a day.
\<close>

definition civil_from_days :: "int \<Rightarrow> int \<times> int \<times> int" where
  "civil_from_days days =
     (let shifted = days + 719468;
          era = shifted div 146097;
          day_of_era = shifted mod 146097;
          year_of_era = (day_of_era - day_of_era div 1460 + day_of_era div 36524 - day_of_era div 146096) div 365;
          year = year_of_era + era * 400;
          day_of_year = day_of_era - (365 * year_of_era + year_of_era div 4 - year_of_era div 100);
          month_of_year = (5 * day_of_year + 2) div 153;
          day = day_of_year - (153 * month_of_year + 2) div 5 + 1;
          month = (if month_of_year < 10 then month_of_year + 3 else month_of_year - 9)
      in (year + (if month \<le> 2 then 1 else 0), month, day))"

text \<open>\<open>{:04}\<close> and \<open>{:02}\<close>: zeros up to the width, a sign counted in it.\<close>

definition padded :: "nat \<Rightarrow> int \<Rightarrow> str" where
  "padded width i = (if i < 0 then CHR ''-'' # zero_padded (width - 1) (show_nat (nat (- i)))
     else zero_padded width (show_nat (nat i)))"

definition utc_stamp :: "i64 \<Rightarrow> str" where
  "utc_stamp seconds_since_epoch =
     (let days = sint seconds_since_epoch div 86400;
          within_day = sint seconds_since_epoch mod 86400;
          (year, month, day) = civil_from_days days;
          hour = within_day div 3600;
          minute = (within_day mod 3600) div 60;
          second = within_day mod 60
      in padded 4 year @ padded 2 month @ padded 2 day @ ''T'' @
         padded 2 hour @ padded 2 minute @ padded 2 second @ ''Z'')"

section \<open>The calendar\<close>

definition leap :: "int \<Rightarrow> bool" where
  "leap y \<longleftrightarrow> 4 dvd y \<and> (\<not> 100 dvd y \<or> 400 dvd y)"

definition month_length :: "int \<Rightarrow> int \<Rightarrow> int" where
  "month_length y m = (if m = 2 then (if leap y then 29 else 28) else if m \<in> {4, 6, 9, 11} then 30 else 31)"

definition date_ok :: "int \<times> int \<times> int \<Rightarrow> bool" where
  "date_ok = (\<lambda>(y, m, d). 1 \<le> m \<and> m \<le> 12 \<and> 1 \<le> d \<and> d \<le> month_length y m)"

definition day_after :: "int \<times> int \<times> int \<Rightarrow> int \<times> int \<times> int" where
  "day_after = (\<lambda>(y, m, d).
     if d < month_length y m then (y, m, d + 1) else if m < 12 then (y, m + 1, 1) else (y + 1, 1, 1))"

section \<open>Inside an era\<close>

definition year_start :: "int \<Rightarrow> int" where
  "year_start yoe = 365 * yoe + yoe div 4 - yoe div 100"

definition year_of :: "int \<Rightarrow> int" where
  "year_of doe = (doe - doe div 1460 + doe div 36524 - doe div 146096) div 365"

lemma era_split:
  assumes "0 \<le> doe" "doe < 146097"
  obtains c q t :: int where "doe = 36524 * c + 1461 * q + t" "0 \<le> c" "c \<le> 3" "0 \<le> q" "q \<le> 24" "0 \<le> t" "t \<le> 1460"
    "t = 1460 \<longrightarrow> q < 24 \<or> c = 3"
proof -
  define c where "c = (if doe = 146096 then 3 else doe div 36524)"
  define s where "s = doe - 36524 * c"
  have c: "0 \<le> c" "c \<le> 3" "0 \<le> s" "s \<le> 36524" "s = 36524 \<longrightarrow> c = 3"
    using assms by (auto simp: c_def s_def)
  have split: "1461 * (s div 1461) + s mod 1461 = s" by (rule mult_div_mod_eq)
  have t: "0 \<le> s mod 1461" "s mod 1461 < 1461" by simp_all
  from split t c(3,4) have "0 \<le> s div 1461" "s div 1461 \<le> 24" by linarith+
  moreover have "s mod 1461 = 1460 \<longrightarrow> s div 1461 < 24 \<or> c = 3" using split c(4,5) by linarith
  moreover have "doe = 36524 * c + 1461 * (s div 1461) + s mod 1461" using split by (simp add: s_def)
  ultimately show ?thesis using that[of c "s div 1461" "s mod 1461"] c(1,2) t by simp
qed

lemma year_parts:
  assumes "0 \<le> (q::int)" "q \<le> 24" "0 \<le> r" "r \<le> 3"
  shows "(100 * c + 4 * q + r) div 4 = 25 * c + q" "(100 * c + 4 * q + r) div 100 = c"
proof -
  show "(100 * c + 4 * q + r) div 4 = 25 * c + q" by (rule int_div_pos_eq[where r = r]) (use assms in simp_all)
  show "(100 * c + 4 * q + r) div 100 = c" by (rule int_div_pos_eq[where r = "4 * q + r"]) (use assms in simp_all)
qed

lemma year_of_split:
  assumes "doe = 36524 * c + 1461 * q + t" "0 \<le> c" "c \<le> 3" "0 \<le> q" "q \<le> 24" "0 \<le> t" "t \<le> 1460"
    "t = 1460 \<longrightarrow> q < 24 \<or> c = 3"
  shows "year_of doe = 100 * c + 4 * q + min 3 (t div 365)"
    and "doe - year_start (year_of doe) = t - 365 * min 3 (t div 365)"
proof -
  let ?e = "if t \<ge> 1460 - 24 * c - q then 1 else 0 :: int"
  have e1: "doe div 1460 = 25 * c + q + ?e"
    using assms by (intro int_div_pos_eq[where r = "doe - 1460 * (25 * c + q + ?e)"]) (auto split: if_splits)
  have e2: "doe div 36524 - doe div 146096 = c"
  proof (cases "doe = 146096")
    case False
    with assms have "doe div 36524 = c" "doe div 146096 = 0"
      by (auto intro!: int_div_pos_eq[where r = "1461 * q + t"] div_pos_pos_trivial)
    then show ?thesis by simp
  qed (use assms in auto)
  have "doe - doe div 1460 + doe div 36524 - doe div 146096 = 365 * (100 * c + 4 * q) + (t - ?e)"
  proof -
    have "a = 25 * c + q + e \<Longrightarrow> x - y = c \<Longrightarrow> n = 36524 * c + 1461 * q + t \<Longrightarrow>
        n - a + x - y = 365 * (100 * c + 4 * q) + (t - e)" for a e x y n :: int by (simp add: algebra_simps)
    then show ?thesis using e1 e2 assms(1) by blast
  qed
  then have "year_of doe = 100 * c + 4 * q + (t - ?e) div 365" by (simp add: year_of_def)
  moreover have "(t - ?e) div 365 = min 3 (t div 365)"
  proof (cases "t < 1364")
    case False
    then have lo: "1364 \<le> t" by simp
    have "(t - ?e) div 365 = 3" using lo assms by (intro int_div_pos_eq[where r = "t - ?e - 1095"]) (auto split: if_splits)
    moreover have "3 \<le> t div 365" using lo zdiv_mono1[of 1095 t 365] by simp
    ultimately show ?thesis by simp
  next
    case True
    then have "t div 365 \<le> 3" using zdiv_mono1[of t 1363 365] by simp
    with True show ?thesis using assms by auto
  qed
  ultimately show y: "year_of doe = 100 * c + 4 * q + min 3 (t div 365)" by simp
  have starts: "(100 * c + 4 * q + min 3 (t div 365)) div 4 = 25 * c + q"
    "(100 * c + 4 * q + min 3 (t div 365)) div 100 = c"
    using year_parts[OF assms(4,5), of "min 3 (t div 365)" c] assms(6)
    by (simp_all add: pos_imp_zdiv_nonneg_iff)
  then show "doe - year_start (year_of doe) = t - 365 * min 3 (t div 365)"
    unfolding y year_start_def starts using assms(1) by simp
qed

definition year_length :: "int \<Rightarrow> int" where
  "year_length yoe = (if leap (yoe + 1) then 366 else 365)"

lemma leap_split:
  assumes "0 \<le> c" "c \<le> 3" "0 \<le> q" "q \<le> 24" "0 \<le> r" "r \<le> 3"
  shows "leap (100 * c + 4 * q + r + 1) \<longleftrightarrow> r = 3 \<and> (q < 24 \<or> c = 3)"
proof -
  have "4 * (25 * c + q) + (r + 1) = 100 * c + 4 * q + r + 1" by simp
  then have four: "(4::int) dvd 100 * c + 4 * q + r + 1 \<longleftrightarrow> 4 dvd r + 1"
    by (metis dvd_add_right_iff dvd_triv_left)
  have small: "(4::int) dvd r + 1 \<longleftrightarrow> r = 3"
    using zdvd_imp_le[of 4 "r + 1"] assms(5,6) by (auto simp: le_less)
  show ?thesis
  proof (cases "r = 3")
    case True
    have "100 * c + (4 * q + 4) = 100 * c + 4 * q + r + 1" using True by simp
    then have "(100::int) dvd 100 * c + 4 * q + r + 1 \<longleftrightarrow> 100 dvd 4 * q + 4"
      by (metis dvd_add_right_iff dvd_triv_left)
    also have "\<dots> \<longleftrightarrow> q = 24" using zdvd_imp_le[of 100 "4 * q + 4"] assms(3,4) by auto
    finally have hundred: "(100::int) dvd 100 * c + 4 * q + r + 1 \<longleftrightarrow> q = 24" .
    have "(400::int) dvd 100 * c + 4 * 24 + r + 1 \<longleftrightarrow> c = 3"
      using True zdvd_imp_le[of 400 "100 * c + 4 * 24 + r + 1"] assms(1,2) by auto
    with True four small hundred assms(4) show ?thesis by (auto simp: leap_def)
  qed (use four small in \<open>simp add: leap_def\<close>)
qed

text \<open>A day of an era is a day of one year of it, and of one only.\<close>

lemma era_year:
  assumes "0 \<le> doe" "doe < 146097"
  defines "yoe \<equiv> year_of doe"
  shows "0 \<le> yoe \<and> yoe \<le> 399 \<and> 0 \<le> doe - year_start yoe \<and> doe - year_start yoe < year_length yoe"
proof -
  obtain c q t where split: "doe = 36524 * c + 1461 * q + t" "0 \<le> c" "c \<le> 3" "0 \<le> q" "q \<le> 24" "0 \<le> t" "t \<le> 1460"
    "t = 1460 \<longrightarrow> q < 24 \<or> c = 3" by (rule era_split[OF assms(1,2)])
  let ?r = "min 3 (t div 365)"
  have r: "0 \<le> ?r" "?r \<le> 3" using split(6) by (simp_all add: pos_imp_zdiv_nonneg_iff)
  have t: "365 * (t div 365) + t mod 365 = t" by (rule mult_div_mod_eq)
  have small: "0 \<le> t mod 365" "t mod 365 < 365" by simp_all
  have "year_length yoe = (if ?r = 3 \<and> (q < 24 \<or> c = 3) then 366 else 365)"
    unfolding yoe_def year_of_split(1)[OF split] year_length_def leap_split[OF split(2-5) r] ..
  moreover have "0 \<le> t - 365 * ?r" "t - 365 * ?r < (if ?r = 3 \<and> (q < 24 \<or> c = 3) then 366 else 365)"
    using split(7,8) t small by (auto simp: min_def)
  moreover have "0 \<le> 100 * c + 4 * q + ?r" "100 * c + 4 * q + ?r \<le> 399" using r split(2-5) by linarith+
  ultimately show ?thesis using year_of_split[OF split] by (simp add: yoe_def)
qed

lemma year_of_era_split:
  assumes "0 \<le> yoe" "yoe \<le> 399"
  obtains c q r :: int where "yoe = 100 * c + 4 * q + r" "0 \<le> c" "c \<le> 3" "0 \<le> q" "q \<le> 24" "0 \<le> r" "r \<le> 3"
proof -
  define c where "c = yoe div 100"
  define q where "q = (yoe mod 100) div 4"
  define r where "r = yoe mod 4"
  have hundred: "100 * c + yoe mod 100 = yoe" unfolding c_def by (rule mult_div_mod_eq)
  have c: "0 \<le> c" "c \<le> 3" using assms zdiv_mono1[of yoe 399 100] by (simp_all add: c_def pos_imp_zdiv_nonneg_iff)
  have "4 * q + yoe mod 100 mod 4 = yoe mod 100" unfolding q_def by (rule mult_div_mod_eq)
  moreover have "yoe mod 100 mod 4 = r" by (simp add: r_def mod_mod_cancel)
  ultimately have four: "4 * q + r = yoe mod 100" by simp
  have q: "0 \<le> q" "q \<le> 24" using zdiv_mono1[of "yoe mod 100" 99 4] by (simp_all add: q_def pos_imp_zdiv_nonneg_iff)
  have r: "0 \<le> r" "r \<le> 3" using pos_mod_bound[of 4 yoe] by (simp_all add: r_def)
  have yoe: "yoe = 100 * c + 4 * q + r" using hundred four by linarith
  show ?thesis by (rule that[OF yoe c q r])
qed

lemma year_unique:
  assumes "0 \<le> yoe" "yoe \<le> 399" "0 \<le> doy" "doy < year_length yoe"
  shows "year_of (year_start yoe + doy) = yoe"
    and "0 \<le> year_start yoe + doy" "year_start yoe + doy < 146097"
proof -
  obtain c q r where yoe: "yoe = 100 * c + 4 * q + r" and c: "0 \<le> c" "c \<le> 3" and q: "0 \<le> q" "q \<le> 24"
    and r: "0 \<le> r" "r \<le> 3" by (rule year_of_era_split[OF assms(1,2)])
  have doe: "year_start yoe + doy = 36524 * c + 1461 * q + (365 * r + doy)"
    unfolding yoe year_start_def year_parts[OF q r] by simp
  have len: "year_length yoe = (if r = 3 \<and> (q < 24 \<or> c = 3) then 366 else 365)"
    unfolding year_length_def yoe leap_split[OF c q r] ..
  have t: "0 \<le> 365 * r + doy" "365 * r + doy \<le> 1460" "365 * r + doy = 1460 \<longrightarrow> q < 24 \<or> c = 3"
    using r assms(3,4) len by (auto split: if_splits)
  have "min 3 ((365 * r + doy) div 365) = r"
  proof (cases "doy < 365")
    case True
    then have "(365 * r + doy) div 365 = r" using assms(3) by (intro int_div_pos_eq[where r = doy]) simp_all
    with r show ?thesis by simp
  next
    case False
    with assms(4) len have "r = 3" "doy = 365" by (auto split: if_splits)
    then show ?thesis by simp
  qed
  then show "year_of (year_start yoe + doy) = yoe" using year_of_split(1)[OF doe c q t] yoe by simp
  show "0 \<le> year_start yoe + doy" "year_start yoe + doy < 146097" using doe c q t by simp_all
qed

lemma year_start_next:
  assumes "0 \<le> yoe" "yoe < 399"
  shows "year_start yoe + year_length yoe = year_start (yoe + 1)"
proof -
  obtain c q r where yoe: "yoe = 100 * c + 4 * q + r" and c: "0 \<le> c" "c \<le> 3" and q: "0 \<le> q" "q \<le> 24"
    and r: "0 \<le> r" "r \<le> 3" by (rule year_of_era_split[OF assms(1) less_imp_le]) (use assms(2) in simp)
  have len: "year_length yoe = (if r = 3 \<and> (q < 24 \<or> c = 3) then 366 else 365)"
    unfolding year_length_def yoe leap_split[OF c q r] ..
  have start: "year_start (100 * c' + 4 * q' + r') = 365 * (100 * c' + 4 * q' + r') + 25 * c' + q' - c'"
    if "0 \<le> q'" "q' \<le> 24" "0 \<le> r'" "r' \<le> 3" for c' q' r' :: int
    unfolding year_start_def year_parts[OF that] by simp
  consider "r < 3" | "r = 3" "q < 24" | "r = 3" "q = 24" "c < 3" using q r c assms(2) yoe by linarith
  then show ?thesis
  proof cases
    case 1
    have next_year: "yoe + 1 = 100 * c + 4 * q + (r + 1)" using yoe by simp
    show ?thesis unfolding len next_year unfolding yoe using start[of q r c] start[of q "r + 1" c] q r 1 by simp
  next
    case 2
    have next_year: "yoe + 1 = 100 * c + 4 * (q + 1) + 0" using yoe 2 by simp
    show ?thesis unfolding len next_year unfolding yoe using start[of q r c] start[of "q + 1" 0 c] q 2 by simp
  next
    case 3
    have next_year: "yoe + 1 = 100 * (c + 1) + 4 * 0 + 0" using yoe 3 by simp
    show ?thesis unfolding len next_year unfolding yoe using start[of q r c] start[of 0 0 "c + 1"] 3 by simp
  qed
qed

section \<open>Inside a year\<close>

definition month_day :: "int \<Rightarrow> int \<times> int" where
  "month_day doy =
     (let mp = (5 * doy + 2) div 153; d = doy - (153 * mp + 2) div 5 + 1
      in (if mp < 10 then mp + 3 else mp - 9, d))"

text \<open>The year starting in March, its last day the leap day: checked on each of its 366 days.\<close>

definition month_day_steps :: "int \<Rightarrow> bool" where
  "month_day_steps doy =
     (case (month_day doy, month_day (doy + 1)) of ((m, d), next) \<Rightarrow>
        let last = (if m = 2 then 29 else if m \<in> {4, 6, 9, 11} then 30 else 31)
        in 1 \<le> m \<and> m \<le> 12 \<and> 1 \<le> d \<and> d \<le> last \<and> (m \<le> 2 \<longleftrightarrow> 306 \<le> doy) \<and>
           (m = 2 \<and> d = 29 \<longleftrightarrow> doy = 365) \<and> (m = 2 \<and> d = 28 \<longleftrightarrow> doy = 364) \<and>
           (doy < 365 \<longrightarrow> next = (if d < last then (m, d + 1) else if m < 12 then (m + 1, 1) else (1, 1))))"

lemma month_day_table: "\<forall>doy\<in>set [0..365]. month_day_steps doy"
  by code_simp

lemma civil_parts:
  assumes "0 \<le> yoe" "yoe \<le> 399" "0 \<le> doy" "doy < year_length yoe"
  shows "civil_from_days (146097 * era + (year_start yoe + doy) - 719468) =
    (case month_day doy of (m, d) \<Rightarrow> (yoe + era * 400 + (if m \<le> 2 then 1 else 0), m, d))"
proof -
  let ?doe = "year_start yoe + doy"
  have doe: "(146097 * era + ?doe) div 146097 = era" "(146097 * era + ?doe) mod 146097 = ?doe"
    using year_unique(2,3)[OF assms] by simp_all
  have shifted: "146097 * era + ?doe - 719468 + 719468 = 146097 * era + ?doe" by simp
  have doy: "?doe - (365 * yoe + yoe div 4 - yoe div 100) = doy" by (simp add: year_start_def)
  show ?thesis
    unfolding civil_from_days_def Let_def shifted doe year_of_def[symmetric] year_unique(1)[OF assms] doy month_day_def
    by simp
qed

lemma civil_cases:
  obtains era yoe doy where "n = 146097 * era + (year_start yoe + doy) - 719468"
    "0 \<le> yoe" "yoe \<le> 399" "0 \<le> doy" "doy < year_length yoe"
proof -
  define doe where "doe = (n + 719468) mod 146097"
  have "146097 * ((n + 719468) div 146097) + doe = n + 719468" unfolding doe_def by (rule mult_div_mod_eq)
  moreover have "0 \<le> doe" "doe < 146097" by (simp_all add: doe_def)
  ultimately show ?thesis
    using era_year[of doe] that[of "(n + 719468) div 146097" "year_of doe" "doe - year_start (year_of doe)"] by simp
qed

lemma leap_of_era: "leap (y + era * 400) = leap y"
proof -
  have "era * 400 = 4 * (era * 100)" "era * 400 = 100 * (era * 4)" "era * 400 = 400 * era" by simp_all
  then have "4 dvd era * 400" "100 dvd era * 400" "400 dvd era * 400" by (metis dvd_triv_left)+
  then show ?thesis by (simp add: leap_def dvd_add_left_iff)
qed

lemma year_length_of: "year_length yoe = 365 \<or> year_length yoe = 366"
  by (simp add: year_length_def)

text \<open>The algorithm's date of the next day count is the calendar's next date.\<close>

lemma civil_from_days_next:
  "date_ok (civil_from_days n) \<and> civil_from_days (n + 1) = day_after (civil_from_days n)"
proof -
  obtain era yoe doy where n: "n = 146097 * era + (year_start yoe + doy) - 719468"
    and ok: "0 \<le> yoe" "yoe \<le> 399" "0 \<le> doy" "doy < year_length yoe" by (rule civil_cases)
  obtain m d where md: "month_day doy = (m, d)" by (cases "month_day doy")
  let ?y = "yoe + era * 400 + (if m \<le> 2 then 1 else 0)"
  have now: "civil_from_days n = (?y, m, d)" unfolding n civil_parts[OF ok] md by simp
  have "doy \<le> 365" using ok(4) year_length_of[of yoe] by auto
  then have table: "month_day_steps doy" using month_day_table ok(3) by auto
  have leap_now: "m = 2 \<Longrightarrow> leap ?y \<longleftrightarrow> year_length yoe = 366"
    using leap_of_era[of "yoe + 1" era] by (simp add: year_length_def ac_simps)
  show ?thesis
  proof (cases "doy + 1 < year_length yoe")
    case True
    have "n + 1 = 146097 * era + (year_start yoe + (doy + 1)) - 719468" using n by simp
    with ok True have "civil_from_days (n + 1) =
        (case month_day (doy + 1) of (m, d) \<Rightarrow> (yoe + era * 400 + (if m \<le> 2 then 1 else 0), m, d))"
      by (simp only: civil_parts)
    moreover have "month_day (doy + 1) = (if d < month_length ?y m then (m, d + 1) else if m < 12 then (m + 1, 1) else (1, 1))
        \<and> 1 \<le> m \<and> m \<le> 12 \<and> 1 \<le> d \<and> d \<le> month_length ?y m
        \<and> (m = 2 \<longrightarrow> d < month_length ?y m)"
    proof (cases "m = 2")
      case True
      then show ?thesis using \<open>doy + 1 < year_length yoe\<close> table md leap_now year_length_of[of yoe]
        by (auto simp: month_day_steps_def month_length_def)
    next
      case False
      then have "month_length ?y m = (if m \<in> {4, 6, 9, 11} then 30 else 31)" by (simp add: month_length_def)
      moreover have "doy < 365" using True \<open>doy \<le> 365\<close> year_length_of[of yoe] by linarith
      ultimately show ?thesis using False table md by (simp add: month_day_steps_def Let_def)
    qed
    ultimately show ?thesis using now by (cases "m = 2") (auto simp: date_ok_def day_after_def)
  next
    case False
    with ok(4) have last: "doy + 1 = year_length yoe" by simp
    have "civil_from_days (n + 1) = (yoe + era * 400 + 1, 3, 1)"
    proof (cases "yoe < 399")
      case True
      have "n + 1 = 146097 * era + (year_start (yoe + 1) + 0) - 719468"
        using n last year_start_next[OF ok(1) True] by simp
      moreover have "civil_from_days (146097 * era + (year_start (yoe + 1) + 0) - 719468) = (yoe + era * 400 + 1, 3, 1)"
        using civil_parts[of "yoe + 1" 0 era] year_length_of[of "yoe + 1"] ok(1) True by (auto simp: month_day_def)
      ultimately show ?thesis by (simp only:)
    next
      case False
      with ok(2) have y: "yoe = 399" by simp
      have "year_start 399 + year_length 399 = 146097" by code_simp
      then have "n + 1 = 146097 * (era + 1) + (year_start 0 + 0) - 719468" using n last by (simp add: y year_start_def)
      moreover have "civil_from_days (146097 * (era + 1) + (year_start 0 + 0) - 719468) = (yoe + era * 400 + 1, 3, 1)"
        using civil_parts[of 0 0 "era + 1"] year_length_of[of 0] y by (auto simp: month_day_def)
      ultimately show ?thesis by (simp only:)
    qed
    moreover from last table md leap_now year_length_of[of yoe] have "m = 2 \<and> d = month_length ?y m"
      by (auto simp: month_day_steps_def Let_def month_length_def split: if_splits prod.splits)
    ultimately show ?thesis using now by (auto simp: date_ok_def day_after_def month_length_def)
  qed
qed

section \<open>Dates in order\<close>

definition date_number :: "int \<times> int \<times> int \<Rightarrow> int" where
  "date_number = (\<lambda>(y, m, d). 10000 * y + 100 * m + d)"

lemma date_number_after: "date_ok date \<Longrightarrow> date_number date < date_number (day_after date)"
  by (auto simp: date_number_def day_after_def date_ok_def month_length_def split: prod.splits if_splits)

lemma date_number_mono:
  assumes "m < n"
  shows "date_number (civil_from_days m) < date_number (civil_from_days n)"
proof -
  have step: "date_number (civil_from_days k) < date_number (civil_from_days (k + 1))" for k
    using civil_from_days_next[of k] date_number_after[of "civil_from_days k"] by simp
  have "date_number (civil_from_days m) < date_number (civil_from_days (m + int (Suc k)))" for k
  proof (induction k)
    case (Suc k)
    with step[of "m + int (Suc k)"] show ?case by (simp add: ac_simps)
  qed (use step in simp)
  from this[of "nat (n - m - 1)"] show ?thesis using assms by simp
qed

lemma date_number_mono_le: "m \<le> n \<Longrightarrow> date_number (civil_from_days m) \<le> date_number (civil_from_days n)"
  by (cases "m = n") (simp_all add: date_number_mono less_imp_le)

lemma date_ok_days: "date_ok (civil_from_days n)"
  using civil_from_days_next by blast

lemma date_number_year:
  "date_ok date \<Longrightarrow> 10000 * fst date < date_number date \<and> date_number date < 10000 * fst date + 10000"
  by (auto simp: date_number_def date_ok_def month_length_def split: prod.splits if_splits)

lemma year_bounds:
  assumes "l \<le> n" "n \<le> u"
  shows "fst (civil_from_days l) \<le> fst (civil_from_days n)" "fst (civil_from_days n) \<le> fst (civil_from_days u)"
  using date_number_mono_le[OF assms(1)] date_number_mono_le[OF assms(2)] date_number_year[OF date_ok_days[of l]]
    date_number_year[OF date_ok_days[of n]] date_number_year[OF date_ok_days[of u]]
  by linarith+

section \<open>Stamps\<close>

text \<open>Decimal digits of one width sort as the numbers they write.\<close>

definition decimal :: "str \<Rightarrow> bool" where
  "decimal s \<longleftrightarrow> list_all (\<lambda>c. 48 \<le> (of_char c :: nat) \<and> of_char c < (58::nat)) s"

lemma decimal_append [simp]: "decimal (s @ t) \<longleftrightarrow> decimal s \<and> decimal t"
  by (simp add: decimal_def)

lemma decimal_show_nat [simp]: "decimal (show_nat n)"
  using positional_digits[of 10 _ n] by (fastforce simp: decimal_def show_nat_def list_all_iff of_char_digit)

lemma decimal_zero_padded [simp]: "decimal s \<Longrightarrow> decimal (zero_padded w s)"
  by (auto simp: decimal_def zero_padded_def list_all_iff)

lemma number_of_append: "number_of b (s @ t) = number_of b s * b ^ length t + number_of b t"
proof -
  have "foldl (\<lambda>n c. b * n + digit_value c) n t = n * b ^ length t + foldl (\<lambda>n c. b * n + digit_value c) 0 t" for n
    by (induction t rule: rev_induct) (simp_all add: algebra_simps)
  from this[of "number_of b s"] show ?thesis by (simp add: number_of_def)
qed

lemma number_of_less: "decimal s \<Longrightarrow> number_of 10 s < 10 ^ length s"
  by (induction s rule: rev_induct) (auto simp: decimal_def number_of_append number_of_def digit_value_def)

lemma decimal_less: "decimal s \<Longrightarrow> decimal t \<Longrightarrow> length s = length t \<Longrightarrow> number_of 10 s < number_of 10 t \<Longrightarrow> s < t"
proof (induction s arbitrary: t)
  case (Cons c s)
  then obtain d u where t: "t = d # u" "length u = length s" by (cases t) auto
  have num: "number_of 10 (e # r) = (of_char e - 48) * 10 ^ length r + number_of 10 r \<and> 48 \<le> (of_char e :: nat)
      \<and> decimal r" if "decimal (e # r)" for e r
    using number_of_append[of 10 "[e]" r] that by (auto simp: number_of_def digit_value_def decimal_def)
  note c = num[OF Cons.prems(1)] and d = num[OF Cons.prems(2)[unfolded t(1)]]
  show ?case
  proof (cases "(of_char d :: nat) < of_char c")
    case True
    have "number_of 10 u < 10 ^ length s" using number_of_less[of u] d t(2) by simp
    then have "number_of 10 t < (of_char d - 48 + 1) * 10 ^ length s" using d t by simp
    also have "\<dots> \<le> (of_char c - 48) * 10 ^ length s" using True d by (intro mult_le_mono1) linarith
    also have "\<dots> \<le> number_of 10 (c # s)" using c by simp
    finally show ?thesis using Cons.prems(4) by simp
  next
    case False
    then consider "c < d" | "c = d" by (force simp: less_char_def)
    then show ?thesis
    proof cases
      case 2
      with Cons.prems(4) c d t have "number_of 10 s < number_of 10 u" by simp
      with Cons.IH[of u] c d t 2 show ?thesis by simp
    qed (simp add: t)
  qed
qed simp


lemma padded_digits:
  assumes "0 \<le> i" "i < 10 ^ w" "0 < w"
  shows "decimal (padded w i)" "length (padded w i) = w" "number_of 10 (padded w i) = nat i"
proof -
  have "nat i < 10 ^ w" using assms by (simp add: nat_less_iff)
  then have "length (show_nat (nat i)) \<le> w" using length_positional[of 10 "nat i" w] assms(3) by (simp add: show_nat_def)
  then show "length (padded w i) = w" using assms(1) by (simp add: padded_def length_zero_padded)
  show "number_of 10 (padded w i) = nat i"
    using assms(1) number_of_positional[of 10 "nat i"] by (simp add: padded_def number_of_zero_padded show_nat_def)
qed (use assms in \<open>simp add: padded_def\<close>)

lemma append_less_same_length:
  "length s = length (t :: 'a :: linorder list) \<Longrightarrow> s @ u < t @ v \<longleftrightarrow> s < t \<or> s = t \<and> u < v"
  by (induction s t rule: list_induct2) auto

definition date_text :: "int \<Rightarrow> str" where
  "date_text days = (case civil_from_days days of (y, m, d) \<Rightarrow> padded 4 y @ padded 2 m @ padded 2 d)"

definition time_text :: "int \<Rightarrow> str" where
  "time_text s = padded 2 (s div 3600) @ padded 2 ((s mod 3600) div 60) @ padded 2 (s mod 60)"

lemma utc_stamp_parts: "utc_stamp s = date_text (sint s div 86400) @ ''T'' @ time_text (sint s mod 86400) @ ''Z''"
  by (simp add: utc_stamp_def date_text_def time_text_def Let_def split: prod.splits)

lemma date_text_digits:
  assumes "-719528 \<le> n" "n \<le> 2932896"
  shows "decimal (date_text n)" "length (date_text n) = 8"
    "number_of 10 (date_text n) = nat (date_number (civil_from_days n))" "0 \<le> date_number (civil_from_days n)"
proof -
  obtain y m d where date: "civil_from_days n = (y, m, d)" by (cases "civil_from_days n")
  have "civil_from_days (-719528) = (0, 1, 1)" "civil_from_days 2932896 = (9999, 12, 31)" by code_simp+
  with year_bounds[OF assms] date have y: "0 \<le> y" "y \<le> 9999" by simp_all
  have md: "1 \<le> m" "m \<le> 12" "1 \<le> d" "d \<le> 31"
    using date_ok_days[of n] date by (auto simp: date_ok_def month_length_def split: if_splits)
  have parts: "padded 4 y @ padded 2 m @ padded 2 d = date_text n" using date by (simp add: date_text_def)
  note digits = padded_digits[of y 4] padded_digits[of m 2] padded_digits[of d 2]
  show "decimal (date_text n)" "length (date_text n) = 8" using digits y md by (simp_all flip: parts)
  show "0 \<le> date_number (civil_from_days n)" using date y md by (simp add: date_number_def)
  have "number_of 10 (date_text n) = (nat y * 100 + nat m) * 100 + nat d"
    using digits y md by (simp add: number_of_append flip: parts)
  then show "number_of 10 (date_text n) = nat (date_number (civil_from_days n))"
    using date y md by (simp add: date_number_def nat_add_distrib nat_mult_distrib)
qed

lemma time_of_day:
  obtains h m c where "s div 3600 = h" "(s mod 3600) div 60 = m" "s mod 60 = c" "s = 3600 * h + 60 * m + c"
    "0 \<le> m" "m < 60" "0 \<le> c" "c < (60::int)"
proof -
  have hour: "3600 * (s div 3600) + s mod 3600 = s" by (rule mult_div_mod_eq)
  have "60 * (s mod 3600 div 60) + s mod 3600 mod 60 = s mod 3600" by (rule mult_div_mod_eq)
  moreover have "s mod 3600 mod 60 = s mod 60" by (rule mod_mod_cancel) simp
  ultimately have parts: "s = 3600 * (s div 3600) + 60 * (s mod 3600 div 60) + s mod 60" using hour by linarith
  have "0 \<le> s mod 3600 div 60" "s mod 3600 div 60 < 60"
    using zdiv_mono1[of "s mod 3600" 3599 60] by (simp_all add: pos_imp_zdiv_nonneg_iff)
  then show ?thesis by (rule that[OF refl refl refl parts]) simp_all
qed

lemma time_text_digits:
  assumes "0 \<le> s" "s < 86400" "s div 3600 = h" "(s mod 3600) div 60 = m" "s mod 60 = c" "s = 3600 * h + 60 * m + c"
    "0 \<le> m" "m < 60" "0 \<le> c" "c < 60"
  shows "decimal (time_text s)" "length (time_text s) = 6"
    "number_of 10 (time_text s) = nat (h * 10000 + m * 100 + c)" "0 \<le> h"
proof -
  have h: "0 \<le> h" "h < 24" using assms by linarith+
  note digits = padded_digits[of h 2] padded_digits[of m 2] padded_digits[of c 2]
  have written: "time_text s = padded 2 h @ padded 2 m @ padded 2 c" unfolding time_text_def assms(3-5) ..
  show "decimal (time_text s)" "length (time_text s) = 6" unfolding written using digits h assms(7-10) by simp_all
  show "0 \<le> h" by (rule h(1))
  have "number_of 10 (time_text s) = (nat h * 100 + nat m) * 100 + nat c"
    unfolding written using digits h assms(7-10) by (simp add: number_of_append)
  also have "\<dots> = nat (h * 10000 + m * 100 + c)" using h assms(7-10) by (simp add: nat_add_distrib nat_mult_distrib)
  finally show "number_of 10 (time_text s) = nat (h * 10000 + m * 100 + c)" .
qed

lemma time_text_less:
  assumes "0 \<le> s" "s < t" "t < 86400"
  shows "time_text s < time_text t"
proof -
  obtain h m c where s: "s div 3600 = h" "(s mod 3600) div 60 = m" "s mod 60 = c" "s = 3600 * h + 60 * m + c"
    "0 \<le> m" "m < 60" "0 \<le> c" "c < 60" by (rule time_of_day)
  obtain h' m' c' where t: "t div 3600 = h'" "(t mod 3600) div 60 = m'" "t mod 60 = c'" "t = 3600 * h' + 60 * m' + c'"
    "0 \<le> m'" "m' < 60" "0 \<le> c'" "c' < 60" by (rule time_of_day)
  have bounds: "s < 86400" "0 \<le> t" using assms by linarith+
  note s_digits = time_text_digits[OF assms(1) bounds(1) s] and t_digits = time_text_digits[OF bounds(2) assms(3) t]
  have "h < h' \<or> h = h' \<and> (m < m' \<or> m = m' \<and> c < c')" using s(4-8) t(4-8) assms(2) by linarith
  then have "h * 10000 + m * 100 + c < h' * 10000 + m' * 100 + c'" using s(5-8) t(5-8) by linarith
  then have "number_of 10 (time_text s) < number_of 10 (time_text t)"
    unfolding s_digits(3) t_digits(3) using s_digits(4) s(5,7) by (subst nat_less_eq_zless) auto
  then show ?thesis using s_digits t_digits by (intro decimal_less) simp_all
qed

lemma date_text_less:
  assumes "-719528 \<le> m" "m < n" "n \<le> 2932896"
  shows "date_text m < date_text n"
  using date_text_digits[of m] date_text_digits[of n] date_number_mono[OF assms(2)] assms by (intro decimal_less) simp_all

text \<open>The seconds of the years 0000 to 9999, which four digits hold.\<close>

definition four_digit_year :: "i64 \<Rightarrow> bool" where
  "four_digit_year s \<longleftrightarrow> -62167219200 \<le> sint s \<and> sint s \<le> 253402300799"

lemma div_between:
  assumes "l \<le> x" "x \<le> u" "0 < n" "l div n = l'" "u div n = (u' :: int)"
  shows "l' \<le> x div n" "x div n \<le> u'"
  using zdiv_mono1[OF assms(1,3)] zdiv_mono1[OF assms(2,3)] assms(4,5) by simp_all

lemma stamp_day:
  assumes "four_digit_year s"
  shows "-719528 \<le> sint s div 86400" "sint s div 86400 \<le> 2932896" "0 \<le> sint s mod 86400" "sint s mod 86400 < 86400"
proof -
  have "-62167219200 \<le> sint s" "sint s \<le> 253402300799" using assms by (simp_all add: four_digit_year_def)
  note between = div_between[OF this, of 86400 "-719528" 2932896]
  show "-719528 \<le> sint s div 86400" by (rule between(1)) simp_all
  show "sint s div 86400 \<le> 2932896" by (rule between(2)) simp_all
qed simp_all

section \<open>Properties\<close>

text \<open>
  C17.  The date of a day count follows the calendar: the epoch is the first of January 1970, every
  date it gives exists, and the next day count has the date after, leap years included.
\<close>

theorem dates_follow_the_calendar:
  "civil_from_days 0 = (1970, 1, 1) \<and> date_ok (civil_from_days n) \<and>
   civil_from_days (n + 1) = day_after (civil_from_days n)"
proof -
  have "civil_from_days 0 = (1970, 1, 1)" by code_simp
  with civil_from_days_next[of n] show ?thesis by blast
qed

text \<open>
  The stamps of two instants of the years 0000 to 9999 are sixteen bytes each and sort as the
  instants do, and neither has a colon or a slash: a directory of them lists in order.
\<close>

theorem stamps_sort_as_instants:
  assumes "four_digit_year s" "four_digit_year t" "sint s < sint t"
  shows "utc_stamp s < utc_stamp t \<and> length (utc_stamp s) = 16 \<and> length (utc_stamp t) = 16 \<and>
    list_all is_ascii_alphanumeric (utc_stamp s)"
proof -
  let ?days = "\<lambda>s. sint s div 86400" and ?time = "\<lambda>s. sint s mod 86400"
  have time: "decimal (time_text (?time r)) \<and> length (time_text (?time r)) = 6" if "four_digit_year r" for r :: i64
  proof -
    obtain h m c where "?time r div 3600 = h" "(?time r mod 3600) div 60 = m" "?time r mod 60 = c"
      "?time r = 3600 * h + 60 * m + c" "0 \<le> m" "m < 60" "0 \<le> c" "c < 60" by (rule time_of_day)
    from time_text_digits(1,2)[OF stamp_day(3,4)[OF that] this] show ?thesis ..
  qed
  note s_date = date_text_digits[OF stamp_day(1,2)[OF assms(1)]]
    and t_date = date_text_digits[OF stamp_day(1,2)[OF assms(2)]]
  have day: "86400 * ?days r + ?time r = sint r" for r :: i64 by (rule mult_div_mod_eq)
  have "?days s \<le> ?days t" using assms(3) by (intro zdiv_mono1) simp_all
  then consider "?days s < ?days t" | "?days s = ?days t" "?time s < ?time t"
    using day[of s] day[of t] assms(3) by linarith
  then have "utc_stamp s < utc_stamp t"
  proof cases
    case 1
    from date_text_less[OF stamp_day(1)[OF assms(1)] this stamp_day(2)[OF assms(2)]]
    show ?thesis using s_date(2) t_date(2)
      by (simp add: utc_stamp_parts append_less_same_length)
  next
    case 2
    from time_text_less[OF stamp_day(3)[OF assms(1)] 2(2) stamp_day(4)[OF assms(2)]] time[OF assms(1)] time[OF assms(2)]
    show ?thesis by (simp add: utc_stamp_parts append_less_same_length 2(1))
  qed
  moreover have "list_all is_ascii_alphanumeric r" if "decimal r" for r
    using that by (auto simp: decimal_def list_all_iff is_ascii_alphanumeric_def is_ascii_digit_def)
  ultimately show ?thesis
    using s_date t_date time[OF assms(1)] time[OF assms(2)]
    by (simp add: utc_stamp_parts) (simp add: is_ascii_alphanumeric_def is_ascii_alphabetic_def is_ascii_uppercase_def)
qed

theorem stamps_sort_as_instants_witness: "utc_stamp 1000000000 < utc_stamp 1709210096"
  using stamps_sort_as_instants[of 1000000000 1709210096] by (simp add: four_digit_year_def)

definition in_i64 :: "int \<Rightarrow> bool" where
  "in_i64 i \<longleftrightarrow> - (2 ^ 63) \<le> i \<and> i < 2 ^ 63"

lemma sums_in_range:
  assumes "-106751991167301 \<le> days" "days \<le> 106751991167300" "-730692557 \<le> era" "era \<le> 730692566"
    "0 \<le> yoe" "yoe \<le> 399"
  shows "in_i64 (days + 719468)" "in_i64 (era * 400)" "in_i64 (yoe + era * 400)"
  using assms by (simp_all add: in_i64_def)

lemma stamp_days:
  fixes s :: i64
  shows "-106751991167301 \<le> sint s div 86400" "sint s div 86400 \<le> 106751991167300"
proof -
  have "-9223372036854775808 \<le> sint s" "sint s \<le> 9223372036854775807"
    using sint_greater_eq[of s] sint_less[of s] by simp_all
  note between = div_between[OF this, of 86400 "-106751991167301" 106751991167300]
  show "-106751991167301 \<le> sint s div 86400" by (rule between(1)) simp_all
  show "sint s div 86400 \<le> 106751991167300" by (rule between(2)) simp_all
qed

lemma stamp_years:
  fixes s :: i64
  shows "-292277022657 \<le> fst (civil_from_days (sint s div 86400))" "fst (civil_from_days (sint s div 86400)) \<le> 292277026596"
proof -
  have ends: "fst (civil_from_days (-106751991167301)) = -292277022657"
    "fst (civil_from_days 106751991167300) = 292277026596" by code_simp+
  note bounds = year_bounds[OF stamp_days, unfolded ends]
  show "-292277022657 \<le> fst (civil_from_days (sint s div 86400))" by (rule bounds(1))
  show "fst (civil_from_days (sint s div 86400)) \<le> 292277026596" by (rule bounds(2))
qed

text \<open>
  For every second count an \<open>i64\<close> holds, the sums of the calendar stay in an \<open>i64\<close>: nothing
  overflows, and the year printed is between the two ends of the range.
\<close>

theorem stamp_in_range:
  fixes s :: i64
  defines "days \<equiv> sint s div 86400"
  shows "in_i64 (days + 719468) \<and> in_i64 ((days + 719468) div 146097 * 400) \<and>
    in_i64 (year_of ((days + 719468) mod 146097) + (days + 719468) div 146097 * 400) \<and>
    -292277022657 \<le> fst (civil_from_days days) \<and> fst (civil_from_days days) \<le> 292277026596"
proof -
  have days: "-106751991167301 \<le> days" "days \<le> 106751991167300"
    unfolding days_def by (rule stamp_days)+
  have "-106751990447833 \<le> days + 719468" "days + 719468 \<le> 106751991886768" using days by simp_all
  note between = div_between[OF this, of 146097 "-730692557" 730692566]
  have era: "-730692557 \<le> (days + 719468) div 146097" "(days + 719468) div 146097 \<le> 730692566"
    by (rule between(1), simp_all) (rule between(2), simp_all)
  have "0 \<le> year_of ((days + 719468) mod 146097)" "year_of ((days + 719468) mod 146097) \<le> 399"
    using era_year[of "(days + 719468) mod 146097"] by simp_all
  from sums_in_range[OF days era this] stamp_years[of s, folded days_def] show ?thesis by blast
qed

end
