(* ===== verification/Output.thy ===== *)
theory Output
  imports Paths Timestamp
begin

text \<open>
  Where the document goes (\<open>output.rs\<close>): the destination and its default name, and the writing of a
  file.  The calls of \<open>std::fs\<close> act on a table of names and a store of files, so that two names of
  one file share its bytes; every call may also fail as the machine decides, and other processes
  may change the table in the windows between the calls.
\<close>

section \<open>Destinations\<close>

datatype destination = Stdout | File str

definition hostname_limit :: nat where
  "hostname_limit = 64"

definition is_name_char :: "str \<Rightarrow> bool" where
  "is_name_char character \<longleftrightarrow>
     (case character of [c] \<Rightarrow> is_ascii_alphanumeric c \<or> c \<in> {CHR ''.'', CHR ''_'', CHR ''-''} | _ \<Rightarrow> False)"

definition default_file_name :: "str option \<Rightarrow> i64 \<Rightarrow> str" where
  "default_file_name hostname started_at =
     (let stamp = utc_stamp started_at;
          host = concat (take hostname_limit (filter is_name_char (chars_of (case hostname of Some h \<Rightarrow> h | None \<Rightarrow> []))))
      in if host = [] then ''rastro-'' @ stamp @ ''.json''
         else ''rastro-'' @ host @ ''-'' @ stamp @ ''.json'')"

definition resolve :: "str option \<Rightarrow> str option \<Rightarrow> i64 \<Rightarrow> destination" where
  "resolve requested hostname started_at =
     (case requested of
        Some path \<Rightarrow> if components path = components ''-'' then Stdout else File path
      | None \<Rightarrow> File (default_file_name hostname started_at))"

text \<open>
  The path as the walk will meet it.  \<open>canonicalize\<close> and \<open>absolute\<close> ask the operating system; a
  relative path of one component has the empty parent, which does not resolve.
\<close>

definition as_walked :: "(path \<Rightarrow> path option) \<Rightarrow> (path \<Rightarrow> path option) \<Rightarrow> path \<Rightarrow> path" where
  "as_walked canonicalize absolute path =
     (case file_name path of
        None \<Rightarrow> path
      | Some name \<Rightarrow>
          (case Option.bind (parent path) canonicalize of
             Some directory \<Rightarrow> joined directory [Normal name]
           | None \<Rightarrow> (case absolute path of Some p \<Rightarrow> p | None \<Rightarrow> path)))"

definition walked_output :: "(path \<Rightarrow> path option) \<Rightarrow> (path \<Rightarrow> path option) \<Rightarrow> destination \<Rightarrow> path option" where
  "walked_output canonicalize absolute destination =
     (case destination of File path \<Rightarrow> Some (as_walked canonicalize absolute (components path)) | Stdout \<Rightarrow> None)"

section \<open>The filesystem\<close>

text \<open>A name leads to a file, to another name, to a directory, or to a device, pipe or socket.\<close>

datatype node = Regular nat | Link path | Directory | Stream

fun is_regular :: "node \<Rightarrow> bool" where
  "is_regular (Regular i) = True"
| "is_regular _ = False"

record stored_file =
  bytes_of :: str
  mode_of :: nat

record files =
  names :: "path \<Rightarrow> node option"
  store :: "nat \<Rightarrow> stored_file option"
  unused :: nat

datatype io_error = AlreadyExists | NotFound | IsADirectory | TooManyLinks | OtherError str

datatype call = Look | Create | Open | WriteBytes | Flush | Sync | Rename | HardLink | Unlink | Cleanup

datatype window = BeforeLook | BeforeOpen | BeforeWrite | BeforePublish

text \<open>
  What a run cannot choose: which calls fail, how many bytes a failed write let through, what others
  do to the filesystem meanwhile, how a name that is not text is spelled, and the process id.
\<close>

record machine =
  fault :: "call \<Rightarrow> io_error option"
  accepted :: nat
  meanwhile :: "window \<Rightarrow> files \<Rightarrow> files"
  lossy :: "str \<Rightarrow> str"
  process_id :: nat

text \<open>\<open>O_CREAT | O_EXCL\<close> with mode 0600: refuses any name that is taken, a link included.\<close>

definition create_new :: "machine \<Rightarrow> path \<Rightarrow> files \<Rightarrow> (io_error + nat) \<times> files" where
  "create_new m p fs =
     (case fault m Create of Some e \<Rightarrow> (Inl e, fs) | None \<Rightarrow>
       (case names fs p of
          Some _ \<Rightarrow> (Inl AlreadyExists, fs)
        | None \<Rightarrow> (Inr (unused fs),
            fs\<lparr>names := (names fs)(p \<mapsto> Regular (unused fs)),
               store := (store fs)(unused fs \<mapsto> (\<lparr>bytes_of = [], mode_of = 384\<rparr> :: stored_file)),
               unused := Suc (unused fs)\<rparr>)))"

fun followed :: "nat \<Rightarrow> files \<Rightarrow> path \<Rightarrow> io_error + node" where
  "followed 0 fs p = Inl TooManyLinks"
| "followed (Suc n) fs p =
     (case names fs p of None \<Rightarrow> Inl NotFound | Some (Link q) \<Rightarrow> followed n fs q | Some node \<Rightarrow> Inr node)"

text \<open>The links the kernel follows before it gives up.\<close>

definition link_limit :: nat where
  "link_limit = 40"

definition put_bytes :: "node \<Rightarrow> str \<Rightarrow> files \<Rightarrow> files" where
  "put_bytes target bs fs =
     (case target of
        Regular i \<Rightarrow> fs\<lparr>store := (store fs)(i := map_option (\<lambda>f. f\<lparr>bytes_of := bytes_of f @ bs\<rparr>) (store fs i))\<rparr>
      | _ \<Rightarrow> fs)"

definition truncated :: "node \<Rightarrow> files \<Rightarrow> files" where
  "truncated target fs =
     (case target of
        Regular i \<Rightarrow> fs\<lparr>store := (store fs)(i := map_option (\<lambda>f. f\<lparr>bytes_of := []\<rparr>) (store fs i))\<rparr>
      | _ \<Rightarrow> fs)"

definition open_truncate :: "machine \<Rightarrow> path \<Rightarrow> files \<Rightarrow> (io_error + node) \<times> files" where
  "open_truncate m p fs =
     (case fault m Open of Some e \<Rightarrow> (Inl e, fs) | None \<Rightarrow>
       (case followed link_limit fs p of
          Inl e \<Rightarrow> (Inl e, fs)
        | Inr Directory \<Rightarrow> (Inl IsADirectory, fs)
        | Inr target \<Rightarrow> (Inr target, truncated target fs)))"

definition renamed :: "machine \<Rightarrow> path \<Rightarrow> path \<Rightarrow> files \<Rightarrow> (io_error + unit) \<times> files" where
  "renamed m source target fs =
     (case fault m Rename of Some e \<Rightarrow> (Inl e, fs) | None \<Rightarrow>
       (case (names fs source, names fs target) of
          (None, _) \<Rightarrow> (Inl NotFound, fs)
        | (Some n, Some Directory) \<Rightarrow> (Inl IsADirectory, fs)
        | (Some n, there) \<Rightarrow>
            if there = Some n \<and> is_regular n then (Inr (), fs)
            else (Inr (), fs\<lparr>names := (names fs)(source := None, target \<mapsto> n)\<rparr>)))"

definition hard_linked :: "machine \<Rightarrow> path \<Rightarrow> path \<Rightarrow> files \<Rightarrow> (io_error + unit) \<times> files" where
  "hard_linked m source target fs =
     (case fault m HardLink of Some e \<Rightarrow> (Inl e, fs) | None \<Rightarrow>
       (case (names fs source, names fs target) of
          (None, _) \<Rightarrow> (Inl NotFound, fs)
        | (_, Some _) \<Rightarrow> (Inl AlreadyExists, fs)
        | (Some n, None) \<Rightarrow> (Inr (), fs\<lparr>names := (names fs)(target \<mapsto> n)\<rparr>)))"

definition removed :: "machine \<Rightarrow> call \<Rightarrow> path \<Rightarrow> files \<Rightarrow> (io_error + unit) \<times> files" where
  "removed m call p fs =
     (case fault m call of Some e \<Rightarrow> (Inl e, fs) | None \<Rightarrow>
       (case names fs p of
          None \<Rightarrow> (Inl NotFound, fs)
        | Some Directory \<Rightarrow> (Inl IsADirectory, fs)
        | Some _ \<Rightarrow> (Inr (), fs\<lparr>names := (names fs)(p := None)\<rparr>)))"

section \<open>Writing\<close>

datatype output_error = Failure str str io_error | AlreadyThere str

record written =
  written_to :: destination
  bytes_written :: u64

text \<open>
  The document through a counting, buffered writer and its flush: all of it, or an error after some
  of it.
\<close>

definition counted :: "str \<Rightarrow> u64" where
  "counted doc = of_nat (length doc)"

definition filled :: "machine \<Rightarrow> str \<Rightarrow> node \<Rightarrow> str \<Rightarrow> files \<Rightarrow> (output_error + u64) \<times> files" where
  "filled m named target doc fs =
     (case fault m WriteBytes of
        Some e \<Rightarrow> (Inl (Failure named ''could not be written'' e), put_bytes target (take (accepted m) doc) fs)
      | None \<Rightarrow>
          (case fault m Flush of
             Some e \<Rightarrow> (Inl (Failure named ''could not be flushed'' e), put_bytes target (take (accepted m) doc) fs)
           | None \<Rightarrow> (Inr (counted doc), put_bytes target doc fs)))"

definition to_stdout :: "machine \<Rightarrow> str \<Rightarrow> output_error + u64" where
  "to_stdout m doc =
     (case (fault m WriteBytes, fault m Flush) of
        (Some e, _) \<Rightarrow> Inl (Failure ''stdout'' ''could not be written'' e)
      | (None, Some e) \<Rightarrow> Inl (Failure ''stdout'' ''could not be written'' e)
      | (None, None) \<Rightarrow> Inr (counted doc))"

definition straight_into :: "machine \<Rightarrow> str \<Rightarrow> str \<Rightarrow> files \<Rightarrow> (output_error + u64) \<times> files" where
  "straight_into m path doc fs =
     (case open_truncate m (components path) fs of
        (Inl e, fs') \<Rightarrow> (Inl (Failure path ''could not be opened'' e), fs')
      | (Inr target, fs') \<Rightarrow> filled m path target doc fs')"

definition publish :: "machine \<Rightarrow> path \<Rightarrow> str \<Rightarrow> str \<Rightarrow> bool \<Rightarrow> files \<Rightarrow> (output_error + unit) \<times> files" where
  "publish m staging staging_named path force fs =
     (if force then
        (case renamed m staging (components path) fs of
           (Inl e, fs') \<Rightarrow> (Inl (Failure path ''could not be replaced with the finished document'' e), fs')
         | (Inr u, fs') \<Rightarrow> (Inr (), fs'))
      else
        (case hard_linked m staging (components path) fs of
           (Inl AlreadyExists, fs') \<Rightarrow> (Inl (AlreadyThere path), fs')
         | (Inl e, fs') \<Rightarrow> (Inl (Failure path ''could not be created from the finished document'' e), fs')
         | (Inr u, fs') \<Rightarrow>
             (case removed m Unlink staging fs' of
                (Inl e, fs'') \<Rightarrow> (Inl (Failure staging_named ''was published but could not be unlinked'' e), fs'')
              | (Inr u, fs'') \<Rightarrow> (Inr (), fs''))))"

definition write_and_publish ::
  "machine \<Rightarrow> nat \<Rightarrow> path \<Rightarrow> str \<Rightarrow> str \<Rightarrow> str \<Rightarrow> bool \<Rightarrow> files \<Rightarrow> (output_error + u64) \<times> files" where
  "write_and_publish m ino staging staging_named path doc force fs =
     (case filled m path (Regular ino) doc fs of
        (Inl e, fs') \<Rightarrow> (Inl e, fs')
      | (Inr bytes, fs') \<Rightarrow>
          (case fault m Sync of
             Some e \<Rightarrow> (Inl (Failure path ''could not be synced'' e), fs')
           | None \<Rightarrow>
               (case publish m staging staging_named path force (meanwhile m BeforePublish fs') of
                  (Inl e, fs'') \<Rightarrow> (Inl e, fs'')
                | (Inr u, fs'') \<Rightarrow> (Inr bytes, fs''))))"

definition staging_name :: "machine \<Rightarrow> path \<Rightarrow> str" where
  "staging_name m path =
     (let name = (case file_name path of Some n \<Rightarrow> if valid_utf8 n then n else lossy m n | None \<Rightarrow> ''fingerprint'')
      in ''.'' @ name @ ''.'' @ show_nat (process_id m) @ ''.partial'')"

definition staging_path :: "machine \<Rightarrow> path \<Rightarrow> path" where
  "staging_path m path =
     (case parent path of Some up \<Rightarrow> joined up [Normal (staging_name m path)] | None \<Rightarrow> [Normal (staging_name m path)])"

definition is_special :: "machine \<Rightarrow> path \<Rightarrow> files \<Rightarrow> bool" where
  "is_special m p fs =
     (fault m Look = None \<and> (case names fs p of None \<Rightarrow> False | Some n \<Rightarrow> \<not> is_regular n))"

definition to_file :: "machine \<Rightarrow> str \<Rightarrow> str \<Rightarrow> bool \<Rightarrow> files \<Rightarrow> (output_error + u64) \<times> files" where
  "to_file m path doc force fs =
     (let fs = meanwhile m BeforeLook fs
      in if is_special m (components path) fs then straight_into m path doc (meanwhile m BeforeOpen fs)
         else
           (let staging = staging_path m (components path)
            in case create_new m staging (meanwhile m BeforeOpen fs) of
                 (Inl e, fs') \<Rightarrow> (Inl (Failure path ''could not be written'' e), fs')
               | (Inr ino, fs') \<Rightarrow>
                   (case write_and_publish m ino staging (staging_name m (components path)) path doc force
                           (meanwhile m BeforeWrite fs') of
                      (Inl e, fs'') \<Rightarrow> (Inl e, snd (removed m Cleanup staging fs''))
                    | (Inr bytes, fs'') \<Rightarrow> (Inr bytes, fs''))))"

definition write_output :: "machine \<Rightarrow> destination \<Rightarrow> str \<Rightarrow> bool \<Rightarrow> files \<Rightarrow> (output_error + written) \<times> files" where
  "write_output m destination doc force fs =
     (case destination of
        Stdout \<Rightarrow> (map_ok (\<lambda>bytes. \<lparr>written_to = destination, bytes_written = bytes\<rparr>) (to_stdout m doc), fs)
      | File path \<Rightarrow>
          (case to_file m path doc force fs of
             (r, fs') \<Rightarrow> (map_ok (\<lambda>bytes. \<lparr>written_to = destination, bytes_written = bytes\<rparr>) r, fs')))"

section \<open>Names\<close>

definition is_safe_char :: "char \<Rightarrow> bool" where
  "is_safe_char c \<longleftrightarrow> is_ascii_alphanumeric c \<or> c \<in> {CHR ''.'', CHR ''_'', CHR ''-''}"

lemma safe_is_no_separator: "is_safe_char c \<Longrightarrow> c \<noteq> CHR ''/'' \<and> c \<noteq> CHR '':''"
  by (auto simp: is_safe_char_def is_ascii_alphanumeric_def is_ascii_alphabetic_def is_ascii_uppercase_def
      is_ascii_lowercase_def is_ascii_digit_def)

lemma decimal_safe: "decimal s \<Longrightarrow> list_all is_safe_char s"
  by (auto simp: decimal_def list_all_iff is_safe_char_def is_ascii_alphanumeric_def is_ascii_digit_def)

lemma safe_zeros: "list_all is_safe_char s \<Longrightarrow> list_all is_safe_char (zero_padded w s)"
  by (auto simp: zero_padded_def list_all_iff) code_simp

lemma padded_safe: "list_all is_safe_char (padded w i)"
proof -
  have "is_safe_char (CHR ''-'')" by (simp add: is_safe_char_def)
  then show ?thesis by (simp add: padded_def decimal_safe)
qed

lemma stamp_safe: "list_all is_safe_char (utc_stamp s)"
proof -
  have "is_safe_char (CHR ''T'')" "is_safe_char (CHR ''Z'')" by code_simp+
  then show ?thesis by (simp add: utc_stamp_def Let_def padded_safe split: prod.splits)
qed

lemma kept_host:
  "list_all is_safe_char (concat (filter is_name_char cs))" "length (concat (filter is_name_char cs)) = length (filter is_name_char cs)"
  by (induction cs) (auto simp: is_name_char_def is_safe_char_def split: list.splits)

lemma kept_host_take: "\<exists>ds. take n (filter is_name_char cs) = filter is_name_char ds \<and> length (filter is_name_char ds) \<le> n"
proof -
  have "filter is_name_char (take n (filter is_name_char cs)) = take n (filter is_name_char cs)"
    by (rule filter_True) (auto dest: in_set_takeD)
  then show ?thesis by (intro exI[of _ "take n (filter is_name_char cs)"]) simp
qed

lemma length_padded: "\<bar>i\<bar> < 10 ^ k \<Longrightarrow> 0 < k \<Longrightarrow> length (padded w i) \<le> max w (Suc k)"
proof -
  assume i: "\<bar>i\<bar> < 10 ^ k" "0 < k"
  have "length (show_nat (nat j)) \<le> k" if "\<bar>j\<bar> < 10 ^ k" for j
    using length_positional[of 10 "nat j" k] that i(2) by (simp add: show_nat_def nat_less_iff)
  from this[of i] this[of "- i"] i show ?thesis by (auto simp: padded_def zero_padded_def)
qed

lemma length_utc_stamp: "length (utc_stamp s) \<le> 25"
proof -
  obtain y m d where date: "civil_from_days (sint s div 86400) = (y, m, d)" by (cases "civil_from_days (sint s div 86400)")
  have "\<bar>y\<bar> < 10 ^ 12" using stamp_years[of s] date by simp
  then have year: "length (padded 4 y) \<le> 13" using length_padded[of y 12 4] by simp
  have "1 \<le> m" "m \<le> 12" "1 \<le> d" "d \<le> 31"
    using date_ok_days[of "sint s div 86400"] date by (auto simp: date_ok_def month_length_def split: if_splits)
  then have day: "length (padded 2 m) = 2" "length (padded 2 d) = 2" by (simp_all add: padded_digits)
  obtain h i c where "(sint s mod 86400) div 3600 = h" "(sint s mod 86400 mod 3600) div 60 = i" "(sint s mod 86400) mod 60 = c"
    "sint s mod 86400 = 3600 * h + 60 * i + c" "0 \<le> i" "i < 60" "0 \<le> c" "c < 60" by (rule time_of_day)
  from time_text_digits(2)[OF _ _ this] have "length (time_text (sint s mod 86400)) = 6" by simp
  with year day date show ?thesis by (simp add: utc_stamp_parts date_text_def)
qed

section \<open>Laws of the filesystem calls\<close>

definition files_ok :: "files \<Rightarrow> bool" where
  "files_ok fs \<longleftrightarrow> (\<forall>p i. names fs p = Some (Regular i) \<longrightarrow> i < unused fs)"

lemma staging_name_differs:
  assumes "file_name dest = Some n" "valid_utf8 n"
  shows "staging_name m dest \<noteq> n"
proof
  assume "staging_name m dest = n"
  then have "length (staging_name m dest) = length n" by simp
  with assms show False by (simp add: staging_name_def Let_def)
qed

lemma staging_path_cases: "\<exists>up. staging_path m dest = up @ [Normal (staging_name m dest)]"
  by (auto simp: staging_path_def split: option.splits)

lemma staging_path_differs:
  assumes "\<And>n. file_name dest = Some n \<Longrightarrow> valid_utf8 n"
  shows "staging_path m dest \<noteq> dest"
proof
  assume eq: "staging_path m dest = dest"
  obtain up where "staging_path m dest = up @ [Normal (staging_name m dest)]" using staging_path_cases by blast
  with eq have "file_name dest = Some (staging_name m dest)" by (metis file_name_append)
  with assms staging_name_differs show False by blast
qed

lemma put_bytes_names [simp]: "names (put_bytes t bs fs) = names fs" "unused (put_bytes t bs fs) = unused fs"
  by (simp_all add: put_bytes_def split: node.splits)

lemma put_bytes_store: "store (put_bytes (Regular i) bs fs) j =
    (if j = i then map_option (\<lambda>f. f\<lparr>bytes_of := bytes_of f @ bs\<rparr>) (store fs i) else store fs j)"
  by (simp add: put_bytes_def)

lemma filled_cases:
  obtains (failed) e bs where "filled m named t doc fs = (Inl e, put_bytes t bs fs)"
  | (whole) "filled m named t doc fs = (Inr (counted doc), put_bytes t doc fs)"
  by (cases "fault m WriteBytes"; cases "fault m Flush") (auto simp: filled_def)

lemma create_new_cases:
  obtains (refused) e where "create_new m p fs = (Inl e, fs)"
  | (created) "names fs p = None" "create_new m p fs = (Inr (unused fs),
      fs\<lparr>names := (names fs)(p \<mapsto> Regular (unused fs)),
         store := (store fs)(unused fs \<mapsto> \<lparr>bytes_of = [], mode_of = 384\<rparr>), unused := Suc (unused fs)\<rparr>)"
  by (cases "fault m Create"; cases "names fs p") (auto simp: create_new_def)

lemma removed_outcome:
  "(\<forall>q. q \<noteq> p \<longrightarrow> names (snd (removed m call p fs)) q = names fs q) \<and> store (snd (removed m call p fs)) = store fs \<and>
   (names fs p \<noteq> Some Directory \<and> fault m call = None \<longrightarrow> names (snd (removed m call p fs)) p = None)"
  by (auto simp: removed_def split: option.splits node.splits)

lemma publish_cases:
  assumes "staging \<noteq> components path" "names fs staging = Some (Regular i)" "names fs (components path) \<noteq> Some (Regular i)"
  obtains (refused) e where "publish m staging sn path force fs = (Inl e, fs)"
  | (linked) e where "\<not> force" "names fs (components path) = None" "publish m staging sn path force fs =
      (Inl e, fs\<lparr>names := (names fs)(components path \<mapsto> Regular i)\<rparr>)"
  | (published) "force \<or> names fs (components path) = None" "publish m staging sn path force fs =
      (Inr (), fs\<lparr>names := (names fs)(components path \<mapsto> Regular i, staging := None)\<rparr>)"
proof (cases force)
  case True
  then show ?thesis
  proof (cases "fault m Rename")
    case None
    then show ?thesis
      using True assms that
      by (cases "names fs (components path)"; cases "the (names fs (components path))")
        (auto simp: publish_def renamed_def fun_upd_twist split: option.splits)
  qed (auto simp: publish_def renamed_def intro: that(1))
next
  case False
  show ?thesis
  proof (cases "fault m HardLink")
    case (Some e)
    with False show ?thesis by (cases e) (auto simp: publish_def hard_linked_def intro: that(1))
  next
    case None
    show ?thesis
    proof (cases "names fs (components path)")
      case (Some n)
      with False None assms show ?thesis by (auto simp: publish_def hard_linked_def intro: that(1))
    next
      case free: None
      show ?thesis
      proof (cases "fault m Unlink")
        case None
        with free False \<open>fault m HardLink = None\<close> assms show ?thesis
          by (intro that(3)) (auto simp: publish_def hard_linked_def removed_def)
      next
        case (Some e)
        with free False None assms show ?thesis
          by (intro that(2)) (auto simp: publish_def hard_linked_def removed_def)
      qed
    qed
  qed
qed

lemma write_and_publish_cases:
  assumes "staging \<noteq> components path" "names fs staging = Some (Regular i)" "names fs (components path) \<noteq> Some (Regular i)"
    and quiet: "meanwhile m BeforePublish = id"
  obtains (early) e bs where "write_and_publish m i staging sn path doc force fs = (Inl e, put_bytes (Regular i) bs fs)"
  | (linked) e where "\<not> force" "names fs (components path) = None" "write_and_publish m i staging sn path doc force fs =
      (Inl e, put_bytes (Regular i) doc fs\<lparr>names := (names fs)(components path \<mapsto> Regular i)\<rparr>)"
  | (published) "force \<or> names fs (components path) = None" "write_and_publish m i staging sn path doc force fs =
      (Inr (counted doc), put_bytes (Regular i) doc fs\<lparr>names := (names fs)(components path \<mapsto> Regular i, staging := None)\<rparr>)"
proof (cases rule: filled_cases[of m path "Regular i" doc fs])
  case (failed e bs)
  then show ?thesis by (auto simp: write_and_publish_def intro: that(1))
next
  case whole
  show ?thesis
  proof (cases "fault m Sync")
    case (Some e)
    with whole show ?thesis by (auto simp: write_and_publish_def intro: that(1))
  next
    case None
    let ?fs = "put_bytes (Regular i) doc fs"
    have there: "names ?fs staging = Some (Regular i)" "names ?fs (components path) \<noteq> Some (Regular i)"
      using assms(2,3) by simp_all
    show ?thesis
    proof (cases rule: publish_cases[OF assms(1) there, of m sn force, case_names refused linked published])
      case (refused e)
      with whole None show ?thesis by (auto simp: write_and_publish_def quiet intro: that(1))
    next
      case (linked e)
      with whole None show ?thesis by (intro that(2)) (auto simp: write_and_publish_def quiet)
    next
      case published
      with whole None show ?thesis by (intro that(3)) (auto simp: write_and_publish_def quiet)
    qed
  qed
qed

text \<open>What others may find once a run has ended: see the property below.\<close>

definition undisturbed :: "machine \<Rightarrow> bool" where
  "undisturbed m \<longleftrightarrow> (meanwhile m BeforeLook = id \<and> meanwhile m BeforeOpen = id \<and> meanwhile m BeforeWrite = id \<and>
     meanwhile m BeforePublish = id)"

definition holds_document :: "files \<Rightarrow> path \<Rightarrow> str \<Rightarrow> bool" where
  "holds_document fs p doc \<longleftrightarrow>
     (case names fs p of Some (Regular i) \<Rightarrow> store fs i = Some \<lparr>bytes_of = doc, mode_of = 384\<rparr> | _ \<Rightarrow> False)"

section \<open>Properties\<close>

text \<open>
  Whatever a hostname holds, the default name is one component of the working directory: no
  byte of it is a separator or anything but a letter, a digit, a dot, a dash or an underscore, and
  it fits in a file name.
\<close>

theorem default_name_stays_in_the_directory:
  "list_all is_safe_char (default_file_name hostname started_at) \<and>
   components (default_file_name hostname started_at) = [Normal (default_file_name hostname started_at)] \<and>
   length (default_file_name hostname started_at) \<le> 102"
proof -
  define chars where "chars = chars_of (case hostname of Some h \<Rightarrow> h | None \<Rightarrow> [])"
  obtain ds where ds: "take hostname_limit (filter is_name_char chars) = filter is_name_char ds"
    "length (filter is_name_char ds) \<le> hostname_limit" using kept_host_take by blast
  let ?name = "default_file_name hostname started_at" and ?host = "concat (filter is_name_char ds)"
  have host: "list_all is_safe_char ?host" "length ?host \<le> 64"
    using kept_host[of ds] ds(2) by (simp_all add: hostname_limit_def)
  have name: "?name = (if ?host = [] then ''rastro-'' @ utc_stamp started_at @ ''.json''
      else ''rastro-'' @ ?host @ ''-'' @ utc_stamp started_at @ ''.json'')"
    by (simp only: default_file_name_def Let_def flip: chars_def ds(1))
  have affixes: "list_all is_safe_char ''rastro-''" "list_all is_safe_char ''.json''" "is_safe_char (CHR ''-'')" by code_simp+
  have safe: "list_all is_safe_char ?name"
    unfolding name using host stamp_safe[of started_at] affixes by (auto split: if_splits)
  moreover have "components ?name = [Normal ?name]"
  proof (rule components_name)
    show "CHR ''/'' \<notin> set ?name" using safe safe_is_no_separator by (auto simp: list_all_iff)
  qed (simp_all add: name)
  moreover have "length ?name \<le> 102" unfolding name using host(2) length_utc_stamp[of started_at] by simp
  ultimately show ?thesis by blast
qed

text \<open>
  C18.  A run that writes a file which nobody disturbs is all or nothing, whatever call fails: every
  other name and every byte of every file there before stays as it was; the destination afterwards
  is what it was before or a file of mode 0600 holding the whole document, and it is that when
  success is reported; without \<open>--force\<close> a name that was taken is refused and left alone; and the
  staging file is gone unless removing it failed.
\<close>

theorem writing_is_all_or_nothing:
  fixes m path doc force fs
  defines "dest \<equiv> components path" and "staging \<equiv> staging_path m (components path)"
  assumes "undisturbed m" "files_ok fs" "\<not> is_special m dest fs"
    and "names fs staging = None" "\<And>n. file_name dest = Some n \<Longrightarrow> valid_utf8 n"
  shows "case to_file m path doc force fs of (r, fs') \<Rightarrow>
    (\<forall>p. p \<noteq> dest \<and> p \<noteq> staging \<longrightarrow> names fs' p = names fs p) \<and>
    (\<forall>i < unused fs. store fs' i = store fs i) \<and>
    (names fs' dest = names fs dest \<or> holds_document fs' dest doc) \<and>
    (case r of
       Inr bytes \<Rightarrow> bytes = counted doc \<and> holds_document fs' dest doc \<and> names fs' staging = None
     | Inl e \<Rightarrow> fault m Cleanup = None \<longrightarrow> names fs' staging = None) \<and>
    (\<not> force \<and> names fs dest \<noteq> None \<longrightarrow> (\<exists>e. r = Inl e) \<and> names fs' dest = names fs dest)"
proof -
  have differs: "staging \<noteq> dest" unfolding staging_def dest_def
    by (rule staging_path_differs) (use assms(7) in \<open>simp add: dest_def\<close>)
  have quiet: "meanwhile m w = id" for w using assms(3) by (cases w) (simp_all add: undisturbed_def)
  let ?ino = "unused fs"
  let ?opened = "fs\<lparr>names := (names fs)(staging \<mapsto> Regular ?ino),
      store := (store fs)(?ino \<mapsto> \<lparr>bytes_of = [], mode_of = 384\<rparr>), unused := Suc ?ino\<rparr>"
  have fresh: "names fs dest \<noteq> Some (Regular ?ino)" using assms(4) by (auto simp: files_ok_def)
  have run: "to_file m path doc force fs =
      (case create_new m staging fs of
         (Inl e, fs') \<Rightarrow> (Inl (Failure path ''could not be written'' e), fs')
       | (Inr ino, fs') \<Rightarrow>
           (case write_and_publish m ino staging (staging_name m dest) path doc force fs' of
              (Inl e, fs'') \<Rightarrow> (Inl e, snd (removed m Cleanup staging fs''))
            | (Inr bytes, fs'') \<Rightarrow> (Inr bytes, fs'')))"
    unfolding to_file_def Let_def quiet id_apply staging_def dest_def using assms(5) by (simp add: dest_def)
  show ?thesis
  proof (cases rule: create_new_cases[of m staging fs])
    case (refused e)
    then show ?thesis using assms(6) by (simp add: run)
  next
    case created
    note run = run[unfolded created(2), simplified]
    have start: "names ?opened staging = Some (Regular ?ino)" "names ?opened (components path) \<noteq> Some (Regular ?ino)"
      using fresh differs by (simp_all add: dest_def)
    show ?thesis
    proof (cases rule: write_and_publish_cases[OF differs[unfolded dest_def] start quiet,
          of "staging_name m dest" doc force, case_names early linked published])
      case (early e bs)
      let ?done = "put_bytes (Regular ?ino) bs ?opened"
      define fs' where "fs' = snd (removed m Cleanup staging ?done)"
      note fs' = removed_outcome[of staging m Cleanup ?done, folded fs'_def]
      have "to_file m path doc force fs = (Inl e, fs')" by (simp add: run early fs'_def)
      with fs' differs show ?thesis by (auto simp: put_bytes_store)
    next
      case (linked e)
      let ?done = "put_bytes (Regular ?ino) doc ?opened\<lparr>names := (names ?opened)(components path \<mapsto> Regular ?ino)\<rparr>"
      define fs' where "fs' = snd (removed m Cleanup staging ?done)"
      note fs' = removed_outcome[of staging m Cleanup ?done, folded fs'_def]
      have "to_file m path doc force fs = (Inl e, fs')" by (simp only: run linked(3) fs'_def prod.case sum.case)
      with fs' differs linked(2) show ?thesis by (auto simp: put_bytes_store holds_document_def dest_def)
    next
      case published
      with differs show ?thesis by (auto simp: run put_bytes_store holds_document_def dest_def)
    qed
  qed
qed

definition quiet_machine :: machine where
  "quiet_machine = \<lparr>fault = (\<lambda>_. None), accepted = 0, meanwhile = (\<lambda>_. id), lossy = id, process_id = 7\<rparr>"

definition no_files :: files where
  "no_files = \<lparr>names = (\<lambda>_. None), store = (\<lambda>_. None), unused = 0\<rparr>"

theorem writing_is_all_or_nothing_witness:
  "\<exists>r fs'. to_file (quiet_machine\<lparr>fault := (\<lambda>c. if c = Sync then Some NotFound else None)\<rparr>) ''a'' ''{}'' False no_files = (r, fs')
    \<and> (names fs' [Normal ''a''] = None \<or> holds_document fs' [Normal ''a''] ''{}'')"
proof -
  let ?m = "quiet_machine\<lparr>fault := (\<lambda>c. if c = Sync then Some NotFound else None)\<rparr>"
  have m: "undisturbed ?m" "files_ok no_files" "\<not> is_special ?m (components ''a'') no_files"
    "names no_files (staging_path ?m (components ''a'')) = None"
    by (simp_all add: undisturbed_def quiet_machine_def files_ok_def no_files_def is_special_def)
  have dest: "components ''a'' = [Normal ''a'']" by (rule components_name) simp_all
  have "valid_utf8 n" if "file_name (components ''a'') = Some n" for n
    using that by (auto simp: dest file_name_def) code_simp
  from writing_is_all_or_nothing[OF m(1-4) this, of "''{}''" False] show ?thesis
    by (cases "to_file ?m ''a'' ''{}'' False no_files") (auto simp: dest no_files_def)
qed

text \<open>
  Without \<open>--force\<close> the refusal is made at publication: if by then anything has the
  destination's name, put there while the document was being written, the run fails, and that name
  and every file but the staged one are as the others left them.
\<close>

theorem publication_never_replaces:
  assumes "\<And>s. names (meanwhile m BeforePublish s) (components path) = Some n"
  shows "case write_and_publish m i staging sn path doc False fs of (r, fs') \<Rightarrow>
    (\<exists>e. r = Inl e) \<and>
    (names fs' = names fs \<and> (\<forall>j. j \<noteq> i \<longrightarrow> store fs' j = store fs j) \<or>
     fs' = meanwhile m BeforePublish (put_bytes (Regular i) doc fs) \<and> names fs' (components path) = Some n)"
proof (cases rule: filled_cases[of m path "Regular i" doc fs])
  case (failed e bs)
  then show ?thesis by (simp add: write_and_publish_def put_bytes_store)
next
  case whole
  show ?thesis
  proof (cases "fault m Sync")
    case (Some e)
    with whole show ?thesis by (simp add: write_and_publish_def put_bytes_store)
  next
    case None
    have "\<exists>e. publish m staging sn path False s = (Inl e, s)" if "names s (components path) = Some n" for s
      using that by (auto simp: publish_def hard_linked_def split: option.splits io_error.splits)
    from this[OF assms, of "put_bytes (Regular i) doc fs"] whole None assms show ?thesis
      by (auto simp: write_and_publish_def)
  qed
qed

definition crowded_machine :: machine where
  "crowded_machine = quiet_machine\<lparr>meanwhile := (\<lambda>w s. if w = BeforePublish
     then s\<lparr>names := (names s)(components ''a'' \<mapsto> Directory)\<rparr> else s)\<rparr>"

theorem publication_never_replaces_witness:
  "\<exists>e fs'. write_and_publish crowded_machine 0 [Normal ''b''] ''b'' ''a'' ''{}'' False no_files = (Inl e, fs')"
proof -
  have taken: "names (meanwhile crowded_machine BeforePublish s) (components ''a'') = Some Directory" for s
    by (simp add: crowded_machine_def)
  from publication_never_replaces[where i = 0 and staging = "[Normal ''b'']" and sn = "''b''" and doc = "''{}''"
      and fs = no_files, OF taken] show ?thesis
    by (cases "write_and_publish crowded_machine 0 [Normal ''b''] ''b'' ''a'' ''{}'' False no_files") auto
qed

text \<open>
  A destination that is a link is written through: the file behind it is replaced by the
  document, its mode kept, with or without \<open>--force\<close>.
\<close>

theorem links_are_written_through:
  assumes "\<And>c. fault m c = None" "undisturbed m"
    and "names fs (components path) = Some (Link q)" "names fs q = Some (Regular i)" "store fs i = Some f"
  shows "to_file m path doc force fs = (Inr (counted doc), fs\<lparr>store := (store fs)(i \<mapsto> f\<lparr>bytes_of := doc\<rparr>)\<rparr>)"
proof -
  have quiet: "meanwhile m w = id" for w using assms(2) by (cases w) (simp_all add: undisturbed_def)
  have "followed link_limit fs (components path) = Inr (Regular i)"
    using assms(3,4) by (simp add: link_limit_def numeral_eq_Suc)
  then show ?thesis
    using assms by (simp add: to_file_def quiet is_special_def straight_into_def open_truncate_def filled_def truncated_def put_bytes_def)
qed

definition linked_files :: files where
  "linked_files = \<lparr>names = [components ''latest'' \<mapsto> Link [Normal ''before''], [Normal ''before''] \<mapsto> Regular 0],
     store = [0 \<mapsto> \<lparr>bytes_of = ''old'', mode_of = 384\<rparr>], unused = 1\<rparr>"

theorem links_are_written_through_witness:
  "store (snd (to_file quiet_machine ''latest'' ''new'' False linked_files)) 0 = Some \<lparr>bytes_of = ''new'', mode_of = 384\<rparr>"
proof -
  have dest: "components ''latest'' = [Normal ''latest'']" by (rule components_name) simp_all
  have "to_file quiet_machine ''latest'' ''new'' False linked_files = (Inr (counted ''new''), linked_files\<lparr>store := (store linked_files)
      (0 \<mapsto> \<lparr>bytes_of = ''old'', mode_of = 384\<rparr>\<lparr>bytes_of := ''new''\<rparr>)\<rparr>)"
    by (rule links_are_written_through[where q = "[Normal ''before'']"])
      (simp_all add: quiet_machine_def undisturbed_def linked_files_def dest)
  then show ?thesis by simp
qed

end
