(* ===== verification/TextFields.thy ===== *)
theory TextFields
  imports Text
begin

text \<open>
  What the readers of the host's text use of \<open>str\<close>: its lines, its fields, a split at the first
  separator, a suffix, and the numbers \<open>parse\<close> accepts.
\<close>

section \<open>Valid text, character by character\<close>

lemma valid_utf8_first:
  assumes "valid_utf8 (a # rest)"
  shows "utf8_width a \<le> length (a # rest)" "valid_utf8 (drop (utf8_width a) (a # rest))"
  using assms
  by (auto simp: valid_utf8.simps(2)[of a rest] utf8_width_def between_def Let_def split: list.splits if_splits)

lemma chars_of_append: "valid_utf8 s \<Longrightarrow> chars_of (s @ t) = chars_of s @ chars_of t"
proof (induction s rule: chars_of.induct)
  case (2 c cs)
  note first = valid_utf8_first[OF "2.prems"]
  have take: "take (utf8_width c) (c # cs @ t) = take (utf8_width c) (c # cs)"
    and drop: "drop (utf8_width c) (c # cs @ t) = drop (utf8_width c) (c # cs) @ t"
    using first(1) take_append[of "utf8_width c" "c # cs" t] drop_append[of "utf8_width c" "c # cs" t] by simp_all
  have "chars_of ((c # cs) @ t) = take (utf8_width c) (c # cs @ t) # chars_of (drop (utf8_width c) (c # cs @ t))"
    by (simp add: chars_of.simps(2))
  also have "\<dots> = take (utf8_width c) (c # cs) # chars_of (drop (utf8_width c) (c # cs)) @ chars_of t"
    unfolding take drop "2.IH"[OF first(2)] ..
  also have "\<dots> = chars_of (c # cs) @ chars_of t" by (simp add: chars_of.simps(2))
  finally show ?case .
qed simp

lemma ascii_width: "between 0 127 c \<Longrightarrow> utf8_width c = 1"
  by (simp add: utf8_width_def between_def Let_def)

lemma chars_of_ascii_Cons: "between 0 127 c \<Longrightarrow> chars_of (c # s) = [c] # chars_of s"
  by (simp add: chars_of.simps(2) ascii_width)

lemma chars_of_ascii: "list_all (between 0 127) s \<Longrightarrow> chars_of s = map (\<lambda>c. [c]) s"
  by (induction s) (auto simp: chars_of_ascii_Cons)

lemma valid_utf8_char:
  assumes "valid_utf8 (a # rest)"
  shows "valid_utf8 (take (utf8_width a) (a # rest) @ u) \<longleftrightarrow> valid_utf8 u"
proof -
  consider "between 0 127 a" | b r where "rest = b # r" "\<not> between 0 127 a" "between 194 223 a"
    | b c r where "rest = b # c # r" "\<not> between 0 127 a" "\<not> between 194 223 a" "between 224 239 a"
    | b c d r where "rest = b # c # d # r" "\<not> between 0 127 a" "\<not> between 194 223 a" "\<not> between 224 239 a" "between 240 244 a"
    using assms by (auto simp: valid_utf8.simps(2)[of a rest] split: list.splits if_splits)
  then show ?thesis
  proof cases
    case 1
    then show ?thesis by (simp add: ascii_width valid_utf8.simps(2)[of a])
  next
    case (2 b r)
    then have "utf8_width a = 2" by (simp add: utf8_width_def between_def Let_def)
    with 2 assms show ?thesis by (simp add: valid_utf8.simps(2)[of a])
  next
    case (3 b c r)
    then have "utf8_width a = 3" by (simp add: utf8_width_def between_def Let_def)
    with 3 assms show ?thesis by (simp add: valid_utf8.simps(2)[of a])
  next
    case (4 b c d r)
    then have "utf8_width a = 4" by (simp add: utf8_width_def between_def Let_def)
    with 4 assms show ?thesis by (simp add: valid_utf8.simps(2)[of a])
  qed
qed

lemma valid_utf8_append: "valid_utf8 s \<Longrightarrow> valid_utf8 (s @ t) \<longleftrightarrow> valid_utf8 t"
proof (induction s rule: chars_of.induct)
  case (2 c cs)
  have "(c # cs) @ t = take (utf8_width c) (c # cs) @ drop (utf8_width c) (c # cs) @ t"
    by (simp flip: append_assoc)
  with valid_utf8_char[OF "2.prems"] "2.IH"[OF valid_utf8_first(2)[OF "2.prems"]] show ?case by metis
qed simp

section \<open>Lines and fields\<close>

definition strip_suffix :: "str \<Rightarrow> str \<Rightarrow> str option" where
  "strip_suffix p s = (if length p \<le> length s \<and> drop (length s - length p) s = p
     then Some (take (length s - length p) s) else None)"

lemma strip_suffix_Some_iff: "strip_suffix p s = Some r \<longleftrightarrow> s = r @ p"
  by (auto simp: strip_suffix_def) (metis append_take_drop_id)

definition newline :: char where "newline = CHR 0x0A"
definition carriage_return :: char where "carriage_return = CHR 0x0D"

text \<open>\<open>str::lines\<close>: a line ends in a line feed, or a carriage return and one; the last needs neither.\<close>

definition without_return :: "str \<Rightarrow> str" where
  "without_return l = (case strip_suffix [carriage_return] l of Some r \<Rightarrow> r | None \<Rightarrow> l)"

definition lines :: "str \<Rightarrow> str list" where
  "lines s = (let parts = split_on newline s
     in map without_return (butlast parts) @ (if last parts = [] then [] else [last parts]))"

lemma lines_Nil [simp]: "lines [] = []"
  by (simp add: lines_def)

lemma lines_append:
  assumes "newline \<notin> set l"
  shows "lines (l @ newline # t) = without_return l # lines t"
  by (simp add: lines_def split_on_append[OF assms] Let_def)

lemma lines_concat:
  assumes "\<And>l. l \<in> set ls \<Longrightarrow> newline \<notin> set l \<and> (l = [] \<or> last l \<noteq> carriage_return)"
  shows "lines (concat (map (\<lambda>l. l @ [newline]) ls)) = ls"
  using assms
proof (induction ls)
  case (Cons l ls)
  then have "l = [] \<or> last l \<noteq> carriage_return" by simp
  then have "without_return l = l"
    by (cases "strip_suffix [carriage_return] l") (auto simp: without_return_def strip_suffix_Some_iff)
  with Cons show ?case by (simp add: lines_append)
qed simp

text \<open>\<open>str::split_whitespace\<close>: the runs of characters that are no white space.\<close>

fun runs :: "('a \<Rightarrow> bool) \<Rightarrow> 'a list \<Rightarrow> 'a list list" where
  "runs sep [] = [[]]"
| "runs sep (x # xs) = (if sep x then [] # runs sep xs
     else (case runs sep xs of r # rs \<Rightarrow> (x # r) # rs | [] \<Rightarrow> [[x]]))"

definition split_whitespace :: "str \<Rightarrow> str list" where
  "split_whitespace s = map concat (filter (\<lambda>r. r \<noteq> []) (runs is_whitespace (chars_of s)))"

text \<open>\<open>str::split_once\<close> on an ASCII character.\<close>

definition split_once :: "char \<Rightarrow> str \<Rightarrow> (str \<times> str) option" where
  "split_once c s = (if c \<in> set s
     then Some (takeWhile (\<lambda>x. x \<noteq> c) s, tl (dropWhile (\<lambda>x. x \<noteq> c) s)) else None)"

lemma split_once_Some_iff: "split_once c s = Some (a, b) \<longleftrightarrow> s = a @ c # b \<and> c \<notin> set a"
proof (induction s arbitrary: a)
  case (Cons x s)
  show ?case
  proof (cases "x = c")
    case True
    then show ?thesis by (cases a) (auto simp: split_once_def)
  next
    case False
    have "split_once c (x # s) = map_option (\<lambda>(a, b). (x # a, b)) (split_once c s)"
      using False by (auto simp: split_once_def)
    with Cons False show ?thesis by (cases a) (auto)
  qed
qed (simp add: split_once_def)

lemma split_once_None_iff: "split_once c s = None \<longleftrightarrow> c \<notin> set s"
  by (simp add: split_once_def)

section \<open>Numbers read from text\<close>

text \<open>
  \<open>from_str_radix\<close> for an unsigned type: one leading plus is allowed, a sign alone is not, every
  other byte is a digit of the base, and the value fits.
\<close>

definition radix_digit :: "nat \<Rightarrow> char \<Rightarrow> nat option" where
  "radix_digit base c =
     (let b = of_char c;
          v = (if 48 \<le> b \<and> b \<le> (57::nat) then Some (b - 48)
               else if 97 \<le> b \<and> b \<le> 122 then Some (b - 87)
               else if 65 \<le> b \<and> b \<le> 90 then Some (b - 55) else None)
      in case v of Some d \<Rightarrow> if d < base then Some d else None | None \<Rightarrow> None)"

fun radix_value :: "nat \<Rightarrow> nat \<Rightarrow> str \<Rightarrow> nat option" where
  "radix_value base n [] = Some n"
| "radix_value base n (c # cs) =
     (case radix_digit base c of Some d \<Rightarrow> radix_value base (base * n + d) cs | None \<Rightarrow> None)"

definition parse_radix :: "nat \<Rightarrow> nat \<Rightarrow> str \<Rightarrow> nat option" where
  "parse_radix bits base s =
     (let digits = (case strip_prefix ''+'' s of Some r \<Rightarrow> r | None \<Rightarrow> s)
      in if digits = [] then None
         else (case radix_value base 0 digits of Some n \<Rightarrow> if n < 2 ^ bits then Some n else None | None \<Rightarrow> None))"

definition parse_unsigned :: "nat \<Rightarrow> str \<Rightarrow> nat option" where
  "parse_unsigned bits s = parse_radix bits 10 s"

definition parse_signed :: "nat \<Rightarrow> str \<Rightarrow> int option" where
  "parse_signed bits s =
     (case strip_prefix ''-'' s of
        Some digits \<Rightarrow>
          (if digits = [] then None
           else (case radix_value 10 0 digits of Some n \<Rightarrow> if n \<le> 2 ^ (bits - 1) then Some (- int n) else None | None \<Rightarrow> None))
      | None \<Rightarrow>
          (case parse_radix (bits - 1) 10 s of Some n \<Rightarrow> Some (int n) | None \<Rightarrow> None))"

lemma radix_value_append: "radix_value base n (s @ t) = Option.bind (radix_value base n s) (\<lambda>m. radix_value base m t)"
  by (induction s arbitrary: n) (auto split: option.splits)

lemma radix_digit_digit: "k < base \<Longrightarrow> base \<le> 16 \<Longrightarrow> radix_digit base (digit k) = Some k"
  by (auto simp: radix_digit_def of_char_digit Let_def)

lemma radix_value_positional: "2 \<le> b \<Longrightarrow> b \<le> 16 \<Longrightarrow> radix_value b 0 (positional b n) = Some n"
proof (induction b n rule: positional.induct)
  case (1 b n)
  show ?case
  proof (cases "n < b")
    case True
    with 1 show ?thesis by (simp add: positional.simps[of b n] radix_digit_digit)
  next
    case False
    with 1 have "radix_value b 0 (positional b (n div b)) = Some (n div b)" by simp
    moreover have "n mod b < b" using "1.prems" by simp
    ultimately show ?thesis using False "1.prems"
      by (simp add: positional.simps[of b n] radix_value_append radix_digit_digit)
  qed
qed

text \<open>A number printed and read back is itself.\<close>

lemma parse_show_nat: "n < 2 ^ bits \<Longrightarrow> parse_unsigned bits (show_nat n) = Some n"
proof -
  assume n: "n < 2 ^ bits"
  have "strip_prefix ''+'' (show_nat n) = None"
  proof (cases "strip_prefix ''+'' (show_nat n)")
    case (Some r)
    then have "CHR ''+'' \<in> set (positional 10 n)" by (simp add: strip_prefix_Some_iff show_nat_def)
    then obtain k where "k < 10" "CHR ''+'' = digit k" using positional_digits[of 10 "CHR ''+''" n] by auto
    then have "of_char (CHR ''+'') = (48 + k :: nat)" using of_char_digit[of k] by simp
    then show ?thesis by simp
  qed simp
  with n show ?thesis
    using radix_value_positional[of 10 n] by (simp add: parse_unsigned_def parse_radix_def show_nat_def)
qed

end
