(* ===== verification/Operator.thy ===== *)
theory Operator
  imports TextFields Paths BTree Annotations
begin

text \<open>
  What the operator says and is told: the command line (\<open>cli.rs\<close>), the credentials of a run
  (\<open>credentials.rs\<close>, \<open>api_credential.rs\<close>), the warnings before it (\<open>privilege.rs\<close>, \<open>preflight.rs\<close>)
  and the one figure of \<open>progress.rs\<close> that is read from text.  A refusal is kept unrendered: its
  template and what it quotes.
\<close>

datatype message = Message (wording: str) (quoted: "str list")

section \<open>The command line\<close>

record cli =
  include_volatile :: bool
  config_file :: "str option"
  staged :: bool
  output_path :: "str option"
  force_flag :: bool
  progress_flag :: bool
  no_progress :: bool
  debug_flag :: bool
  detail_flag :: bool
  raw_flag :: bool
  credentials_file :: "str option"

definition cli_presentation :: "cli \<Rightarrow> presentation" where
  "cli_presentation cli =
     (let view = (if include_volatile cli then Complete else Diffable)
      in if raw_flag cli then raw (presentation_from view) else presentation_from view)"

definition show_progress :: "cli \<Rightarrow> bool \<Rightarrow> bool" where
  "show_progress cli stderr_is_a_terminal =
     (case (progress_flag cli, no_progress cli) of
        (True, _) \<Rightarrow> True
      | (_, True) \<Rightarrow> False
      | _ \<Rightarrow> stderr_is_a_terminal)"

section \<open>Credentials\<close>

type_synonym credentials = "(str, str) btree"

definition most_read :: nat where
  "most_read = 64 * 1024"

definition is_a_name :: "str \<Rightarrow> bool" where
  "is_a_name name \<longleftrightarrow> name \<noteq> [] \<and> list_all (\<lambda>c. is_ascii_uppercase c \<or> is_ascii_digit c \<or> c = CHR ''_'') name"

definition double_quote :: char where "double_quote = CHR 0x22"
definition single_quote :: char where "single_quote = CHR 0x27"

definition inside_quotes :: "char \<Rightarrow> str \<Rightarrow> str option" where
  "inside_quotes quote value = Option.bind (strip_prefix [quote] value) (strip_suffix [quote])"

definition unquoted :: "str \<Rightarrow> str" where
  "unquoted value =
     (case inside_quotes double_quote value of
        Some r \<Rightarrow> r
      | None \<Rightarrow> (case inside_quotes single_quote value of Some r \<Rightarrow> r | None \<Rightarrow> value))"

fun credentials_from :: "nat \<Rightarrow> str list \<Rightarrow> credentials \<Rightarrow> message + credentials" where
  "credentials_from number [] values = Inr values"
| "credentials_from number (line # rest) values =
     (let line = trim line
      in if line = [] \<or> starts_with ''#'' line then credentials_from (Suc number) rest values
         else
           (let line = (case strip_prefix ''export '' line of Some r \<Rightarrow> r | None \<Rightarrow> line)
            in case split_once (CHR ''='') line of
                 None \<Rightarrow> Inl (Message ''line {number} of the credentials is not NAME=value'' [show_nat number])
               | Some (name, val) \<Rightarrow>
                   if \<not> is_a_name name
                   then Inl (Message ''line {number} of the credentials is not NAME=value'' [show_nat number])
                   else if btree_get name values \<noteq> None
                   then Inl (Message ''line {number} of the credentials gives {name} a second time'' [show_nat number, name])
                   else credentials_from (Suc number) rest (btree_insert name (unquoted val) values)))"

declare credentials_from.simps(2) [simp del]

definition credentials_parse :: "str \<Rightarrow> message + credentials" where
  "credentials_parse text_given = credentials_from 1 (lines text_given) []"

text \<open>
  The text read from the file or from stdin, bounded: \<open>readable\<close> is what the opened source holds, or
  the error of opening or reading it.
\<close>

definition credentials_read :: "(str \<Rightarrow> str + str) \<Rightarrow> str \<Rightarrow> message + credentials" where
  "credentials_read readable path =
     (let named = (if components path = components ''-'' then ''on stdin'' else ''in '' @ path)
      in case readable path of
           Inl error \<Rightarrow> Inl (Message ''the credentials {named} could not be read: {error}'' [named, error])
         | Inr held \<Rightarrow>
             (let taken = take (most_read + 1) held
              in if \<not> valid_utf8 taken
                 then Inl (Message ''the credentials {named} could not be read: {error}'' [named, ''stream did not contain valid UTF-8''])
                 else if length taken > most_read
                 then Inl (Message ''the credentials {named} are larger than {MOST_READ} bytes'' [named])
                 else credentials_parse taken))"

definition credential_names :: "credentials \<Rightarrow> str list" where
  "credential_names values = map fst values"

definition readable_by_other_accounts :: "nat option \<Rightarrow> bool" where
  "readable_by_other_accounts mode = (case mode of Some m \<Rightarrow> m mod 64 \<noteq> 0 | None \<Rightarrow> False)"

section \<open>The Elasticsearch credential\<close>

datatype api_credential = ApiKey str | Basic str str

definition api_key_name :: str where "api_key_name = ''ELASTICSEARCH_API_KEY''"
definition username_name :: str where "username_name = ''ELASTICSEARCH_USERNAME''"
definition password_name :: str where "password_name = ''ELASTICSEARCH_PASSWORD''"
definition credential_prefix :: str where "credential_prefix = ''ELASTICSEARCH_''"

definition known_names :: "str list" where
  "known_names = [api_key_name, username_name, password_name]"

definition from_credentials :: "credentials \<Rightarrow> message + api_credential option" where
  "from_credentials given =
     (case find (\<lambda>name. starts_with credential_prefix name \<and> \<not> List.member known_names name) (credential_names given) of
        Some unknown \<Rightarrow> Inl (Message
          ''the credentials give {unknown}, which is not a name rastro reads; it reads {}'' [unknown])
      | None \<Rightarrow>
          (case (btree_get api_key_name given, btree_get username_name given, btree_get password_name given) of
             (None, None, None) \<Rightarrow> Inr None
           | (Some key, None, None) \<Rightarrow> Inr (Some (ApiKey key))
           | (None, Some username, Some password) \<Rightarrow> Inr (Some (Basic username password))
           | (Some _, _, _) \<Rightarrow> Inl (Message
               ''the credentials give {API_KEY} and a username or password beside it; give one'' [])
           | (None, Some _, None) \<Rightarrow> Inl (Message ''the credentials give {USERNAME} without {PASSWORD}'' [])
           | (None, None, Some _) \<Rightarrow> Inl (Message ''the credentials give {PASSWORD} without {USERNAME}'' [])))"

text \<open>The header value; \<open>base64\<close> is the crate's standard encoder.\<close>

definition authorization :: "(str \<Rightarrow> str) \<Rightarrow> api_credential \<Rightarrow> str" where
  "authorization base64 credential =
     (case credential of
        ApiKey encoded \<Rightarrow> ''ApiKey '' @ encoded
      | Basic username password \<Rightarrow> ''Basic '' @ base64 (username @ '':'' @ password))"

text \<open>What a run does with the operator's path to credentials before anything is read.\<close>

definition read_credentials :: "(str \<Rightarrow> str + str) \<Rightarrow> str option \<Rightarrow> message + credentials option" where
  "read_credentials readable path =
     (case path of
        None \<Rightarrow> Inr None
      | Some path \<Rightarrow>
          and_then (credentials_read readable path) (\<lambda>credentials.
            map_ok (\<lambda>_. Some credentials) (from_credentials credentials)))"

section \<open>Warnings\<close>

definition effective_user_id_in :: "str \<Rightarrow> nat option" where
  "effective_user_id_in status =
     Option.bind (find_map (strip_prefix ''Uid:'') (lines status)) (\<lambda>ids.
     Option.bind (nth_opt 1 (split_whitespace ids)) (parse_unsigned 32))"

definition privilege_concern :: "nat option \<Rightarrow> message option" where
  "privilege_concern effective_user_id =
     (case effective_user_id of
        None \<Rightarrow> None
      | Some uid \<Rightarrow> if uid = 0 then None else Some (Message ''running as uid {uid}, not root'' [show_nat uid]))"

definition u64_max :: nat where
  "u64_max = 2 ^ 64 - 1"

definition saturating_mul :: "nat \<Rightarrow> nat \<Rightarrow> nat" where
  "saturating_mul a b = min (a * b) u64_max"

definition bytes_per_entry :: nat where
  "bytes_per_entry = 81"

record estimate =
  inodes :: nat
  document_bytes :: nat

definition estimate_of :: "nat \<Rightarrow> estimate" where
  "estimate_of n = \<lparr>inodes = n, document_bytes = saturating_mul n bytes_per_entry\<rparr>"

definition preflight_concern :: "estimate \<Rightarrow> nat option \<Rightarrow> message option" where
  "preflight_concern est free_bytes =
     (case free_bytes of
        None \<Rightarrow> None
      | Some free \<Rightarrow>
          if saturating_mul (document_bytes est) 4 < free then None
          else Some (Message
            ''this host has {} inodes in use, so the document may reach about {} MB against {} MB free where it is being written''
            [show_nat (inodes est), show_nat (document_bytes est div 1048576), show_nat (free div 1048576)]))"

definition parse_free_bytes :: "str \<Rightarrow> nat option" where
  "parse_free_bytes reported =
     Option.bind (nth_opt 1 (lines reported)) (\<lambda>row.
     Option.bind (nth_opt 3 (split_whitespace row)) (\<lambda>column.
     map_option (\<lambda>kilobytes. saturating_mul kilobytes 1024) (parse_unsigned 64 column)))"

definition parse_inodes_in_use :: "str \<Rightarrow> nat" where
  "parse_inodes_in_use reported =
     (let counts = List.map_filter (\<lambda>line. Option.bind (nth_opt 2 (split_whitespace line)) (parse_unsigned 64))
        (drop 1 (lines reported))
      in sum_list counts mod 2 ^ 64)"

definition peak_resident_in :: "str \<Rightarrow> nat option" where
  "peak_resident_in status =
     Option.bind (find_map (strip_prefix ''VmHWM:'') (lines status)) (\<lambda>line.
     Option.bind (nth_opt 0 (split_whitespace line)) (parse_unsigned 64))"

section \<open>Laws\<close>

lemma trim_unchanged:
  assumes "valid_utf8 (a # mid)" "between 0 127 a" "\<not> is_whitespace [a]" "between 0 127 b" "\<not> is_whitespace [b]"
  shows "trim (a # mid @ [b]) = a # mid @ [b]"
proof -
  have chars: "chars_of (a # mid @ [b]) = chars_of (a # mid) @ [[b]]"
    using chars_of_append[OF assms(1), of "[b]"] assms(4) by (simp add: chars_of_ascii_Cons)
  have "trim_end (a # mid @ [b]) = concat (chars_of (a # mid @ [b]))"
    unfolding trim_end_def chars using assms(5) by simp
  then have tail: "trim_end (a # mid @ [b]) = a # mid @ [b]" by simp
  have "dropWhile is_whitespace (chars_of (a # mid @ [b])) = chars_of (a # mid @ [b])"
    using chars assms(2,3) by (simp add: chars_of_ascii_Cons)
  then show ?thesis by (simp add: trim_def tail trim_start_def)
qed

lemma name_char_ascii:
  "is_ascii_uppercase c \<or> is_ascii_digit c \<or> c = CHR ''_'' \<Longrightarrow> between 0 127 c \<and> \<not> is_whitespace [c] \<and>
     c \<noteq> CHR ''='' \<and> c \<noteq> CHR ''#'' \<and> c \<noteq> CHR ''e'' \<and> c \<noteq> newline"
  by (auto simp: is_ascii_uppercase_def is_ascii_digit_def between_def is_whitespace_def Let_def newline_def)

text \<open>The credentials as a file writes them, every value quoted.\<close>

definition credential_line :: "str \<times> str \<Rightarrow> str" where
  "credential_line = (\<lambda>(name, val). name @ ''='' @ [double_quote] @ val @ [double_quote])"

definition credential_text :: "credentials \<Rightarrow> str" where
  "credential_text m = concat (map (\<lambda>l. l @ [newline]) (map credential_line m))"

definition credential_ok :: "str \<times> str \<Rightarrow> bool" where
  "credential_ok = (\<lambda>(name, val). is_a_name name \<and> valid_utf8 val \<and> newline \<notin> set val)"

lemma credential_line_props:
  assumes "credential_ok (name, val)"
  defines "l \<equiv> credential_line (name, val)"
  shows "trim l = l" "l \<noteq> []" "\<not> starts_with ''#'' l" "strip_prefix ''export '' l = None"
    "split_once (CHR ''='') l = Some (name, [double_quote] @ val @ [double_quote])" "newline \<notin> set l" "last l = double_quote"
proof -
  have name: "name \<noteq> []" "list_all (\<lambda>c. is_ascii_uppercase c \<or> is_ascii_digit c \<or> c = CHR ''_'') name"
    "is_a_name name" and val: "valid_utf8 val" "newline \<notin> set val"
    using assms(1) by (simp_all add: credential_ok_def is_a_name_def)
  have chars: "c \<in> set name \<Longrightarrow> between 0 127 c \<and> \<not> is_whitespace [c] \<and> c \<noteq> CHR ''='' \<and> c \<noteq> CHR ''#'' \<and>
      c \<noteq> CHR ''e'' \<and> c \<noteq> newline" for c
    using name(2) by (intro name_char_ascii) (simp add: list_all_iff)
  obtain a r where a: "name = a # r" using name(1) by (cases name) auto
  have quote: "between 0 127 double_quote" "\<not> is_whitespace [double_quote]" "double_quote \<noteq> newline"
    by (simp_all add: double_quote_def between_def is_whitespace_def newline_def Let_def)
  have "valid_utf8 name" by (rule valid_utf8_ascii) (use chars in blast)
  moreover have "valid_utf8 (''='' @ [double_quote] @ val)"
    using val by (simp add: valid_utf8_append double_quote_def) (simp add: valid_utf8.simps(2) between_def Let_def)
  ultimately have "valid_utf8 (name @ ''='' @ [double_quote] @ val)" by (simp only: valid_utf8_append)
  then have "valid_utf8 (a # (r @ ''='' @ [double_quote] @ val))" by (simp add: a)
  from trim_unchanged[OF this _ _ quote(1,2)] chars[of a] show "trim l = l" by (simp add: l_def credential_line_def a)
  show "l \<noteq> []" "last l = double_quote" by (simp_all add: l_def credential_line_def)
  show "\<not> starts_with ''#'' l" "strip_prefix ''export '' l = None"
    using chars[of a] by (auto simp: l_def credential_line_def a starts_with_def strip_prefix_def)
  show "split_once (CHR ''='') l = Some (name, [double_quote] @ val @ [double_quote])"
    using chars by (auto simp: l_def credential_line_def split_once_Some_iff)
  show "newline \<notin> set l" using chars val quote(3) by (auto simp: l_def credential_line_def newline_def)
qed

lemma unquoted_quoted: "unquoted ([double_quote] @ val @ [double_quote]) = val"
proof -
  have "strip_suffix [double_quote] (val @ [double_quote]) = Some val" by (simp only: strip_suffix_Some_iff)
  moreover have "strip_prefix [double_quote] ([double_quote] @ val @ [double_quote]) = Some (val @ [double_quote])"
    by (simp only: strip_prefix_Some_iff)
  ultimately show ?thesis by (simp add: unquoted_def inside_quotes_def)
qed

lemma credentials_from_lines:
  assumes "\<And>e. e \<in> set es \<Longrightarrow> credential_ok e" "btree_sorted (m @ es)"
  shows "credentials_from n (map credential_line es) m = Inr (m @ es)"
  using assms
proof (induction es arbitrary: n m)
  case (Cons e es)
  obtain name val where e: "e = (name, val)" by (cases e)
  have ok: "credential_ok (name, val)" using Cons.prems(1) e by simp
  then have named: "is_a_name name" by (simp add: credential_ok_def)
  have before: "\<forall>k\<in>set (map fst m). k < name" using Cons.prems(2) by (simp add: btree_sorted_def e sorted_wrt_append)
  then have fresh: "btree_get name m = None"
    by (auto simp: btree_get_def map_of_eq_None_iff)
  have "credentials_from (Suc n) (map credential_line es) (m @ [e]) = Inr ((m @ [e]) @ es)"
    by (rule Cons.IH) (use Cons.prems in auto)
  with ok named fresh btree_insert_above[OF before, of val] show ?case
    by (simp add: e credentials_from.simps(2) credential_line_props[OF ok] unquoted_quoted[simplified])
qed simp

section \<open>Properties\<close>

text \<open>
  C19.  Credentials written one per line with their values quoted are read back as they were,
  whatever the values hold but a line break: quotes, spaces, signs and comment marks included.
\<close>

theorem credentials_round_trip:
  assumes "btree_sorted m" "\<And>e. e \<in> set m \<Longrightarrow> credential_ok e"
  shows "credentials_parse (credential_text m) = Inr m"
proof -
  have "lines (credential_text m) = map credential_line m"
    unfolding credential_text_def
  proof (rule lines_concat)
    fix l assume "l \<in> set (map credential_line m)"
    then obtain name val where "(name, val) \<in> set m" "l = credential_line (name, val)" by auto
    with assms(2) credential_line_props(6,7)[of name val] show "newline \<notin> set l \<and> (l = [] \<or> last l \<noteq> carriage_return)"
      by (simp add: double_quote_def carriage_return_def)
  qed
  with credentials_from_lines[of m "[]" 1] assms show ?thesis by (simp add: credentials_parse_def)
qed

theorem credentials_round_trip_witness:
  "credentials_parse (credential_text [(''API'', ''a=b # c''), (''USER'', ''x'')]) = Inr [(''API'', ''a=b # c''), (''USER'', ''x'')]"
  by (rule credentials_round_trip)
    (auto simp: btree_sorted_def credential_ok_def is_a_name_def is_ascii_uppercase_def newline_def
      valid_utf8.simps(2) between_def Let_def)

text \<open>
  A refusal quotes nothing of the file but a line number and a name: what it quotes is the
  number of a line, or the part before the separator of a line, made of upper-case letters, digits
  and underscores; and what is accepted is a table of such names.
\<close>

theorem refusals_quote_no_value:
  "case credentials_parse given of
     Inl m \<Rightarrow> (\<forall>q\<in>set (quoted m). (\<exists>n. 1 \<le> n \<and> n \<le> length (lines given) \<and> q = show_nat n) \<or> is_a_name q)
   | Inr values \<Rightarrow> btree_sorted values \<and> list_all is_a_name (credential_names values)"
proof -
  have "case credentials_from n ls m of
     Inl m \<Rightarrow> (\<forall>q\<in>set (quoted m). (\<exists>k. n \<le> k \<and> k < n + length ls \<and> q = show_nat k) \<or> is_a_name q)
   | Inr values \<Rightarrow> btree_sorted values \<and> list_all is_a_name (credential_names values)"
    if "btree_sorted m" "list_all is_a_name (credential_names m)" for n ls m
    using that
  proof (induction n ls m rule: credentials_from.induct)
    case (2 n l ls m)
    have named: "list_all is_a_name (credential_names (btree_insert k v m))" if "is_a_name k" for k v
      using "2.prems"(2) that set_btree_insert[of k v m] by (auto simp: credential_names_def list_all_iff)
    have later: "\<exists>k\<ge>n. k < Suc (n + length ls) \<and> q = show_nat k"
      if "\<exists>k\<ge>Suc n. k < Suc (n + length ls) \<and> q = show_nat k" for q
    proof -
      from that obtain k where "Suc n \<le> k" "k < Suc (n + length ls)" "q = show_nat k" by blast
      then show ?thesis by (intro exI[of _ k]) simp
    qed
    define line where "line = (case strip_prefix ''export '' (trim l) of Some r \<Rightarrow> r | None \<Rightarrow> trim l)"
    have step: "credentials_from n (l # ls) m =
        (if trim l = [] \<or> starts_with ''#'' (trim l) then credentials_from (Suc n) ls m
         else case split_once (CHR ''='') line of
             None \<Rightarrow> Inl (Message ''line {number} of the credentials is not NAME=value'' [show_nat n])
           | Some (name, val) \<Rightarrow>
               if \<not> is_a_name name
               then Inl (Message ''line {number} of the credentials is not NAME=value'' [show_nat n])
               else if btree_get name m \<noteq> None
               then Inl (Message ''line {number} of the credentials gives {name} a second time'' [show_nat n, name])
               else credentials_from (Suc n) ls (btree_insert name (unquoted val) m))"
      by (simp only: credentials_from.simps Let_def line_def)
    consider "trim l = [] \<or> starts_with ''#'' (trim l)"
      | "\<not> (trim l = [] \<or> starts_with ''#'' (trim l))" "split_once (CHR ''='') line = None"
      | name val where "\<not> (trim l = [] \<or> starts_with ''#'' (trim l))" "split_once (CHR ''='') line = Some (name, val)"
      by (cases "split_once (CHR ''='') line") auto
    then show ?case
    proof cases
      case 1
      with "2.IH"(1)[OF refl 1 "2.prems"] 1 show ?thesis unfolding step by (auto split: sum.splits intro!: later)
    next
      case 2
      then have "credentials_from n (l # ls) m =
          Inl (Message ''line {number} of the credentials is not NAME=value'' [show_nat n])" unfolding step by simp
      then show ?thesis by auto
    next
      case (3 name val)
      show ?thesis
      proof (cases "is_a_name name \<and> btree_get name m = None")
        case True
        have rest: "credentials_from n (l # ls) m = credentials_from (Suc n) ls (btree_insert name (unquoted val) m)"
          unfolding step using 3 True by simp
        have "case credentials_from (Suc n) ls (btree_insert name (unquoted val) m) of
            Inl m \<Rightarrow> (\<forall>q\<in>set (quoted m). (\<exists>k. Suc n \<le> k \<and> k < Suc n + length ls \<and> q = show_nat k) \<or> is_a_name q)
          | Inr values \<Rightarrow> btree_sorted values \<and> list_all is_a_name (credential_names values)"
          using "2.IH"(2)[OF refl 3(1) refl 3(2)[unfolded line_def] refl _ _ btree_sorted_insert[OF "2.prems"(1)] named] True by simp
        then show ?thesis unfolding rest by (auto split: sum.splits intro!: later)
      next
        case False
        with 3 have "\<exists>w. credentials_from n (l # ls) m = Inl (Message w [show_nat n])
            \<or> is_a_name name \<and> credentials_from n (l # ls) m = Inl (Message w [show_nat n, name])"
          unfolding step by (cases "is_a_name name") auto
        then show ?thesis by (auto intro!: exI[of _ n])
      qed
    qed
  qed simp
  from this[of "[]" 1 "lines given"] show ?thesis
    by (auto simp: credentials_parse_def btree_sorted_def credential_names_def less_Suc_eq_le split: sum.splits)
qed

theorem refusals_quote_no_value_witness:
  "\<exists>q. credentials_parse ''secret'' = Inl (Message ''line {number} of the credentials is not NAME=value'' [q])
     \<and> ((\<exists>n. 1 \<le> n \<and> n \<le> length (lines ''secret'') \<and> q = show_nat n) \<or> is_a_name q)"
proof -
  have "credentials_parse ''secret'' = Inl (Message ''line {number} of the credentials is not NAME=value'' [show_nat 1])"
    by (simp add: credentials_parse_def credentials_from.simps(2) lines_def newline_def trim_def trim_end_def trim_start_def
        chars_of_ascii_Cons between_def is_whitespace_def Let_def split_once_def starts_with_def strip_prefix_def)
  with refusals_quote_no_value[of "''secret''"] show ?thesis by auto
qed

text \<open>
  The warning about the disk is given exactly where four times the estimate, at 81 bytes a path,
  is not below the space there is: the products saturate at 64 bits without changing the answer.
\<close>

theorem warned_exactly_without_room:
  assumes "free \<le> u64_max"
  shows "preflight_concern (estimate_of n) (Some free) = None \<longleftrightarrow> 4 * (81 * n) < free"
  using assms by (auto simp: preflight_concern_def estimate_of_def saturating_mul_def bytes_per_entry_def min_def split: if_splits)

theorem warned_exactly_without_room_witness:
  "preflight_concern (estimate_of 1000) (Some (10 ^ 9)) = None \<and> preflight_concern (estimate_of (2 ^ 63)) (Some (10 ^ 9)) \<noteq> None"
  using warned_exactly_without_room[of "10 ^ 9" 1000] warned_exactly_without_room[of "10 ^ 9" "2 ^ 63"]
  by (simp add: u64_max_def)

end
