(* ===== verification/FileEntry.thy ===== *)
theory FileEntry
  imports WalkPolicy
begin

text \<open>
  One entry of the walk (\<open>filesystem/model/file_entry.rs\<close>) and the values it is made of
  (\<open>filesystem/value_objects\<close>, \<open>file_metadata/file_mode.rs\<close>): its kind, mode, stamps, device numbers
  and content digest, the bytes its metadata digest is taken over, and how the document records it.
\<close>

section \<open>Values\<close>

datatype file_kind = RegularFile | DirectoryFile | SymlinkFile | Fifo | Socket | BlockDevice | CharacterDevice

fun file_kind_str :: "file_kind \<Rightarrow> str" where
  "file_kind_str RegularFile = ''regular''"
| "file_kind_str DirectoryFile = ''directory''"
| "file_kind_str SymlinkFile = ''symlink''"
| "file_kind_str Fifo = ''fifo''"
| "file_kind_str Socket = ''socket''"
| "file_kind_str BlockDevice = ''block_device''"
| "file_kind_str CharacterDevice = ''character_device''"

definition has_content :: "file_kind \<Rightarrow> bool" where
  "has_content kind \<longleftrightarrow> kind = RegularFile"

definition is_device :: "file_kind \<Rightarrow> bool" where
  "is_device kind \<longleftrightarrow> kind = BlockDevice \<or> kind = CharacterDevice"

definition summarises_what_is_inside_it :: "file_kind \<Rightarrow> bool" where
  "summarises_what_is_inside_it kind \<longleftrightarrow> kind = DirectoryFile"

datatype file_mode = FileMode (mode_bits: "32 word")

unbundle bit_operations_syntax

definition file_mode_of :: "32 word \<Rightarrow> file_mode" where
  "file_mode_of raw_mode = FileMode (raw_mode AND 0xFFF)"

definition file_mode_str :: "file_mode \<Rightarrow> str" where
  "file_mode_str m = zero_padded 4 (positional 8 (unat (mode_bits m)))"

record device_number =
  device_major :: i64
  device_minor :: i64

definition device_number_of :: "u64 \<Rightarrow> device_number" where
  "device_number_of raw_device =
     \<lparr>device_major = (drop_bit 8 raw_device AND 0x00000FFF) OR (drop_bit 32 raw_device AND 0xFFFFF000),
      device_minor = (raw_device AND 0x000000FF) OR (drop_bit 12 raw_device AND 0xFFFFFF00)\<rparr>"

definition device_observed :: "device_number \<Rightarrow> observation" where
  "device_observed d = object [(''major'', integer (device_major d)), (''minor'', integer (device_minor d))]"

text \<open>\<open>checked_mul\<close> and \<open>checked_add\<close> on \<open>i64\<close>: nothing where the value does not fit.\<close>

definition fits_i64 :: "int \<Rightarrow> i64 option" where
  "fits_i64 i = (if - (2 ^ 63) \<le> i \<and> i < 2 ^ 63 then Some (word_of_int i) else None)"

datatype nanoseconds = NanosecondsSinceEpoch (stamp_value: i64)

definition nanoseconds_of :: "i64 \<Rightarrow> i64 \<Rightarrow> nanoseconds option" where
  "nanoseconds_of seconds nanos =
     map_option NanosecondsSinceEpoch
       (Option.bind (fits_i64 (sint seconds * 1000000000)) (\<lambda>scaled. fits_i64 (sint scaled + sint nanos)))"

record file_digest =
  digest_algorithm_of :: digest_algorithm
  digest_value :: str

definition file_digest_of :: "digest_algorithm \<Rightarrow> str \<Rightarrow> file_digest" where
  "file_digest_of algorithm bs = \<lparr>digest_algorithm_of = algorithm, digest_value = hex_of_bytes bs\<rparr>"

datatype detail = Summary | Full

section \<open>The bytes a digest is taken over\<close>

type_synonym canonical_bytes = str

definition present_tag :: str where "present_tag = [char_of (1 :: nat)]"
definition absent_tag :: str where "absent_tag = [char_of (0 :: nat)]"
definition withheld_tag :: str where "withheld_tag = [char_of (2 :: nat)]"

definition put_text :: "canonical_bytes \<Rightarrow> str \<Rightarrow> canonical_bytes" where
  "put_text bs val = bs @ present_tag @ to_be_bytes (of_nat (length val)) @ val"

definition put_integer :: "canonical_bytes \<Rightarrow> i64 \<Rightarrow> canonical_bytes" where
  "put_integer bs val = bs @ present_tag @ to_be_bytes val"

definition put_absent :: "canonical_bytes \<Rightarrow> canonical_bytes" where
  "put_absent bs = bs @ absent_tag"

definition put_withheld :: "canonical_bytes \<Rightarrow> canonical_bytes" where
  "put_withheld bs = bs @ withheld_tag"

definition maybe_integer :: "bool \<Rightarrow> i64 option \<Rightarrow> canonical_bytes \<Rightarrow> canonical_bytes" where
  "maybe_integer withheld val bs =
     (case (withheld, val) of
        (True, _) \<Rightarrow> put_withheld bs
      | (False, Some v) \<Rightarrow> put_integer bs v
      | (False, None) \<Rightarrow> put_absent bs)"

definition maybe_text :: "bool \<Rightarrow> str option \<Rightarrow> canonical_bytes \<Rightarrow> canonical_bytes" where
  "maybe_text withheld val bs =
     (case (withheld, val) of
        (True, _) \<Rightarrow> put_withheld bs
      | (False, Some v) \<Rightarrow> put_text bs v
      | (False, None) \<Rightarrow> put_absent bs)"

section \<open>An entry\<close>

record file_entry =
  entry_path :: absolute_path
  entry_kind :: file_kind
  entry_mode :: file_mode
  entry_owner :: i64
  entry_group :: i64
  entry_size :: "byte_size option"
  entry_modified :: nanoseconds
  entry_changed :: nanoseconds
  entry_inode :: i64
  entry_link_count :: i64
  entry_link_target :: "str option"
  entry_device :: "device_number option"
  entry_digest :: "file_digest option"
  entry_reading :: content_policy

definition stamps_are_derived :: "file_entry \<Rightarrow> bool" where
  "stamps_are_derived e = summarises_what_is_inside_it (entry_kind e)"

definition entry_churns :: "file_entry \<Rightarrow> bool" where
  "entry_churns e = churns (entry_reading e)"

definition metadata_bytes :: "file_entry \<Rightarrow> canonical_bytes" where
  "metadata_bytes e =
     (let derived = stamps_are_derived e; churning = entry_churns e
      in maybe_text False (map_option digest_value (entry_digest e))
        (maybe_integer False (map_option device_minor (entry_device e))
        (maybe_integer False (map_option device_major (entry_device e))
        (maybe_text False (entry_link_target e)
        (maybe_integer derived (Some (entry_link_count e))
        (maybe_integer churning (Some (entry_inode e))
        (maybe_integer (derived \<or> churning) (Some (stamp_value (entry_changed e)))
        (maybe_integer (derived \<or> churning) (Some (stamp_value (entry_modified e)))
        (maybe_integer churning (map_option bytes (entry_size e))
        (put_integer
        (put_integer
        (put_text
        (put_text [] (file_kind_str (entry_kind e)))
          (file_mode_str (entry_mode e)))
          (entry_owner e))
          (entry_group e)))))))))))"

definition metadata_digest :: "hashes \<Rightarrow> file_entry \<Rightarrow> xxh3_digest" where
  "metadata_digest H e = digest_of H (metadata_bytes e)"

definition volatile_if :: "bool \<Rightarrow> observation \<Rightarrow> observation" where
  "volatile_if condition val = (if condition then volatile val else val)"

definition attributes_of :: "file_entry \<Rightarrow> (str \<times> observation) list" where
  "attributes_of e =
     (let derived = stamps_are_derived e; churning = entry_churns e
      in [(''kind'', text_of (file_kind_str (entry_kind e))),
          (''mode'', text_of (file_mode_str (entry_mode e))),
          (''owner'', integer (entry_owner e)),
          (''group'', integer (entry_group e)),
          (''size'', volatile_if churning (case entry_size e of Some n \<Rightarrow> integer (bytes n) | None \<Rightarrow> null)),
          (''modified_nanoseconds_since_epoch'', volatile_if (derived \<or> churning) (integer (stamp_value (entry_modified e)))),
          (''changed_nanoseconds_since_epoch'', volatile_if (derived \<or> churning) (integer (stamp_value (entry_changed e)))),
          (''inode'', volatile_if churning (integer (entry_inode e))),
          (''link_count'', volatile_if derived (integer (entry_link_count e))),
          (''link_target'', (case entry_link_target e of Some target \<Rightarrow> text_of target | None \<Rightarrow> null)),
          (''device'', (case entry_device e of Some device \<Rightarrow> device_observed device | None \<Rightarrow> null)),
          (''digest'', (case entry_digest e of
             Some digest \<Rightarrow> object [(''algorithm'', text_of (digest_algorithm_str (digest_algorithm_of digest))),
               (''value'', text_of (digest_value digest))]
           | None \<Rightarrow> null))])"

definition every_attribute :: "file_entry \<Rightarrow> observation" where
  "every_attribute e = object (attributes_of e)"

definition entry_observed :: "hashes \<Rightarrow> detail \<Rightarrow> file_entry \<Rightarrow> observation" where
  "entry_observed H detail e =
     (case detail of
        Summary \<Rightarrow> observation_of_digest (metadata_digest H e)
      | Full \<Rightarrow> every_attribute e)"

section \<open>Reading the bytes back\<close>

text \<open>A field is read off the front of what follows it in one way only.\<close>

definition integer_field :: "bool \<Rightarrow> i64 option \<Rightarrow> canonical_bytes" where
  "integer_field withheld val = maybe_integer withheld val []"

definition text_field :: "bool \<Rightarrow> str option \<Rightarrow> canonical_bytes" where
  "text_field withheld val = maybe_text withheld val []"

lemma put_appends:
  "maybe_integer w v bs = bs @ integer_field w v" "maybe_text w t bs = bs @ text_field w t"
  "put_integer bs i = bs @ integer_field False (Some i)" "put_text bs s = bs @ text_field False (Some s)"
  by (auto simp: integer_field_def text_field_def maybe_integer_def maybe_text_def put_integer_def put_text_def put_absent_def
      put_withheld_def split: option.splits bool.splits)

lemma integer_field_front:
  "integer_field w u @ s = integer_field w' v @ t \<longleftrightarrow> w = w' \<and> (w \<or> u = v) \<and> s = t"
  using to_be_bytes_inj
  by (cases w; cases w'; cases u; cases v)
    (auto simp: integer_field_def maybe_integer_def put_absent_def put_withheld_def put_integer_def absent_tag_def
      withheld_tag_def present_tag_def)

lemma text_field_front:
  assumes "case u of Some a \<Rightarrow> length a < 2 ^ 64 | None \<Rightarrow> True" "case v of Some a \<Rightarrow> length a < 2 ^ 64 | None \<Rightarrow> True"
  shows "text_field False u @ s = text_field False v @ t \<longleftrightarrow> u = v \<and> s = t"
proof (cases "u = None \<or> v = None")
  case True
  then show ?thesis
    by (cases u; cases v) (auto simp: text_field_def maybe_text_def put_absent_def put_text_def absent_tag_def present_tag_def)
next
  case False
  then obtain a b where ab: "u = Some a" "v = Some b" "length a < 2 ^ 64" "length b < 2 ^ 64" using assms by auto
  show ?thesis
  proof
    assume "text_field False u @ s = text_field False v @ t"
    then have split: "to_be_bytes (of_nat (length a)) = to_be_bytes (of_nat (length b))" "a @ s = b @ t"
      by (simp_all add: ab text_field_def maybe_text_def put_text_def present_tag_def)
    have width: "unat (of_nat n :: u64) = n" if "n < 2 ^ 64" for n
      using that by (simp add: unat_of_nat take_bit_nat_eq_self)
    from arg_cong[OF to_be_bytes_inj[OF split(1)], of unat] have "length a = length b"
      unfolding width[OF ab(3)] width[OF ab(4)] .
    with split(2) show "u = v \<and> s = t" by (simp add: ab)
  qed simp
qed

section \<open>What the diffable view keeps\<close>

text \<open>The attributes in the order of their names, each with whether it is volatile.\<close>

definition kept_attributes :: "file_entry \<Rightarrow> (str \<times> bool \<times> observation) list" where
  "kept_attributes e =
     (let derived = stamps_are_derived e; churning = entry_churns e
      in [(''changed_nanoseconds_since_epoch'', derived \<or> churning, integer (stamp_value (entry_changed e))),
          (''device'', False, (case entry_device e of Some device \<Rightarrow> device_observed device | None \<Rightarrow> null)),
          (''digest'', False, (case entry_digest e of
             Some digest \<Rightarrow> object [(''algorithm'', text_of (digest_algorithm_str (digest_algorithm_of digest))),
               (''value'', text_of (digest_value digest))]
           | None \<Rightarrow> null)),
          (''group'', False, integer (entry_group e)),
          (''inode'', churning, integer (entry_inode e)),
          (''kind'', False, text_of (file_kind_str (entry_kind e))),
          (''link_count'', derived, integer (entry_link_count e)),
          (''link_target'', False, (case entry_link_target e of Some target \<Rightarrow> text_of target | None \<Rightarrow> null)),
          (''mode'', False, text_of (file_mode_str (entry_mode e))),
          (''modified_nanoseconds_since_epoch'', derived \<or> churning, integer (stamp_value (entry_modified e))),
          (''owner'', False, integer (entry_owner e)),
          (''size'', churning, (case entry_size e of Some n \<Rightarrow> integer (bytes n) | None \<Rightarrow> null))])"

lemma attributes_sorted:
  "btree_collect (attributes_of e) = map (\<lambda>(k, c, v). (k, volatile_if c v)) (kept_attributes e)"
  by (simp add: attributes_of_def kept_attributes_def Let_def btree_collect_def volatile_if_def)

lemma unmarked_shown:
  "volatility_of v = Stable \<Longrightarrow> visible_under diffable w (volatile_if c v) =
     (if c then None else Some (Visible v diffable (withheld_under v diffable w)))"
  by (cases v) (auto simp: volatile_if_def visible_under_def dropped_by_def diffable_def)

lemma stable_simps [simp]:
  "volatility_of (integer i) = Stable" "volatility_of null = Stable" "volatility_of (text_of s) = Stable"
  "volatility_of (object es) = Stable" "volatility_of (device_observed d) = Stable"
  by (simp_all add: integer_def null_def text_of_def scalar_def object_def device_observed_def unannotated_def)

lemma kept_attributes_stable: "(k, c, v) \<in> set (kept_attributes e) \<Longrightarrow> volatility_of v = Stable"
  by (auto simp: kept_attributes_def Let_def split: option.splits)

lemma object_iter_eq:
  assumes "map fst xs = map fst ys" "distinct (map fst xs)"
    and "\<And>k c v. (k, c, v) \<in> set xs \<union> set ys \<Longrightarrow> volatility_of v = Stable"
  shows "object_iter (map (\<lambda>(k, c, v). (k, volatile_if c v)) xs) diffable w =
      object_iter (map (\<lambda>(k, c, v). (k, volatile_if c v)) ys) diffable w \<longleftrightarrow>
    list_all2 (\<lambda>(k, c, v) (k', c', v'). c = c' \<and> (c \<or> v = v')) xs ys"
  using assms
proof (induction xs arbitrary: ys)
  case Nil
  then show ?case by simp
next
  case (Cons x xs)
  obtain k c v where x: "x = (k, c, v)" by (cases x)
  from Cons.prems(1) x obtain c' v' zs where ys: "ys = (k, c', v') # zs" "map fst xs = map fst zs" by (cases ys) auto
  let ?it = "\<lambda>es. object_iter (map (\<lambda>(k, c, v). (k, volatile_if c v)) es) diffable w"
  have rest: "?it xs = ?it zs \<longleftrightarrow> list_all2 (\<lambda>(k, c, v) (k', c', v'). c = c' \<and> (c \<or> v = v')) xs zs"
    using Cons.prems ys by (intro Cons.IH) (auto simp: x)
  have fresh: "k \<notin> fst ` set (?it es)" if "map fst es = map fst xs" for es
  proof -
    have "fst ` set (?it es) \<subseteq> set (map fst es)" by (force simp: object_iter_def set_map_filter)
    with that Cons.prems(2) x show ?thesis by auto
  qed
  have stable: "volatility_of v = Stable" "volatility_of v' = Stable" using Cons.prems(3) x ys(1) by auto
  have head: "?it ((k, d, u) # es) = (if d then ?it es else (k, Visible u diffable (withheld_under u diffable w)) # ?it es)"
    if "volatility_of u = Stable" for d u es
    using unmarked_shown[OF that, of w d] by (simp add: object_iter_def map_filter_simps)
  have "(?it (x # xs) = ?it ys) = (c = c' \<and> (c \<or> v = v') \<and> ?it xs = ?it zs)"
    unfolding x ys(1) head[OF stable(1)] head[OF stable(2)]
    using fresh[of xs] fresh[of zs] ys(2) by (cases c; cases c') (auto simp: image_iff, (metis fst_conv list.set_intros(1))+)
  with rest show ?case by (auto simp: x ys(1))
qed

lemma integer_eq_simps [simp]:
  "integer i = integer j \<longleftrightarrow> i = j" "text_of s = text_of t \<longleftrightarrow> s = t" "integer i \<noteq> null" "null \<noteq> integer i"
  "text_of s \<noteq> null" "null \<noteq> text_of s" "object es \<noteq> null" "null \<noteq> object es"
  by (auto simp: integer_def text_of_def null_def scalar_def unannotated_def object_def)

lemma object_eq: "btree_sorted es \<Longrightarrow> btree_sorted fs \<Longrightarrow> object es = object fs \<longleftrightarrow> es = fs"
  by (simp add: object_def unannotated_def btree_collect_sorted)

lemma device_observed_eq [simp]: "device_observed d = device_observed e \<longleftrightarrow> d = e"
  by (cases d; cases e) (simp add: device_observed_def object_eq btree_sorted_def)

lemma device_observed_null [simp]: "device_observed d \<noteq> null" "null \<noteq> device_observed d"
  by (simp_all add: device_observed_def)

lemma file_kind_str_eq: "file_kind_str k = file_kind_str l \<longleftrightarrow> k = l"
  by (cases k; cases l) simp_all

lemma file_mode_str_eq: "file_mode_str m = file_mode_str n \<longleftrightarrow> m = n"
proof
  assume "file_mode_str m = file_mode_str n"
  from arg_cong[OF this, of "number_of 8"] have "unat (mode_bits m) = unat (mode_bits n)"
    by (simp add: file_mode_str_def number_of_zero_padded number_of_positional)
  then show "m = n" by (cases m; cases n) (simp add: word_unat_eq_iff)
qed simp

lemma short_texts: "length (file_kind_str k) < 2 ^ 64" "length (file_mode_str m) < 2 ^ 64"
proof -
  show "length (file_kind_str k) < 2 ^ 64" by (cases k) simp_all
  have "unat (mode_bits m) < 2 ^ 32" using unsigned_less[of "mode_bits m", where ?'a = nat] by simp
  then have "unat (mode_bits m) < 8 ^ 11" by simp
  then have "length (positional 8 (unat (mode_bits m))) \<le> 11" by (intro length_positional) simp_all
  then show "length (file_mode_str m) < 2 ^ 64" by (simp add: file_mode_str_def zero_padded_def)
qed

lemma or_null_eq:
  "(case s of Some n \<Rightarrow> integer (bytes n) | None \<Rightarrow> null) = (case t of Some n \<Rightarrow> integer (bytes n) | None \<Rightarrow> null)
    \<longleftrightarrow> map_option bytes s = map_option bytes t"
  "(case l of Some n \<Rightarrow> text_of n | None \<Rightarrow> null) = (case m of Some n \<Rightarrow> text_of n | None \<Rightarrow> null) \<longleftrightarrow> l = m"
  "(case d of Some n \<Rightarrow> device_observed n | None \<Rightarrow> null) = (case e of Some n \<Rightarrow> device_observed n | None \<Rightarrow> null) \<longleftrightarrow> d = e"
  "(case g of Some x \<Rightarrow> object [(''algorithm'', text_of (digest_algorithm_str (digest_algorithm_of x))), (''value'', text_of (digest_value x))]
      | None \<Rightarrow> null)
    = (case h of Some x \<Rightarrow> object [(''algorithm'', text_of (digest_algorithm_str (digest_algorithm_of x))), (''value'', text_of (digest_value x))]
      | None \<Rightarrow> null)
    \<longleftrightarrow> map_option digest_value g = map_option digest_value h"
proof -
  have one: "digest_algorithm_str a = digest_algorithm_str b" for a b by (cases a; cases b) simp
  show "(case g of Some x \<Rightarrow> object [(''algorithm'', text_of (digest_algorithm_str (digest_algorithm_of x))), (''value'', text_of (digest_value x))]
      | None \<Rightarrow> null)
    = (case h of Some x \<Rightarrow> object [(''algorithm'', text_of (digest_algorithm_str (digest_algorithm_of x))), (''value'', text_of (digest_value x))]
      | None \<Rightarrow> null)
    \<longleftrightarrow> map_option digest_value g = map_option digest_value h"
    using one by (cases g; cases h) (auto simp: object_eq btree_sorted_def)
qed (auto split: option.splits)

definition entry_ok :: "file_entry \<Rightarrow> bool" where
  "entry_ok e \<longleftrightarrow> (case entry_link_target e of Some s \<Rightarrow> length s < 2 ^ 64 | None \<Rightarrow> True) \<and>
     (case entry_digest e of Some d \<Rightarrow> length (digest_value d) < 2 ^ 64 | None \<Rightarrow> True)"

text \<open>The bytes, field by field.\<close>

lemma metadata_bytes_eq:
  assumes "entry_ok e" "entry_ok f"
  shows "metadata_bytes e = metadata_bytes f \<longleftrightarrow>
    entry_kind e = entry_kind f \<and> entry_mode e = entry_mode f \<and> entry_owner e = entry_owner f \<and>
    entry_group e = entry_group f \<and> entry_churns e = entry_churns f \<and>
    (entry_churns e \<or> map_option bytes (entry_size e) = map_option bytes (entry_size f) \<and> entry_inode e = entry_inode f) \<and>
    (stamps_are_derived e \<or> entry_churns e \<or>
       entry_modified e = entry_modified f \<and> entry_changed e = entry_changed f) \<and>
    (stamps_are_derived e \<or> entry_link_count e = entry_link_count f) \<and>
    entry_link_target e = entry_link_target f \<and> entry_device e = entry_device f \<and>
    map_option digest_value (entry_digest e) = map_option digest_value (entry_digest f)"
proof -
  have bytes: "metadata_bytes g = text_field False (Some (file_kind_str (entry_kind g))) @
      text_field False (Some (file_mode_str (entry_mode g))) @ integer_field False (Some (entry_owner g)) @
      integer_field False (Some (entry_group g)) @ integer_field (entry_churns g) (map_option bytes (entry_size g)) @
      integer_field (stamps_are_derived g \<or> entry_churns g) (Some (stamp_value (entry_modified g))) @
      integer_field (stamps_are_derived g \<or> entry_churns g) (Some (stamp_value (entry_changed g))) @
      integer_field (entry_churns g) (Some (entry_inode g)) @ integer_field (stamps_are_derived g) (Some (entry_link_count g)) @
      text_field False (entry_link_target g) @ integer_field False (map_option device_major (entry_device g)) @
      integer_field False (map_option device_minor (entry_device g)) @
      text_field False (map_option digest_value (entry_digest g)) @ []" for g
    by (simp only: metadata_bytes_def Let_def put_appends append_assoc append_Nil append_Nil2)
  have short: "case Some (file_kind_str k) of Some a \<Rightarrow> length a < 2 ^ 64 | None \<Rightarrow> True"
    "case Some (file_mode_str m) of Some a \<Rightarrow> length a < 2 ^ 64 | None \<Rightarrow> True" for k m
    using short_texts by simp_all
  have bounded: "case entry_link_target g of Some a \<Rightarrow> length a < 2 ^ 64 | None \<Rightarrow> True"
    "case map_option digest_value (entry_digest g) of Some a \<Rightarrow> length a < 2 ^ 64 | None \<Rightarrow> True" if "entry_ok g" for g
    using that by (auto simp: entry_ok_def split: option.splits)
  have device: "map_option device_major (entry_device e) = map_option device_major (entry_device f) \<and>
      map_option device_minor (entry_device e) = map_option device_minor (entry_device f) \<longleftrightarrow> entry_device e = entry_device f"
    by (cases "entry_device e"; cases "entry_device f") auto
  have stamps: "stamp_value m = stamp_value n \<longleftrightarrow> m = n" for m n by (auto simp: nanoseconds.expand)
  have derived: "entry_kind e = entry_kind f \<Longrightarrow> stamps_are_derived e = stamps_are_derived f" by (simp add: stamps_are_derived_def)
  show ?thesis
    unfolding bytes[of e] bytes[of f] text_field_front[OF short(1) short(1)] text_field_front[OF short(2) short(2)]
      integer_field_front text_field_front[OF bounded(1)[OF assms(1)] bounded(1)[OF assms(2)]]
      text_field_front[OF bounded(2)[OF assms(1)] bounded(2)[OF assms(2)]] option.inject file_kind_str_eq file_mode_str_eq stamps
    using device derived by auto
qed

section \<open>Device numbers\<close>

text \<open>\<open>makedev(3)\<close>, which puts the two numbers back where the kernel keeps them.\<close>

definition packed :: "device_number \<Rightarrow> u64" where
  "packed d = (device_minor d AND 0xFF) OR push_bit 8 (device_major d AND 0xFFF) OR
     push_bit 12 (device_minor d AND NOT 0xFF) OR push_bit 32 (device_major d AND NOT 0xFFF)"

lemma mask_words:
  "(0xFF :: u64) = mask 8" "(0xFFF :: u64) = mask 12" "(0xFFFFF000 :: u64) = push_bit 12 (mask 20)"
  "(0xFFFFFF00 :: u64) = push_bit 8 (mask 24)"
  by (simp_all add: mask_eq_exp_minus_1 push_bit_eq_mult)

lemma minor_bits:
  "bit (device_minor (device_number_of w)) k \<longleftrightarrow> k < 8 \<and> bit w k \<or> 8 \<le> k \<and> k < 32 \<and> bit w (12 + k)"
  unfolding device_number_of_def device_number.simps mask_words
  by (cases "k < 8") (auto simp: bit_simps dest: bit_imp_le_length)

lemma major_bits:
  "bit (device_major (device_number_of w)) k \<longleftrightarrow> k < 12 \<and> bit w (8 + k) \<or> 12 \<le> k \<and> k < 32 \<and> bit w (32 + k)"
  unfolding device_number_of_def device_number.simps mask_words
  by (cases "k < 12") (auto simp: bit_simps dest: bit_imp_le_length)

lemma packed_device_number: "packed (device_number_of w) = w"
proof (rule bit_word_eqI)
  fix n assume n: "n < LENGTH(64)"
  have bits: "bit (packed d) n \<longleftrightarrow> n < 8 \<and> bit (device_minor d) n \<or> (8 \<le> n \<and> n - 8 < 12) \<and> bit (device_major d) (n - 8) \<or>
      (12 \<le> n \<and> \<not> n - 12 < 8) \<and> bit (device_minor d) (n - 12) \<or> (32 \<le> n \<and> \<not> n - 32 < 12) \<and> bit (device_major d) (n - 32)" for d
    using n unfolding packed_def mask_words bit_or_iff bit_push_bit_iff bit_and_iff bit_mask_iff bit_not_iff_eq by auto
  consider "n < 8" | "8 \<le> n" "n < 20" | "20 \<le> n" "n < 44" | "44 \<le> n" by linarith
  then show "bit (packed (device_number_of w)) n = bit w n"
  proof cases
    case 2
    then have "n - 8 < 12" "n - 12 < 8" "\<not> 32 \<le> n" by linarith+
    with 2 show ?thesis by (simp add: bits minor_bits major_bits)
  next
    case 3
    then have "\<not> n - 8 < 12" "\<not> n - 12 < 8" "n - 12 < 32" "n - 32 < 12" by linarith+
    with 3 show ?thesis by (simp add: bits minor_bits major_bits)
  next
    case 4
    with n have "\<not> n - 8 < 12" "\<not> n - 12 < 8" "\<not> n - 12 < 32" "\<not> n - 32 < 12" "n - 32 < 32" by simp_all
    with 4 show ?thesis by (simp add: bits minor_bits major_bits)
  qed (simp add: bits minor_bits major_bits)
qed

section \<open>Properties\<close>

text \<open>
  C20.  The bytes an entry's digest is taken over are the attributes the diffable view keeps, no more
  and no less: two entries have the same bytes exactly when their attributes, listed in full, show
  the same names and values in that view.
\<close>

theorem digest_covers_what_a_diff_shows:
  assumes "entry_ok e" "entry_ok f"
  shows "metadata_bytes e = metadata_bytes f \<longleftrightarrow>
    object_iter (btree_collect (attributes_of e)) diffable False = object_iter (btree_collect (attributes_of f)) diffable False"
proof -
  have keys: "map fst (kept_attributes e) = map fst (kept_attributes f)" "distinct (map fst (kept_attributes e))"
    by (simp_all add: kept_attributes_def Let_def)
  have "object_iter (btree_collect (attributes_of e)) diffable False = object_iter (btree_collect (attributes_of f)) diffable False
      \<longleftrightarrow> list_all2 (\<lambda>(k, c, v) (k', c', v'). c = c' \<and> (c \<or> v = v')) (kept_attributes e) (kept_attributes f)"
    unfolding attributes_sorted by (rule object_iter_eq[OF keys]) (use kept_attributes_stable in blast)
  also have "\<dots> \<longleftrightarrow> metadata_bytes e = metadata_bytes f"
    unfolding metadata_bytes_eq[OF assms] kept_attributes_def Let_def
    by (auto simp: file_kind_str_eq file_mode_str_eq or_null_eq stamps_are_derived_def nanoseconds.expand)
  finally show ?thesis by (rule sym)
qed

definition example_entry :: file_entry where
  "example_entry = \<lparr>entry_path = AbsolutePath (NonEmptyText ''/a''), entry_kind = DirectoryFile, entry_mode = file_mode_of 0x41ED,
     entry_owner = 0, entry_group = 0, entry_size = None, entry_modified = NanosecondsSinceEpoch 5,
     entry_changed = NanosecondsSinceEpoch 6, entry_inode = 7, entry_link_count = 2, entry_link_target = None,
     entry_device = None, entry_digest = None, entry_reading = MetadataOnly\<rparr>"

theorem digest_covers_what_a_diff_shows_witness:
  "metadata_bytes example_entry = metadata_bytes (example_entry\<lparr>entry_link_count := 3\<rparr>) \<and>
   metadata_bytes example_entry \<noteq> metadata_bytes (example_entry\<lparr>entry_inode := 8\<rparr>)"
  using digest_covers_what_a_diff_shows[of example_entry "example_entry\<lparr>entry_link_count := 3\<rparr>"]
    digest_covers_what_a_diff_shows[of example_entry "example_entry\<lparr>entry_inode := 8\<rparr>"]
  unfolding attributes_sorted
  by (simp add: example_entry_def entry_ok_def kept_attributes_def Let_def stamps_are_derived_def
      summarises_what_is_inside_it_def entry_churns_def object_iter_def map_filter_simps unmarked_shown)

text \<open>
  The two numbers of a device node lose nothing of the word the kernel packs them in: packed
  again as \<open>makedev\<close> packs them, they are that word.
\<close>

theorem device_numbers_lose_nothing: "packed (device_number_of raw_device) = raw_device"
  by (rule packed_device_number)

end
