(* ===== verification/Walk.thy ===== *)
theory Walk
  imports FileEntry Paths TextFields
begin

text \<open>
  The walk of one tree (\<open>filesystem/source/file_tree.rs\<close>), what it refuses
  (\<open>filesystem/model/walk_failure.rs\<close>, \<open>unreadable_path.rs\<close>, \<open>unspellable_path.rs\<close>), and the
  inventory it builds (\<open>filesystem_inventory.rs\<close>).  The host answers each call about a path; the walk
  itself is a loop over a stack that nothing but the host bounds, so it is a partial function.
\<close>

section \<open>What the host answers\<close>

datatype io_kind = KindNotFound | KindStale | KindInterrupted | KindOther

datatype io_failure = IoFailure (failure_kind: io_kind) (failure_text: str)

record metadata =
  st_mode :: "32 word"
  st_uid :: "32 word"
  st_gid :: "32 word"
  st_size :: u64
  st_mtime :: i64
  st_mtime_nsec :: i64
  st_ctime :: i64
  st_ctime_nsec :: i64
  st_ino :: u64
  st_nlink :: u64
  st_rdev :: u64
  st_dev :: u64

text \<open>The reads of an opened file in turn; after the last one it is at its end.\<close>

datatype read_event = Chunk str | ReadFailed io_failure

datatype open_answer = OpenFailed io_failure | DescribeFailed io_failure | NotAFile | Opened "read_event list"

record host =
  symlink_metadata :: "str \<Rightarrow> io_failure + metadata"
  read_dir :: "str \<Rightarrow> io_failure + (io_failure + str) list"
  read_link :: "str \<Rightarrow> io_failure + str"
  open_nofollow :: "str \<Rightarrow> open_answer"
  display :: "str \<Rightarrow> str"

section \<open>Refusals\<close>

datatype refusal = Gone | Unreadable str

definition is_absence :: "io_kind \<Rightarrow> bool" where
  "is_absence kind \<longleftrightarrow> kind = KindNotFound \<or> kind = KindStale"

definition refusal_at :: "host \<Rightarrow> str \<Rightarrow> str \<Rightarrow> io_failure \<Rightarrow> refusal" where
  "refusal_at h path what_happened e =
     (if is_absence (failure_kind e) then Gone
      else Unreadable (display h path @ '' '' @ what_happened @ '': '' @ failure_text e))"

record unreadable_path =
  refused_path :: absolute_path
  reason :: non_empty_text

definition refusal_recorded :: "absolute_path \<Rightarrow> refusal \<Rightarrow> unreadable_path option" where
  "refusal_recorded path r =
     (case r of Gone \<Rightarrow> None | Unreadable text_given \<Rightarrow> Some \<lparr>refused_path = path, reason = NonEmptyText text_given\<rparr>)"

definition contested_path :: "absolute_path \<Rightarrow> str \<Rightarrow> unreadable_path" where
  "contested_path path sentence = \<lparr>refused_path = path, reason = NonEmptyText sentence\<rparr>"

definition refused_observed :: "unreadable_path \<Rightarrow> observation" where
  "refused_observed u = incomplete (object [(''error'', text_of (text_str (reason u)))])"

record unspellable_path =
  name_bytes :: str
  held_in :: "str option"

definition unspellable_of :: "str \<Rightarrow> str option \<Rightarrow> unspellable_path" where
  "unspellable_of bs directory = \<lparr>name_bytes = hex_of_bytes bs, held_in = directory\<rparr>"

definition compare_unspellable :: "unspellable_path \<Rightarrow> unspellable_path \<Rightarrow> comparison" where
  "compare_unspellable l r =
     then_with (cmp_of (name_bytes l) (name_bytes r)) (compare_options cmp_of (held_in l) (held_in r))"

definition unspellable_observed :: "unspellable_path \<Rightarrow> observation" where
  "unspellable_observed u = incomplete (object
     [(''directory'', (case held_in u of Some directory \<Rightarrow> text_of directory | None \<Rightarrow> null)),
      (''error'', text_of ''the name of this entry is not valid UTF-8, so it cannot be recorded as the path it is''),
      (''name_bytes'', text_of (name_bytes u))])"

section \<open>One path\<close>

definition kind_of :: "metadata \<Rightarrow> file_kind" where
  "kind_of m =
     (let t = drop_bit 12 (st_mode m) AND 0xF
      in if t = 8 then RegularFile
         else if t = 4 then DirectoryFile
         else if t = 10 then SymlinkFile
         else if t = 1 then Fifo
         else if t = 12 then Socket
         else if t = 6 then BlockDevice
         else CharacterDevice)"

definition size_of :: "file_kind \<Rightarrow> metadata \<Rightarrow> refusal + byte_size option" where
  "size_of kind m =
     (if \<not> has_content kind then Inr None
      else (case byte_size_new (st_size m) ''file size'' of
              Inr n \<Rightarrow> Inr (Some n)
            | Inl e \<Rightarrow> Inl (Unreadable (''a file size of '' @ show_nat (unat (st_size m)) @ '' bytes is too large to record as an integer''))))"

definition as_document_integer :: "host \<Rightarrow> u64 \<Rightarrow> str \<Rightarrow> str \<Rightarrow> refusal + i64" where
  "as_document_integer h val kind path =
     (case i64_of_u64 val of
        Some i \<Rightarrow> Inr i
      | None \<Rightarrow> Inl (Unreadable (kind @ '' of '' @ show_nat (unat val) @ '' on '' @ display h path @
          '' is too large to record as an integer'')))"

definition stamp :: "host \<Rightarrow> i64 \<Rightarrow> i64 \<Rightarrow> str \<Rightarrow> str \<Rightarrow> refusal + nanoseconds" where
  "stamp h seconds nanos kind path =
     (case nanoseconds_of seconds nanos of
        Some s \<Rightarrow> Inr s
      | None \<Rightarrow> Inl (Unreadable (kind @ '' of '' @ show_int (sint seconds) @ ''s and '' @ show_int (sint nanos) @ ''ns on '' @
          display h path @ '' is too far from the epoch to record'')))"

definition link_target_of :: "host \<Rightarrow> file_kind \<Rightarrow> str \<Rightarrow> refusal + str option" where
  "link_target_of h kind path =
     (if kind \<noteq> SymlinkFile then Inr None
      else (case read_link h path of
              Inl e \<Rightarrow> Inl (refusal_at h path ''could not be resolved'' e)
            | Inr target \<Rightarrow>
                if valid_utf8 target then Inr (Some target)
                else Inl (Unreadable (display h target @ '' is not valid UTF-8, so it cannot be recorded as the path it is''))))"

definition device_of :: "file_kind \<Rightarrow> metadata \<Rightarrow> device_number option" where
  "device_of kind m = (if is_device kind then Some (device_number_of (st_rdev m)) else None)"

text \<open>The hash of a stream: an interrupted read is made again, any other failure ends it.\<close>

fun sha256_of_stream :: "hashes \<Rightarrow> str \<Rightarrow> read_event list \<Rightarrow> io_failure + file_digest" where
  "sha256_of_stream H hashed [] = Inr (file_digest_of Sha256 (sha256 H hashed))"
| "sha256_of_stream H hashed (Chunk bs # events) =
     (if bs = [] then Inr (file_digest_of Sha256 (sha256 H hashed)) else sha256_of_stream H (hashed @ bs) events)"
| "sha256_of_stream H hashed (ReadFailed e # events) =
     (if failure_kind e = KindInterrupted then sha256_of_stream H hashed events else Inl e)"

definition sha256_of :: "hashes \<Rightarrow> host \<Rightarrow> str \<Rightarrow> refusal + file_digest" where
  "sha256_of H h path =
     (case open_nofollow h path of
        OpenFailed e \<Rightarrow> Inl (refusal_at h path ''could not be opened'' e)
      | DescribeFailed e \<Rightarrow> Inl (refusal_at h path ''could not be described once open'' e)
      | NotAFile \<Rightarrow> Inl (Unreadable (display h path @
          '' stopped being a regular file while it was being read, so no digest of it is honest''))
      | Opened events \<Rightarrow> map_err (refusal_at h path ''could not be read to the end'') (sha256_of_stream H [] events))"

definition content_digest :: "hashes \<Rightarrow> host \<Rightarrow> file_kind \<Rightarrow> str \<Rightarrow> content_policy \<Rightarrow> refusal + file_digest option" where
  "content_digest H h kind path policy =
     (case policy of
        Hashed Sha256 \<Rightarrow> if has_content kind then map_ok Some (sha256_of H h path) else Inr None
      | _ \<Rightarrow> Inr None)"

text \<open>The table has a rule for \<open>/\<close>, so it answers for every path.\<close>

definition reading_for :: "walk_policy \<Rightarrow> absolute_path \<Rightarrow> content_policy" where
  "reading_for policy path = the (policy_for policy path)"

definition entry_of :: "hashes \<Rightarrow> host \<Rightarrow> walk_policy \<Rightarrow> str \<Rightarrow> absolute_path \<Rightarrow> metadata \<Rightarrow> refusal + file_entry" where
  "entry_of H h policy path recorded m =
     (let kind = kind_of m; reading = reading_for policy recorded
      in and_then (size_of kind m) (\<lambda>size.
         and_then (stamp h (st_mtime m) (st_mtime_nsec m) ''a modification time'' path) (\<lambda>modified.
         and_then (stamp h (st_ctime m) (st_ctime_nsec m) ''a status change time'' path) (\<lambda>changed.
         and_then (as_document_integer h (st_ino m) ''an inode number'' path) (\<lambda>inode.
         and_then (as_document_integer h (st_nlink m) ''a link count'' path) (\<lambda>link_count.
         and_then (link_target_of h kind path) (\<lambda>link_target.
         and_then (content_digest H h kind path reading) (\<lambda>digest.
           Inr \<lparr>entry_path = recorded, entry_kind = kind, entry_mode = file_mode_of (st_mode m),
             entry_owner = ucast (st_uid m), entry_group = ucast (st_gid m), entry_size = size,
             entry_modified = modified, entry_changed = changed, entry_inode = inode,
             entry_link_count = link_count, entry_link_target = link_target,
             entry_device = device_of kind m, entry_digest = digest, entry_reading = reading\<rparr>))))))))"

definition children_of :: "host \<Rightarrow> str \<Rightarrow> refusal + str list" where
  "children_of h directory =
     (case read_dir h directory of
        Inl e \<Rightarrow> Inl (refusal_at h directory ''could not be listed'' e)
      | Inr found \<Rightarrow> collect_results
          (map (\<lambda>r. map_ok (\<lambda>name. if directory = ''/'' then directory @ name else directory @ ''/'' @ name)
             (map_err (refusal_at h directory ''could not be listed fully'') r)) found))"

definition absolute :: "str \<Rightarrow> absolute_path option" where
  "absolute path = (if valid_utf8 path then result_ok (absolute_path_new path ''walked path'') else None)"

section \<open>The walk\<close>

record file_tree =
  tree_root :: str
  boundaries :: "str list"
  omitted :: "str list"

definition same_path :: "str \<Rightarrow> str \<Rightarrow> bool" where
  "same_path p q \<longleftrightarrow> components p = components q"

definition tree_at :: "str \<Rightarrow> file_tree" where
  "tree_at root = \<lparr>tree_root = root, boundaries = [], omitted = []\<rparr>"

definition omitting :: "str list \<Rightarrow> file_tree \<Rightarrow> file_tree" where
  "omitting paths t = t\<lparr>omitted := paths\<rparr>"

definition stopping_at :: "str list \<Rightarrow> file_tree \<Rightarrow> file_tree" where
  "stopping_at paths t = t\<lparr>boundaries := filter (\<lambda>p. \<not> same_path p (tree_root t)) paths\<rparr>"

record found =
  entries_found :: "file_entry list"
  unreadable_found :: "unreadable_path list"
  unspellable_found :: "unspellable_path list"

definition nothing_found :: found where
  "nothing_found = \<lparr>entries_found = [], unreadable_found = [], unspellable_found = []\<rparr>"

definition add_entry :: "file_entry \<Rightarrow> found \<Rightarrow> found" where
  "add_entry e f = f\<lparr>entries_found := entries_found f @ [e]\<rparr>"

definition add_unreadable :: "unreadable_path option \<Rightarrow> found \<Rightarrow> found" where
  "add_unreadable u f = f\<lparr>unreadable_found := unreadable_found f @ option_list u\<rparr>"

definition add_unspellable :: "unspellable_path \<Rightarrow> found \<Rightarrow> found" where
  "add_unspellable u f = f\<lparr>unspellable_found := unspellable_found f @ [u]\<rparr>"

definition last_name :: "str \<Rightarrow> str" where
  "last_name path = (case file_name (components path) of Some n \<Rightarrow> n | None \<Rightarrow> path)"

definition directory_text :: "str \<Rightarrow> str option" where
  "directory_text path =
     (let up = rev (tl (dropWhile (\<lambda>c. c \<noteq> CHR ''/'') (rev path)));
          shown_up = (if up = [] \<and> starts_with ''/'' path then ''/'' else up)
      in if valid_utf8 shown_up then Some shown_up else None)"

text \<open>One turn of the loop: what it adds, and the paths it pushes.\<close>

definition visit :: "hashes \<Rightarrow> host \<Rightarrow> walk_policy \<Rightarrow> file_tree \<Rightarrow> u64 \<Rightarrow> str \<Rightarrow> found \<Rightarrow> found \<times> str list" where
  "visit H h policy t device path f =
     (if list_ex (same_path path) (omitted t) then (f, [])
      else (case absolute path of
        None \<Rightarrow> (add_unspellable (unspellable_of (last_name path) (directory_text path)) f, [])
      | Some recorded \<Rightarrow>
          (case symlink_metadata h path of
             Inl e \<Rightarrow> (add_unreadable (refusal_recorded recorded (refusal_at h path ''could not be read'' e)) f, [])
           | Inr m \<Rightarrow>
               (case Option.bind (contest_at policy recorded) contest of
                  Some sentence \<Rightarrow> (add_unreadable (Some (contested_path recorded sentence)) f, [])
                | None \<Rightarrow>
                    (case entry_of H h policy path recorded m of
                       Inl r \<Rightarrow> (add_unreadable (refusal_recorded recorded r) f, [])
                     | Inr e \<Rightarrow>
                         if entry_kind e = DirectoryFile \<and> is_descended (entry_reading e) \<and> st_dev m = device \<and>
                            \<not> list_ex (same_path path) (boundaries t)
                         then (case children_of h path of
                                 Inr below \<Rightarrow> (add_entry e f, below)
                               | Inl r \<Rightarrow> (add_unreadable (refusal_recorded recorded r) f, []))
                         else (add_entry e f, []))))))"

partial_function (option) walk_loop ::
  "hashes \<Rightarrow> host \<Rightarrow> walk_policy \<Rightarrow> file_tree \<Rightarrow> u64 \<Rightarrow> str list \<Rightarrow> found \<Rightarrow> found option" where
  "walk_loop H h policy t device pending f =
     (if pending = [] then Some f
      else (case visit H h policy t device (last pending) f of
              (f', below) \<Rightarrow> walk_loop H h policy t device (butlast pending @ below) f'))"

section \<open>The inventory\<close>

record inventory =
  described :: "file_entry list"
  refused :: "unreadable_path list"
  unspellable :: "unspellable_path list"

definition compare_paths :: "absolute_path \<Rightarrow> absolute_path \<Rightarrow> comparison" where
  "compare_paths p q = cmp_of (path_str p) (path_str q)"

text \<open>\<open>windows(2)\<close>, and the first of them that disagrees.\<close>

fun conflicting :: "file_entry list \<Rightarrow> str option" where
  "conflicting (a # b # es) =
     (if entry_path a = entry_path b \<and> a \<noteq> b then Some (path_str (entry_path a)) else conflicting (b # es))"
| "conflicting _ = None"

definition inventory_new :: "file_entry list \<Rightarrow> unreadable_path list \<Rightarrow> unspellable_path list \<Rightarrow> inventory collected" where
  "inventory_new es us ns =
     (let es = sort_by (\<lambda>l r. compare_paths (entry_path l) (entry_path r)) es;
          us = sort_by (\<lambda>l r. compare_paths (refused_path l) (refused_path r)) us;
          ns = sort_by compare_unspellable ns
      in case conflicting es of
           Some path \<Rightarrow> Inl (CollectionError
             ''{conflicting:?} was read twice and differently, so the walk did not see one moment of this host'' [path])
         | None \<Rightarrow>
             (let es = dedup es; us = dedup us; ns = dedup ns
              in Inr \<lparr>described = es,
                      refused = filter (\<lambda>u. \<not> list_ex (\<lambda>e. entry_path e = refused_path u) es) us,
                      unspellable = ns\<rparr>))"

definition merged :: "inventory list \<Rightarrow> inventory collected" where
  "merged is = inventory_new (concat (map described is)) (concat (map refused is)) (concat (map unspellable is))"

definition inventory_observed :: "hashes \<Rightarrow> detail \<Rightarrow> inventory \<Rightarrow> observation" where
  "inventory_observed H detail i =
     (let named = map (\<lambda>e. (path_str (entry_path e), entry_observed H detail e)) (described i) @
            map (\<lambda>u. (path_str (refused_path u), refused_observed u)) (refused i)
      in if unspellable i = [] then object named
         else object (named @ [(''unspellable'', set_of H (map unspellable_observed (unspellable i)))]))"

text \<open>The walk returns nothing where its loop never ends.\<close>

definition walk :: "hashes \<Rightarrow> host \<Rightarrow> walk_policy \<Rightarrow> file_tree \<Rightarrow> inventory collected option" where
  "walk H h policy t =
     (case symlink_metadata h (tree_root t) of
        Inl e \<Rightarrow> Some (Inl (CollectionError ''{} could not be read, so the walk cannot start: {error}''
          [display h (tree_root t), failure_text e]))
      | Inr m \<Rightarrow> map_option (\<lambda>f. inventory_new (entries_found f) (unreadable_found f) (unspellable_found f))
          (walk_loop H h policy t (st_dev m) [tree_root t] nothing_found))"

section \<open>What is walked\<close>

definition kernel_interfaces :: "str list" where
  "kernel_interfaces =
     [''autofs'', ''binfmt_misc'', ''bpf'', ''cgroup'', ''cgroup2'', ''configfs'', ''cpuset'', ''debugfs'', ''devpts'',
      ''devtmpfs'', ''efivarfs'', ''fusectl'', ''hugetlbfs'', ''mqueue'', ''nsfs'', ''proc'', ''pstore'', ''ramfs'',
      ''securityfs'', ''selinuxfs'', ''sysfs'', ''tmpfs'', ''tracefs'']"

record walk_boundaries =
  walked_roots :: "absolute_path list"
  walked_boundaries :: "absolute_path list"

definition read_fields :: nat where
  "read_fields = 3"

text \<open>One line of the table: nothing, or a mount point and whether its filesystem holds files.\<close>

definition mounted_line :: "str \<Rightarrow> (absolute_path \<times> bool) option collected" where
  "mounted_line line =
     (let fields = take read_fields (filter (\<lambda>field. field \<noteq> []) (split_on (CHR '' '') line))
      in if length fields < read_fields then Inr None
         else if CHR 0x5C \<in> set (fields ! 1)
         then Inl (CollectionError ''{mount_point:?} carries an escape the walk does not decode, so what was walked could not be recorded faithfully'' [fields ! 1])
         else map_ok (\<lambda>p. Some (p, \<not> List.member kernel_interfaces (fields ! 2))) (absolute_path_new (fields ! 1) ''mount point''))"

definition path_set :: "absolute_path list \<Rightarrow> absolute_path list" where
  "path_set ps = map (\<lambda>s. AbsolutePath (NonEmptyText s)) (sorted_set (map path_str ps))"

definition mounted_filesystems :: "str \<Rightarrow> walk_boundaries collected" where
  "mounted_filesystems table =
     and_then (collect_results (map mounted_line (lines table))) (\<lambda>found.
       let mounts = List.map_filter (\<lambda>m. m) found;
           roots = path_set (map fst (filter snd mounts))
       in if roots = []
          then Inl (CollectionError ''no mounted filesystem holds files, and the one rastro is running from does'' [])
          else Inr \<lparr>walked_roots = roots, walked_boundaries = path_set (map fst mounts)\<rparr>)"

record filesystem_collector =
  named_walk :: "walk_boundaries option"
  collector_policy :: "walk_policy collected"
  observer :: "str option"
  output_file :: "str option"
  detail_of :: detail

definition filesystem_omitted :: "filesystem_collector \<Rightarrow> str list" where
  "filesystem_omitted c = option_list (observer c) @ option_list (output_file c)"

text \<open>\<open>mount_table\<close> is the text of \<open>/proc/mounts\<close>, or why it could not be read.\<close>

definition filesystem_walked :: "walk_boundaries collected \<Rightarrow> filesystem_collector \<Rightarrow> walk_boundaries collected" where
  "filesystem_walked of_this_host c = (case named_walk c of Some named \<Rightarrow> Inr named | None \<Rightarrow> of_this_host)"

fun walks :: "(str \<Rightarrow> inventory collected option) \<Rightarrow> str list \<Rightarrow> inventory list collected option" where
  "walks f [] = Some (Inr [])"
| "walks f (r # rs) =
     (case f r of
        None \<Rightarrow> None
      | Some (Inl e) \<Rightarrow> Some (Inl e)
      | Some (Inr i) \<Rightarrow> map_option (map_ok ((#) i)) (walks f rs))"

definition filesystem_collect ::
  "hashes \<Rightarrow> host \<Rightarrow> str collected \<Rightarrow> filesystem_collector \<Rightarrow> observation collected option" where
  "filesystem_collect H h mount_table c =
     (case collector_policy c of
        Inl e \<Rightarrow> Some (Inl e)
      | Inr policy \<Rightarrow>
          (case filesystem_walked (and_then mount_table mounted_filesystems) c of
             Inl e \<Rightarrow> Some (Inl e)
           | Inr walked \<Rightarrow>
               (let stops = map path_str (walked_boundaries walked);
                    one = (\<lambda>root. walk H h policy (omitting (filesystem_omitted c) (stopping_at stops (tree_at root))))
                in map_option (\<lambda>inventories. and_then inventories (\<lambda>is. map_ok (inventory_observed H (detail_of c)) (merged is)))
                     (walks one (map path_str (walked_roots walked))))))"

section \<open>What one turn adds\<close>

definition found_at :: "hashes \<Rightarrow> host \<Rightarrow> walk_policy \<Rightarrow> file_tree \<Rightarrow> u64 \<Rightarrow> str \<Rightarrow> found" where
  "found_at H h policy t device path = fst (visit H h policy t device path nothing_found)"

definition below :: "hashes \<Rightarrow> host \<Rightarrow> walk_policy \<Rightarrow> file_tree \<Rightarrow> u64 \<Rightarrow> str \<Rightarrow> str list" where
  "below H h policy t device path = snd (visit H h policy t device path nothing_found)"

definition joined_found :: "found \<Rightarrow> found \<Rightarrow> found" where
  "joined_found f g = \<lparr>entries_found = entries_found f @ entries_found g, unreadable_found = unreadable_found f @ unreadable_found g,
     unspellable_found = unspellable_found f @ unspellable_found g\<rparr>"

lemmas adding = add_entry_def add_unreadable_def add_unspellable_def nothing_found_def joined_found_def

lemma visit_adds:
  "visit H h policy t device path f = (joined_found f (found_at H h policy t device path), below H h policy t device path)"
  unfolding found_at_def below_def visit_def
  by (simp add: adding split: option.split sum.split)

lemma walk_loop_Nil [simp]: "walk_loop H h policy t device [] f = Some f"
  by (simp add: walk_loop.simps)

lemma walk_loop_snoc:
  "walk_loop H h policy t device (pending @ [p]) f =
     walk_loop H h policy t device (pending @ below H h policy t device p) (joined_found f (found_at H h policy t device p))"
  by (subst walk_loop.simps) (simp add: visit_adds)

text \<open>The paths the loop takes off its stack: the root, and what a path taken off pushed.\<close>

inductive comes_to :: "hashes \<Rightarrow> host \<Rightarrow> walk_policy \<Rightarrow> file_tree \<Rightarrow> u64 \<Rightarrow> str list \<Rightarrow> str \<Rightarrow> bool"
  for H h policy t device start where
  reached_start: "p \<in> set start \<Longrightarrow> comes_to H h policy t device start p"
| reached_below: "comes_to H h policy t device start p \<Longrightarrow> q \<in> set (below H h policy t device p) \<Longrightarrow>
    comes_to H h policy t device start q"

inductive_cases reached_Nil: "comes_to H h policy t device [] p"

lemma reached_empty: "\<not> comes_to H h policy t device [] p"
proof
  assume "comes_to H h policy t device [] p"
  then show False by (induction) simp_all
qed

lemma reached_empty_set [simp]: "Collect (comes_to H h policy t device []) = {}"
  using reached_empty by blast

lemma reached_step:
  "comes_to H h policy t device (pending @ [p]) q \<longleftrightarrow> q = p \<or> comes_to H h policy t device (pending @ below H h policy t device p) q"
proof
  assume "comes_to H h policy t device (pending @ [p]) q"
  then show "q = p \<or> comes_to H h policy t device (pending @ below H h policy t device p) q"
    by induction (auto intro: comes_to.intros)
next
  assume "q = p \<or> comes_to H h policy t device (pending @ below H h policy t device p) q"
  then show "comes_to H h policy t device (pending @ [p]) q"
  proof
    assume "comes_to H h policy t device (pending @ below H h policy t device p) q"
    then show ?thesis
    proof induction
      case (reached_start q)
      then show ?case
        using comes_to.reached_below[OF comes_to.reached_start[of p "pending @ [p]"]] by (auto intro: comes_to.reached_start)
    qed (rule comes_to.reached_below)
  qed (auto intro: comes_to.reached_start)
qed

text \<open>A directory's entries are named, and by one component each: what \<open>readdir(3)\<close> returns.\<close>

definition names_ok :: "host \<Rightarrow> bool" where
  "names_ok h \<longleftrightarrow> (\<forall>directory rs name. read_dir h directory = Inr rs \<longrightarrow> Inr name \<in> set rs \<longrightarrow>
     name \<noteq> [] \<and> CHR ''/'' \<notin> set name)"

definition child_path :: "str \<Rightarrow> str \<Rightarrow> str" where
  "child_path directory n = (if directory = ''/'' then directory @ n else directory @ ''/'' @ n)"

lemma below_children:
  assumes "q \<in> set (below H h policy t device p)"
  obtains name rs recorded m e where "read_dir h p = Inr rs" "Inr name \<in> set rs" "q = child_path p name"
    "absolute p = Some recorded" "entry_of H h policy p recorded m = Inr e" "is_descended (entry_reading e)"
    "symlink_metadata h p = Inr m" "st_dev m = device" "\<not> list_ex (same_path p) (boundaries t)" "entry_kind e = DirectoryFile"
    "\<not> list_ex (same_path p) (omitted t)"
proof -
  from assms obtain recorded m e ps where parts: "absolute p = Some recorded" "symlink_metadata h p = Inr m"
    "entry_of H h policy p recorded m = Inr e" "is_descended (entry_reading e)" "st_dev m = device"
    "\<not> list_ex (same_path p) (boundaries t)" "children_of h p = Inr ps" "q \<in> set ps" "entry_kind e = DirectoryFile"
    "\<not> list_ex (same_path p) (omitted t)"
    unfolding below_def visit_def by (auto split: option.splits sum.splits if_splits)
  from parts(7) obtain rs where rs: "read_dir h p = Inr rs"
    "map (\<lambda>r. map_ok (child_path p) (map_err (refusal_at h p ''could not be listed fully'') r)) rs = map Inr ps"
    by (auto simp: children_of_def collect_results_Inr_iff child_path_def[abs_def] split: sum.splits)
  have "Inr q \<in> (\<lambda>r. map_ok (child_path p) (map_err (refusal_at h p ''could not be listed fully'') r)) ` set rs"
    unfolding set_map[symmetric] rs(2) using parts(8) by simp
  then obtain r where "r \<in> set rs" "map_ok (child_path p) (map_err (refusal_at h p ''could not be listed fully'') r) = Inr q"
    by (auto simp: image_iff)
  then obtain name where "Inr name \<in> set rs" "q = child_path p name" by - (cases r, auto)
  with that[OF rs(1)] parts show ?thesis by blast
qed

lemma below_longer: "names_ok h \<Longrightarrow> q \<in> set (below H h policy t device p) \<Longrightarrow> length p < length q"
  by (erule below_children) (auto simp: names_ok_def child_path_def)

section \<open>The loop ends, having taken off every path reached\<close>

lemma mset_pop:
  "mset (map f (pending @ [p])) = mset (map f pending) + {#f p#}" "mset (map f (pending @ qs)) = mset (map f pending) + mset (map f qs)"
  by simp_all

lemma walk_loop_total:
  assumes names: "names_ok h"
    and bounded: "\<And>p. comes_to H h policy t device pending p \<Longrightarrow> length p < bound"
  shows "\<exists>g. walk_loop H h policy t device pending f = Some g \<and>
    set (entries_found g) = set (entries_found f) \<union>
      (\<Union>p \<in> {p. comes_to H h policy t device pending p}. set (entries_found (found_at H h policy t device p))) \<and>
    set (unreadable_found g) = set (unreadable_found f) \<union>
      (\<Union>p \<in> {p. comes_to H h policy t device pending p}. set (unreadable_found (found_at H h policy t device p))) \<and>
    set (unspellable_found g) = set (unspellable_found f) \<union>
      (\<Union>p \<in> {p. comes_to H h policy t device pending p}. set (unspellable_found (found_at H h policy t device p)))"
  using bounded
proof (induction "mset (map (\<lambda>p. bound - length p) pending)" arbitrary: pending f rule: wf_induct_rule[OF wf_mult[OF wf_less_than]])
  case 1
  show ?case
  proof (cases pending rule: rev_cases)
    case Nil
    then show ?thesis by (simp add: reached_empty)
  next
    case (snoc qs p)
    let ?below = "below H h policy t device p"
    have step: "comes_to H h policy t device pending q \<longleftrightarrow> q = p \<or> comes_to H h policy t device (qs @ ?below) q" for q
      by (simp add: snoc reached_step)
    have short: "bound - length q < bound - length p" if "q \<in> set ?below" for q
    proof -
      have "comes_to H h policy t device pending q"
        using that by (auto simp: step intro: comes_to.reached_start)
      then have "length q < bound" by (rule "1.prems")
      with below_longer[OF names that] show ?thesis by linarith
    qed
    have "(mset (map (\<lambda>p. bound - length p) (qs @ ?below)), mset (map (\<lambda>p. bound - length p) pending)) \<in> mult less_than"
      unfolding snoc mset_pop using short by (intro one_step_implies_mult) auto
    moreover have "\<And>q. comes_to H h policy t device (qs @ ?below) q \<Longrightarrow> length q < bound" using "1.prems" step by blast
    ultimately obtain g where "walk_loop H h policy t device (qs @ ?below) (joined_found f (found_at H h policy t device p)) = Some g \<and>
        set (entries_found g) = set (entries_found (joined_found f (found_at H h policy t device p))) \<union>
          (\<Union>p \<in> {p. comes_to H h policy t device (qs @ ?below) p}. set (entries_found (found_at H h policy t device p))) \<and>
        set (unreadable_found g) = set (unreadable_found (joined_found f (found_at H h policy t device p))) \<union>
          (\<Union>p \<in> {p. comes_to H h policy t device (qs @ ?below) p}. set (unreadable_found (found_at H h policy t device p))) \<and>
        set (unspellable_found g) = set (unspellable_found (joined_found f (found_at H h policy t device p))) \<union>
          (\<Union>p \<in> {p. comes_to H h policy t device (qs @ ?below) p}. set (unspellable_found (found_at H h policy t device p)))"
      using "1.hyps" by blast
    then show ?thesis
      unfolding snoc walk_loop_snoc unfolding snoc[symmetric] Collect_cong[OF step]
      by (intro exI[of _ g]) (auto simp: joined_found_def)
  qed
qed

section \<open>What the inventory keeps\<close>

lemma compare_paths_linear: "linear_comparator_on compare_paths UNIV"
  unfolding compare_paths_def[abs_def]
  by (rule linear_comparator_pullback[OF cmp_of.linear_comparator_on_axioms]) (auto simp: inj_on_def path_str_inject)

interpretation by_path: comparator_on "\<lambda>l r. compare_paths (entry_path l) (entry_path r)" UNIV
  unfolding compare_paths_def by (rule comparator_pullback[OF cmp_of.comparator_on_axioms]) simp

lemma path_order_simps:
  "compare_paths p q \<noteq> Greater \<longleftrightarrow> path_str p \<le> path_str q" "compare_paths p q = Equal \<longleftrightarrow> p = q"
  by (auto simp: compare_paths_def cmp_simps not_less path_str_inject)

lemma conflicting_None:
  assumes "sorted_wrt (\<lambda>a b. path_str (entry_path a) \<le> path_str (entry_path b)) es" "conflicting es = None"
  shows "a \<in> set es \<Longrightarrow> b \<in> set es \<Longrightarrow> entry_path a = entry_path b \<Longrightarrow> a = b"
  using assms
proof (induction es arbitrary: a b rule: conflicting.induct)
  case (1 x y es)
  have rest: "conflicting (y # es) = None" and head: "entry_path x = entry_path y \<Longrightarrow> x = y"
    using "1.prems"(5) by (auto split: if_splits)
  have IH: "c \<in> set (y # es) \<Longrightarrow> d \<in> set (y # es) \<Longrightarrow> entry_path c = entry_path d \<Longrightarrow> c = d" for c d
    using "1.IH"[of c d] rest "1.prems"(4,5) by (auto split: if_splits)
  have first: "c = x" if "c \<in> set (y # es)" "entry_path c = entry_path x" for c
  proof -
    have "path_str (entry_path x) \<le> path_str (entry_path y)" "path_str (entry_path y) \<le> path_str (entry_path c)"
      using "1.prems"(4) that(1) by auto
    then have "path_str (entry_path y) = path_str (entry_path x)" unfolding that(2) by (rule antisym[rotated])
    then have "entry_path y = entry_path x" by (rule path_str_inject[THEN iffD1])
    then have "x = y" "entry_path c = entry_path y" using head that(2) by (simp_all only:)
    with IH[OF that(1), of y] show ?thesis by (simp only: list.set_intros)
  qed
  have there: "c \<noteq> x \<Longrightarrow> c \<in> set (x # y # es) \<Longrightarrow> c \<in> set (y # es)" for c by auto
  show ?case
  proof (cases "a = x")
    case True
    show ?thesis
    proof (cases "b = x")
      case False
      from first[OF there[OF this "1.prems"(2)]] "1.prems"(3) True show ?thesis by (simp only:)
    qed (use True in \<open>simp only:\<close>)
  next
    case False
    note a = there[OF False "1.prems"(1)]
    show ?thesis
    proof (cases "b = x")
      case True
      from first[OF a] "1.prems"(3) True show ?thesis by (simp only:)
    next
      case b: False
      from IH[OF a there[OF b "1.prems"(2)] "1.prems"(3)] show ?thesis .
    qed
  qed
qed auto

lemma conflicting_Some:
  "conflicting es = Some p \<Longrightarrow> \<exists>a\<in>set es. \<exists>b\<in>set es. entry_path a = entry_path b \<and> a \<noteq> b"
  by (induction es rule: conflicting.induct) (auto split: if_splits)

lemma sorted_dedup_paths:
  assumes "sorted_wrt (\<lambda>a b. path_str (entry_path a) \<le> path_str (entry_path b)) es"
    and "\<And>a b. a \<in> set es \<Longrightarrow> b \<in> set es \<Longrightarrow> entry_path a = entry_path b \<Longrightarrow> a = b"
  shows "sorted_wrt (<) (map (\<lambda>e. path_str (entry_path e)) (dedup es))"
  using assms
proof (induction es rule: dedup.induct)
  case (1 x y es)
  show ?case
  proof (cases "x = y")
    case True
    have "sorted_wrt (<) (map (\<lambda>e. path_str (entry_path e)) (dedup (x # es)))"
      using "1.prems"(1) True by (intro "1.IH"(1)[OF True] "1.prems"(2)) simp_all
    with True show ?thesis by simp
  next
    case False
    with "1.prems"(2)[of x y] have "path_str (entry_path x) \<noteq> path_str (entry_path y)" by (auto simp: path_str_inject)
    then have "path_str (entry_path x) < path_str (entry_path b)" if "b \<in> set (y # es)" for b
      using "1.prems"(1) that by auto
    moreover have "sorted_wrt (<) (map (\<lambda>e. path_str (entry_path e)) (dedup (y # es)))"
      using "1.prems"(1) by (intro "1.IH"(2)[OF False] "1.prems"(2)) simp_all
    ultimately show ?thesis using False by simp
  qed
qed simp_all

lemma inventory_new_cases:
  obtains (conflict) e a b where "inventory_new es us ns = Inl e" "a \<in> set es" "b \<in> set es" "entry_path a = entry_path b" "a \<noteq> b"
  | (built) i where "inventory_new es us ns = Inr i" "\<And>a b. a \<in> set es \<Longrightarrow> b \<in> set es \<Longrightarrow> entry_path a = entry_path b \<Longrightarrow> a = b"
    "set (described i) = set es" "sorted_wrt (<) (map (\<lambda>e. path_str (entry_path e)) (described i))"
    "set (refused i) = {u \<in> set us. \<forall>e \<in> set es. entry_path e \<noteq> refused_path u}" "set (unspellable i) = set ns"
proof -
  let ?es = "sort_by (\<lambda>l r. compare_paths (entry_path l) (entry_path r)) es"
  have sorted: "sorted_wrt (\<lambda>a b. path_str (entry_path a) \<le> path_str (entry_path b)) ?es"
    using by_path.sorted_sort_by[of es] by (simp add: path_order_simps)
  show ?thesis
  proof (cases "conflicting ?es")
    case (Some p)
    from conflicting_Some[OF this] obtain a b where "a \<in> set es" "b \<in> set es" "entry_path a = entry_path b" "a \<noteq> b" by auto
    with Some show ?thesis by (intro conflict[of _ a b]) (simp_all add: inventory_new_def)
  next
    case None
    have unique: "a \<in> set es \<Longrightarrow> b \<in> set es \<Longrightarrow> entry_path a = entry_path b \<Longrightarrow> a = b" for a b
      using conflicting_None[OF sorted None] by simp
    show ?thesis
    proof (rule built)
      show "inventory_new es us ns = Inr \<lparr>described = dedup ?es,
          refused = filter (\<lambda>u. \<not> list_ex (\<lambda>e. entry_path e = refused_path u) (dedup ?es))
            (dedup (sort_by (\<lambda>l r. compare_paths (refused_path l) (refused_path r)) us)),
          unspellable = dedup (sort_by compare_unspellable ns)\<rparr>"
        using None by (simp add: inventory_new_def Let_def)
      show "sorted_wrt (<) (map (\<lambda>e. path_str (entry_path e)) (described \<lparr>described = dedup ?es,
          refused = filter (\<lambda>u. \<not> list_ex (\<lambda>e. entry_path e = refused_path u) (dedup ?es))
            (dedup (sort_by (\<lambda>l r. compare_paths (refused_path l) (refused_path r)) us)),
          unspellable = dedup (sort_by compare_unspellable ns)\<rparr>))"
        using sorted_dedup_paths[OF sorted] unique by simp
    qed (use unique in \<open>auto simp: list_ex_iff\<close>)
  qed
qed

section \<open>What each path comes to\<close>

lemma absolute_Some: "absolute p = Some r \<longleftrightarrow> valid_utf8 p \<and> starts_with ''/'' p \<and> r = AbsolutePath (NonEmptyText p)"
proof -
  have "result_ok (absolute_path_new p k) = Some r \<longleftrightarrow> absolute_path_new p k = Inr r" for k
    by (cases "absolute_path_new p k") auto
  then show ?thesis by (auto simp: absolute_def absolute_path_new_iff)
qed

text \<open>The host said of some call about the path that it is not there.\<close>

definition went_away :: "host \<Rightarrow> str \<Rightarrow> bool" where
  "went_away h p \<longleftrightarrow> (\<exists>e. is_absence (failure_kind e) \<and>
     (symlink_metadata h p = Inl e \<or> read_link h p = Inl e \<or> read_dir h p = Inl e \<or>
      open_nofollow h p \<in> {OpenFailed e, DescribeFailed e} \<or>
      (\<exists>events. open_nofollow h p = Opened events \<and> ReadFailed e \<in> set events) \<or>
      (\<exists>rs. read_dir h p = Inr rs \<and> Inl e \<in> set rs)))"

lemma refusal_at_Gone: "refusal_at h p w e = Gone \<longleftrightarrow> is_absence (failure_kind e)"
  by (simp add: refusal_at_def)

lemma stream_failed: "sha256_of_stream H acc events = Inl e \<Longrightarrow> ReadFailed e \<in> set events"
  by (induction H acc events rule: sha256_of_stream.induct) (auto split: if_splits)

lemma digest_gone: "content_digest H h kind p reading = Inl Gone \<Longrightarrow> went_away h p"
proof -
  assume gone: "content_digest H h kind p reading = Inl Gone"
  then have "sha256_of H h p = Inl Gone"
    by (cases "sha256_of H h p") (auto simp: content_digest_def split: content_policy.splits digest_algorithm.splits if_splits)
  then show ?thesis
  proof (cases "open_nofollow h p")
    case (Opened events)
    with \<open>sha256_of H h p = Inl Gone\<close> obtain e where "sha256_of_stream H [] events = Inl e" "is_absence (failure_kind e)"
      by (cases "sha256_of_stream H [] events") (auto simp: sha256_of_def refusal_at_Gone)
    with stream_failed Opened show ?thesis unfolding went_away_def by blast
  qed (auto simp: sha256_of_def refusal_at_Gone went_away_def)
qed

lemma and_then_Inl: "and_then r f = Inl e \<longleftrightarrow> r = Inl e \<or> (\<exists>a. r = Inr a \<and> f a = Inl e)"
  by (cases r) auto

lemma entry_gone: "entry_of H h policy p recorded m = Inl Gone \<Longrightarrow> went_away h p"
proof -
  assume "entry_of H h policy p recorded m = Inl Gone"
  then consider "link_target_of h (kind_of m) p = Inl Gone"
    | "content_digest H h (kind_of m) p (reading_for policy recorded) = Inl Gone"
    unfolding entry_of_def Let_def and_then_Inl
    by (auto simp: size_of_def stamp_def as_document_integer_def split: if_splits sum.splits option.splits)
  then show ?thesis
  proof cases
    case 1
    then show ?thesis unfolding went_away_def
      by (auto simp: link_target_of_def refusal_at_Gone split: if_splits sum.splits)
  qed (rule digest_gone)
qed

lemma entry_of_path: "entry_of H h policy p recorded m = Inr e \<Longrightarrow> entry_path e = recorded \<and> entry_reading e = reading_for policy recorded"
  by (auto simp: entry_of_def Let_def and_then_Inr_iff)

lemma children_gone: "children_of h p = Inl Gone \<Longrightarrow> went_away h p"
proof -
  have first: "collect_results rs = Inl e \<Longrightarrow> Inl e \<in> set rs" for rs :: "(refusal + str) list" and e
  proof (induction rs)
    case (Cons r rs)
    then show ?case by (cases r; cases "collect_results rs") auto
  qed simp
  assume gone: "children_of h p = Inl Gone"
  show ?thesis
  proof (cases "read_dir h p")
    case (Inl e)
    with gone show ?thesis by (auto simp: children_of_def refusal_at_Gone went_away_def)
  next
    case (Inr rs)
    with gone have "Inl Gone \<in> set (map (\<lambda>r. map_ok (child_path p) (map_err (refusal_at h p ''could not be listed fully'') r)) rs)"
      by (intro first) (simp add: children_of_def child_path_def[abs_def])
    then obtain r where "r \<in> set rs" "map_ok (child_path p) (map_err (refusal_at h p ''could not be listed fully'') r) = Inl Gone"
      by auto
    then obtain e where "Inl e \<in> set rs" "is_absence (failure_kind e)" by - (cases r, auto simp: refusal_at_Gone)
    with Inr show ?thesis unfolding went_away_def by blast
  qed
qed

text \<open>What one path adds is about that path, and nothing is added only where it is omitted or gone.\<close>

lemma found_at_paths:
  "e \<in> set (entries_found (found_at H h policy t device p)) \<Longrightarrow>
     absolute p = Some (entry_path e) \<and> (\<exists>m. symlink_metadata h p = Inr m \<and> entry_of H h policy p (entry_path e) m = Inr e)"
  by (auto simp: found_at_def visit_def adding dest: entry_of_path split: if_splits option.splits sum.splits)

lemma refused_paths:
  "u \<in> set (unreadable_found (found_at H h policy t device p)) \<Longrightarrow> absolute p = Some (refused_path u)"
proof -
  have recorded: "u \<in> set (option_list (refusal_recorded recorded r)) \<Longrightarrow> refused_path u = recorded" for recorded r
    by (cases r) (auto simp: refusal_recorded_def)
  assume "u \<in> set (unreadable_found (found_at H h policy t device p))"
  then show ?thesis
    by (auto simp: found_at_def visit_def adding contested_path_def dest: recorded split: if_splits option.splits sum.splits)
qed

lemma found_at_something:
  assumes "\<not> list_ex (same_path p) (omitted t)" "\<not> went_away h p"
  shows "absolute p = None \<and> unspellable_of (last_name p) (directory_text p) \<in> set (unspellable_found (found_at H h policy t device p)) \<or>
    (\<exists>e \<in> set (entries_found (found_at H h policy t device p)). absolute p = Some (entry_path e)) \<or>
    (\<exists>u \<in> set (unreadable_found (found_at H h policy t device p)). absolute p = Some (refused_path u))"
proof (cases "absolute p")
  case None
  with assms show ?thesis by (simp add: found_at_def visit_def adding)
next
  case (Some recorded)
  have recorded: "\<exists>u. refusal_recorded recorded r = Some u \<and> refused_path u = recorded" if "r \<noteq> Gone" for r
    using that by (cases r) (auto simp: refusal_recorded_def)
  have stat: "refusal_at h p w e \<noteq> Gone" if "symlink_metadata h p = Inl e" for e w
    using assms(2) that by (auto simp: went_away_def refusal_at_Gone)
  have listing: "children_of h p = Inl r \<Longrightarrow> r \<noteq> Gone" for r using assms(2) children_gone by blast
  have entry: "entry_of H h policy p recorded m = Inl r \<Longrightarrow> r \<noteq> Gone" for m r using assms(2) entry_gone by blast
  let ?f = "found_at H h policy t device p"
  have refused: "\<exists>u \<in> set (unreadable_found ?f). absolute p = Some (refused_path u)"
    if "unreadable_found ?f = option_list (refusal_recorded recorded r)" "r \<noteq> Gone" for r
    using recorded[OF that(2)] that(1) Some by auto
  show ?thesis
  proof (cases "symlink_metadata h p")
    case (Inl e)
    then have "unreadable_found ?f = option_list (refusal_recorded recorded (refusal_at h p ''could not be read'' e))"
      using assms(1) Some by (simp add: found_at_def visit_def adding)
    from refused[OF this stat[OF Inl]] show ?thesis by blast
  next
    case (Inr m)
    show ?thesis
    proof (cases "Option.bind (contest_at policy recorded) contest")
      case (Some sentence)
      then have "contested_path recorded sentence \<in> set (unreadable_found ?f)"
        using assms(1) \<open>absolute p = Some recorded\<close> Inr by (simp add: found_at_def visit_def adding)
      with \<open>absolute p = Some recorded\<close> show ?thesis by (force simp: contested_path_def)
    next
      case None
      note settled = assms(1) Some Inr None
      show ?thesis
      proof (cases "entry_of H h policy p recorded m")
        case (Inl r)
        then have "unreadable_found ?f = option_list (refusal_recorded recorded r)"
          using settled by (simp add: found_at_def visit_def adding)
        from refused[OF this entry[OF Inl]] show ?thesis by blast
      next
        case entry: (Inr e)
        then have path: "absolute p = Some (entry_path e)" using entry_of_path Some by blast
        show ?thesis
        proof (cases "children_of h p")
          case (Inl r)
          then have "e \<in> set (entries_found ?f) \<or> unreadable_found ?f = option_list (refusal_recorded recorded r)"
            using settled entry by (simp add: found_at_def visit_def adding)
          with path refused[OF _ listing[OF Inl]] show ?thesis by blast
        next
          case (Inr ps)
          then have "e \<in> set (entries_found ?f)"
            using settled entry by (simp add: found_at_def visit_def adding)
          with path show ?thesis by blast
        qed
      qed
    qed
  qed
qed

section \<open>The walk as a whole\<close>

text \<open>The kernel bounds a path's length, so no chain of directories is endless.\<close>

definition bounded_tree :: "hashes \<Rightarrow> host \<Rightarrow> walk_policy \<Rightarrow> file_tree \<Rightarrow> u64 \<Rightarrow> nat \<Rightarrow> bool" where
  "bounded_tree H h policy t device bound \<longleftrightarrow> (\<forall>p. comes_to H h policy t device [tree_root t] p \<longrightarrow> length p < bound)"

definition in_tree :: "hashes \<Rightarrow> host \<Rightarrow> walk_policy \<Rightarrow> file_tree \<Rightarrow> u64 \<Rightarrow> str \<Rightarrow> bool" where
  "in_tree H h policy t device = comes_to H h policy t device [tree_root t]"

lemma walk_result:
  assumes "names_ok h" "symlink_metadata h (tree_root t) = Inr m" "bounded_tree H h policy t (st_dev m) bound"
  obtains i where "walk H h policy t = Some (Inr i)"
    "set (described i) = (\<Union>p \<in> Collect (in_tree H h policy t (st_dev m)). set (entries_found (found_at H h policy t (st_dev m) p)))"
    "set (refused i) = {u \<in> \<Union>p \<in> Collect (in_tree H h policy t (st_dev m)). set (unreadable_found (found_at H h policy t (st_dev m) p)).
       \<forall>e \<in> set (described i). entry_path e \<noteq> refused_path u}"
    "set (unspellable i) = (\<Union>p \<in> Collect (in_tree H h policy t (st_dev m)). set (unspellable_found (found_at H h policy t (st_dev m) p)))"
proof -
  let ?at = "found_at H h policy t (st_dev m)" and ?reached = "comes_to H h policy t (st_dev m) [tree_root t]"
  obtain g where g: "walk_loop H h policy t (st_dev m) [tree_root t] nothing_found = Some g"
    "set (entries_found g) = (\<Union>p \<in> Collect ?reached. set (entries_found (?at p)))"
    "set (unreadable_found g) = (\<Union>p \<in> Collect ?reached. set (unreadable_found (?at p)))"
    "set (unspellable_found g) = (\<Union>p \<in> Collect ?reached. set (unspellable_found (?at p)))"
    using walk_loop_total[OF assms(1), of H policy t "st_dev m" "[tree_root t]" bound nothing_found] assms(3)
    by (auto simp: bounded_tree_def nothing_found_def)
  have same: "a = b" if "a \<in> set (entries_found g)" "b \<in> set (entries_found g)" "entry_path a = entry_path b" for a b
  proof -
    from that(1,2) obtain p q where pq: "a \<in> set (entries_found (?at p))" "b \<in> set (entries_found (?at q))" unfolding g(2) by blast
    from found_at_paths[OF pq(1)] found_at_paths[OF pq(2)] that(3) have "p = q" by (auto simp: absolute_Some)
    with found_at_paths[OF pq(1)] found_at_paths[OF pq(2)] that(3) show ?thesis by auto
  qed
  have shown: "walk H h policy t = Some (inventory_new (entries_found g) (unreadable_found g) (unspellable_found g))"
    by (simp add: walk_def assms(2) g(1))
  show ?thesis
  proof (cases rule: inventory_new_cases[of "entries_found g" "unreadable_found g" "unspellable_found g"])
    case (conflict e a b)
    with same show ?thesis by blast
  next
    case (built i)
    show ?thesis by (rule that[of i]) (simp_all add: shown built(1,3,5,6) g in_tree_def)
  qed
qed

text \<open>A tree holding what a directory's entry is called, and not called so itself, holds the directory.\<close>

lemma child_contained:
  assumes "contains s (AbsolutePath (NonEmptyText (child_path p n)))" "CHR ''/'' \<notin> set n" "child_path p n \<noteq> tree_str s"
    and "tree_str s \<noteq> []"
  shows "contains s (AbsolutePath (NonEmptyText p))"
proof (cases "is_root s")
  case False
  let ?t = "tree_str s"
  from assms(1,3) False obtain r where r: "child_path p n = ?t @ ''/'' @ r"
    by (auto simp: contains_def starts_with_iff Let_def)
  show ?thesis
  proof (cases "p = ''/''")
    case True
    with r assms(4) have "CHR ''/'' \<in> set n" by (cases ?t) (auto simp: child_path_def)
    with assms(2) show ?thesis by simp
  next
    case False
    with r have eq: "p @ CHR ''/'' # n = ?t @ CHR ''/'' # r" by (simp add: child_path_def)
    then obtain us where "p = ?t @ us \<and> us @ CHR ''/'' # n = CHR ''/'' # r \<or> p @ us = ?t \<and> CHR ''/'' # n = us @ CHR ''/'' # r"
      by (auto simp: append_eq_append_conv2)
    then show ?thesis
    proof (elim disjE conjE)
      assume us: "p @ us = ?t" "CHR ''/'' # n = us @ CHR ''/'' # r"
      with assms(2) have "us = []" by (cases us) auto
      with us show ?thesis by (simp add: contains_def)
    next
      assume us: "p = ?t @ us" "us @ CHR ''/'' # n = CHR ''/'' # r"
      then show ?thesis by (cases us) (auto simp: contains_def starts_with_iff Let_def)
    qed
  qed
qed (simp add: contains_def)

lemma sealed_not_reached:
  assumes "names_ok h" "policy_for policy (tree_path s) = Some Sealed" "tree_str s \<noteq> []"
    and "\<And>r. absolute (tree_root t) = Some r \<Longrightarrow> contains s r \<Longrightarrow> r = tree_path s"
    and "in_tree H h policy t device q" "absolute q = Some r" "contains s r"
  shows "r = tree_path s"
proof -
  have "comes_to H h policy t device [tree_root t] q" using assms(5) by (simp add: in_tree_def)
  then show ?thesis using assms(6,7)
  proof (induction arbitrary: r)
    case (reached_start q)
    with assms(4) show ?case by simp
  next
    case (reached_below p q)
    obtain n rs recorded m e where child: "read_dir h p = Inr rs" "Inr n \<in> set rs" "q = child_path p n"
      "absolute p = Some recorded" "entry_of H h policy p recorded m = Inr e" "is_descended (entry_reading e)"
      by (rule below_children[OF reached_below.hyps(2)])
    show ?case
    proof (rule ccontr)
      assume other: "r \<noteq> tree_path s"
      have r: "r = AbsolutePath (NonEmptyText q)" using reached_below.prems(1) by (simp add: absolute_Some)
      from other have "path_str r \<noteq> path_str (tree_path s)" by (simp only: path_str_inject) simp
      then have "q \<noteq> tree_str s" by (simp add: r tree_str_def)
      moreover have "CHR ''/'' \<notin> set n" using assms(1) child(1,2) by (auto simp: names_ok_def)
      ultimately have "contains s (AbsolutePath (NonEmptyText p))"
        using reached_below.prems(2) assms(3) child_contained[of s p n] unfolding r child(3) by blast
      then have "contains s recorded" using child(4) by (simp add: absolute_Some)
      with reached_below.IH[OF child(4)] have "recorded = tree_path s" .
      then have "entry_reading e = Sealed" using entry_of_path[OF child(5)] assms(2) by (simp add: reading_for_def)
      with child(6) show False by (simp add: is_descended_def)
    qed
  qed
qed

text \<open>What the document says of a path: its attributes, why it has none, or that it has no name.\<close>

definition accounted :: "host \<Rightarrow> file_tree \<Rightarrow> inventory \<Rightarrow> str \<Rightarrow> bool" where
  "accounted h t i p \<longleftrightarrow> list_ex (same_path p) (omitted t) \<or> went_away h p \<or>
     (\<exists>e. e \<in> set (described i) \<and> path_str (entry_path e) = p) \<or>
     (\<exists>u. u \<in> set (refused i) \<and> path_str (refused_path u) = p) \<or>
     absolute p = None \<and> unspellable_of (last_name p) (directory_text p) \<in> set (unspellable i)"

section \<open>Properties\<close>

text \<open>
  An inventory holds one reading per path: of the readings it is given it keeps every one, sorted
  by path, every refusal of a path that no reading describes, and every path without a name; and it
  refuses them all exactly where two readings of one path differ.
\<close>

theorem inventory_keeps_one_reading_per_path:
  "case inventory_new es us ns of
     Inl e \<Rightarrow> \<exists>a b. a \<in> set es \<and> b \<in> set es \<and> entry_path a = entry_path b \<and> a \<noteq> b
   | Inr i \<Rightarrow> inj_on entry_path (set es) \<and> set (described i) = set es \<and>
       sorted_wrt (<) (map (\<lambda>e. path_str (entry_path e)) (described i)) \<and>
       set (refused i) = {u \<in> set us. refused_path u \<notin> entry_path ` set es} \<and> set (unspellable i) = set ns"
proof (cases rule: inventory_new_cases[of es us ns])
  case (conflict e a b)
  then show ?thesis by auto
next
  case (built i)
  have "inj_on entry_path (set es)" using built(2) by (auto simp: inj_on_def)
  moreover have "set (refused i) = {u \<in> set us. refused_path u \<notin> entry_path ` set es}"
    unfolding built(5) by (auto simp: image_iff)
  ultimately show ?thesis using built(1,3,4,6) by simp
qed

text \<open>
  C21.  The walk of a tree whose root can be read returns, and loses nothing: every path it comes to is
  described, refused with a reason, reported without a name, omitted on request or gone by the host's
  own word; and what is described is a path it came to, as the host described it then.
\<close>

theorem walk_accounts_for_every_path:
  assumes "names_ok h" "symlink_metadata h (tree_root t) = Inr m" "bounded_tree H h policy t (st_dev m) bound"
  shows "\<exists>i. walk H h policy t = Some (Inr i) \<and>
    (\<forall>p. in_tree H h policy t (st_dev m) p \<longrightarrow> accounted h t i p) \<and>
    (\<forall>e. e \<in> set (described i) \<longrightarrow> in_tree H h policy t (st_dev m) (path_str (entry_path e)) \<and>
      (\<exists>k. symlink_metadata h (path_str (entry_path e)) = Inr k \<and>
        entry_of H h policy (path_str (entry_path e)) (entry_path e) k = Inr e))"
proof -
  obtain i where i: "walk H h policy t = Some (Inr i)"
    "set (described i) = (\<Union>p \<in> Collect (in_tree H h policy t (st_dev m)). set (entries_found (found_at H h policy t (st_dev m) p)))"
    "set (refused i) = {u \<in> \<Union>p \<in> Collect (in_tree H h policy t (st_dev m)). set (unreadable_found (found_at H h policy t (st_dev m) p)).
       \<forall>e \<in> set (described i). entry_path e \<noteq> refused_path u}"
    "set (unspellable i) = (\<Union>p \<in> Collect (in_tree H h policy t (st_dev m)). set (unspellable_found (found_at H h policy t (st_dev m) p)))"
    by (rule walk_result[OF assms])
  have "accounted h t i p" if p: "in_tree H h policy t (st_dev m) p" for p
  proof (cases "list_ex (same_path p) (omitted t) \<or> went_away h p")
    case False
    then have "\<not> list_ex (same_path p) (omitted t)" "\<not> went_away h p" by blast+
    note something = found_at_something[OF this, of H policy "st_dev m"]
    have lift: "e \<in> set (entries_found (found_at H h policy t (st_dev m) p)) \<Longrightarrow> e \<in> set (described i)"
      "n \<in> set (unspellable_found (found_at H h policy t (st_dev m) p)) \<Longrightarrow> n \<in> set (unspellable i)" for e n
      using p unfolding i(2,4) by blast+
    from something show ?thesis
    proof (elim disjE conjE bexE)
      fix u
      assume u: "u \<in> set (unreadable_found (found_at H h policy t (st_dev m) p))" "absolute p = Some (refused_path u)"
      show ?thesis
      proof (cases "\<forall>e \<in> set (described i). entry_path e \<noteq> refused_path u")
        case True
        with u p have "u \<in> set (refused i)" unfolding i(3) by blast
        with u show ?thesis by (auto simp: accounted_def absolute_Some)
      next
        case False
        with u show ?thesis by (auto simp: accounted_def absolute_Some)
      qed
    next
      fix e
      assume "e \<in> set (entries_found (found_at H h policy t (st_dev m) p))" "absolute p = Some (entry_path e)"
      then show ?thesis using lift(1)[of e] by (auto simp: accounted_def absolute_Some)
    next
      assume "absolute p = None"
        "unspellable_of (last_name p) (directory_text p) \<in> set (unspellable_found (found_at H h policy t (st_dev m) p))"
      then show ?thesis using lift(2) by (simp add: accounted_def)
    qed
  qed (auto simp: accounted_def)
  moreover have "in_tree H h policy t (st_dev m) (path_str (entry_path e)) \<and>
      (\<exists>k. symlink_metadata h (path_str (entry_path e)) = Inr k \<and>
        entry_of H h policy (path_str (entry_path e)) (entry_path e) k = Inr e)" if "e \<in> set (described i)" for e
  proof -
    from that obtain p where p: "in_tree H h policy t (st_dev m) p" "e \<in> set (entries_found (found_at H h policy t (st_dev m) p))"
      unfolding i(2) by blast
    have "path_str (entry_path e) = p" using found_at_paths[OF p(2)] by (auto simp: absolute_Some)
    with found_at_paths[OF p(2)] p(1) show ?thesis by blast
  qed
  ultimately show ?thesis using i(1) by blast
qed

text \<open>
  C22.  A sealed tree is not entered: where the table answers sealed for a tree's own path and the walk
  does not start inside it, nothing of the inventory is in that tree but the tree's own path.
\<close>

theorem sealed_trees_are_not_entered:
  assumes "names_ok h" "symlink_metadata h (tree_root t) = Inr m" "bounded_tree H h policy t (st_dev m) bound"
    and "policy_for policy (tree_path s) = Some Sealed" "tree_str s \<noteq> []"
    and "\<And>r. absolute (tree_root t) = Some r \<Longrightarrow> contains s r \<Longrightarrow> r = tree_path s"
  shows "\<exists>i. walk H h policy t = Some (Inr i) \<and>
    (\<forall>e. e \<in> set (described i) \<and> contains s (entry_path e) \<longrightarrow> entry_path e = tree_path s) \<and>
    (\<forall>u. u \<in> set (refused i) \<and> contains s (refused_path u) \<longrightarrow> refused_path u = tree_path s)"
proof -
  obtain i where i: "walk H h policy t = Some (Inr i)"
    "set (described i) = (\<Union>p \<in> Collect (in_tree H h policy t (st_dev m)). set (entries_found (found_at H h policy t (st_dev m) p)))"
    "set (refused i) = {u \<in> \<Union>p \<in> Collect (in_tree H h policy t (st_dev m)). set (unreadable_found (found_at H h policy t (st_dev m) p)).
       \<forall>e \<in> set (described i). entry_path e \<noteq> refused_path u}"
    "set (unspellable i) = (\<Union>p \<in> Collect (in_tree H h policy t (st_dev m)). set (unspellable_found (found_at H h policy t (st_dev m) p)))"
    by (rule walk_result[OF assms(1-3)])
  note outside = sealed_not_reached[OF assms(1,4,5,6)]
  have "entry_path e = tree_path s" if "e \<in> set (described i)" "contains s (entry_path e)" for e
  proof -
    from that(1) obtain p where "in_tree H h policy t (st_dev m) p" "e \<in> set (entries_found (found_at H h policy t (st_dev m) p))"
      unfolding i(2) by blast
    with found_at_paths that(2) show ?thesis by (intro outside) blast+
  qed
  moreover have "refused_path u = tree_path s" if "u \<in> set (refused i)" "contains s (refused_path u)" for u
  proof -
    from that(1) obtain p where "in_tree H h policy t (st_dev m) p" "u \<in> set (unreadable_found (found_at H h policy t (st_dev m) p))"
      unfolding i(3) by blast
    with refused_paths that(2) show ?thesis by (intro outside) blast+
  qed
  ultimately show ?thesis using i(1) by blast
qed

section \<open>A small host\<close>

definition example_directory :: metadata where
  "example_directory = \<lparr>st_mode = 0x41ED, st_uid = 0, st_gid = 0, st_size = 0, st_mtime = 5, st_mtime_nsec = 0, st_ctime = 5,
     st_ctime_nsec = 0, st_ino = 7, st_nlink = 2, st_rdev = 0, st_dev = 1\<rparr>"

definition example_host :: host where
  "example_host = \<lparr>symlink_metadata = (\<lambda>p. if p = ''/r'' \<or> p = ''/r/a'' then Inr example_directory else Inl (IoFailure KindNotFound [])),
     read_dir = (\<lambda>p. if p = ''/r'' then Inr [Inr ''a''] else if p = ''/r/a'' then Inr [Inr ''b''] else Inl (IoFailure KindNotFound [])),
     read_link = (\<lambda>_. Inl (IoFailure KindNotFound [])), open_nofollow = (\<lambda>_. NotAFile), display = (\<lambda>p. p)\<rparr>"

definition example_policy :: walk_policy where
  "example_policy = WalkPolicy
     [rule_shipped (WalkedTree (AbsolutePath (NonEmptyText ''/''))) MetadataOnly,
      rule_shipped (WalkedTree (AbsolutePath (NonEmptyText ''/r/a''))) Sealed]"

definition example_hash :: hashes where
  "example_hash = \<lparr> sha256 = (\<lambda>s. s), xxh3_64 = (\<lambda>s. of_nat (length s)) \<rparr>"

lemma example_policies:
  "policy_for example_policy (AbsolutePath (NonEmptyText ''/r/a'')) = Some Sealed"
  "policy_for example_policy (AbsolutePath (NonEmptyText ''/r'')) = Some MetadataOnly"
  "Option.bind (contest_at example_policy (AbsolutePath (NonEmptyText ''/r/a''))) contest = None"
  "Option.bind (contest_at example_policy (AbsolutePath (NonEmptyText ''/r''))) contest = None"
  by code_simp+

lemma example_absolute:
  "absolute ''/r'' = Some (AbsolutePath (NonEmptyText ''/r''))" "absolute ''/r/a'' = Some (AbsolutePath (NonEmptyText ''/r/a''))"
  by code_simp+

lemma example_entry_of:
  "\<exists>e. entry_of example_hash example_host example_policy p r example_directory = Inr e \<and> entry_kind e = DirectoryFile \<and>
     entry_reading e = reading_for example_policy r"
proof -
  have "kind_of example_directory = DirectoryFile" by (simp add: kind_of_def example_directory_def Let_def)
  moreover have "nanoseconds_of 5 0 \<noteq> None" by (simp add: nanoseconds_of_def fits_i64_def)
  moreover have "i64_of_u64 7 \<noteq> None" "i64_of_u64 2 \<noteq> None" by (simp_all add: i64_of_u64_def)
  ultimately show ?thesis
    by (auto simp: entry_of_def Let_def size_of_def has_content_def stamp_def as_document_integer_def link_target_of_def
        content_digest_def example_directory_def split: content_policy.split digest_algorithm.split)
qed

lemma example_below:
  "below example_hash example_host example_policy (tree_at ''/r'') 1 ''/r'' = [''/r/a'']"
  "below example_hash example_host example_policy (tree_at ''/r'') 1 ''/r/a'' = []"
proof -
  have stat: "symlink_metadata example_host ''/r'' = Inr example_directory" "symlink_metadata example_host ''/r/a'' = Inr example_directory"
    "st_dev example_directory = 1" by (simp_all add: example_host_def example_directory_def)
  obtain e where e: "entry_of example_hash example_host example_policy ''/r'' (AbsolutePath (NonEmptyText ''/r'')) example_directory = Inr e"
    "entry_kind e = DirectoryFile" "entry_reading e = MetadataOnly"
    using example_entry_of[of "''/r''" "AbsolutePath (NonEmptyText ''/r'')"] by (auto simp: reading_for_def example_policies)
  obtain d where d: "entry_of example_hash example_host example_policy ''/r/a'' (AbsolutePath (NonEmptyText ''/r/a'')) example_directory = Inr d"
    "entry_kind d = DirectoryFile" "entry_reading d = Sealed"
    using example_entry_of[of "''/r/a''" "AbsolutePath (NonEmptyText ''/r/a'')"] by (auto simp: reading_for_def example_policies)
  have "children_of example_host ''/r'' = Inr [''/r/a'']" by (simp add: children_of_def example_host_def)
  with e stat example_absolute example_policies
  show "below example_hash example_host example_policy (tree_at ''/r'') 1 ''/r'' = [''/r/a'']"
    by (simp add: below_def visit_def tree_at_def is_descended_def)
  from d stat example_absolute example_policies
  show "below example_hash example_host example_policy (tree_at ''/r'') 1 ''/r/a'' = []"
    by (simp add: below_def visit_def tree_at_def is_descended_def)
qed

lemma tree_at_root [simp]: "tree_root (tree_at r) = r"
  by (simp add: tree_at_def)

lemma example_reached:
  "in_tree example_hash example_host example_policy (tree_at ''/r'') 1 p \<Longrightarrow> p = ''/r'' \<or> p = ''/r/a''"
  unfolding in_tree_def by (induction rule: comes_to.induct) (auto simp: example_below)

lemma example_hypotheses:
  "names_ok example_host" "symlink_metadata example_host (tree_root (tree_at ''/r'')) = Inr example_directory"
  "bounded_tree example_hash example_host example_policy (tree_at ''/r'') (st_dev example_directory) 5"
proof -
  show "names_ok example_host" by (auto simp: names_ok_def example_host_def split: if_splits)
  show "symlink_metadata example_host (tree_root (tree_at ''/r'')) = Inr example_directory"
    by (simp add: example_host_def tree_at_def)
  have "length p < 5" if "in_tree example_hash example_host example_policy (tree_at ''/r'') 1 p" for p
    using example_reached[OF that] by auto
  then show "bounded_tree example_hash example_host example_policy (tree_at ''/r'') (st_dev example_directory) 5"
    by (simp add: bounded_tree_def in_tree_def example_directory_def)
qed

theorem walk_accounts_for_every_path_witness:
  "\<exists>i. walk example_hash example_host example_policy (tree_at ''/r'') = Some (Inr i) \<and>
     accounted example_host (tree_at ''/r'') i ''/r/a''"
proof -
  have "in_tree example_hash example_host example_policy (tree_at ''/r'') 1 ''/r/a''"
    unfolding in_tree_def by (rule comes_to.intros(2)[of _ _ _ _ _ _ "''/r''"]) (simp_all add: comes_to.intros example_below)
  then have there: "in_tree example_hash example_host example_policy (tree_at ''/r'') (st_dev example_directory) ''/r/a''"
    by (simp add: example_directory_def)
  from walk_accounts_for_every_path[OF example_hypotheses] there show ?thesis by blast
qed

theorem sealed_trees_are_not_entered_witness:
  "\<exists>i. walk example_hash example_host example_policy (tree_at ''/r'') = Some (Inr i) \<and>
     (\<nexists>e. e \<in> set (described i) \<and> entry_path e = AbsolutePath (NonEmptyText ''/r/a/b''))"
proof -
  let ?s = "WalkedTree (AbsolutePath (NonEmptyText ''/r/a''))"
  have within: "\<not> contains ?s (AbsolutePath (NonEmptyText ''/r''))" "contains ?s (AbsolutePath (NonEmptyText ''/r/a/b''))" by code_simp+
  then have outside: "absolute (tree_root (tree_at ''/r'')) = Some r \<Longrightarrow> contains ?s r \<Longrightarrow> r = tree_path ?s" for r
    by (auto simp: absolute_Some)
  have "policy_for example_policy (tree_path ?s) = Some Sealed" "tree_str ?s \<noteq> []" by (simp_all add: example_policies tree_str_def)
  from sealed_trees_are_not_entered[OF example_hypotheses this outside] within(2) show ?thesis by fastforce
qed

end
