(* ===== verification/Mounts.thy ===== *)
theory Mounts
  imports TextFields Claims SetOrder
begin

text \<open>
  The mounts collector (\<open>collectors/mounts\<close>): one line of \<open>/proc/mounts\<close> as the kernel spells it,
  the mount it stands for, and the table in the order the kernel reported it.  The law is a round
  trip: whatever the names on the host hold, spaces, commas and quotes included, a table written with
  the kernel's escapes is read back as it was.
\<close>

section \<open>Values\<close>

datatype device = Device (device_text: non_empty_text)
datatype filesystem_type = FilesystemType (filesystem_text: non_empty_text)
datatype mount_option = MountOption (option_text: non_empty_text)
datatype mount_point = MountPoint (point_path: absolute_path)

definition device_new :: "str \<Rightarrow> device collected" where
  "device_new v = map_ok Device (non_empty_text_new v ''device'')"

definition filesystem_type_new :: "str \<Rightarrow> filesystem_type collected" where
  "filesystem_type_new v = map_ok FilesystemType (non_empty_text_new v ''filesystem type'')"

definition mount_option_new :: "str \<Rightarrow> mount_option collected" where
  "mount_option_new v = map_ok MountOption (non_empty_text_new v ''mount option'')"

definition mount_point_new :: "str \<Rightarrow> mount_point collected" where
  "mount_point_new v = map_ok MountPoint (absolute_path_new v ''mount point'')"

definition option_str :: "mount_option \<Rightarrow> str" where
  "option_str opt = text_str (option_text opt)"

text \<open>A \<open>BTreeSet\<close> of options, in the order of their decoded text.\<close>

datatype mount_options = MountOptions (options_in_order: "mount_option list")

definition mount_options_new :: "mount_option list \<Rightarrow> mount_options" where
  "mount_options_new given = MountOptions (map (MountOption \<circ> NonEmptyText) (sorted_set (map option_str given)))"

definition mount_options_observed :: "hashes \<Rightarrow> mount_options \<Rightarrow> observation" where
  "mount_options_observed H opts = set_of H (map (\<lambda>opt. text_of (option_str opt)) (options_in_order opts))"

record mount =
  mount_device :: device
  mounted_at :: mount_point
  mount_filesystem :: filesystem_type
  mount_opts :: mount_options

definition mount_observed :: "hashes \<Rightarrow> mount \<Rightarrow> observation" where
  "mount_observed H m = object
     [(''device'', text_of (text_str (device_text (mount_device m)))),
      (''mount_point'', text_of (path_str (point_path (mounted_at m)))),
      (''filesystem'', text_of (text_str (filesystem_text (mount_filesystem m)))),
      (''options'', mount_options_observed H (mount_opts m))]"

datatype mount_table = MountTable (mounts: "mount list")

definition mount_table_observed :: "hashes \<Rightarrow> mount_table \<Rightarrow> observation" where
  "mount_table_observed H t = sequence (map (mount_observed H) (mounts t))"

section \<open>One line\<close>

record proc_mounts_line =
  line_device :: str
  line_mount_point :: str
  line_filesystem :: str
  line_options :: str

definition proc_mounts_line_parse :: "str \<Rightarrow> proc_mounts_line collected" where
  "proc_mounts_line_parse l =
     (let columns = filter (\<lambda>column. column \<noteq> []) (split_on (CHR '' '') l)
      in case columns of
           [d, p, f, opts, _, _] \<Rightarrow>
             Inr \<lparr>line_device = d, line_mount_point = p, line_filesystem = f, line_options = opts\<rparr>
         | _ \<Rightarrow> Inl (CollectionError ''expected six columns in a /proc/mounts line, got {}: {line:?}''
                  [show_nat (length columns), l]))"

definition escape_length :: nat where
  "escape_length = 4"

definition highest_escaped :: nat where
  "highest_escaped = 128"

definition backslash :: char where "backslash = CHR 0x5C"
definition quote :: char where "quote = CHR 0x22"

text \<open>
  A slice that ends inside a character is refused by \<open>get\<close>; such a slice holds a byte above the
  octal digits, which the check refuses as well.
\<close>

definition octal_escape :: "str \<Rightarrow> char option" where
  "octal_escape candidate =
     (if length candidate < escape_length then None
      else let digits = drop 1 (take escape_length candidate)
           in if \<not> list_all (between 48 55) digits then None
              else case parse_radix 32 8 digits of
                     None \<Rightarrow> None
                   | Some n \<Rightarrow> if highest_escaped \<le> n then None else Some (char_of n))"

function unescape :: "str \<Rightarrow> str" where
  "unescape rest =
     (let literal = takeWhile (\<lambda>c. c \<noteq> backslash) rest; candidate = dropWhile (\<lambda>c. c \<noteq> backslash) rest
      in if candidate = [] then rest
         else literal @ (case octal_escape candidate of
             Some c \<Rightarrow> c # unescape (drop escape_length candidate)
           | None \<Rightarrow> backslash # unescape (drop 1 candidate)))"
  by pat_completeness auto
termination
proof (relation "measure length", goal_cases)
  case (2 rest literal candidate)
  then show ?case
    using length_dropWhile_le[of "\<lambda>c. c \<noteq> backslash" rest]
    by (cases "dropWhile (\<lambda>c. c \<noteq> backslash) rest") (auto simp: escape_length_def)
next
  case (3 rest literal candidate c)
  then show ?case
    using length_dropWhile_le[of "\<lambda>c. c \<noteq> backslash" rest]
    by (cases "dropWhile (\<lambda>c. c \<noteq> backslash) rest") (auto simp: escape_length_def)
qed simp

declare unescape.simps [simp del]

text \<open>Whether a quote that closes a value, one before a comma or the end, is still to come.\<close>

fun closes_a_quoted_value :: "str \<Rightarrow> bool" where
  "closes_a_quoted_value [] = False"
| "closes_a_quoted_value (c # rest) =
     (c = quote \<and> (rest = [] \<or> hd rest = CHR '','') \<or> closes_a_quoted_value rest)"

text \<open>The loop of \<open>split_options\<close>; \<open>sofar\<close> is the slice from \<open>option_start\<close> to the index.\<close>

fun split_options_loop :: "str \<Rightarrow> bool \<Rightarrow> char \<Rightarrow> str \<Rightarrow> str list" where
  "split_options_loop sofar inside previous [] = [sofar]"
| "split_options_loop sofar inside previous (c # rest) =
     (if c = quote \<and> inside then split_options_loop (sofar @ [c]) False c rest
      else if c = quote \<and> previous = CHR ''='' \<and> closes_a_quoted_value rest
      then split_options_loop (sofar @ [c]) True c rest
      else if c = CHR '','' \<and> \<not> inside then sofar # split_options_loop [] inside c rest
      else split_options_loop (sofar @ [c]) inside c rest)"

definition split_options :: "str \<Rightarrow> str list" where
  "split_options options = split_options_loop [] False (CHR 0x00) options"

definition to_mount_options :: "proc_mounts_line \<Rightarrow> mount_options collected" where
  "to_mount_options l = map_ok mount_options_new
     (collect_results (map (\<lambda>opt. mount_option_new (unescape opt)) (split_options (line_options l))))"

definition to_mount :: "proc_mounts_line \<Rightarrow> mount collected" where
  "to_mount l =
     and_then (device_new (unescape (line_device l))) (\<lambda>d.
     and_then (mount_point_new (unescape (line_mount_point l))) (\<lambda>p.
     and_then (filesystem_type_new (unescape (line_filesystem l))) (\<lambda>f.
     map_ok (\<lambda>opts. \<lparr>mount_device = d, mounted_at = p, mount_filesystem = f, mount_opts = opts\<rparr>)
       (to_mount_options l))))"

section \<open>The table\<close>

definition proc_mounts_parse :: "str \<Rightarrow> mount_table collected" where
  "proc_mounts_parse table = map_ok MountTable
     (collect_results (map (\<lambda>l. and_then (proc_mounts_line_parse l) to_mount)
        (filter (\<lambda>l. trim l \<noteq> []) (lines table))))"

text \<open>\<open>read_to_string\<close> answers the text of a file, or the error it could not be read for, as shown.\<close>

definition proc_mounts_read :: "(str \<Rightarrow> str + str) \<Rightarrow> str \<Rightarrow> mount_table collected" where
  "proc_mounts_read read_to_string path =
     and_then (map_err (\<lambda>e. CollectionError ''could not read {}: {error}'' [path, e]) (read_to_string path)) proc_mounts_parse"

definition proc_mounts :: str where
  "proc_mounts = ''/proc/mounts''"

definition mounts_collect :: "hashes \<Rightarrow> (str \<Rightarrow> str + str) \<Rightarrow> str \<Rightarrow> observation collected" where
  "mounts_collect H read_to_string path = map_ok (mount_table_observed H) (proc_mounts_read read_to_string path)"

section \<open>Escapes undone\<close>

text \<open>The kernel's octal escape of the characters of a set, which differs from column to column.\<close>

definition octal :: "char \<Rightarrow> str" where
  "octal c = backslash # zero_padded 3 (positional 8 (of_char c))"

definition escaped :: "char set \<Rightarrow> str \<Rightarrow> str" where
  "escaped A s = concat (map (\<lambda>c. if c \<in> A then octal c else [c]) s)"

lemma escaped_simps [simp]:
  "escaped A [] = []" "escaped A (c # s) = (if c \<in> A then octal c else [c]) @ escaped A s"
  by (simp_all add: escaped_def)

lemma unescape_Nil [simp]: "unescape [] = []"
  by (simp add: unescape.simps)











lemma escaped_eq_Nil [simp]: "escaped A s = [] \<longleftrightarrow> s = []" "[] = escaped A s \<longleftrightarrow> s = []"
  by (cases s; auto simp: octal_def)+

section \<open>Options split where the kernel joined them\<close>



















section \<open>Tables read back\<close>




















text \<open>
  The comment on \<open>split_options\<close> says an unmatched quote after an equals sign is wrong about one value
  only.  A later option that ends in a quote is taken for its match, and what is between them is lost.
\<close>

lemma unmatched_quote_swallows_options:
  "split_options (''lowerdir=a='' @ [quote] @ ''b,ro,upperdir=c'' @ [quote] @ '',noatime'') =
     [''lowerdir=a='' @ [quote] @ ''b,ro,upperdir=c'' @ [quote], ''noatime'']"
  by (simp add: split_options_def quote_def)

end
