(* ===== verification/Lossy.thy ===== *)
theory Lossy
  imports TextFields
begin

text \<open>
  \<open>String::from_utf8_lossy\<close> and \<open>OsStr::to_string_lossy\<close>: every maximal run of bytes that starts a
  character and does not finish it is one replacement character.
\<close>

definition replacement :: str where
  "replacement = [CHR 0xEF, CHR 0xBF, CHR 0xBD]"

definition second_byte :: "char \<Rightarrow> char \<Rightarrow> bool" where
  "second_byte a b \<longleftrightarrow>
     (if between 224 224 a then between 160 191 b
      else if between 237 237 a then between 128 159 b
      else if between 240 240 a then between 144 191 b
      else if between 244 244 a then between 128 143 b
      else continuation b)"

text \<open>How many bytes the first character takes, or how many the first broken one does.\<close>

definition first_chunk :: "char \<Rightarrow> str \<Rightarrow> bool \<times> nat" where
  "first_chunk a rest =
     (if between 0 127 a then (True, 1)
      else if between 194 244 a
      then (case rest of
          [] \<Rightarrow> (False, 1)
        | b # rest \<Rightarrow>
            if \<not> second_byte a b then (False, 1)
            else if between 194 223 a then (True, 2)
            else (case rest of
                [] \<Rightarrow> (False, 2)
              | c # rest \<Rightarrow>
                  if \<not> continuation c then (False, 2)
                  else if between 224 239 a then (True, 3)
                  else (case rest of
                      [] \<Rightarrow> (False, 3)
                    | d # _ \<Rightarrow> if continuation d then (True, 4) else (False, 3))))
      else (False, 1))"

lemma first_chunk_pos: "first_chunk a rest = (b, n) \<Longrightarrow> 0 < n"
  by (auto simp: first_chunk_def split: if_splits list.splits)

function lossy :: "str \<Rightarrow> str" where
  "lossy [] = []"
| "lossy (a # rest) =
     (case first_chunk a rest of
        (whole, n) \<Rightarrow> (if whole then take n (a # rest) else replacement) @ lossy (drop n (a # rest)))"
  by pat_completeness auto
termination
  by (relation "measure length") (auto dest!: sym[of _ "first_chunk _ _"] first_chunk_pos)

declare lossy.simps(2) [simp del]

lemma first_chunk_valid: "valid_utf8 (a # rest) \<Longrightarrow> first_chunk a rest = (True, utf8_width a)"
  by (auto simp: first_chunk_def second_byte_def valid_utf8.simps(2)[of a rest] utf8_width_def between_def Let_def
      split: list.splits if_splits)

lemma lossy_valid [simp]: "valid_utf8 s \<Longrightarrow> lossy s = s"
proof (induction s rule: chars_of.induct)
  case (2 c cs)
  then show ?case
    using first_chunk_valid[OF "2.prems"] valid_utf8_first(2)[OF "2.prems"] by (simp add: lossy.simps(2))
qed simp

lemma valid_utf8_replacement [simp]: "valid_utf8 (replacement @ s) \<longleftrightarrow> valid_utf8 s"
  by (rule valid_utf8_append) (simp add: replacement_def valid_utf8.simps between_def continuation_def)

text \<open>What comes out is always text.\<close>

lemma first_chunk_whole: "first_chunk a rest = (True, n) \<Longrightarrow> valid_utf8 (take n (a # rest))"
  by (auto simp: first_chunk_def second_byte_def valid_utf8.simps(2) between_def Let_def continuation_def
      split: list.splits if_splits)

lemma lossy_is_text: "valid_utf8 (lossy s)"
proof (induction s rule: lossy.induct)
  case (2 a rest)
  obtain whole n where chunk: "first_chunk a rest = (whole, n)" by fastforce
  show ?case
  proof (cases whole)
    case True
    with chunk have "valid_utf8 (take n (a # rest))" by (simp add: first_chunk_whole)
    with True chunk "2.IH"[OF chunk[symmetric]] show ?thesis by (simp add: lossy.simps(2) valid_utf8_append)
  next
    case False
    with chunk "2.IH"[OF chunk[symmetric]] show ?thesis by (simp add: lossy.simps(2))
  qed
qed simp

end
