(* ===== verification/MountTable.thy ===== *)
theory MountTable
  imports Lossy Paths WalkPolicy
begin

text \<open>
  The host paths that show a process's path (\<open>collectors/mount_table.rs\<close>), read from two
  \<open>mountinfo\<close> tables.  A mount places a part of a device at a point of a namespace; the law is that the
  answer holds exactly the places where the host shows the same part of the same device.
\<close>

section \<open>Prefixes of paths\<close>

definition path_starts_with :: "path \<Rightarrow> path \<Rightarrow> bool" where
  "path_starts_with p base \<longleftrightarrow> take (length base) p = base"

definition path_strip_prefix :: "path \<Rightarrow> path \<Rightarrow> path option" where
  "path_strip_prefix p base = (if path_starts_with p base then Some (drop (length base) p) else None)"

lemma path_starts_with_iff: "path_starts_with p base \<longleftrightarrow> (\<exists>r. p = base @ r)"
  by (metis append_eq_conv_conj path_starts_with_def)

lemma path_strip_prefix_Some_iff: "path_strip_prefix p base = Some r \<longleftrightarrow> p = base @ r"
  by (auto simp: path_strip_prefix_def path_starts_with_iff)

lemma path_strip_prefix_None_iff: "path_strip_prefix p base = None \<longleftrightarrow> (\<nexists>r. p = base @ r)"
  by (auto simp: path_strip_prefix_def path_starts_with_iff)

section \<open>A table of mounts\<close>

record table_mount =
  table_device :: str
  table_root :: path
  table_point :: path

record host_view =
  view_path :: path
  view_part :: path

text \<open>Three octal digits after a backslash, as \<open>u8::from_str_radix\<close> reads them, a plus sign included.\<close>

function unescaped :: "str \<Rightarrow> str" where
  "unescaped rest =
     (let literal = takeWhile (\<lambda>b. b \<noteq> CHR 0x5C) rest; found = dropWhile (\<lambda>b. b \<noteq> CHR 0x5C) rest;
          digits = drop 1 (take 4 found)
      in if found = [] then rest
         else literal @ (case (if length digits = 3 \<and> valid_utf8 digits then parse_radix 8 8 digits else None) of
             Some n \<Rightarrow> char_of n # unescaped (drop 4 found)
           | None \<Rightarrow> CHR 0x5C # unescaped (drop 1 found)))"
  by pat_completeness auto
termination
proof (relation "measure length", goal_cases)
  case (2 rest literal found digits)
  then show ?case
    using length_dropWhile_le[of "\<lambda>b. b \<noteq> CHR 0x5C" rest] by (cases "dropWhile (\<lambda>b. b \<noteq> CHR 0x5C) rest") auto
next
  case (3 rest literal found digits n)
  then show ?case
    using length_dropWhile_le[of "\<lambda>b. b \<noteq> CHR 0x5C" rest] by (cases "dropWhile (\<lambda>b. b \<noteq> CHR 0x5C) rest") auto
qed simp

declare unescaped.simps [simp del]

definition nth_field :: "str list \<Rightarrow> nat \<Rightarrow> str option" where
  "nth_field parts i = (if i < length parts then Some (parts ! i) else None)"

definition mount_in :: "str \<Rightarrow> table_mount option" where
  "mount_in l =
     (let parts = split_on (CHR '' '') l
      in case nth_field parts 2 of None \<Rightarrow> None | Some device \<Rightarrow>
         (case nth_field parts 3 of None \<Rightarrow> None | Some root \<Rightarrow>
         (case nth_field parts 4 of None \<Rightarrow> None | Some point \<Rightarrow>
            Some \<lparr>table_device = lossy device, table_root = Paths.components (unescaped root),
                  table_point = Paths.components (unescaped point)\<rparr>)))"

definition mounts_in :: "str \<Rightarrow> table_mount list" where
  "mounts_in table = List.map_filter mount_in (split_on newline table)"

definition containing :: "table_mount list \<Rightarrow> path \<Rightarrow> table_mount option" where
  "containing ms p = max_by_key (\<lambda>m. length (table_point m)) (filter (\<lambda>m. path_starts_with p (table_point m)) ms)"

definition on_device :: "table_mount \<Rightarrow> path \<Rightarrow> path option" where
  "on_device m p = map_option (joined (table_root m)) (path_strip_prefix p (table_point m))"

definition seen_through :: "path \<Rightarrow> table_mount \<Rightarrow> host_view option" where
  "seen_through inside m =
     (case path_strip_prefix inside (table_root m) of
        Some below \<Rightarrow> Some \<lparr>view_path = joined (table_point m) below, view_part = []\<rparr>
      | None \<Rightarrow> map_option (\<lambda>part. \<lparr>view_path = table_point m, view_part = part\<rparr>)
          (path_strip_prefix (table_root m) inside))"

definition seen_at :: "table_mount list \<Rightarrow> str \<Rightarrow> path \<Rightarrow> host_view list" where
  "seen_at ms device inside = List.map_filter (seen_through inside) (filter (\<lambda>m. table_device m = device) ms)"

definition host_views_of :: "str \<Rightarrow> str \<Rightarrow> path \<Rightarrow> host_view list" where
  "host_views_of process_table host_table p =
     (case containing (mounts_in process_table) p of
        None \<Rightarrow> []
      | Some m \<Rightarrow>
          if table_point m = Paths.components ''/'' then []
          else (case on_device m p of
              Some inside \<Rightarrow> seen_at (mounts_in host_table) (table_device m) inside
            | None \<Rightarrow> []))"

definition host_alias_views_of :: "str \<Rightarrow> path \<Rightarrow> host_view list" where
  "host_alias_views_of host_table p =
     (let ms = mounts_in host_table
      in case containing ms p of
           None \<Rightarrow> []
         | Some m \<Rightarrow> (case on_device m p of
              None \<Rightarrow> []
            | Some inside \<Rightarrow> seen_at ms (table_device m) inside))"

section \<open>The views are the places that show it\<close>

text \<open>What the kernel writes: points and roots start at the root, and nothing else does.\<close>

fun is_normal :: "component \<Rightarrow> bool" where
  "is_normal (Normal n) = True"
| "is_normal _ = False"

fun rooted :: "path \<Rightarrow> bool" where
  "rooted (RootDir # p) = list_all is_normal p"
| "rooted _ = False"

definition table_ok :: "table_mount list \<Rightarrow> bool" where
  "table_ok ms \<longleftrightarrow> list_all (\<lambda>m. rooted (table_root m) \<and> rooted (table_point m)) ms"

lemma rooted_Cons: "rooted p \<longleftrightarrow> (\<exists>q. p = RootDir # q \<and> list_all is_normal q)"
  by (cases p rule: rooted.cases) auto

lemma joined_below: "rooted (p @ r) \<Longrightarrow> p \<noteq> [] \<Longrightarrow> joined base r = base @ r"
  by (cases p; cases r) (auto simp: rooted_Cons joined_def split: component.split)

lemma rooted_nonempty: "rooted p \<Longrightarrow> p \<noteq> []" by auto

lemma rooted_append: "rooted p \<Longrightarrow> rooted (q @ r) \<Longrightarrow> q \<noteq> [] \<Longrightarrow> rooted (p @ r)"
  by (cases q) (auto simp: rooted_Cons)

lemma on_device_Some_iff:
  assumes "rooted p" "rooted (table_point m)"
  shows "on_device m p = Some l \<longleftrightarrow> (\<exists>r. p = table_point m @ r \<and> l = table_root m @ r)"
  using assms joined_below rooted_nonempty
  by (auto simp: on_device_def path_strip_prefix_Some_iff)

lemma seen_through_Some:
  assumes "rooted inside" "rooted (table_root m)"
  shows "seen_through inside m = Some v \<longleftrightarrow>
    (\<exists>below. inside = table_root m @ below \<and> v = \<lparr>view_path = table_point m @ below, view_part = []\<rparr>) \<or>
    (\<exists>part. part \<noteq> [] \<and> table_root m = inside @ part \<and> v = \<lparr>view_path = table_point m, view_part = part\<rparr>)"
proof (cases "path_strip_prefix inside (table_root m)")
  case None
  then have "\<nexists>r. inside = table_root m @ r" by (simp add: path_strip_prefix_None_iff)
  then show ?thesis
    using None by (auto simp: seen_through_def path_strip_prefix_Some_iff)
next
  case (Some below)
  then have "inside = table_root m @ below" by (simp add: path_strip_prefix_Some_iff)
  moreover from this have "joined (table_point m) below = table_point m @ below"
    using assms joined_below rooted_nonempty by blast
  ultimately show ?thesis using Some by (auto simp: seen_through_def)
qed

lemma containing_SomeD:
  "containing ms p = Some m \<Longrightarrow> m \<in> set ms \<and> (\<exists>r. p = table_point m @ r) \<and>
     (\<forall>n \<in> set ms. path_starts_with p (table_point n) \<longrightarrow> length (table_point n) \<le> length (table_point m))"
  unfolding containing_def by (drule max_by_key_Some) (auto simp: path_starts_with_iff)

lemma seen_at_iff:
  "v \<in> set (seen_at ms device inside) \<longleftrightarrow> (\<exists>m \<in> set ms. table_device m = device \<and> seen_through inside m = Some v)"
  by (auto simp: seen_at_def set_map_filter)

lemma rooted_part: "rooted (q @ part) \<Longrightarrow> rooted q \<Longrightarrow> rooted p \<Longrightarrow> rooted (p @ part)"
  by (auto simp: rooted_Cons)

text \<open>
  C27.  The host paths found for a process's path are the places that show it: each lies on a host mount
  of the device the path is on and is the same place of that device as the part it says; and every place
  of the host that shows anything at or under the path is at or under one of them.
\<close>

theorem host_views_are_the_places:
  assumes "table_ok (mounts_in process_table)" "table_ok (mounts_in host_table)" "rooted p"
    and "containing (mounts_in process_table) p = Some pm" "table_point pm \<noteq> Paths.components ''/''"
  shows "(\<forall>v. v \<in> set (host_views_of process_table host_table p) \<longrightarrow>
      (\<exists>hm place. hm \<in> set (mounts_in host_table) \<and> table_device hm = table_device pm \<and>
         on_device hm (view_path v) = Some place \<and> on_device pm (p @ view_part v) = Some place)) \<and>
    (\<forall>hm q rest place. hm \<in> set (mounts_in host_table) \<and> table_device hm = table_device pm \<and> rooted q \<and> rooted (p @ rest) \<and>
         on_device hm q = Some place \<and> on_device pm (p @ rest) = Some place \<longrightarrow>
      (\<exists>v tail. v \<in> set (host_views_of process_table host_table p) \<and> q = view_path v @ tail \<and> rest = view_part v @ tail))"
proof -
  from containing_SomeD[OF assms(4)] obtain s where pm: "pm \<in> set (mounts_in process_table)" and s: "p = table_point pm @ s" by blast
  have pm_ok: "rooted (table_root pm)" "rooted (table_point pm)" using assms(1) pm by (auto simp: table_ok_def list_all_iff)
  have host_ok: "rooted (table_root hm)" "rooted (table_point hm)" if "hm \<in> set (mounts_in host_table)" for hm
    using assms(2) that by (auto simp: table_ok_def list_all_iff)
  define inside where "inside = table_root pm @ s"
  have inside: "on_device pm p = Some inside" using on_device_Some_iff[OF assms(3) pm_ok(2)] s by (auto simp: inside_def)
  have inside_rooted: "rooted inside" using rooted_part[of "table_point pm" s] s assms(3) pm_ok by (simp add: inside_def)
  have views: "v \<in> set (host_views_of process_table host_table p) \<longleftrightarrow>
      (\<exists>hm \<in> set (mounts_in host_table). table_device hm = table_device pm \<and> seen_through inside hm = Some v)" for v
    using assms(4,5) inside by (simp add: host_views_of_def seen_at_iff)
  have place: "on_device pm (p @ rest) = Some place \<longleftrightarrow> place = inside @ rest" if "rooted (p @ rest)" for rest place
    using on_device_Some_iff[OF that pm_ok(2)] s by (auto simp: inside_def)
  have "\<exists>hm place. hm \<in> set (mounts_in host_table) \<and> table_device hm = table_device pm \<and>
         on_device hm (view_path v) = Some place \<and> on_device pm (p @ view_part v) = Some place"
    if v: "v \<in> set (host_views_of process_table host_table p)" for v
  proof -
    from v views obtain hm where hm: "hm \<in> set (mounts_in host_table)" "table_device hm = table_device pm" "seen_through inside hm = Some v"
      by blast
    note ok = host_ok[OF hm(1)]
    from hm(3) seen_through_Some[OF inside_rooted ok(1)] consider
      below where "inside = table_root hm @ below" "view_path v = table_point hm @ below" "view_part v = []"
      | part where "table_root hm = inside @ part" "view_path v = table_point hm" "view_part v = part" by auto
    then have "\<exists>place. on_device hm (view_path v) = Some place \<and> on_device pm (p @ view_part v) = Some place"
    proof cases
      case (1 below)
      have "rooted (view_path v)" using rooted_part[OF _ ok(1,2), of below] 1 inside_rooted by simp
      then have "on_device hm (view_path v) = Some inside" using 1 on_device_Some_iff[OF _ ok(2)] by auto
      with 1 inside show ?thesis by simp
    next
      case (2 part)
      have "rooted (p @ part)" using rooted_part[OF _ inside_rooted assms(3), of part] 2 ok(1) by simp
      moreover have "on_device hm (view_path v) = Some (inside @ part)" using 2 ok on_device_Some_iff[OF ok(2) ok(2)] by auto
      ultimately show ?thesis using 2 place by simp
    qed
    with hm show ?thesis by blast
  qed
  moreover have "\<exists>v tail. v \<in> set (host_views_of process_table host_table p) \<and> q = view_path v @ tail \<and> rest = view_part v @ tail"
    if "hm \<in> set (mounts_in host_table)" "table_device hm = table_device pm" "rooted q" "rooted (p @ rest)"
      "on_device hm q = Some there" "on_device pm (p @ rest) = Some there" for hm q rest there
  proof -
    note ok = host_ok[OF that(1)]
    from that(5) on_device_Some_iff[OF that(3) ok(2)] obtain r where r: "q = table_point hm @ r" "there = table_root hm @ r" by auto
    with that(6) place[OF that(4)] have "table_root hm @ r = inside @ rest" by simp
    then obtain us where "inside = table_root hm @ us \<and> r = us @ rest \<or> table_root hm = inside @ us \<and> rest = us @ r"
      by (auto simp: append_eq_append_conv2)
    then consider below where "inside = table_root hm @ below" "r = below @ rest"
      | part where "part \<noteq> []" "table_root hm = inside @ part" "rest = part @ r"
      by (cases "us = []") auto
    then show ?thesis
    proof cases
      case (1 below)
      then have "seen_through inside hm = Some \<lparr>view_path = table_point hm @ below, view_part = []\<rparr>"
        using seen_through_Some[OF inside_rooted ok(1)] by blast
      with views that(1,2) 1 r(1) show ?thesis by (intro exI[of _ "\<lparr>view_path = table_point hm @ below, view_part = []\<rparr>"] exI[of _ rest]) auto
    next
      case (2 part)
      then have "seen_through inside hm = Some \<lparr>view_path = table_point hm, view_part = part\<rparr>"
        using seen_through_Some[OF inside_rooted ok(1)] by blast
      with views that(1,2) 2 r(1) show ?thesis by (intro exI[of _ "\<lparr>view_path = table_point hm, view_part = part\<rparr>"] exI[of _ r]) auto
    qed
  qed
  ultimately show ?thesis by blast
qed

definition node_table :: str where
  "node_table = ''22 1 0:21 / / rw - overlay overlay rw'' @ [newline] @ ''23 22 8:1 /volumes/data /var/lib/node rw - ext4 /dev/sda1 rw'' @ [newline]"

definition host_table_example :: str where
  "host_table_example = ''1 0 8:1 / / rw - ext4 /dev/sda1 rw'' @ [newline]
     @ ''2 1 8:1 /volumes/data/nodes /srv/my'' @ [CHR 0x5C] @ ''040nodes rw - ext4 /dev/sda1 rw'' @ [newline]"

lemma example_tables:
  "mounts_in node_table = [\<lparr>table_device = ''0:21'', table_root = Paths.components ''/'', table_point = Paths.components ''/''\<rparr>,
     \<lparr>table_device = ''8:1'', table_root = Paths.components ''/volumes/data'', table_point = Paths.components ''/var/lib/node''\<rparr>]"
  "mounts_in host_table_example = [\<lparr>table_device = ''8:1'', table_root = Paths.components ''/'', table_point = Paths.components ''/''\<rparr>,
     \<lparr>table_device = ''8:1'', table_root = Paths.components ''/volumes/data/nodes'', table_point = Paths.components ''/srv/my nodes''\<rparr>]"
  by code_simp+

theorem host_views_are_the_places_witness:
  "\<exists>v tail. v \<in> set (host_views_of node_table host_table_example (Paths.components ''/var/lib/node'')) \<and>
     Paths.components ''/srv/my nodes/0'' = view_path v @ tail \<and> Paths.components ''nodes/0'' = view_part v @ tail"
proof -
  let ?pm = "\<lparr>table_device = ''8:1'', table_root = Paths.components ''/volumes/data'', table_point = Paths.components ''/var/lib/node''\<rparr>"
  let ?hm = "\<lparr>table_device = ''8:1'', table_root = Paths.components ''/volumes/data/nodes'', table_point = Paths.components ''/srv/my nodes''\<rparr>"
  have "table_ok (mounts_in node_table)" "table_ok (mounts_in host_table_example)" "rooted (Paths.components ''/var/lib/node'')"
    "containing (mounts_in node_table) (Paths.components ''/var/lib/node'') = Some ?pm" "table_point ?pm \<noteq> Paths.components ''/''"
    unfolding example_tables by (code_simp; fail)+
  note exact = host_views_are_the_places[OF this]
  have there: "?hm \<in> set (mounts_in host_table_example)" by (simp add: example_tables)
  have same: "table_device ?hm = table_device ?pm" "rooted (Paths.components ''/srv/my nodes/0'')"
    "rooted (Paths.components ''/var/lib/node'' @ Paths.components ''nodes/0'')"
    "on_device ?hm (Paths.components ''/srv/my nodes/0'') = Some (Paths.components ''/volumes/data/nodes/0'')"
    "on_device ?pm (Paths.components ''/var/lib/node'' @ Paths.components ''nodes/0'') = Some (Paths.components ''/volumes/data/nodes/0'')"
    by code_simp+
  from exact there same show ?thesis by blast
qed

text \<open>A sign is no octal digit, and \<open>proc_mounts_line.rs\<close> says so; here it is taken for one.\<close>

lemma unescaped_takes_a_sign: "unescaped (CHR 0x5C # ''+12'') = [CHR 0x0A]"
  by code_simp

end
