(* ===== verification/Globs.thy ===== *)
theory Globs
  imports Lossy Paths Prelude
begin

text \<open>
  The files a pattern names (\<open>collectors/file_glob.rs\<close>), resolved one component at a time against the
  directories of the host, which are a parameter: what \<open>read_dir\<close> answers for a directory and whether a
  path exists.  The specification is the language of a pattern: a set of names for a component, a set of
  paths for a path.
\<close>

record directories =
  entries_of :: "path \<Rightarrow> str list option"
  exists :: "path \<Rightarrow> bool"

section \<open>One name\<close>

definition holds_wildcard :: "str \<Rightarrow> bool" where
  "holds_wildcard s \<longleftrightarrow> CHR ''*'' \<in> set s \<or> CHR ''?'' \<in> set s"

definition class_mark :: char where
  "class_mark = CHR ''[''"

fun component_is_pattern :: "component \<Rightarrow> bool" where
  "component_is_pattern (Normal s) = (let s = lossy s in holds_wildcard s \<or> class_mark \<in> set s)"
| "component_is_pattern _ = False"

definition is_pattern :: "path \<Rightarrow> bool" where
  "is_pattern p = list_ex component_is_pattern p"

fun wildcard_matches :: "'c list \<Rightarrow> 'c \<Rightarrow> 'c \<Rightarrow> 'c list \<Rightarrow> bool" where
  "wildcard_matches s star one [] = (s = [])"
| "wildcard_matches s star one (first # rest) =
     (if first = star then list_ex (\<lambda>taken. wildcard_matches (drop taken s) star one rest) [0..<Suc (length s)]
      else if first = one then s \<noteq> [] \<and> wildcard_matches (tl s) star one rest
      else case s of [] \<Rightarrow> False | actual # rest_of_it \<Rightarrow> actual = first \<and> wildcard_matches rest_of_it star one rest)"

definition glob_matches :: "str \<Rightarrow> str \<Rightarrow> bool" where
  "glob_matches raw pattern =
     (let s = lossy raw
      in if starts_with ''.'' s \<noteq> starts_with ''.'' pattern then False
         else wildcard_matches (chars_of s) ''*'' ''?'' (chars_of pattern))"

section \<open>A path\<close>

definition expanded :: "directories \<Rightarrow> path list \<Rightarrow> str \<Rightarrow> path list" where
  "expanded fs candidates pattern = concat (map (\<lambda>candidate.
     let directory = (if candidate = [] then [CurDir] else candidate)
     in case entries_of fs directory of
          None \<Rightarrow> []
        | Some names \<Rightarrow> map (\<lambda>raw. joined candidate [Normal raw]) (filter (\<lambda>raw. glob_matches raw pattern) names))
     candidates)"

text \<open>The bytes of a path built by joining components: separators between them, none after the root.\<close>

fun component_text :: "component \<Rightarrow> str" where
  "component_text RootDir = []"
| "component_text CurDir = ''.''"
| "component_text ParentDir = ''..''"
| "component_text (Normal s) = s"

fun path_bytes :: "path \<Rightarrow> str" where
  "path_bytes [] = []"
| "path_bytes [c] = (if c = RootDir then ''/'' else component_text c)"
| "path_bytes (c # d # p) = component_text c @ CHR ''/'' # path_bytes (d # p)"

text \<open>\<open>whole\<close> is the pattern as it is displayed.\<close>

fun matching_loop :: "directories \<Rightarrow> str \<Rightarrow> path \<Rightarrow> path list \<Rightarrow> path list collected" where
  "matching_loop fs whole [] found = Inr found"
| "matching_loop fs whole (c # rest) found =
     (case c of
        Normal raw \<Rightarrow>
          (let s = lossy raw
           in if class_mark \<in> set s
              then Inl (CollectionError ''the pattern {} holds a bracket expression, which rastro does not resolve; the services that read these patterns do, so this facet would otherwise report a set of files the box does not read''
                     [whole])
              else matching_loop fs whole rest
                (if holds_wildcard s then expanded fs found s else map (\<lambda>candidate. joined candidate [Normal s]) found))
      | _ \<Rightarrow> matching_loop fs whole rest (map (\<lambda>candidate. joined candidate [c]) found))"

definition matching :: "directories \<Rightarrow> str \<Rightarrow> path \<Rightarrow> path list collected" where
  "matching fs whole pattern = map_ok (\<lambda>found. sort_by (\<lambda>l r. cmp_of (path_bytes l) (path_bytes r)) (filter (exists fs) found))
     (matching_loop fs whole pattern [[]])"

section \<open>The language of a pattern\<close>

fun language :: "'c \<Rightarrow> 'c \<Rightarrow> 'c list \<Rightarrow> 'c list set" where
  "language star one [] = {[]}"
| "language star one (p # ps) =
     (if p = star then {x @ y | x y. y \<in> language star one ps}
      else if p = one then {c # y | c y. y \<in> language star one ps}
      else {p # y | y. y \<in> language star one ps})"

lemma wildcard_matches_language: "wildcard_matches s star one ps \<longleftrightarrow> s \<in> language star one ps"
proof (induction ps arbitrary: s)
  case (Cons p ps)
  consider "p = star" | "p \<noteq> star" "p = one" | "p \<noteq> star" "p \<noteq> one" by blast
  then show ?case
  proof cases
    case 1
    have "(\<exists>taken < Suc (length s). drop taken s \<in> language star one ps) \<longleftrightarrow> (\<exists>x y. s = x @ y \<and> y \<in> language star one ps)"
    proof
      assume "\<exists>taken < Suc (length s). drop taken s \<in> language star one ps"
      then obtain taken where "drop taken s \<in> language star one ps" by blast
      then show "\<exists>x y. s = x @ y \<and> y \<in> language star one ps" by (metis append_take_drop_id)
    next
      assume "\<exists>x y. s = x @ y \<and> y \<in> language star one ps"
      then obtain x y where "s = x @ y" "y \<in> language star one ps" by blast
      then show "\<exists>taken < Suc (length s). drop taken s \<in> language star one ps" by (intro exI[of _ "length x"]) simp
    qed
    with 1 Cons show ?thesis by (simp add: list_ex_iff Bex_def less_Suc_eq_le atLeast0LessThan del: upt_Suc)
  next
    case 2
    with Cons show ?thesis by (cases s) auto
  next
    case 3
    with Cons show ?thesis by (cases s) auto
  qed
qed simp

text \<open>
  What a component names under a directory, and what a pattern names: a literal itself, a wildcard every
  entry of the directory in its language, with a leading dot only where the pattern spells one.
\<close>

fun component_named :: "directories \<Rightarrow> path \<Rightarrow> component \<Rightarrow> component \<Rightarrow> bool" where
  "component_named fs base (Normal raw) d =
     (if holds_wildcard (lossy raw)
      then \<exists>entry names. d = Normal entry \<and> entries_of fs (if base = [] then [CurDir] else base) = Some names \<and> entry \<in> set names \<and>
        (starts_with ''.'' (lossy entry) \<longleftrightarrow> starts_with ''.'' (lossy raw)) \<and>
        chars_of (lossy entry) \<in> language ''*'' ''?'' (chars_of (lossy raw))
      else d = Normal (lossy raw))"
| "component_named fs base c d = (d = c)"

fun path_named :: "directories \<Rightarrow> path \<Rightarrow> path \<Rightarrow> path \<Rightarrow> bool" where
  "path_named fs base [] [] = True"
| "path_named fs base (c # ps) (d # qs) = (component_named fs base c d \<and> path_named fs (base @ [d]) ps qs)"
| "path_named fs base _ _ = False"

fun has_class :: "component \<Rightarrow> bool" where
  "has_class (Normal raw) = (class_mark \<in> set (lossy raw))"
| "has_class _ = False"

fun inner :: "component \<Rightarrow> bool" where
  "inner (Normal s) = True"
| "inner ParentDir = True"
| "inner _ = False"

lemma path_named_Cons: "path_named fs base (c # ps) qs \<longleftrightarrow>
    (\<exists>d rest. qs = d # rest \<and> component_named fs base c d \<and> path_named fs (base @ [d]) ps rest)"
  by (cases qs) auto

lemma path_named_Nil: "path_named fs base [] qs \<longleftrightarrow> qs = []"
  by (cases qs) auto

lemma set_expanded:
  "set (expanded fs found s) = {base @ [Normal entry] | base entry names. base \<in> set found \<and>
     entries_of fs (if base = [] then [CurDir] else base) = Some names \<and> entry \<in> set names \<and> glob_matches entry s}"
proof -
  have one: "set (case e of None \<Rightarrow> [] | Some names \<Rightarrow> map f (filter P names)) = {f entry | entry names. e = Some names \<and> entry \<in> set names \<and> P entry}"
    for e and f :: "str \<Rightarrow> path" and P
    by (cases e) auto
  show ?thesis unfolding expanded_def Let_def set_concat set_map image_image one joined_normal by blast
qed

lemma glob_matches_language:
  "glob_matches raw s \<longleftrightarrow> (starts_with ''.'' (lossy raw) \<longleftrightarrow> starts_with ''.'' s) \<and>
     chars_of (lossy raw) \<in> language ''*'' ''?'' (chars_of s)"
  by (simp add: glob_matches_def Let_def wildcard_matches_language)

text \<open>One turn of the loop, for a component and what was found so far.\<close>

lemma matching_loop_step:
  assumes "\<not> has_class c" "inner c \<or> found = [[]]"
  shows "\<exists>next. matching_loop fs whole (c # ps) found = matching_loop fs whole ps next \<and>
    set next = {base @ [d] | base d. base \<in> set found \<and> component_named fs base c d}"
proof (cases c)
  case (Normal raw)
  show ?thesis
  proof (cases "holds_wildcard (lossy raw)")
    case True
    with Normal assms show ?thesis
      by (intro exI[of _ "expanded fs found (lossy raw)"]) (auto simp: set_expanded glob_matches_language Let_def)
  next
    case False
    with Normal assms show ?thesis
      by (intro exI[of _ "map (\<lambda>candidate. joined candidate [Normal (lossy raw)]) found"]) (auto simp: Let_def)
  qed
next
  case ParentDir
  then show ?thesis
    by (intro exI[of _ "map (\<lambda>candidate. joined candidate [c]) found"]) (auto simp: joined_def)
qed (use assms in \<open>auto simp: joined_def\<close>)

lemma matching_loop_spec:
  assumes "list_all inner ps \<or> found = [[]] \<and> ps \<noteq> [] \<and> list_all inner (tl ps)"
  shows "case matching_loop fs whole ps found of
      Inl e \<Rightarrow> list_ex has_class ps \<and> arguments e = [whole]
    | Inr result \<Rightarrow> \<not> list_ex has_class ps \<and> set result = {base @ qs | base qs. base \<in> set found \<and> path_named fs base ps qs}"
  using assms
proof (induction ps arbitrary: found)
  case Nil
  then show ?case by (simp add: path_named_Nil)
next
  case (Cons c ps)
  have inner_ps: "list_all inner ps" "inner c \<or> found = [[]]" using Cons.prems by auto
  show ?case
  proof (cases "has_class c")
    case True
    then show ?thesis by (cases c) (simp_all add: Let_def)
  next
    case False
    from matching_loop_step[OF False inner_ps(2)] obtain step where step:
      "matching_loop fs whole (c # ps) found = matching_loop fs whole ps step"
      "set step = {base @ [d] | base d. base \<in> set found \<and> component_named fs base c d}" by blast
    have "{base @ qs | base qs. base \<in> set step \<and> path_named fs base ps qs} =
        {base @ qs | base qs. base \<in> set found \<and> path_named fs base (c # ps) qs}"
      unfolding step(2) path_named_Cons by (auto; metis append.assoc append_Cons append_Nil)
    with Cons.IH[of step] inner_ps(1) False show ?thesis unfolding step(1) by (auto split: sum.splits)
  qed
qed

lemma components_inner: "components s = [] \<or> list_all inner (components s) \<or> list_all inner (tl (components s))"
proof -
  have "list_all inner (map component_of ps)" for ps
    by (induction ps) (auto simp: component_of_def)
  then show ?thesis by (auto simp: components_def Let_def)
qed

lemma sorted_by_bytes:
  "sorted_wrt (\<lambda>l r. path_bytes l \<le> path_bytes r) (sort_by (\<lambda>l r. cmp_of (path_bytes l) (path_bytes r)) ps)"
  using sorted_sort_by_cmp_of[of "map path_bytes ps"] by (simp add: sorted_map flip: map_sort_by)

text \<open>
  C28.  A pattern is resolved to exactly the existing paths it names, sorted by their bytes, each wildcard
  standing for the entries of its directory that are in its language; a pattern with a bracket expression
  is refused, and nothing else is.
\<close>

theorem patterns_name_what_exists:
  "case matching fs whole (components s) of
      Inl e \<Rightarrow> list_ex has_class (components s) \<and> arguments e = [whole]
    | Inr found \<Rightarrow> \<not> list_ex has_class (components s) \<and>
        set found = {p. path_named fs [] (components s) p \<and> exists fs p} \<and>
        sorted_wrt (\<lambda>l r. path_bytes l \<le> path_bytes r) found"
proof -
  have "list_all inner (components s) \<or> [[]] = [[] :: path] \<and> components s \<noteq> [] \<and> list_all inner (tl (components s))"
    using components_inner[of s] by (cases "components s") auto
  from matching_loop_spec[OF this, where fs = fs and whole = whole] show ?thesis
    by (auto simp: matching_def sorted_by_bytes split: sum.splits)
qed

text \<open>A glob is told from a path by what it holds, and \<open>matching\<close> answers a path that is none with itself.\<close>

lemma literal_names_itself:
  assumes "\<not> is_pattern p" "list_all valid_utf8 (map component_text p)" "list_all inner p \<or> p \<noteq> [] \<and> list_all inner (tl p)"
  shows "path_named fs base p q \<longleftrightarrow> q = p"
proof -
  have one: "component_named fs b c d \<longleftrightarrow> d = c" if "\<not> component_is_pattern c" "valid_utf8 (component_text c)" for b c d
    using that by (cases c) (auto simp: Let_def)
  have "\<not> is_pattern ps \<Longrightarrow> list_all valid_utf8 (map component_text ps) \<Longrightarrow> path_named fs b ps qs \<longleftrightarrow> qs = ps" for b ps qs
    by (induction ps arbitrary: b qs) (auto simp: path_named_Nil path_named_Cons is_pattern_def one)
  with assms show ?thesis by blast
qed

end
