(* ===== verification/NginxSyntax.thy ===== *)
theory NginxSyntax
  imports Claims TextFields
begin

text \<open>
  nginx's configuration grammar (\<open>nginx/source/conf_syntax.rs\<close>): the characters of a file, read one token
  at a time, and the directives those make.  The two readers call each other; each call has taken a token
  off the text, and the fuel they are given, one more than the characters left, is enough.
\<close>

section \<open>Directives\<close>

datatype directive_name = DirectiveName (directive_name_text: non_empty_text)

definition directive_name_new :: "str \<Rightarrow> directive_name collected" where
  "directive_name_new v = map_ok DirectiveName (non_empty_text_new v ''directive name'')"

definition directive_name_str :: "directive_name \<Rightarrow> str" where
  "directive_name_str n = text_str (directive_name_text n)"

datatype directive_argument = DirectiveArgument (argument_str: str)

datatype directive = Directive (directive_name: directive_name) (directive_arguments: "directive_argument list")
  (directive_block: "directive list option")

section \<open>Characters taken\<close>

record tokens =
  characters_left :: "str list"
  at_line :: nat

definition tokens_new :: "str list \<Rightarrow> tokens" where
  "tokens_new characters = \<lparr>characters_left = characters, at_line = 1\<rparr>"

definition peek :: "tokens \<Rightarrow> str option" where
  "peek t = (case characters_left t of [] \<Rightarrow> None | c # _ \<Rightarrow> Some c)"

definition peek_after :: "tokens \<Rightarrow> str option" where
  "peek_after t = (case characters_left t of _ # d # _ \<Rightarrow> Some d | _ \<Rightarrow> None)"

definition take_char :: "tokens \<Rightarrow> (str \<times> tokens) option" where
  "take_char t = (case characters_left t of
      [] \<Rightarrow> None
    | c # cs \<Rightarrow> Some (c, \<lparr>characters_left = cs, at_line = (if c = [newline] then Suc (at_line t) else at_line t)\<rparr>))"

definition taken :: "tokens \<Rightarrow> tokens" where
  "taken t = (case take_char t of Some (_, u) \<Rightarrow> u | None \<Rightarrow> t)"

abbreviation left :: "tokens \<Rightarrow> nat" where
  "left t \<equiv> length (characters_left t)"

lemma take_char_left: "take_char t = Some (c, u) \<Longrightarrow> left t = Suc (left u)"
  by (auto simp: take_char_def split: list.splits)

lemma taken_left: "peek t = Some c \<Longrightarrow> left t = Suc (left (taken t))"
  by (auto simp: peek_def taken_def take_char_def split: list.splits)

definition backslash_char :: str where "backslash_char = [CHR 0x5C]"
definition double_quote :: str where "double_quote = [CHR 0x22]"
definition single_quote :: str where "single_quote = [CHR 0x27]"

definition escaped_char :: "str \<Rightarrow> str option" where
  "escaped_char c =
     (if c = double_quote then Some double_quote
      else if c = single_quote then Some single_quote
      else if c = backslash_char then Some backslash_char
      else if c = ''n'' then Some [newline]
      else if c = ''r'' then Some [carriage_return]
      else if c = ''t'' then Some [CHR 0x09]
      else None)"

definition escape_into :: "str \<Rightarrow> tokens \<Rightarrow> str \<times> tokens" where
  "escape_into into t =
     (case take_char t of
        None \<Rightarrow> (into @ backslash_char, t)
      | Some (c, u) \<Rightarrow> (case escaped_char c of
            Some plain \<Rightarrow> (into @ plain, u)
          | None \<Rightarrow> (into @ backslash_char @ c, u)))"

lemma escape_into_left: "escape_into v t = (w, u) \<Longrightarrow> left u \<le> left t"
  by (auto simp: escape_into_def dest: take_char_left split: option.splits prod.splits)

lemma escape_into_snd: "left (snd (escape_into v t)) \<le> left t"
  by (rule escape_into_left[of v t "fst (escape_into v t)"]) simp

section \<open>Tokens\<close>

datatype token = Word str | Terminator | BlockOpen | BlockClose

function skip_white :: "(str \<Rightarrow> bool) \<Rightarrow> tokens \<Rightarrow> tokens" where
  "skip_white skipped t = (case peek t of
      Some c \<Rightarrow> if skipped c then skip_white skipped (taken t) else t
    | None \<Rightarrow> t)"
  by pat_completeness auto
termination
  by (relation "measure (left \<circ> snd)") (auto dest: taken_left)

declare skip_white.simps [simp del]

lemma skip_white_left: "left (skip_white skipped t) \<le> left t"
proof (induction skipped t rule: skip_white.induct)
  case (1 skipped t)
  then show ?case by (subst skip_white.simps) (fastforce dest: taken_left split: option.split)
qed

lemma skip_comment_left: "peek t = Some ''#'' \<Longrightarrow> left (skip_white (\<lambda>c. c \<noteq> [newline]) t) < left t"
  using skip_white_left[of "\<lambda>c. c \<noteq> [newline]" "taken t"] taken_left[of t "''#''"]
  by (subst skip_white.simps) (simp add: newline_def)

function skip_blanks :: "tokens \<Rightarrow> tokens" where
  "skip_blanks t =
     (let u = skip_white is_whitespace t
      in if peek u = Some ''#'' then skip_blanks (skip_white (\<lambda>c. c \<noteq> [newline]) u) else u)"
  by pat_completeness auto
termination
  by (relation "measure left") (auto intro: less_le_trans[OF skip_comment_left skip_white_left])

declare skip_blanks.simps [simp del]

lemma skip_blanks_left: "left (skip_blanks t) \<le> left t"
proof (induction t rule: skip_blanks.induct)
  case (1 t)
  let ?u = "skip_white is_whitespace t"
  from 1 skip_white_left[of is_whitespace t] skip_comment_left[of ?u] show ?case
    by (subst skip_blanks.simps) (auto simp: Let_def)
qed

function quoted_loop :: "str \<Rightarrow> nat \<Rightarrow> str \<Rightarrow> tokens \<Rightarrow> (str \<times> tokens) collected" where
  "quoted_loop quote opened_at v t =
     (case take_char t of
        None \<Rightarrow> Inl (CollectionError ''the {quote} opened on line {opened_at} was never closed'' [quote, show_nat opened_at])
      | Some (c, u) \<Rightarrow>
          if c = quote then Inr (v, u)
          else if c = backslash_char then (case escape_into v u of (w, s) \<Rightarrow> quoted_loop quote opened_at w s)
          else quoted_loop quote opened_at (v @ c) u)"
  by pat_completeness auto
termination
  by (relation "measure (\<lambda>(q, n, v, t). left t)") (auto simp: case_prod_unfold less_Suc_eq_le escape_into_snd dest!: take_char_left)

declare quoted_loop.simps [simp del]

definition quoted :: "str \<Rightarrow> tokens \<Rightarrow> (str \<times> tokens) collected" where
  "quoted quote t = quoted_loop quote (at_line t) [] (taken t)"

definition delimiters :: "str list" where
  "delimiters = ['';'', ''{'', ''}'']"

function bare_loop :: "str \<Rightarrow> bool \<Rightarrow> tokens \<Rightarrow> str \<times> tokens" where
  "bare_loop v inside_variable t =
     (case peek t of
        None \<Rightarrow> (v, t)
      | Some c \<Rightarrow>
          if c = backslash_char then (case escape_into v (taken t) of (w, u) \<Rightarrow> bare_loop w inside_variable u)
          else if is_whitespace c then (v, t)
          else if inside_variable then bare_loop (v @ c) (c \<noteq> ''}'') (taken t)
          else if c = ''$'' \<and> peek_after t = Some ''{'' then bare_loop (v @ c) True (taken t)
          else if c \<in> set delimiters then (v, t)
          else bare_loop (v @ c) inside_variable (taken t))"
  by pat_completeness auto
termination
  by (relation "measure (\<lambda>(v, b, t). left t)") (auto dest!: taken_left escape_into_left[OF sym])

declare bare_loop.simps [simp del]

definition bare :: "tokens \<Rightarrow> str \<times> tokens" where
  "bare t = bare_loop [] False t"

definition next_token :: "tokens \<Rightarrow> ((token \<times> nat) option \<times> tokens) collected" where
  "next_token t =
     (let t = skip_blanks t
      in case peek t of
           None \<Rightarrow> Inr (None, t)
         | Some c \<Rightarrow>
             (let l = at_line t
              in if c = '';'' then Inr (Some (Terminator, l), taken t)
                 else if c = ''{'' then Inr (Some (BlockOpen, l), taken t)
                 else if c = ''}'' then Inr (Some (BlockClose, l), taken t)
                 else if c = double_quote \<or> c = single_quote
                 then map_ok (\<lambda>(w, u). (Some (Word w, l), u)) (quoted c t)
                 else (case bare t of (w, u) \<Rightarrow> Inr (Some (Word w, l), u))))"

lemma quoted_loop_left: "quoted_loop quote opened_at v t = Inr (w, u) \<Longrightarrow> left u < left t"
proof (induction quote opened_at v t rule: quoted_loop.induct)
  case (1 quote opened_at v t)
  show ?case
  proof (cases "take_char t")
    case None
    with "1.prems" show ?thesis by (simp add: quoted_loop.simps[of _ _ _ t])
  next
    case (Some p)
    obtain c s where p: "p = (c, s)" by fastforce
    with Some have shrinks: "left t = Suc (left s)" by (simp add: take_char_left)
    obtain x r where esc: "escape_into v s = (x, r)" by fastforce
    with "1.prems" "1.IH"(1)[OF Some p[symmetric] _ _ esc[symmetric]] "1.IH"(2)[OF Some p[symmetric]] Some p shrinks escape_into_left[OF esc]
    show ?thesis by (fastforce simp: quoted_loop.simps[of _ _ _ t] split: if_splits)
  qed
qed

lemma bare_loop_left: "bare_loop v inside_variable t = (w, u) \<Longrightarrow> left u \<le> left t"
proof (induction v inside_variable t rule: bare_loop.induct)
  case (1 v inside_variable t)
  show ?case
  proof (cases "peek t")
    case None
    with "1.prems" show ?thesis by (simp add: bare_loop.simps[of _ _ t])
  next
    case (Some c)
    obtain x r where esc: "escape_into v (taken t) = (x, r)" by fastforce
    note prems = "1.prems"[unfolded bare_loop.simps[of _ _ t]]
    from taken_left[OF Some] escape_into_left[OF esc] prems Some esc
      "1.IH"(1)[OF Some _ esc[symmetric]] "1.IH"(2-4)[OF Some]
    show ?thesis by (auto split: if_splits)
  qed
qed

lemma bare_left:
  assumes "bare t = (w, u)" "peek t = Some c" "\<not> is_whitespace c" "c \<notin> set delimiters"
  shows "left u < left t"
proof -
  obtain x r where esc: "escape_into [] (taken t) = (x, r)" by fastforce
  with assms taken_left[OF assms(2)] escape_into_left[OF esc] show ?thesis
    unfolding bare_def bare_loop.simps[of _ _ t] by (auto split: if_splits dest!: bare_loop_left)
qed

lemma skip_white_stops: "peek (skip_white skipped t) = Some c \<Longrightarrow> \<not> skipped c"
proof (induction skipped t rule: skip_white.induct)
  case (1 skipped t)
  then show ?case by (cases "peek t") (simp_all add: skip_white.simps[of _ t] split: if_splits)
qed

lemma skip_blanks_stops: "peek (skip_blanks t) = Some c \<Longrightarrow> \<not> is_whitespace c \<and> c \<noteq> ''#''"
proof (induction t rule: skip_blanks.induct)
  case (1 t)
  then show ?case
    by (cases "peek (skip_white is_whitespace t) = Some ''#''")
      (simp_all add: skip_blanks.simps[of t] Let_def skip_white_stops)
qed

text \<open>A token takes at least one character off.\<close>

lemma next_token_left: "next_token t = Inr (Some x, u) \<Longrightarrow> left u < left t"
proof -
  let ?t = "skip_blanks t"
  assume eq: "next_token t = Inr (Some x, u)"
  then obtain c where c: "peek ?t = Some c" by (cases "peek ?t") (auto simp: next_token_def Let_def)
  have "left u < left ?t"
    using eq c skip_blanks_stops[OF c] taken_left[OF c] bare_left[OF _ c]
    by (auto simp: next_token_def Let_def map_ok_Inr_iff quoted_def delimiters_def dest!: quoted_loop_left split: if_splits prod.splits)
  then show ?thesis using skip_blanks_left[of t] by simp
qed

section \<open>The two readers\<close>

fun read_directives :: "nat \<Rightarrow> nat option \<Rightarrow> directive list \<Rightarrow> tokens \<Rightarrow> (directive list \<times> tokens) collected option"
  and read_directive :: "nat \<Rightarrow> directive_name \<Rightarrow> nat \<Rightarrow> directive_argument list \<Rightarrow> tokens \<Rightarrow> (directive \<times> tokens) collected option" where
  "read_directives 0 opened_at directives t = None"
| "read_directives (Suc fuel) opened_at directives t =
     (case next_token t of
        Inl e \<Rightarrow> Some (Inl e)
      | Inr (None, t) \<Rightarrow> (case opened_at of
            Some l \<Rightarrow> Some (Inl (CollectionError ''a block opened on line {line} was never closed'' [show_nat l]))
          | None \<Rightarrow> Some (Inr (directives, t)))
      | Inr (Some (BlockClose, l), t) \<Rightarrow> (case opened_at of
            Some _ \<Rightarrow> Some (Inr (directives, t))
          | None \<Rightarrow> Some (Inl (CollectionError ''the `}}` on line {} closes a block that was never opened'' [show_nat l])))
      | Inr (Some (Terminator, l), t) \<Rightarrow> Some (Inl (CollectionError ''the `;` on line {} terminates no directive'' [show_nat l]))
      | Inr (Some (BlockOpen, l), t) \<Rightarrow> Some (Inl (CollectionError ''the `{{` on line {} opens a block that no directive names'' [show_nat l]))
      | Inr (Some (Word w, l), t) \<Rightarrow> (case directive_name_new w of
            Inl e \<Rightarrow> Some (Inl e)
          | Inr named \<Rightarrow> (case read_directive fuel named l [] t of
                None \<Rightarrow> None
              | Some (Inl e) \<Rightarrow> Some (Inl e)
              | Some (Inr (d, t)) \<Rightarrow> read_directives fuel opened_at (directives @ [d]) t)))"
| "read_directive 0 named l given t = None"
| "read_directive (Suc fuel) named l given t =
     (case next_token t of
        Inl e \<Rightarrow> Some (Inl e)
      | Inr (None, t) \<Rightarrow> Some (Inl (CollectionError ''{} on line {line} reaches the end of the file with no `;` and no block''
            [directive_name_str named, show_nat l]))
      | Inr (Some (Word w, _), t) \<Rightarrow> read_directive fuel named l (given @ [DirectiveArgument w]) t
      | Inr (Some (Terminator, _), t) \<Rightarrow> Some (Inr (Directive named given None, t))
      | Inr (Some (BlockOpen, opened), t) \<Rightarrow> (case read_directives fuel (Some opened) [] t of
            None \<Rightarrow> None
          | Some (Inl e) \<Rightarrow> Some (Inl e)
          | Some (Inr (block, t)) \<Rightarrow> Some (Inr (Directive named given (Some block), t)))
      | Inr (Some (BlockClose, closed_at), t) \<Rightarrow> Some (Inl (CollectionError ''{} on line {line} is closed by the `}}` on line {} rather than terminated''
            [directive_name_str named, show_nat l, show_nat closed_at])))"

definition conf_parse :: "str \<Rightarrow> directive list collected option" where
  "conf_parse s = (let characters = chars_of s
     in map_option (map_ok fst) (read_directives (Suc (length characters)) None [] (tokens_new characters)))"

section \<open>The fuel is enough\<close>

declare read_directives.simps(2) [simp del] read_directive.simps(2) [simp del]

lemmas readers = read_directives.simps(2) read_directive.simps(2)
lemmas reader_splits = sum.splits option.splits prod.splits token.splits

lemma next_token_end: "next_token t = Inr (None, u) \<Longrightarrow> left u \<le> left t"
  using skip_blanks_left[of t]
  by (auto simp: next_token_def Let_def map_ok_Inr_iff split: option.splits if_splits prod.splits)

lemma next_token_cases:
  obtains (refused) e where "next_token t = Inl e"
  | (ended) u where "next_token t = Inr (None, u)"
  | (word) w l u where "next_token t = Inr (Some (Word w, l), u)" "left u < left t"
  | (terminator) l u where "next_token t = Inr (Some (Terminator, l), u)" "left u < left t"
  | (opens) l u where "next_token t = Inr (Some (BlockOpen, l), u)" "left u < left t"
  | (closes) l u where "next_token t = Inr (Some (BlockClose, l), u)" "left u < left t"
proof (cases "next_token t")
  case (Inr x)
  obtain tok u where x: "x = (tok, u)" by fastforce
  show ?thesis
  proof (cases tok)
    case None
    with ended Inr x show ?thesis by simp
  next
    case (Some y)
    obtain k l where y: "y = (k, l)" by fastforce
    have "next_token t = Inr (Some (k, l), u)" using Inr x Some y by simp
    with next_token_left[OF this] word terminator opens closes show ?thesis by (cases k) auto
  qed
qed (rule refused)

lemma readers_left_all:
  "(\<forall>t opened ds r u. read_directives n opened ds t = Some (Inr (r, u)) \<longrightarrow> left u \<le> left t) \<and>
   (\<forall>t named l given d u. read_directive n named l given t = Some (Inr (d, u)) \<longrightarrow> left u \<le> left t)"
proof (induction n)
  case (Suc n)
  have "left u \<le> left t" if "read_directives (Suc n) opened ds t = Some (Inr (r, u))" for t opened ds r u
  proof (cases t rule: next_token_cases)
    case (ended s)
    with that next_token_end[OF ended] show ?thesis by (simp add: readers split: option.splits)
  next
    case (word w l s)
    with that obtain named d v where read: "read_directive n named l [] s = Some (Inr (d, v))"
      "read_directives n opened (ds @ [d]) v = Some (Inr (r, u))"
      by (auto simp: readers split: sum.splits option.splits prod.splits)
    from read(1) Suc have "left v \<le> left s" by blast
    moreover from read(2) Suc have "left u \<le> left v" by blast
    ultimately show ?thesis using word(2) by simp
  qed (use that in \<open>auto simp: readers split: option.splits\<close>)
  moreover have "left u \<le> left t" if "read_directive (Suc n) named l given t = Some (Inr (d, u))" for t named l given d u
  proof (cases t rule: next_token_cases)
    case (word w k s)
    with that have "read_directive n named l (given @ [DirectiveArgument w]) s = Some (Inr (d, u))" by (simp add: readers)
    with Suc have "left u \<le> left s" by blast
    with word(2) show ?thesis by simp
  next
    case (opens k s)
    with that obtain block where "read_directives n (Some k) [] s = Some (Inr (block, u))"
      by (auto simp: readers split: sum.splits option.splits prod.splits)
    with Suc have "left u \<le> left s" by blast
    with opens(2) show ?thesis by simp
  qed (use that in \<open>auto simp: readers\<close>)
  ultimately show ?case by blast
qed simp

lemma readers_left:
  "read_directives n opened ds t = Some (Inr (r, u)) \<Longrightarrow> left u \<le> left t"
  "read_directive n named l given t = Some (Inr (d, u)) \<Longrightarrow> left u \<le> left t"
  using readers_left_all by blast+

lemma readers_enough:
  "(\<forall>t opened ds. left t < n \<longrightarrow> read_directives n opened ds t \<noteq> None) \<and>
   (\<forall>t named l given. left t < n \<longrightarrow> read_directive n named l given t \<noteq> None)"
proof (induction n)
  case (Suc n)
  have "read_directives (Suc n) opened ds t \<noteq> None" if "left t < Suc n" for t opened ds
  proof (cases t rule: next_token_cases)
    case (word w l u)
    show ?thesis
    proof (cases "directive_name_new w")
      case (Inr named)
      from word(2) that have "left u < n" by simp
      with Suc have "read_directive n named l [] u \<noteq> None" by blast
      then obtain r where r: "read_directive n named l [] u = Some r" by blast
      show ?thesis
      proof (cases r)
        case (Inr p)
        obtain d s where p: "p = (d, s)" by fastforce
        have "left s \<le> left u" using r Inr p by (simp add: readers_left)
        with word(2) that have "left s < n" by simp
        with Suc have "read_directives n opened (ds @ [d]) s \<noteq> None" by blast
        with word(1) \<open>directive_name_new w = Inr named\<close> r Inr p show ?thesis by (simp add: readers)
      qed (use word(1) Inr r in \<open>simp add: readers\<close>)
    qed (use word(1) in \<open>simp add: readers\<close>)
  qed (simp_all add: readers split: option.split)
  moreover have "read_directive (Suc n) named l given t \<noteq> None" if "left t < Suc n" for t named l given
  proof (cases t rule: next_token_cases)
    case (word w k u)
    with that have "left u < n" by simp
    with Suc have "read_directive n named l (given @ [DirectiveArgument w]) u \<noteq> None" by blast
    with word(1) show ?thesis by (simp add: readers)
  next
    case (opens k u)
    with that have "left u < n" by simp
    with Suc have "read_directives n (Some k) [] u \<noteq> None" by blast
    then obtain r where "read_directives n (Some k) [] u = Some r" by blast
    with opens(1) show ?thesis by (cases r) (simp_all add: readers split: prod.split)
  qed (simp_all add: readers)
  ultimately show ?case by blast
qed simp

lemma readers_more_fuel:
  "(\<forall>m t opened ds r. read_directives n opened ds t = Some r \<and> n \<le> m \<longrightarrow> read_directives m opened ds t = Some r) \<and>
   (\<forall>m t named l given q. read_directive n named l given t = Some q \<and> n \<le> m \<longrightarrow> read_directive m named l given t = Some q)"
proof (induction n)
  case (Suc n)
  have "read_directives m opened ds t = Some r" if "read_directives (Suc n) opened ds t = Some r" "Suc n \<le> m" for m t opened ds r
  proof -
    from that(2) obtain k where m: "m = Suc k" "n \<le> k" by (cases m) auto
    show ?thesis
    proof (cases t rule: next_token_cases)
      case (word w l u)
      show ?thesis
      proof (cases "directive_name_new w")
        case (Inr named)
        with that(1) word(1) obtain q where q: "read_directive n named l [] u = Some q" by (auto simp: readers split: option.splits)
        with Suc m(2) have k: "read_directive k named l [] u = Some q" by blast
        show ?thesis
        proof (cases q)
          case (Inr p)
          obtain d s where p: "p = (d, s)" by fastforce
          with that(1) word(1) \<open>directive_name_new w = Inr named\<close> q Inr
          have "read_directives n opened (ds @ [d]) s = Some r" by (simp add: readers)
          with Suc m(2) have "read_directives k opened (ds @ [d]) s = Some r" by blast
          with word(1) \<open>directive_name_new w = Inr named\<close> k Inr p m(1) show ?thesis by (simp add: readers)
        qed (use that(1) word(1) Inr q k m(1) in \<open>simp add: readers\<close>)
      qed (use word(1) that(1) m in \<open>simp add: readers\<close>)
    qed (use that(1) m in \<open>simp_all add: readers\<close>)
  qed
  moreover have "read_directive m named l given t = Some q" if "read_directive (Suc n) named l given t = Some q" "Suc n \<le> m" for m t named l given q
  proof -
    from that(2) obtain k where m: "m = Suc k" "n \<le> k" by (cases m) auto
    show ?thesis
    proof (cases t rule: next_token_cases)
      case (word w j u)
      with that(1) have "read_directive n named l (given @ [DirectiveArgument w]) u = Some q" by (simp add: readers)
      with Suc m(2) have "read_directive k named l (given @ [DirectiveArgument w]) u = Some q" by blast
      with word(1) m(1) show ?thesis by (simp add: readers)
    next
      case (opens j u)
      with that(1) obtain r where r: "read_directives n (Some j) [] u = Some r" by (auto simp: readers split: option.splits)
      with Suc m(2) have "read_directives k (Some j) [] u = Some r" by blast
      with that(1) opens(1) r m show ?thesis by (simp add: readers)
    qed (use that(1) m in \<open>simp_all add: readers\<close>)
  qed
  ultimately show ?case by blast
qed simp

text \<open>The readers with the fuel they need, and their equations.\<close>

definition read_block :: "nat option \<Rightarrow> directive list \<Rightarrow> tokens \<Rightarrow> (directive list \<times> tokens) collected option" where
  "read_block opened ds t = read_directives (Suc (left t)) opened ds t"

definition read_rest :: "directive_name \<Rightarrow> nat \<Rightarrow> directive_argument list \<Rightarrow> tokens \<Rightarrow> (directive \<times> tokens) collected option" where
  "read_rest named l given t = read_directive (Suc (left t)) named l given t"

lemma read_directives_block: "left t < n \<Longrightarrow> read_directives n opened ds t = read_block opened ds t"
  unfolding read_block_def using readers_enough[of "Suc (left t)"] readers_more_fuel[of "Suc (left t)"] by (metis Suc_leI lessI not_None_eq)

lemma read_directive_rest: "left t < n \<Longrightarrow> read_directive n named l given t = read_rest named l given t"
  unfolding read_rest_def using readers_enough[of "Suc (left t)"] readers_more_fuel[of "Suc (left t)"] by (metis Suc_leI lessI not_None_eq)

lemma read_block_end: "next_token t = Inr (None, u) \<Longrightarrow> read_block None ds t = Some (Inr (ds, u))"
  by (simp add: read_block_def readers)

lemma read_block_close: "next_token t = Inr (Some (BlockClose, l), u) \<Longrightarrow> read_block (Some opened) ds t = Some (Inr (ds, u))"
  by (simp add: read_block_def readers)

lemma read_block_directive:
  assumes "next_token t = Inr (Some (Word w, l), u)" "directive_name_new w = Inr named" "read_rest named l [] u = Some (Inr (d, s))"
  shows "read_block opened ds t = read_block opened (ds @ [d]) s"
proof -
  have u: "left u < left t" using next_token_left[OF assms(1)] .
  have "left s \<le> left u" using readers_left(2)[OF assms(3)[unfolded read_rest_def]] .
  with u show ?thesis
    using assms unfolding read_block_def[of opened ds t]
    by (simp add: readers read_directive_rest read_directives_block)
qed

lemma read_rest_word:
  "next_token t = Inr (Some (Word w, k), u) \<Longrightarrow> read_rest named l given t = read_rest named l (given @ [DirectiveArgument w]) u"
  using next_token_left[of t "(Word w, k)" u] unfolding read_rest_def[of named l given t]
  by (simp add: readers read_directive_rest)

lemma read_rest_terminator:
  "next_token t = Inr (Some (Terminator, k), u) \<Longrightarrow> read_rest named l given t = Some (Inr (Directive named given None, u))"
  by (simp add: read_rest_def readers)

lemma read_rest_block:
  assumes "next_token t = Inr (Some (BlockOpen, k), u)" "read_block (Some k) [] u = Some (Inr (ds, s))"
  shows "read_rest named l given t = Some (Inr (Directive named given (Some ds), s))"
  using assms next_token_left[OF assms(1)] by (simp add: read_rest_def readers read_directives_block)

lemma conf_parse_total: "conf_parse s \<noteq> None"
  using readers_enough[of "Suc (length (chars_of s))"]
  by (simp add: conf_parse_def Let_def tokens_new_def)

end
