(* ===== verification/NginxText.thy ===== *)
theory NginxText
  imports NginxSyntax
begin

text \<open>
  A configuration written with every word quoted, and the law that it is read back as it was, whatever
  the names and arguments hold.
\<close>

section \<open>Characters of a text that is whole\<close>

definition whole_chars :: "str list \<Rightarrow> bool" where
  "whole_chars cs \<longleftrightarrow> valid_utf8 (concat cs) \<and> chars_of (concat cs) = cs"

lemma whole_Nil [simp]: "whole_chars []"
  by (simp add: whole_chars_def)

lemma whole_append: "whole_chars a \<Longrightarrow> whole_chars b \<Longrightarrow> whole_chars (a @ b)"
  by (simp add: whole_chars_def chars_of_append valid_utf8_append)

lemma whole_Cons: "whole_chars [c] \<Longrightarrow> whole_chars cs \<Longrightarrow> whole_chars (c # cs)"
  using whole_append[of "[c]" cs] by simp

lemma whole_concat: "(\<And>x. x \<in> set xs \<Longrightarrow> whole_chars (f x)) \<Longrightarrow> whole_chars (concat (map f xs))"
  by (induction xs) (auto intro: whole_append)

lemma whole_ascii: "between 0 127 c \<Longrightarrow> whole_chars [[c]]"
  by (simp add: whole_chars_def chars_of_ascii_Cons valid_utf8.simps(2)[of c "[]"])

lemma char_whole: "valid_utf8 w \<Longrightarrow> c \<in> set (chars_of w) \<Longrightarrow> whole_chars [c]"
proof (induction w rule: chars_of.induct)
  case (2 a rest)
  let ?c = "take (utf8_width a) (a # rest)"
  obtain n where n: "utf8_width a = Suc n" using utf8_width_pos[of a] by (cases "utf8_width a") auto
  have "valid_utf8 ?c" using valid_utf8_char[OF "2.prems"(1), of "[]"] by simp
  moreover have "chars_of ?c = [?c]" by (simp add: n chars_of.simps(2))
  ultimately have "whole_chars [?c]" by (simp add: whole_chars_def)
  with 2 valid_utf8_first(2)[OF "2.prems"(1)] show ?case by (auto simp: chars_of.simps(2)[of a rest])
qed simp

section \<open>Words written\<close>

abbreviation Unread :: "str list \<Rightarrow> nat \<Rightarrow> tokens" where
  "Unread cs l \<equiv> \<lparr>characters_left = cs, at_line = l\<rparr>"

definition escape_char :: "str \<Rightarrow> str list" where
  "escape_char c = (if c = double_quote \<or> c = backslash_char then [backslash_char, c] else [c])"

definition word_chars :: "str \<Rightarrow> str list" where
  "word_chars w = double_quote # concat (map escape_char (chars_of w)) @ [double_quote]"

fun directive_chars :: "directive \<Rightarrow> str list" where
  "directive_chars (Directive named given block) =
     word_chars (directive_name_str named) @ concat (map (\<lambda>a. '' '' # word_chars (argument_str a)) given) @
     (case block of None \<Rightarrow> ['';''] | Some ds \<Rightarrow> ''{'' # concat (map directive_chars ds) @ [''}''])"

definition conf_text :: "directive list \<Rightarrow> str" where
  "conf_text ds = concat (concat (map directive_chars ds))"

fun directive_ok :: "directive \<Rightarrow> bool" where
  "directive_ok (Directive named given block) \<longleftrightarrow>
     directive_name_str named \<noteq> [] \<and> valid_utf8 (directive_name_str named) \<and> list_all (\<lambda>a. valid_utf8 (argument_str a)) given \<and>
     (case block of None \<Rightarrow> True | Some ds \<Rightarrow> list_all directive_ok ds)"

lemma take_char_Text [simp]:
  "take_char (Unread (c # cs) l) = Some (c, Unread cs (if c = [newline] then Suc l else l))" "take_char (Unread [] l) = None"
  "peek (Unread (c # cs) l) = Some c" "peek (Unread [] l) = None"
  "taken (Unread (c # cs) l) = Unread cs (if c = [newline] then Suc l else l)"
  by (simp_all add: take_char_def peek_def taken_def)

lemma quoted_loop_word:
  "\<exists>k. quoted_loop double_quote n v (Unread (concat (map escape_char cs) @ double_quote # rest) l) = Inr (v @ concat cs, Unread rest k)"
proof (induction cs arbitrary: v l)
  case Nil
  show ?case by (simp add: quoted_loop.simps)
next
  case (Cons c cs)
  show ?case
  proof (cases "c = double_quote \<or> c = backslash_char")
    case True
    then have "escaped_char c = Some c" by (auto simp: escaped_char_def)
    with True Cons[of "v @ c"] show ?thesis
      by (auto simp: escape_char_def quoted_loop.simps[of _ _ v] escape_into_def backslash_char_def double_quote_def newline_def)
  next
    case False
    with Cons[of "v @ c"] show ?thesis by (simp add: escape_char_def quoted_loop.simps[of _ _ v])
  qed
qed

lemma skip_blanks_here: "\<not> is_whitespace c \<Longrightarrow> c \<noteq> ''#'' \<Longrightarrow> skip_blanks (Unread (c # cs) l) = Unread (c # cs) l"
  by (simp add: skip_blanks.simps skip_white.simps Let_def)

lemma space_is_white: "is_whitespace '' ''" "\<not> is_whitespace double_quote" "\<not> is_whitespace '';''"
  "\<not> is_whitespace ''{''" "\<not> is_whitespace ''}''"
  by (simp_all add: is_whitespace_def double_quote_def)

lemma skip_blanks_space:
  "\<not> is_whitespace c \<Longrightarrow> c \<noteq> ''#'' \<Longrightarrow> skip_blanks (Unread ('' '' # c # cs) l) = Unread (c # cs) l"
  by (simp add: skip_blanks.simps skip_white.simps[of _ "Unread ('' '' # c # cs) l"] skip_white.simps[of _ "Unread (c # cs) l"]
      Let_def space_is_white newline_def)

lemma next_token_word:
  "\<exists>k j. next_token (Unread (word_chars w @ rest) l) = Inr (Some (Word w, j), Unread rest k)"
  "\<exists>k j. next_token (Unread ('' '' # word_chars w @ rest) l) = Inr (Some (Word w, j), Unread rest k)"
  using quoted_loop_word[of l "[]" "chars_of w" rest l] space_is_white
  by (auto simp: next_token_def word_chars_def skip_blanks_here skip_blanks_space Let_def quoted_def double_quote_def newline_def)

lemma next_token_mark:
  "next_token (Unread ('';'' # rest) l) = Inr (Some (Terminator, l), Unread rest l)"
  "next_token (Unread (''{'' # rest) l) = Inr (Some (BlockOpen, l), Unread rest l)"
  "next_token (Unread (''}'' # rest) l) = Inr (Some (BlockClose, l), Unread rest l)"
  "next_token (Unread [] l) = Inr (None, Unread [] l)"
  by (simp_all add: next_token_def skip_blanks_here space_is_white Let_def newline_def)
    (simp add: skip_blanks.simps skip_white.simps Let_def)

section \<open>Directives read back\<close>

lemma read_rest_words:
  "\<exists>k. read_rest named n given (Unread (concat (map (\<lambda>a. '' '' # word_chars (argument_str a)) others) @ rest) l)
     = read_rest named n (given @ others) (Unread rest k)"
proof (induction others arbitrary: given l)
  case (Cons a others)
  let ?rest = "concat (map (\<lambda>a. '' '' # word_chars (argument_str a)) others) @ rest"
  from next_token_word(2)[of "argument_str a" ?rest l] obtain k j where
    "next_token (Unread ('' '' # word_chars (argument_str a) @ ?rest) l) = Inr (Some (Word (argument_str a), j), Unread ?rest k)" by blast
  from read_rest_word[OF this] Cons[of "given @ [a]" k] show ?case by simp
qed auto

definition reads_back :: "directive \<Rightarrow> bool" where
  "reads_back d \<longleftrightarrow> (\<forall>opened ds rest l. \<exists>k. read_block opened ds (Unread (directive_chars d @ rest) l) = read_block opened (ds @ [d]) (Unread rest k))"

lemma read_block_directives:
  "list_all reads_back es \<Longrightarrow>
   \<exists>k. read_block opened ds (Unread (concat (map directive_chars es) @ rest) l) = read_block opened (ds @ es) (Unread rest k)"
proof (induction es arbitrary: ds l)
  case (Cons e es)
  let ?rest = "concat (map directive_chars es) @ rest"
  from Cons.prems have "reads_back e" by simp
  then obtain k where "read_block opened ds (Unread (directive_chars e @ ?rest) l) = read_block opened (ds @ [e]) (Unread ?rest k)"
    unfolding reads_back_def by blast
  moreover from Cons obtain j where "read_block opened (ds @ [e]) (Unread ?rest k) = read_block opened ((ds @ [e]) @ es) (Unread rest j)"
    by fastforce
  ultimately show ?case by auto
qed auto

lemma directive_reads_back: "directive_ok d \<Longrightarrow> reads_back d"
proof (induction d)
  case (Directive named given block)
  have named: "directive_name_new (directive_name_str named) = Inr named"
    using Directive.prems
    by (cases named) (auto simp: directive_name_new_def directive_name_str_def non_empty_text_new_def non_empty_text.expand)
  show ?case
    unfolding reads_back_def
  proof (intro allI)
    fix opened ds rest l
    let ?tail = "(case block of None \<Rightarrow> ['';''] | Some ds \<Rightarrow> ''{'' # concat (map directive_chars ds) @ [''}'']) @ rest"
    let ?args = "concat (map (\<lambda>a. '' '' # word_chars (argument_str a)) given) @ ?tail"
    from next_token_word(1)[of "directive_name_str named" ?args l] obtain k n where
      word: "next_token (Unread (word_chars (directive_name_str named) @ ?args) l) = Inr (Some (Word (directive_name_str named), n), Unread ?args k)"
      by blast
    from read_rest_words[of named n "[]" given ?tail k] obtain j where
      args: "read_rest named n [] (Unread ?args k) = read_rest named n given (Unread ?tail j)" by auto
    have "\<exists>i. read_rest named n given (Unread ?tail j) = Some (Inr (Directive named given block, Unread rest i))"
    proof (cases block)
      case None
      then show ?thesis by (simp add: read_rest_terminator[OF next_token_mark(1)])
    next
      case (Some es)
      have "list_all reads_back es" using Directive Some by (simp add: list_all_iff)
      from read_block_directives[OF this, of "Some j" "[]" "''}'' # rest" j] obtain i where
        "read_block (Some j) [] (Unread (concat (map directive_chars es) @ ''}'' # rest) j) = read_block (Some j) es (Unread (''}'' # rest) i)"
        by auto
      then have "read_block (Some j) [] (Unread (concat (map directive_chars es) @ ''}'' # rest) j) = Some (Inr (es, Unread rest i))"
        by (simp add: read_block_close[OF next_token_mark(3)])
      from read_rest_block[OF next_token_mark(2) this] Some show ?thesis by auto
    qed
    then obtain i where "read_rest named n [] (Unread ?args k) = Some (Inr (Directive named given block, Unread rest i))"
      using args by auto
    from read_block_directive[OF word named this, of opened ds]
    show "\<exists>k. read_block opened ds (Unread (directive_chars (Directive named given block) @ rest) l)
        = read_block opened (ds @ [Directive named given block]) (Unread rest k)"
      by auto
  qed
qed

lemma escape_whole: "valid_utf8 w \<Longrightarrow> whole_chars (word_chars w)"
proof -
  assume w: "valid_utf8 w"
  have marks: "whole_chars [double_quote]" "whole_chars [backslash_char]"
    by (simp_all add: double_quote_def backslash_char_def whole_ascii between_def)
  have "whole_chars (escape_char c)" if "c \<in> set (chars_of w)" for c
    using char_whole[OF w that] marks by (simp add: escape_char_def whole_Cons)
  then have "whole_chars (concat (map escape_char (chars_of w)))" by (rule whole_concat)
  then show ?thesis unfolding word_chars_def by (intro whole_Cons[OF marks(1)] whole_append marks(1))
qed

lemma directive_whole: "directive_ok d \<Longrightarrow> whole_chars (directive_chars d)"
proof (induction d)
  case (Directive named given block)
  have marks: "whole_chars ['' '']" "whole_chars ['';'']" "whole_chars [''{'']" "whole_chars [''}'']"
    by (simp_all add: whole_ascii between_def)
  have "whole_chars (concat (map (\<lambda>a. '' '' # word_chars (argument_str a)) given))"
    using Directive.prems by (intro whole_concat whole_Cons[OF marks(1)] escape_whole) (auto simp: list_all_iff)
  moreover have "whole_chars (word_chars (directive_name_str named))" using Directive.prems by (simp add: escape_whole)
  moreover have "whole_chars (case block of None \<Rightarrow> ['';''] | Some ds \<Rightarrow> ''{'' # concat (map directive_chars ds) @ [''}''])"
  proof (cases block)
    case (Some ds)
    then have "whole_chars (concat (map directive_chars ds))" using Directive by (intro whole_concat) (simp add: list_all_iff)
    with Some marks show ?thesis by (simp add: whole_Cons whole_append)
  qed (simp add: marks)
  ultimately show ?case by (simp add: whole_append)
qed

text \<open>
  C29.  An nginx configuration written out, every name and argument quoted and its quotes and backslashes
  escaped, is read back as the directives it was written from, at every depth of nesting.
\<close>

theorem configuration_round_trip:
  assumes "list_all directive_ok ds"
  shows "conf_parse (conf_text ds) = Some (Inr ds)"
proof -
  let ?cs = "concat (map directive_chars ds)"
  have "list_all reads_back ds" using assms by (simp add: list_all_iff directive_reads_back)
  from read_block_directives[OF this, of None "[]" "[]" 1] obtain k where
    "read_block None [] (Unread ?cs 1) = read_block None ds (Unread [] k)" by auto
  then have block: "read_block None [] (Unread ?cs 1) = Some (Inr (ds, Unread [] k))"
    by (simp add: read_block_end[OF next_token_mark(4)])
  have "whole_chars ?cs" using assms by (intro whole_concat directive_whole) (simp add: list_all_iff)
  then have "chars_of (conf_text ds) = ?cs" by (simp add: whole_chars_def conf_text_def)
  with block show ?thesis by (simp add: conf_parse_def Let_def tokens_new_def read_block_def)
qed

definition example_directives :: "directive list" where
  "example_directives =
     [Directive (DirectiveName (NonEmptyText ''http'')) []
        (Some [Directive (DirectiveName (NonEmptyText ''add_header'')) [DirectiveArgument ''X-Empty'', DirectiveArgument []] None,
               Directive (DirectiveName (NonEmptyText ''return'')) [DirectiveArgument ([CHR 0x5C] @ ''{;'' @ [CHR 0x22])] None])]"

theorem configuration_round_trip_witness:
  "conf_parse (conf_text example_directives) = Some (Inr example_directives)"
  by (rule configuration_round_trip)
    (simp add: example_directives_def directive_name_str_def valid_utf8.simps between_def)

end
