(* ===== verification/NginxModel.thy ===== *)
theory NginxModel
  imports NginxSyntax FileEntry
begin

text \<open>
  What the nginx collector says of a configuration (\<open>nginx/model\<close>, \<open>nginx/value_objects\<close> and the value
  objects of \<open>inet\<close>): the values, their orders, and the observation each becomes.  The canonical form a
  file's digest is taken of tells any two configurations apart.
\<close>

section \<open>Values\<close>

datatype inet_host = InetHost (inet_host_text: non_empty_text)

definition inet_host_new :: "str \<Rightarrow> inet_host collected" where
  "inet_host_new v = map_ok InetHost (non_empty_text_new v ''socket address'')"

definition inet_host_str :: "inet_host \<Rightarrow> str" where
  "inet_host_str x = text_str (inet_host_text x)"

datatype address_pattern = AddressPattern (address_pattern_text: non_empty_text)

definition address_pattern_new :: "str \<Rightarrow> address_pattern collected" where
  "address_pattern_new v = map_ok AddressPattern (non_empty_text_new v ''address pattern'')"

definition address_pattern_str :: "address_pattern \<Rightarrow> str" where
  "address_pattern_str x = text_str (address_pattern_text x)"

datatype listen_option = ListenOption (listen_option_text: non_empty_text)

definition listen_option_new :: "str \<Rightarrow> listen_option collected" where
  "listen_option_new v = map_ok ListenOption (non_empty_text_new v ''listen option'')"

definition listen_option_str :: "listen_option \<Rightarrow> str" where
  "listen_option_str x = text_str (listen_option_text x)"

datatype location_pattern = LocationPattern (location_pattern_text: non_empty_text)

definition location_pattern_new :: "str \<Rightarrow> location_pattern collected" where
  "location_pattern_new v = map_ok LocationPattern (non_empty_text_new v ''location pattern'')"

definition location_pattern_str :: "location_pattern \<Rightarrow> str" where
  "location_pattern_str x = text_str (location_pattern_text x)"

datatype server_name = ServerName (server_name_text: non_empty_text)

definition server_name_new :: "str \<Rightarrow> server_name collected" where
  "server_name_new v = map_ok ServerName (non_empty_text_new v ''server name'')"

definition server_name_str :: "server_name \<Rightarrow> str" where
  "server_name_str x = text_str (server_name_text x)"

datatype server_parameter = ServerParameter (server_parameter_text: non_empty_text)

definition server_parameter_new :: "str \<Rightarrow> server_parameter collected" where
  "server_parameter_new v = map_ok ServerParameter (non_empty_text_new v ''upstream server parameter'')"

definition server_parameter_str :: "server_parameter \<Rightarrow> str" where
  "server_parameter_str x = text_str (server_parameter_text x)"

datatype upstream_name = UpstreamName (upstream_name_text: non_empty_text)

definition upstream_name_new :: "str \<Rightarrow> upstream_name collected" where
  "upstream_name_new v = map_ok UpstreamName (non_empty_text_new v ''upstream name'')"

definition upstream_name_str :: "upstream_name \<Rightarrow> str" where
  "upstream_name_str x = text_str (upstream_name_text x)"

datatype port_number = PortNumber (port_word: "16 word")

definition port_number_parse :: "str \<Rightarrow> port_number collected" where
  "port_number_parse v = (case parse_unsigned 16 v of
      Some n \<Rightarrow> Inr (PortNumber (word_of_nat n))
    | None \<Rightarrow> Inl (CollectionError ''{value:?} is not a port number'' [v]))"

definition port_number_observed :: "port_number \<Rightarrow> observation" where
  "port_number_observed p = integer (ucast (port_word p))"

definition is_a_wildcard :: "inet_host \<Rightarrow> bool" where
  "is_a_wildcard h \<longleftrightarrow> inet_host_str h = ''0.0.0.0'' \<or> inet_host_str h = ''::''"

datatype endpoint = Inet "inet_host option" "port_number option" | Unix absolute_path

definition port_of :: "str option \<Rightarrow> port_number option collected" where
  "port_of v = (case v of
      Some port \<Rightarrow> if port = [] then Inr None else map_ok Some (port_number_parse port)
    | None \<Rightarrow> Inr None)"

definition endpoint_bare :: "str \<Rightarrow> endpoint collected" where
  "endpoint_bare v =
     (if list_all is_ascii_digit v then map_ok (Inet None) (port_of (Some v))
      else map_ok (\<lambda>h. Inet (Some h) None) (inet_host_new v))"

definition unix_prefix :: str where
  "unix_prefix = ''unix:''"

definition endpoint_new :: "str \<Rightarrow> endpoint collected" where
  "endpoint_new v = (case strip_prefix unix_prefix v of
      Some path \<Rightarrow> map_ok Unix (absolute_path_new path ''nginx socket path'')
    | None \<Rightarrow> (case strip_prefix ''['' v of
          Some rest \<Rightarrow> (case split_once (CHR '']'') rest of
              None \<Rightarrow> Inl (CollectionError ''{value:?} opens an IPv6 address and never closes it'' [v])
            | Some (host, after) \<Rightarrow> and_then (inet_host_new host) (\<lambda>h. map_ok (Inet (Some h)) (port_of (strip_prefix '':'' after))))
        | None \<Rightarrow> (case split_once (CHR '':'') v of
              Some (host, port) \<Rightarrow> and_then (inet_host_new host) (\<lambda>h. map_ok (Inet (Some h)) (port_of (Some port)))
            | None \<Rightarrow> endpoint_bare v)))"

definition observed_or_null :: "('a \<Rightarrow> observation) \<Rightarrow> 'a option \<Rightarrow> observation" where
  "observed_or_null f v = (case v of Some x \<Rightarrow> f x | None \<Rightarrow> null)"

fun endpoint_observed :: "endpoint \<Rightarrow> observation" where
  "endpoint_observed (Inet host port) = object
     [(''host'', observed_or_null (\<lambda>h. text_of (inet_host_str h)) host), (''port'', observed_or_null port_number_observed port)]"
| "endpoint_observed (Unix path) = object [(''socket'', text_of (path_str path))]"

datatype log_kind = AccessLog | ErrorLog

fun log_kind_str :: "log_kind \<Rightarrow> str" where
  "log_kind_str AccessLog = ''access_log''"
| "log_kind_str ErrorLog = ''error_log''"

definition log_kind_of :: "str \<Rightarrow> log_kind option" where
  "log_kind_of s = (if s = ''access_log'' then Some AccessLog else if s = ''error_log'' then Some ErrorLog else None)"

datatype pass_kind = Proxy | FastCgi | Uwsgi | Scgi | Grpc

fun pass_kind_str :: "pass_kind \<Rightarrow> str" where
  "pass_kind_str Proxy = ''proxy_pass''"
| "pass_kind_str FastCgi = ''fastcgi_pass''"
| "pass_kind_str Uwsgi = ''uwsgi_pass''"
| "pass_kind_str Scgi = ''scgi_pass''"
| "pass_kind_str Grpc = ''grpc_pass''"

definition pass_kind_of :: "str \<Rightarrow> pass_kind option" where
  "pass_kind_of s = find (\<lambda>k. pass_kind_str k = s) [Proxy, FastCgi, Uwsgi, Scgi, Grpc]"

datatype permission = Allow | Deny

fun permission_str :: "permission \<Rightarrow> str" where
  "permission_str Allow = ''allow''"
| "permission_str Deny = ''deny''"

definition permission_of :: "str \<Rightarrow> permission option" where
  "permission_of s = (if s = ''allow'' then Some Allow else if s = ''deny'' then Some Deny else None)"

datatype password_scheme = Apr1 | Bcrypt | ShaCrypt | Sha1 | Unrecognised

definition password_scheme_of :: "str \<Rightarrow> password_scheme" where
  "password_scheme_of v =
     (if starts_with ''$apr1$'' v then Apr1
      else if starts_with ''$2a$'' v \<or> starts_with ''$2b$'' v \<or> starts_with ''$2y$'' v then Bcrypt
      else if starts_with ''$5$'' v \<or> starts_with ''$6$'' v then ShaCrypt
      else if starts_with ''{SHA}'' v then Sha1
      else Unrecognised)"

fun is_salted :: "password_scheme \<Rightarrow> bool" where
  "is_salted Apr1 = True"
| "is_salted Bcrypt = True"
| "is_salted ShaCrypt = True"
| "is_salted Sha1 = False"
| "is_salted Unrecognised = False"

fun password_scheme_str :: "password_scheme \<Rightarrow> str" where
  "password_scheme_str Apr1 = ''apr1''"
| "password_scheme_str Bcrypt = ''bcrypt''"
| "password_scheme_str ShaCrypt = ''sha-crypt''"
| "password_scheme_str Sha1 = ''sha1''"
| "password_scheme_str Unrecognised = ''unrecognised''"

section \<open>Orders\<close>

text \<open>The derived orders the vectors are sorted by.\<close>

definition compare_hosts :: "inet_host \<Rightarrow> inet_host \<Rightarrow> comparison" where
  "compare_hosts l r = cmp_of (inet_host_str l) (inet_host_str r)"

definition compare_ports :: "port_number \<Rightarrow> port_number \<Rightarrow> comparison" where
  "compare_ports l r = cmp_of (unat (port_word l)) (unat (port_word r))"

fun compare_endpoints :: "endpoint \<Rightarrow> endpoint \<Rightarrow> comparison" where
  "compare_endpoints (Inet h p) (Inet g q) = then_with (compare_options compare_hosts h g) (compare_options compare_ports p q)"
| "compare_endpoints (Inet _ _) (Unix _) = Less"
| "compare_endpoints (Unix _) (Inet _ _) = Greater"
| "compare_endpoints (Unix p) (Unix q) = cmp_of (path_str p) (path_str q)"

record listen =
  listen_endpoint :: endpoint
  listen_options :: "listen_option list"

definition compare_listen_options :: "listen_option \<Rightarrow> listen_option \<Rightarrow> comparison" where
  "compare_listen_options l r = cmp_of (listen_option_str l) (listen_option_str r)"

definition compare_listens :: "listen \<Rightarrow> listen \<Rightarrow> comparison" where
  "compare_listens l r = then_with (compare_endpoints (listen_endpoint l) (listen_endpoint r))
     (lexicographic compare_listen_options (listen_options l) (listen_options r))"

record log_destination =
  log_kind_field :: log_kind
  log_target :: non_empty_text
  log_detail :: "non_empty_text option"

definition log_rank :: "log_kind \<Rightarrow> nat" where
  "log_rank k = (case k of AccessLog \<Rightarrow> 0 | ErrorLog \<Rightarrow> 1)"

definition compare_texts :: "non_empty_text \<Rightarrow> non_empty_text \<Rightarrow> comparison" where
  "compare_texts l r = cmp_of (text_str l) (text_str r)"

definition compare_logs :: "log_destination \<Rightarrow> log_destination \<Rightarrow> comparison" where
  "compare_logs l r = then_with (cmp_of (log_rank (log_kind_field l)) (log_rank (log_kind_field r)))
     (then_with (compare_texts (log_target l) (log_target r)) (compare_options compare_texts (log_detail l) (log_detail r)))"

definition compare_addresses :: "address_pattern \<Rightarrow> address_pattern \<Rightarrow> comparison" where
  "compare_addresses l r = cmp_of (address_pattern_str l) (address_pattern_str r)"

definition compare_parameters :: "server_parameter \<Rightarrow> server_parameter \<Rightarrow> comparison" where
  "compare_parameters l r = cmp_of (server_parameter_str l) (server_parameter_str r)"

section \<open>What is served\<close>

definition listen_observed :: "hashes \<Rightarrow> listen \<Rightarrow> observation" where
  "listen_observed H l = object [(''endpoint'', endpoint_observed (listen_endpoint l)),
     (''options'', set_of H (map (\<lambda>x. text_of (listen_option_str x)) (listen_options l)))]"

definition log_observed :: "log_destination \<Rightarrow> observation" where
  "log_observed l = object [(''detail'', observed_or_null (\<lambda>d. text_of (text_str d)) (log_detail l)),
     (''kind'', text_of (log_kind_str (log_kind_field l))), (''target'', text_of (text_str (log_target l)))]"

definition logs_set_of :: "hashes \<Rightarrow> log_destination list \<Rightarrow> observation" where
  "logs_set_of H logs = set_by H [''kind'', ''target''] (map log_observed logs)"

record access_rule =
  rule_permission :: permission
  rule_subject :: address_pattern

definition access_rule_observed :: "access_rule \<Rightarrow> observation" where
  "access_rule_observed r = object [(''permission'', text_of (permission_str (rule_permission r))),
     (''subject'', text_of (address_pattern_str (rule_subject r)))]"

record authorised_user =
  user_name :: non_empty_text
  user_scheme :: password_scheme
  user_digest :: "xxh3_digest option"

definition authorised_user_observed :: "authorised_user \<Rightarrow> observation" where
  "authorised_user_observed u = object [(''digest'', observed_or_null observation_of_digest (user_digest u)),
     (''name'', text_of (text_str (user_name u))), (''scheme'', text_of (password_scheme_str (user_scheme u)))]"

record authentication =
  auth_realm :: "non_empty_text option"
  auth_user_file :: "absolute_path option"
  auth_users :: "authorised_user list"
  auth_refusal :: "non_empty_text option"

definition authentication_observed :: "authentication \<Rightarrow> observation" where
  "authentication_observed a = incomplete_when (object
     [(''realm'', observed_or_null (\<lambda>r. text_of (text_str r)) (auth_realm a)),
      (''user_file'', observed_or_null (\<lambda>f. text_of (path_str f)) (auth_user_file a)),
      (''refusal'', observed_or_null (\<lambda>r. text_of (text_str r)) (auth_refusal a)),
      (''users'', sequence (map authorised_user_observed (auth_users a)))]) (auth_refusal a \<noteq> None)"

record pass_target =
  pass_kind_field :: pass_kind
  pass_to :: non_empty_text

definition pass_target_observed :: "pass_target \<Rightarrow> observation" where
  "pass_target_observed p = object [(''kind'', text_of (pass_kind_str (pass_kind_field p))), (''target'', text_of (text_str (pass_to p)))]"

datatype location = Location (location_pattern: location_pattern) (location_pass: "pass_target option")
  (location_root: "non_empty_text option") (location_access: "access_rule list") (location_logs: "log_destination list")
  (location_authentication: "authentication option") (location_locations: "location list")

fun location_observed :: "hashes \<Rightarrow> location \<Rightarrow> observation" where
  "location_observed H (Location pattern pass root access logs auth locations) = object
     [(''access'', sequence (map access_rule_observed access)),
      (''authentication'', observed_or_null authentication_observed auth),
      (''locations'', sequence (map (location_observed H) locations)),
      (''logs'', logs_set_of H logs),
      (''pass'', observed_or_null pass_target_observed pass),
      (''pattern'', text_of (location_pattern_str pattern)),
      (''root'', observed_or_null (\<lambda>r. text_of (text_str r)) root)]"

record certificate_details =
  cert_subject :: non_empty_text
  cert_issuer :: non_empty_text
  cert_serial :: non_empty_text
  cert_not_before :: i64
  cert_not_after :: i64
  cert_names :: "non_empty_text list"
  cert_key_algorithm :: non_empty_text
  cert_digest :: xxh3_digest

definition certificate_details_observed :: "hashes \<Rightarrow> certificate_details \<Rightarrow> observation" where
  "certificate_details_observed H d = object
     [(''digest'', observation_of_digest (cert_digest d)), (''issuer'', text_of (text_str (cert_issuer d))),
      (''key_algorithm'', text_of (text_str (cert_key_algorithm d))), (''not_after'', integer (cert_not_after d)),
      (''not_before'', integer (cert_not_before d)), (''serial'', text_of (text_str (cert_serial d))),
      (''subject'', text_of (text_str (cert_subject d))),
      (''subject_alternative_names'', set_of H (map (\<lambda>n. text_of (text_str n)) (cert_names d)))]"

datatype key_reading = KeyDescribed file_mode i64 i64 | KeyRefused non_empty_text

record key_file =
  key_path :: absolute_path
  key_reading_of :: key_reading

fun key_reading_observed :: "key_reading \<Rightarrow> observation" where
  "key_reading_observed (KeyDescribed mode uid gid) =
     object [(''group'', integer gid), (''mode'', text_of (file_mode_str mode)), (''owner'', integer uid)]"
| "key_reading_observed (KeyRefused reason) = text_of (text_str reason)"

definition key_file_observed :: "key_file \<Rightarrow> observation" where
  "key_file_observed k = incomplete_when (object
     [(''path'', text_of (path_str (key_path k))), (''reading'', key_reading_observed (key_reading_of k))])
     (case key_reading_of k of KeyRefused _ \<Rightarrow> True | _ \<Rightarrow> False)"

datatype certificate_reading = CertificateParsed certificate_details | CertificateRefused non_empty_text

record certificate =
  certificate_written :: non_empty_text
  certificate_key :: "non_empty_text option"
  certificate_reading_of :: certificate_reading
  certificate_key_file :: "key_file option"

definition certificate_observed :: "hashes \<Rightarrow> certificate \<Rightarrow> observation" where
  "certificate_observed H c = incomplete_when (object
     [(''certificate'', text_of (text_str (certificate_written c))),
      (''key'', observed_or_null (\<lambda>k. text_of (text_str k)) (certificate_key c)),
      (''key_file'', observed_or_null key_file_observed (certificate_key_file c)),
      (''reading'', case certificate_reading_of c of
          CertificateParsed d \<Rightarrow> certificate_details_observed H d
        | CertificateRefused reason \<Rightarrow> text_of (text_str reason))])
     (case certificate_reading_of c of CertificateRefused _ \<Rightarrow> True | _ \<Rightarrow> False)"

record virtual_host =
  host_listens :: "listen list"
  host_server_names :: "server_name list"
  host_root :: "non_empty_text option"
  host_certificates :: "certificate list"
  host_access :: "access_rule list"
  host_logs :: "log_destination list"
  host_authentication :: "authentication option"
  host_trusted_proxies :: "address_pattern list"
  host_resolvers :: "address_pattern list"
  host_locations :: "location list"

definition virtual_host_observed :: "hashes \<Rightarrow> virtual_host \<Rightarrow> observation" where
  "virtual_host_observed H h = object
     [(''access'', sequence (map access_rule_observed (host_access h))),
      (''authentication'', observed_or_null authentication_observed (host_authentication h)),
      (''certificates'', sequence (map (certificate_observed H) (host_certificates h))),
      (''listens'', set_of H (map (listen_observed H) (host_listens h))),
      (''locations'', sequence (map (location_observed H) (host_locations h))),
      (''logs'', logs_set_of H (host_logs h)),
      (''resolvers'', set_of H (map (\<lambda>a. text_of (address_pattern_str a)) (host_resolvers h))),
      (''root'', observed_or_null (\<lambda>r. text_of (text_str r)) (host_root h)),
      (''server_names'', sequence (map (\<lambda>n. text_of (server_name_str n)) (host_server_names h))),
      (''trusted_proxies'', set_of H (map (\<lambda>a. text_of (address_pattern_str a)) (host_trusted_proxies h)))]"

record upstream_server =
  upstream_endpoint :: endpoint
  upstream_parameters :: "server_parameter list"

definition upstream_server_observed :: "hashes \<Rightarrow> upstream_server \<Rightarrow> observation" where
  "upstream_server_observed H s = object [(''endpoint'', endpoint_observed (upstream_endpoint s)),
     (''parameters'', set_of H (map (\<lambda>p. text_of (server_parameter_str p)) (upstream_parameters s)))]"

record upstream =
  upstream_named :: upstream_name
  upstream_servers :: "upstream_server list"
  upstream_settings :: "(str, str) btree"

definition upstream_observed :: "hashes \<Rightarrow> upstream \<Rightarrow> observation" where
  "upstream_observed H u = object
     [(''name'', text_of (upstream_name_str (upstream_named u))),
      (''servers'', sequence (map (upstream_server_observed H) (upstream_servers u))),
      (''settings'', object (map (\<lambda>(setting, v). (setting, text_of v)) (upstream_settings u)))]"

record http_service =
  service_hosts :: "virtual_host list"
  service_upstreams :: "upstream list"

definition http_service_observed :: "hashes \<Rightarrow> http_service \<Rightarrow> observation" where
  "http_service_observed H s = object [(''hosts'', sequence (map (virtual_host_observed H) (service_hosts s))),
     (''upstreams'', set_of H (map (upstream_observed H) (service_upstreams s)))]"

record stream_server =
  stream_listens :: "listen list"
  stream_pass :: "pass_target option"
  stream_certificates :: "certificate list"
  stream_access :: "access_rule list"
  stream_logs :: "log_destination list"

definition stream_server_observed :: "hashes \<Rightarrow> stream_server \<Rightarrow> observation" where
  "stream_server_observed H s = object
     [(''access'', sequence (map access_rule_observed (stream_access s))),
      (''certificates'', sequence (map (certificate_observed H) (stream_certificates s))),
      (''listens'', set_of H (map (listen_observed H) (stream_listens s))),
      (''logs'', logs_set_of H (stream_logs s)),
      (''pass'', observed_or_null pass_target_observed (stream_pass s))]"

record stream_service =
  stream_servers :: "stream_server list"
  stream_upstreams :: "upstream list"

definition stream_service_observed :: "hashes \<Rightarrow> stream_service \<Rightarrow> observation" where
  "stream_service_observed H s = object [(''servers'', sequence (map (stream_server_observed H) (stream_servers s))),
     (''upstreams'', set_of H (map (upstream_observed H) (stream_upstreams s)))]"

section \<open>The files of a configuration\<close>

text \<open>Every token with its length in front of it.\<close>

definition append_token :: "str \<Rightarrow> str" where
  "append_token w = show_nat (length w) @ CHR '':'' # w"

fun append_directive :: "directive \<Rightarrow> str" where
  "append_directive (Directive named given block) =
     append_token (directive_name_str named) @ concat (map (\<lambda>a. append_token (argument_str a)) given) @
     (case block of Some ds \<Rightarrow> CHR ''{'' # concat (map append_directive ds) @ ''}'' | None \<Rightarrow> '';'')"

definition canonical_form :: "directive list \<Rightarrow> str" where
  "canonical_form ds = concat (map append_directive ds)"

datatype file_reading = FileParsed xxh3_digest | FileRefused non_empty_text

record configuration_file =
  configuration_path :: absolute_path
  configuration_reading :: file_reading

definition file_parsed :: "hashes \<Rightarrow> absolute_path \<Rightarrow> directive list \<Rightarrow> configuration_file" where
  "file_parsed H p ds = \<lparr>configuration_path = p, configuration_reading = FileParsed (digest_of H (canonical_form ds))\<rparr>"

definition file_refused :: "absolute_path \<Rightarrow> non_empty_text \<Rightarrow> configuration_file" where
  "file_refused p reason = \<lparr>configuration_path = p, configuration_reading = FileRefused reason\<rparr>"

definition file_is_refusal :: "configuration_file \<Rightarrow> bool" where
  "file_is_refusal f \<longleftrightarrow> (case configuration_reading f of FileRefused _ \<Rightarrow> True | _ \<Rightarrow> False)"

definition configuration_file_observed :: "configuration_file \<Rightarrow> observation" where
  "configuration_file_observed f = incomplete_when (object
     [(''path'', text_of (path_str (configuration_path f))),
      (''reading'', case configuration_reading f of
          FileParsed d \<Rightarrow> observation_of_digest d | FileRefused reason \<Rightarrow> text_of (text_str reason))])
     (file_is_refusal f)"

datatype configuration_source = RunningMaster | CompiledIn

fun configuration_source_str :: "configuration_source \<Rightarrow> str" where
  "configuration_source_str RunningMaster = ''running_master''"
| "configuration_source_str CompiledIn = ''compiled_in''"

record configuration =
  conf_prefix :: absolute_path
  conf_configuration_prefix :: absolute_path
  conf_root :: absolute_path
  conf_files :: "configuration_file list"
  conf_directives :: "directive list"
  conf_chosen_by :: configuration_source
  conf_newest_modified :: "i64 option"

definition configuration_observed :: "configuration \<Rightarrow> observation" where
  "configuration_observed c = object
     [(''files'', sequence (map configuration_file_observed (conf_files c))),
      (''chosen_by'', text_of (configuration_source_str (conf_chosen_by c))),
      (''newest_modified'', observed_or_null integer (conf_newest_modified c)),
      (''configuration_prefix'', text_of (path_str (conf_configuration_prefix c))),
      (''prefix'', text_of (path_str (conf_prefix c))),
      (''root'', text_of (path_str (conf_root c)))]"

section \<open>A configuration's canonical form says what it is\<close>

lemma digits_before_colon:
  assumes "show_nat n @ CHR '':'' # x = show_nat m @ CHR '':'' # y"
  shows "n = m \<and> x = y"
proof -
  have fresh: "CHR '':'' \<notin> set (show_nat k)" for k
  proof
    assume "CHR '':'' \<in> set (show_nat k)"
    then obtain j where "j < 10" "CHR '':'' = digit j" using positional_digits[of 10 "CHR '':''" k] by (auto simp: show_nat_def)
    then have "of_char (CHR '':'') = (48 + j :: nat)" using of_char_digit[of j] by simp
    with \<open>j < 10\<close> show False by simp
  qed
  have l: "split_once (CHR '':'') (show_nat n @ CHR '':'' # x) = Some (show_nat n, x)" using fresh by (simp add: split_once_Some_iff)
  have "split_once (CHR '':'') (show_nat m @ CHR '':'' # y) = Some (show_nat m, y)" using fresh by (simp add: split_once_Some_iff)
  from trans[OF l[unfolded assms, symmetric] this] have "Some (show_nat n, x) = Some (show_nat m, y)" .
  then have "positional 10 n = positional 10 m" "x = y" by (simp_all only: show_nat_def option.inject prod.inject)
  then have "n = m" by (intro positional_inj[of 10]) simp_all
  with \<open>x = y\<close> show ?thesis by simp
qed

lemma append_token_apart: "append_token v @ x = append_token w @ y \<Longrightarrow> v = w \<and> x = y"
  by (auto simp: append_token_def dest!: digits_before_colon)

lemma append_token_first: "\<exists>k r. append_token w = digit k # r \<and> k < 10"
proof -
  have "show_nat (length w) \<noteq> []" by (simp add: show_nat_def)
  then obtain c r where c: "show_nat (length w) = c # r" by (cases "show_nat (length w)") auto
  then have "c \<in> set (positional 10 (length w))" by (simp add: show_nat_def)
  from positional_digits[OF _ _ this] obtain k where "k < 10" "c = digit k" by auto
  with c have "append_token w = digit k # r @ CHR '':'' # w" by (simp add: append_token_def)
  with \<open>k < 10\<close> show ?thesis by blast
qed

lemma digit_no_mark: "k < 10 \<Longrightarrow> digit k \<notin> {CHR ''{'', CHR ''}'', CHR '';''}"
proof
  assume k: "k < 10" "digit k \<in> {CHR ''{'', CHR ''}'', CHR '';''}"
  then have "of_char (digit k) \<in> {123, 125, 59 :: nat}" by auto
  with k(1) show False by (simp add: of_char_digit)
qed

lemma tokens_apart:
  assumes "concat (map (\<lambda>a. append_token (argument_str a)) as) @ x = concat (map (\<lambda>a. append_token (argument_str a)) bs) @ y"
    and "x \<noteq> [] \<and> hd x \<in> {CHR ''{'', CHR ''}'', CHR '';''}" "y \<noteq> [] \<and> hd y \<in> {CHR ''{'', CHR ''}'', CHR '';''}"
  shows "as = bs \<and> x = y"
  using assms(1)
proof (induction as arbitrary: bs)
  case Nil
  show ?case
  proof (cases bs)
    case (Cons b cs)
    with Nil append_token_first[of "argument_str b"] obtain k r where "x = digit k # r" "k < 10" by auto
    with assms(2) digit_no_mark show ?thesis by auto
  qed (use Nil in simp)
next
  case (Cons a as)
  show ?case
  proof (cases bs)
    case Nil
    with Cons.prems append_token_first[of "argument_str a"] obtain k r where "y = digit k # r" "k < 10" by auto
    with assms(3) digit_no_mark show ?thesis by auto
  next
    case bs: (Cons b cs)
    have "append_token (argument_str a) @ concat (map (\<lambda>a. append_token (argument_str a)) as) @ x =
        append_token (argument_str b) @ concat (map (\<lambda>a. append_token (argument_str a)) cs) @ y"
      using Cons.prems bs by simp
    from append_token_apart[OF this] Cons.IH[of cs] bs show ?thesis by (simp add: directive_argument.expand)
  qed
qed

lemma append_directive_first: "\<exists>k r. append_directive d = digit k # r \<and> k < 10"
  using append_token_first[of "directive_name_str (directive_name d)"] by (cases d) auto

lemma directives_apart:
  assumes "\<And>d e x y. d \<in> set ds \<Longrightarrow> append_directive d @ x = append_directive e @ y \<Longrightarrow> d = e \<and> x = y"
    and "concat (map append_directive ds) @ x = concat (map append_directive es) @ y"
    and "x = [] \<or> hd x = CHR ''}''" "y = [] \<or> hd y = CHR ''}''"
  shows "ds = es \<and> x = y"
  using assms(1,2)
proof (induction ds arbitrary: es)
  case Nil
  show ?case
  proof (cases es)
    case (Cons e fs)
    with Nil append_directive_first[of e] obtain k r where "x = digit k # r" "k < 10" by auto
    with assms(3) digit_no_mark show ?thesis by auto
  qed (use Nil in simp)
next
  case (Cons d ds)
  show ?case
  proof (cases es)
    case Nil
    with Cons.prems append_directive_first[of d] obtain k r where "y = digit k # r" "k < 10" by auto
    with assms(4) digit_no_mark show ?thesis by auto
  next
    case es: (Cons e fs)
    have "append_directive d @ concat (map append_directive ds) @ x = append_directive e @ concat (map append_directive fs) @ y"
      using Cons.prems(2) es by simp
    from Cons.prems(1)[OF _ this] have "d = e" "concat (map append_directive ds) @ x = concat (map append_directive fs) @ y" by auto
    with Cons.IH[OF Cons.prems(1)] es show ?thesis by auto
  qed
qed

lemma append_directive_apart: "append_directive d @ x = append_directive e @ y \<Longrightarrow> d = e \<and> x = y"
proof (induction d arbitrary: e x y)
  case (Directive named given block)
  obtain name' args' block' where e: "e = Directive name' args' block'" by (cases e)
  let ?tail = "\<lambda>b. case b of Some ds \<Rightarrow> CHR ''{'' # concat (map append_directive ds) @ ''}'' | None \<Rightarrow> '';''"
  have "append_token (directive_name_str named) @ (concat (map (\<lambda>a. append_token (argument_str a)) given) @ ?tail block @ x)
      = append_token (directive_name_str name') @ (concat (map (\<lambda>a. append_token (argument_str a)) args') @ ?tail block' @ y)"
    using Directive.prems e by simp
  from append_token_apart[OF this] have named: "directive_name_str named = directive_name_str name'"
    and rest: "concat (map (\<lambda>a. append_token (argument_str a)) given) @ ?tail block @ x
      = concat (map (\<lambda>a. append_token (argument_str a)) args') @ ?tail block' @ y" by blast+
  have "?tail b @ z \<noteq> [] \<and> hd (?tail b @ z) \<in> {CHR ''{'', CHR ''}'', CHR '';''}" for b z by (cases b) auto
  from tokens_apart[OF rest this this] have "given = args'" and tails: "?tail block @ x = ?tail block' @ y" by blast+
  moreover have "block = block' \<and> x = y"
  proof (cases block)
    case None
    with tails show ?thesis by (cases block') auto
  next
    case (Some ds)
    with tails obtain es where es: "block' = Some es" by (cases block') auto
    with Some tails have "concat (map append_directive ds) @ ''}'' @ x = concat (map append_directive es) @ ''}'' @ y" by simp
    moreover have "d = e \<and> u = v" if "d \<in> set ds" "append_directive d @ u = append_directive e @ v" for d e u v
      using that(2) by (rule Directive.IH[rotated 2]) (use that(1) Some in auto)
    ultimately have "ds = es \<and> ''}'' @ x = ''}'' @ y" by (intro directives_apart) auto
    with Some es show ?thesis by simp
  qed
  moreover have "named = name'"
    using named by (cases named; cases name') (auto simp: directive_name_str_def non_empty_text.expand)
  ultimately show ?case using e by simp
qed

text \<open>
  The form a configuration file's digest is taken of tells any two configurations apart: whatever
  their tokens hold, the forms are equal exactly where the directives are.
\<close>

theorem canonical_forms_apart: "canonical_form ds = canonical_form es \<longleftrightarrow> ds = es"
  using directives_apart[of ds "[]" es "[]"] append_directive_apart by (auto simp: canonical_form_def)

end
