(* ===== verification/NginxDirectives.thy ===== *)
theory NginxDirectives
  imports NginxModel Paths Lossy
begin

text \<open>
  Which directive means what (\<open>nginx/source/nginx_directives.rs\<close>, \<open>htpasswd.rs\<close>): servers, locations and
  pools read off the directives.  What the files they name hold is asked of a record of calls, and a
  path is its text.
\<close>

section \<open>What is asked of the host\<close>

record key_metadata =
  key_mode :: "32 word"
  key_uid :: "32 word"
  key_gid :: "32 word"

record nginx_host =
  read_certificate :: "str \<Rightarrow> certificate_details collected"
  key_stat :: "str \<Rightarrow> str + key_metadata"
  read_text :: "str \<Rightarrow> str + str"

definition joined_words :: "str list \<Rightarrow> str" where
  "joined_words ws = concat (map (\<lambda>(i, w). if i = 0 then w else CHR '' '' # w) (enumerate 0 ws))"

section \<open>User files\<close>

definition withheld_verifier :: "hashes \<Rightarrow> str \<Rightarrow> xxh3_digest" where
  "withheld_verifier H verifier = digest_of H (hex_of_bytes (sha256 H verifier))"

fun htpasswd_loop :: "hashes \<Rightarrow> nat \<Rightarrow> str list \<Rightarrow> authorised_user list collected" where
  "htpasswd_loop H number [] = Inr []"
| "htpasswd_loop H number (l # ls) =
     (let l = trim l
      in if l = [] \<or> starts_with ''#'' l then htpasswd_loop H (Suc number) ls
         else case split_once (CHR '':'') l of
           None \<Rightarrow> Inl (CollectionError ''line {} of the user file holds no {FIELD_SEPARATOR:?}, so it names no user''
                    [show_nat (Suc number), '':''])
         | Some (user, verifier) \<Rightarrow>
             and_then (non_empty_text_new user ''basic-auth user name'') (\<lambda>named.
               map_ok ((#) \<lparr>user_name = named, user_scheme = password_scheme_of verifier,
                 user_digest = (if is_salted (password_scheme_of verifier) then Some (withheld_verifier H verifier) else None)\<rparr>)
               (htpasswd_loop H (Suc number) ls)))"

definition htpasswd_parse :: "hashes \<Rightarrow> str \<Rightarrow> authorised_user list collected" where
  "htpasswd_parse H s = htpasswd_loop H 0 (lines s)"

definition htpasswd_read :: "hashes \<Rightarrow> nginx_host \<Rightarrow> str \<Rightarrow> authorised_user list collected" where
  "htpasswd_read H N path =
     and_then (map_err (\<lambda>e. CollectionError ''the user file {} could not be read: {error}'' [path, e]) (read_text N path)) (htpasswd_parse H)"

section \<open>Arguments\<close>

definition given_words :: "directive \<Rightarrow> str list" where
  "given_words d = map argument_str (directive_arguments d)"

definition name_of :: "directive \<Rightarrow> str" where
  "name_of d = directive_name_str (directive_name d)"

definition first_argument :: "directive \<Rightarrow> str \<Rightarrow> non_empty_text collected" where
  "first_argument d expected =
     (case given_words d of
        [] \<Rightarrow> Inl (CollectionError ''{} was given no arguments, and it takes {expected}'' [name_of d, expected])
      | a # _ \<Rightarrow> non_empty_text_new a (name_of d))"

definition resolved :: "str \<Rightarrow> non_empty_text \<Rightarrow> absolute_path collected" where
  "resolved configuration_prefix p = absolute_path_new (lossy (text_joined configuration_prefix (text_str p))) ''nginx file path''"

definition address :: "directive \<Rightarrow> address_pattern collected" where
  "address d = and_then (first_argument d ''an address'') (\<lambda>a. address_pattern_new (text_str a))"

definition addresses :: "directive \<Rightarrow> address_pattern list collected" where
  "addresses d = collect_results (map address_pattern_new (filter (\<lambda>a. CHR ''='' \<notin> set a) (given_words d)))"

definition sorted_parameters :: "directive \<Rightarrow> server_parameter list collected" where
  "sorted_parameters d = map_ok (sort_by compare_parameters) (collect_results (map server_parameter_new (drop 1 (given_words d))))"

definition listen_of :: "directive \<Rightarrow> listen collected" where
  "listen_of d =
     and_then (collect_results (map listen_option_new (drop 1 (given_words d)))) (\<lambda>options.
     and_then (first_argument d ''an address'') (\<lambda>a.
     map_ok (\<lambda>e. \<lparr>listen_endpoint = e, listen_options = sort_by compare_listen_options options\<rparr>) (endpoint_new (text_str a))))"

definition access_rule_of :: "str \<Rightarrow> directive \<Rightarrow> access_rule option collected" where
  "access_rule_of n d = (case permission_of n of
      None \<Rightarrow> Inr None
    | Some p \<Rightarrow> map_ok (\<lambda>a. Some \<lparr>rule_permission = p, rule_subject = a\<rparr>) (address d))"

definition log_destination_of :: "str \<Rightarrow> directive \<Rightarrow> log_destination option collected" where
  "log_destination_of n d = (case log_kind_of n of
      None \<Rightarrow> Inr None
    | Some kind \<Rightarrow>
        (let detail = joined_words (drop 1 (given_words d))
         in and_then (first_argument d ''a destination'') (\<lambda>t.
            and_then (if detail = [] then Inr None else map_ok Some (non_empty_text_new detail ''log detail'')) (\<lambda>detail.
            Inr (Some \<lparr>log_kind_field = kind, log_target = t, log_detail = detail\<rparr>)))))"

section \<open>Files named\<close>

definition on_disk :: "str \<Rightarrow> non_empty_text \<Rightarrow> collection_error + absolute_path" where
  "on_disk configuration_prefix written =
     (if CHR ''$'' \<in> set (text_str written)
      then Inl (CollectionError ''{:?} names a variable, which nginx resolves per request rather than per file'' [text_str written])
      else if starts_with ''data:'' (text_str written)
      then Inl (CollectionError ''{:?} holds the certificate inline rather than naming a file'' [text_str written])
      else resolved configuration_prefix written)"

text \<open>The text of a refusal is rendered from an error, which is a parameter: it is never empty.\<close>

definition certificate_reading_at :: "(collection_error \<Rightarrow> str) \<Rightarrow> nginx_host \<Rightarrow> str \<Rightarrow> non_empty_text \<Rightarrow> certificate_reading" where
  "certificate_reading_at render N configuration_prefix written =
     (case on_disk configuration_prefix written of
        Inl reason \<Rightarrow> CertificateRefused (NonEmptyText (render reason))
      | Inr path \<Rightarrow> (case read_certificate N (path_str path) of
            Inr details \<Rightarrow> CertificateParsed details
          | Inl e \<Rightarrow> CertificateRefused (NonEmptyText (render e))))"

definition describe_key :: "(collection_error \<Rightarrow> str) \<Rightarrow> nginx_host \<Rightarrow> absolute_path \<Rightarrow> key_file" where
  "describe_key render N path = \<lparr>key_path = path, key_reading_of =
     (case key_stat N (path_str path) of
        Inr m \<Rightarrow> KeyDescribed (file_mode_of (key_mode m)) (ucast (key_uid m)) (ucast (key_gid m))
      | Inl e \<Rightarrow> KeyRefused (NonEmptyText (render (CollectionError ''the key could not be described: {error}'' [e]))))\<rparr>"

definition key_file_at :: "(collection_error \<Rightarrow> str) \<Rightarrow> nginx_host \<Rightarrow> str \<Rightarrow> non_empty_text \<Rightarrow> key_file option" where
  "key_file_at render N configuration_prefix written =
     (case on_disk configuration_prefix written of Inr path \<Rightarrow> Some (describe_key render N path) | Inl _ \<Rightarrow> None)"

fun paired :: "(collection_error \<Rightarrow> str) \<Rightarrow> nginx_host \<Rightarrow> str \<Rightarrow> non_empty_text list \<Rightarrow> non_empty_text list \<Rightarrow> certificate list" where
  "paired render N prefix [] keys = []"
| "paired render N prefix (c # cs) keys =
     (let key = (case keys of [] \<Rightarrow> None | k # _ \<Rightarrow> Some k)
      in \<lparr>certificate_written = c, certificate_key = key, certificate_reading_of = certificate_reading_at render N prefix c,
          certificate_key_file = Option.bind key (key_file_at render N prefix)\<rparr> # paired render N prefix cs (tl keys))"

definition authentication_of :: "(collection_error \<Rightarrow> str) \<Rightarrow> hashes \<Rightarrow> nginx_host \<Rightarrow> non_empty_text option \<Rightarrow> absolute_path option
    \<Rightarrow> authentication option collected" where
  "authentication_of render H N realm user_file =
     (if realm = None \<and> user_file = None then Inr None
      else case user_file of
          None \<Rightarrow> Inr (Some \<lparr>auth_realm = realm, auth_user_file = None, auth_users = [], auth_refusal = None\<rparr>)
        | Some path \<Rightarrow> (case htpasswd_read H N (path_str path) of
              Inr users \<Rightarrow> Inr (Some \<lparr>auth_realm = realm, auth_user_file = user_file, auth_users = users, auth_refusal = None\<rparr>)
            | Inl e \<Rightarrow> map_ok (\<lambda>refusal. Some \<lparr>auth_realm = realm, auth_user_file = user_file, auth_users = [], auth_refusal = Some refusal\<rparr>)
                (non_empty_text_new (render e) ''user file refusal'')))"

section \<open>Pools\<close>

fun upstream_loop :: "upstream_server list \<Rightarrow> (str, str) btree \<Rightarrow> directive list
    \<Rightarrow> (upstream_server list \<times> (str, str) btree) collected" where
  "upstream_loop servers settings [] = Inr (servers, settings)"
| "upstream_loop servers settings (d # ds) =
     (if name_of d = ''server''
      then and_then (first_argument d ''an address'') (\<lambda>a.
           and_then (endpoint_new (text_str a)) (\<lambda>e.
           and_then (sorted_parameters d) (\<lambda>ps.
             upstream_loop (servers @ [\<lparr>upstream_endpoint = e, upstream_parameters = ps\<rparr>]) settings ds)))
      else upstream_loop servers (btree_insert (name_of d) (joined_words (given_words d)) settings) ds)"

definition upstream_of :: "directive \<Rightarrow> directive list \<Rightarrow> upstream collected" where
  "upstream_of d block =
     and_then (upstream_loop [] [] block) (\<lambda>(servers, settings).
     and_then (first_argument d ''a name'') (\<lambda>a.
     map_ok (\<lambda>n. \<lparr>upstream_named = n, upstream_servers = servers, upstream_settings = settings\<rparr>) (upstream_name_new (text_str a))))"

definition inside :: "directive list \<Rightarrow> str \<Rightarrow> directive list" where
  "inside ds context_name = concat (List.map_filter directive_block (filter (\<lambda>d. name_of d = context_name) ds))"

definition blocks_of :: "directive list \<Rightarrow> str \<Rightarrow> str \<Rightarrow> directive list list" where
  "blocks_of ds context_name n = List.map_filter directive_block (filter (\<lambda>d. name_of d = n) (inside ds context_name))"

definition upstreams_of :: "directive list \<Rightarrow> str \<Rightarrow> upstream list collected" where
  "upstreams_of ds context_name =
     map_ok (sort_by (\<lambda>l r. cmp_of (upstream_name_str (upstream_named l)) (upstream_name_str (upstream_named r))))
       (collect_results (List.map_filter (\<lambda>d. if name_of d \<noteq> ''upstream'' then None else map_option (upstream_of d) (directive_block d))
         (inside ds context_name)))"

section \<open>Locations and servers\<close>

text \<open>What every call below is given beside the directives.\<close>

record nginx_env =
  env_render :: "collection_error \<Rightarrow> str"
  env_hashes :: hashes
  env_host :: nginx_host
  env_prefix :: str

definition located :: "nginx_env \<Rightarrow> directive \<Rightarrow> absolute_path collected" where
  "located v d = and_then (first_argument d ''a user file'') (resolved (env_prefix v))"

definition pass_target_of :: "pass_kind \<Rightarrow> directive \<Rightarrow> pass_target collected" where
  "pass_target_of k d = map_ok (\<lambda>a. \<lparr>pass_kind_field = k, pass_to = a\<rparr>) (first_argument d ''a target'')"

text \<open>The access rule and the log destination a directive is, if it is either.\<close>

definition rule_and_log :: "directive \<Rightarrow> (access_rule list \<times> log_destination list) collected" where
  "rule_and_log d =
     and_then (access_rule_of (name_of d) d) (\<lambda>r.
     map_ok (\<lambda>l. (option_list r, option_list l)) (log_destination_of (name_of d) d))"

record location_reading =
  l_pass :: "pass_target option"
  l_root :: "non_empty_text option"
  l_access :: "access_rule list"
  l_logs :: "log_destination list"
  l_realm :: "non_empty_text option"
  l_user_file :: "absolute_path option"
  l_locations :: "location list"

definition location_start :: location_reading where
  "location_start = \<lparr>l_pass = None, l_root = None, l_access = [], l_logs = [], l_realm = None, l_user_file = None, l_locations = []\<rparr>"

definition location_end :: "nginx_env \<Rightarrow> location_pattern \<Rightarrow> location_reading \<Rightarrow> location collected" where
  "location_end v pattern s =
     map_ok (\<lambda>auth. Location pattern (l_pass s) (l_root s) (l_access s) (sort_by compare_logs (l_logs s)) auth (l_locations s))
       (authentication_of (env_render v) (env_hashes v) (env_host v) (l_realm s) (l_user_file s))"

definition location_named :: "directive \<Rightarrow> location_pattern collected" where
  "location_named d = location_pattern_new (joined_words (given_words d))"

lemma size_block [termination_simp]: "directive_block d = Some b \<Longrightarrow> size_list size b < Suc (size d + n)"
  by (cases d) auto

fun location_loop :: "nginx_env \<Rightarrow> location_reading \<Rightarrow> directive list \<Rightarrow> location_reading collected" where
  "location_loop v s [] = Inr s"
| "location_loop v s (d # ds) =
     (let n = name_of d
      in case pass_kind_of n of
           Some k \<Rightarrow> and_then (pass_target_of k d) (\<lambda>p. location_loop v (s\<lparr>l_pass := Some p\<rparr>) ds)
         | None \<Rightarrow>
             if n = ''root'' then and_then (first_argument d ''a directory'') (\<lambda>r. location_loop v (s\<lparr>l_root := Some r\<rparr>) ds)
             else if n = ''auth_basic'' then and_then (first_argument d ''a realm'') (\<lambda>r. location_loop v (s\<lparr>l_realm := Some r\<rparr>) ds)
             else if n = ''auth_basic_user_file'' then and_then (located v d) (\<lambda>f. location_loop v (s\<lparr>l_user_file := Some f\<rparr>) ds)
             else if n = ''location'' then
               (case directive_block d of
                  None \<Rightarrow> location_loop v s ds
                | Some nested \<Rightarrow>
                    and_then (location_named d) (\<lambda>pattern.
                    and_then (location_loop v location_start nested) (\<lambda>t.
                    and_then (location_end v pattern t) (\<lambda>l.
                      location_loop v (s\<lparr>l_locations := l_locations s @ [l]\<rparr>) ds))))
             else and_then (rule_and_log d) (\<lambda>(rs, ls).
               location_loop v (s\<lparr>l_access := l_access s @ rs, l_logs := l_logs s @ ls\<rparr>) ds))"

definition location_of :: "nginx_env \<Rightarrow> directive \<Rightarrow> directive list \<Rightarrow> location collected" where
  "location_of v d block =
     and_then (location_named d) (\<lambda>pattern. and_then (location_loop v location_start block) (location_end v pattern))"

record host_reading =
  h_host :: virtual_host
  h_certificates :: "non_empty_text list"
  h_keys :: "non_empty_text list"
  h_realm :: "non_empty_text option"
  h_user_file :: "absolute_path option"

definition host_step :: "nginx_env \<Rightarrow> directive \<Rightarrow> host_reading \<Rightarrow> host_reading collected" where
  "host_step v d s =
     (let n = name_of d; h = h_host s
      in if n = ''listen'' then map_ok (\<lambda>l. s\<lparr>h_host := h\<lparr>host_listens := host_listens h @ [l]\<rparr>\<rparr>) (listen_of d)
         else if n = ''server_name'' then
           map_ok (\<lambda>ns. s\<lparr>h_host := h\<lparr>host_server_names := host_server_names h @ ns\<rparr>\<rparr>) (collect_results (map server_name_new (given_words d)))
         else if n = ''root'' then map_ok (\<lambda>r. s\<lparr>h_host := h\<lparr>host_root := Some r\<rparr>\<rparr>) (first_argument d ''a directory'')
         else if n = ''ssl_certificate'' then map_ok (\<lambda>c. s\<lparr>h_certificates := h_certificates s @ [c]\<rparr>) (first_argument d ''a certificate path'')
         else if n = ''ssl_certificate_key'' then map_ok (\<lambda>k. s\<lparr>h_keys := h_keys s @ [k]\<rparr>) (first_argument d ''a key path'')
         else if n = ''set_real_ip_from'' then
           map_ok (\<lambda>a. s\<lparr>h_host := h\<lparr>host_trusted_proxies := host_trusted_proxies h @ [a]\<rparr>\<rparr>) (address d)
         else if n = ''resolver'' then map_ok (\<lambda>as. s\<lparr>h_host := h\<lparr>host_resolvers := host_resolvers h @ as\<rparr>\<rparr>) (addresses d)
         else if n = ''auth_basic'' then map_ok (\<lambda>r. s\<lparr>h_realm := Some r\<rparr>) (first_argument d ''a realm'')
         else if n = ''auth_basic_user_file'' then map_ok (\<lambda>f. s\<lparr>h_user_file := Some f\<rparr>) (located v d)
         else if n = ''location'' then
           (case directive_block d of
              None \<Rightarrow> Inr s
            | Some nested \<Rightarrow> map_ok (\<lambda>l. s\<lparr>h_host := h\<lparr>host_locations := host_locations h @ [l]\<rparr>\<rparr>) (location_of v d nested))
         else map_ok (\<lambda>(rs, ls). s\<lparr>h_host := h\<lparr>host_access := host_access h @ rs, host_logs := host_logs h @ ls\<rparr>\<rparr>) (rule_and_log d))"

fun steps :: "('d \<Rightarrow> 's \<Rightarrow> 's collected) \<Rightarrow> 'd list \<Rightarrow> 's \<Rightarrow> 's collected" where
  "steps f [] s = Inr s"
| "steps f (d # ds) s = and_then (f d s) (steps f ds)"

definition host_start :: host_reading where
  "host_start = \<lparr>h_host = \<lparr>host_listens = [], host_server_names = [], host_root = None, host_certificates = [], host_access = [],
     host_logs = [], host_authentication = None, host_trusted_proxies = [], host_resolvers = [], host_locations = []\<rparr>,
     h_certificates = [], h_keys = [], h_realm = None, h_user_file = None\<rparr>"

definition virtual_host_of :: "nginx_env \<Rightarrow> directive list \<Rightarrow> virtual_host collected" where
  "virtual_host_of v block =
     and_then (steps (host_step v) block host_start) (\<lambda>s.
     map_ok (\<lambda>auth. (h_host s)\<lparr>
         host_certificates := paired (env_render v) (env_host v) (env_prefix v) (h_certificates s) (h_keys s),
         host_authentication := auth,
         host_listens := sort_by compare_listens (host_listens (h_host s)),
         host_logs := sort_by compare_logs (host_logs (h_host s)),
         host_trusted_proxies := sort_by compare_addresses (host_trusted_proxies (h_host s)),
         host_resolvers := sort_by compare_addresses (host_resolvers (h_host s))\<rparr>)
       (authentication_of (env_render v) (env_hashes v) (env_host v) (h_realm s) (h_user_file s)))"

record stream_reading =
  s_server :: stream_server
  s_certificates :: "non_empty_text list"
  s_keys :: "non_empty_text list"

definition stream_step :: "directive \<Rightarrow> stream_reading \<Rightarrow> stream_reading collected" where
  "stream_step d s =
     (let n = name_of d; v = s_server s
      in case pass_kind_of n of
           Some k \<Rightarrow> map_ok (\<lambda>p. s\<lparr>s_server := v\<lparr>stream_pass := Some p\<rparr>\<rparr>) (pass_target_of k d)
         | None \<Rightarrow>
             if n = ''listen'' then map_ok (\<lambda>l. s\<lparr>s_server := v\<lparr>stream_listens := stream_listens v @ [l]\<rparr>\<rparr>) (listen_of d)
             else if n = ''ssl_certificate'' then map_ok (\<lambda>c. s\<lparr>s_certificates := s_certificates s @ [c]\<rparr>) (first_argument d ''a certificate path'')
             else if n = ''ssl_certificate_key'' then map_ok (\<lambda>k. s\<lparr>s_keys := s_keys s @ [k]\<rparr>) (first_argument d ''a key path'')
             else map_ok (\<lambda>(rs, ls). s\<lparr>s_server := v\<lparr>stream_access := stream_access v @ rs, stream_logs := stream_logs v @ ls\<rparr>\<rparr>) (rule_and_log d))"

definition stream_start :: stream_reading where
  "stream_start = \<lparr>s_server = \<lparr>stream_listens = [], stream_pass = None, stream_certificates = [], stream_access = [], stream_logs = []\<rparr>,
     s_certificates = [], s_keys = []\<rparr>"

definition stream_server_of :: "nginx_env \<Rightarrow> directive list \<Rightarrow> stream_server collected" where
  "stream_server_of v block =
     map_ok (\<lambda>s. (s_server s)\<lparr>
         stream_certificates := paired (env_render v) (env_host v) (env_prefix v) (s_certificates s) (s_keys s),
         stream_listens := sort_by compare_listens (stream_listens (s_server s)),
         stream_logs := sort_by compare_logs (stream_logs (s_server s))\<rparr>)
       (steps stream_step block stream_start)"

definition http_service_of :: "nginx_env \<Rightarrow> directive list \<Rightarrow> http_service collected" where
  "http_service_of v ds =
     and_then (collect_results (map (virtual_host_of v) (blocks_of ds ''http'' ''server''))) (\<lambda>hosts.
     map_ok (\<lambda>pools. \<lparr>service_hosts = hosts, service_upstreams = pools\<rparr>) (upstreams_of ds ''http''))"

definition stream_service_of :: "nginx_env \<Rightarrow> directive list \<Rightarrow> stream_service collected" where
  "stream_service_of v ds =
     and_then (collect_results (map (stream_server_of v) (blocks_of ds ''stream'' ''server''))) (\<lambda>servers.
     map_ok (\<lambda>pools. \<lparr>stream_servers = servers, stream_upstreams = pools\<rparr>) (upstreams_of ds ''stream''))"

section \<open>Trees nginx works in\<close>

definition names_a_tree :: "str \<Rightarrow> bool" where
  "names_a_tree n \<longleftrightarrow> strip_suffix ''_cache_path'' n \<noteq> None \<or> strip_suffix ''_temp_path'' n \<noteq> None"

definition first_of :: "'a list \<Rightarrow> 'a option" where
  "first_of xs = (case xs of x # _ \<Rightarrow> Some x | [] \<Rightarrow> None)"

fun collect_working_trees :: "str \<Rightarrow> directive \<Rightarrow> str list" where
  "collect_working_trees prefix (Directive named given block) =
     option_list (if names_a_tree (directive_name_str named)
       then map_option (\<lambda>a. lossy (text_joined prefix (argument_str a))) (first_of given) else None) @
     (case block of Some ds \<Rightarrow> concat (map (collect_working_trees prefix) ds) | None \<Rightarrow> [])"

definition working_trees :: "str \<Rightarrow> directive list \<Rightarrow> str list" where
  "working_trees prefix ds = sorted_set (concat (map (collect_working_trees prefix) ds))"

text \<open>Every tree a directive at any depth names is found, once, and nothing else is.\<close>

fun directives_within :: "directive \<Rightarrow> directive list" where
  "directives_within (Directive named given block) =
     Directive named given block # (case block of Some ds \<Rightarrow> concat (map directives_within ds) | None \<Rightarrow> [])"

lemma first_tree:
  "x \<in> set (option_list (if here then map_option (\<lambda>a. lossy (text_joined prefix (argument_str a))) (first_of as) else None)) \<longleftrightarrow>
     (\<exists>w ws. x = lossy (text_joined prefix w) \<and> here \<and> map argument_str as = w # ws)"
  by (cases as) (auto simp: first_of_def)

definition tree_named :: "str \<Rightarrow> str \<Rightarrow> directive \<Rightarrow> bool" where
  "tree_named prefix x d \<longleftrightarrow> (\<exists>w ws. x = lossy (text_joined prefix w) \<and> names_a_tree (name_of d) \<and> given_words d = w # ws)"

lemma tree_named_Directive: "tree_named prefix x (Directive named given block) \<longleftrightarrow>
    x \<in> set (option_list (if names_a_tree (directive_name_str named)
      then map_option (\<lambda>a. lossy (text_joined prefix (argument_str a))) (first_of given) else None))"
  by (simp only: tree_named_def first_tree name_of_def given_words_def directive.sel)

lemma set_collect_working_trees:
  "x \<in> set (collect_working_trees prefix d) \<longleftrightarrow> (\<exists>e \<in> set (directives_within d). tree_named prefix x e)"
proof (induction d)
  case (Directive named given block)
  show ?case
  proof (cases block)
    case None
    then show ?thesis by (simp add: tree_named_Directive)
  next
    case (Some ds)
    have "x \<in> set (collect_working_trees prefix d) \<longleftrightarrow> (\<exists>e \<in> set (directives_within d). tree_named prefix x e)" if "d \<in> set ds" for d
      using that by (rule Directive.IH[rotated]) (simp add: Some)
    with Some show ?thesis by (auto simp: tree_named_Directive)
  qed
qed

lemma working_trees_found:
  "x \<in> set (working_trees prefix ds) \<longleftrightarrow> (\<exists>d \<in> set ds. \<exists>e \<in> set (directives_within d). tree_named prefix x e)"
  "sorted_wrt (<) (working_trees prefix ds)"
  by (simp_all add: working_trees_def sorted_set_props set_collect_working_trees)

end
