(* ===== verification/NginxFiles.thy ===== *)
theory NginxFiles
  imports NginxDirectives Globs
begin

text \<open>
  A configuration assembled from its files (\<open>nginx/source/configuration_files.rs\<close>), each \<open>include\<close> replaced
  by what it names.  Files include each other, so the reading is given fuel; on finitely many files the
  stack of open ones bounds it, and one more than their number is enough.
\<close>

section \<open>One pass\<close>

record file_system =
  canonical_path :: "str \<Rightarrow> path option"
  file_text :: "str \<Rightarrow> str + str"
  modified_at :: "str \<Rightarrow> i64 option"
  globbed :: directories

record files_reading =
  files_seen :: "configuration_file list"
  open_files :: "path list"
  newest_seen :: "i64 option"

record conf_env =
  conf_hashes :: hashes
  conf_files_at :: file_system
  conf_render :: "collection_error \<Rightarrow> str"
  include_prefix :: str

text \<open>Every path here is a join onto an absolute prefix, so the constructor accepts it.\<close>

definition recorded :: "str \<Rightarrow> absolute_path" where
  "recorded p = AbsolutePath (NonEmptyText (lossy p))"

definition record_file :: "configuration_file \<Rightarrow> files_reading \<Rightarrow> files_reading" where
  "record_file f r =
     (if list_ex (\<lambda>g. configuration_path g = configuration_path f) (files_seen r) \<and> \<not> file_is_refusal f then r
      else r\<lparr>files_seen := files_seen r @ [f]\<rparr>)"

definition refuse :: "conf_env \<Rightarrow> str \<Rightarrow> collection_error \<Rightarrow> files_reading \<Rightarrow> files_reading" where
  "refuse v p reason = record_file (file_refused (recorded p) (NonEmptyText (conf_render v reason)))"

definition note_change :: "conf_env \<Rightarrow> str \<Rightarrow> files_reading \<Rightarrow> files_reading" where
  "note_change v p r = (case modified_at (conf_files_at v) p of
      None \<Rightarrow> r
    | Some m \<Rightarrow> r\<lparr>newest_seen := Some (case newest_seen r of None \<Rightarrow> m | Some n \<Rightarrow> if sint n \<le> sint m then m else n)\<rparr>)"

definition identity_of :: "conf_env \<Rightarrow> str \<Rightarrow> path" where
  "identity_of v p = (case canonical_path (conf_files_at v) p of Some q \<Rightarrow> q | None \<Rightarrow> components p)"

text \<open>What reading one file comes to, before its includes are looked at.\<close>

datatype visited = Stopped files_reading | Opened "directive list" files_reading

definition visit_file :: "conf_env \<Rightarrow> str \<Rightarrow> files_reading \<Rightarrow> visited" where
  "visit_file v p r =
     (let identity = identity_of v p
      in if identity \<in> set (open_files r)
         then Stopped (refuse v p (CollectionError ''{} includes itself, and rastro stops where nginx would recurse'' [lossy p]) r)
         else case file_text (conf_files_at v) p of
             Inl e \<Rightarrow> Stopped (refuse v p (CollectionError ''{} could not be read: {error}'' [lossy p, e]) r)
           | Inr s \<Rightarrow> (case conf_parse s of
                 Some (Inr ds) \<Rightarrow>
                   (let r = note_change v p (record_file (file_parsed (conf_hashes v) (recorded p) ds) r)
                    in Opened ds (r\<lparr>open_files := open_files r @ [identity]\<rparr>))
               | Some (Inl e) \<Rightarrow> Stopped (refuse v p (CollectionError ''{} is not a configuration: {error}'' [lossy p, conf_render v e]) r)
               | None \<Rightarrow> Stopped r))"

definition closed :: "files_reading \<Rightarrow> files_reading" where
  "closed r = r\<lparr>open_files := butlast (open_files r)\<rparr>"

text \<open>The paths an argument of an include names, or why it names none.\<close>

definition included_paths :: "conf_env \<Rightarrow> str \<Rightarrow> collection_error + str list" where
  "included_paths v argument =
     (let named = text_joined (include_prefix v) argument
      in if \<not> is_pattern (components named) then Inr [named]
         else map_ok (map path_bytes) (matching (globbed (conf_files_at v)) (lossy named) (components named)))"

function visit :: "nat \<Rightarrow> conf_env \<Rightarrow> str \<Rightarrow> files_reading \<Rightarrow> (directive list \<times> files_reading) option"
  and visit_all :: "nat \<Rightarrow> conf_env \<Rightarrow> str list \<Rightarrow> files_reading \<Rightarrow> (directive list \<times> files_reading) option"
  and included :: "nat \<Rightarrow> conf_env \<Rightarrow> str list \<Rightarrow> files_reading \<Rightarrow> (directive list \<times> files_reading) option"
  and expanded_files :: "nat \<Rightarrow> conf_env \<Rightarrow> directive list \<Rightarrow> files_reading \<Rightarrow> (directive list \<times> files_reading) option" where
  "visit 0 v p r = None"
| "visit (Suc n) v p r =
     (case visit_file v p r of
        Stopped r \<Rightarrow> Some ([], r)
      | Opened ds r \<Rightarrow> map_option (map_prod id closed) (expanded_files n v ds r))"
| "visit_all n v [] r = Some ([], r)"
| "visit_all n v (p # ps) r =
     (case visit n v p r of None \<Rightarrow> None
      | Some (ds, r) \<Rightarrow> map_option (map_prod ((@) ds) id) (visit_all n v ps r))"
| "included n v [] r = Some ([], r)"
| "included n v (a # as) r =
     (case (case included_paths v a of
              Inr ps \<Rightarrow> visit_all n v ps r
            | Inl e \<Rightarrow> Some ([], refuse v (text_joined (include_prefix v) a) e r)) of
        None \<Rightarrow> None
      | Some (ds, r) \<Rightarrow> map_option (map_prod ((@) ds) id) (included n v as r))"
| "expanded_files n v [] r = Some ([], r)"
| "expanded_files n v (d # rest) r =
     (case (if name_of d = ''include'' \<and> directive_block d = None then included n v (given_words d) r
            else case directive_block d of
                None \<Rightarrow> Some ([d], r)
              | Some block \<Rightarrow> map_option (\<lambda>(es, r). ([Directive (directive_name d) (directive_arguments d) (Some es)], r))
                  (expanded_files n v block r)) of
        None \<Rightarrow> None
      | Some (ds, r) \<Rightarrow> map_option (map_prod ((@) ds) id) (expanded_files n v rest r))"
  by pat_completeness auto
termination
proof (relation "inv_image (less_than <*lex*> less_than <*lex*> less_than) (\<lambda>x. case x of
      Inl (Inl (n, _)) \<Rightarrow> (2 * n, 0, 0)
    | Inl (Inr (n, _, ps, _)) \<Rightarrow> (2 * n, 1, length ps)
    | Inr (Inl (n, _, as, _)) \<Rightarrow> (Suc (2 * n), 0, length as)
    | Inr (Inr (n, _, ds, _)) \<Rightarrow> (Suc (2 * n), Suc (size_list size ds), 0))", goal_cases)
qed (auto simp: size_block)

declare visit.simps [simp del]

definition read_configuration :: "nat \<Rightarrow> conf_env \<Rightarrow> str \<Rightarrow> str \<Rightarrow> configuration_source \<Rightarrow> configuration option" where
  "read_configuration n v root prefix chosen_by =
     map_option (\<lambda>(ds, r). \<lparr>conf_prefix = recorded prefix, conf_configuration_prefix = recorded (include_prefix v), conf_root = recorded root,
         conf_files = files_seen r, conf_directives = ds, conf_chosen_by = chosen_by, conf_newest_modified = newest_seen r\<rparr>)
       (visit n v root \<lparr>files_seen = [], open_files = [], newest_seen = None\<rparr>)"

section \<open>Finitely many files are read in finitely many steps\<close>

text \<open>The identities of the files that can be read.\<close>

definition readable :: "conf_env \<Rightarrow> path set" where
  "readable v = {identity_of v p | p s. file_text (conf_files_at v) p = Inr s}"

lemma refuse_open [simp]: "open_files (refuse v p e r) = open_files r"
  by (simp add: refuse_def record_file_def)

lemma record_open [simp]: "open_files (record_file f r) = open_files r"
  by (simp add: record_file_def)

lemma note_open [simp]: "open_files (note_change v p r) = open_files r"
  by (simp add: note_change_def split: option.split)

lemma visit_file_Stopped: "visit_file v p r = Stopped s \<Longrightarrow> open_files s = open_files r"
  by (auto simp: visit_file_def Let_def split: if_splits sum.splits option.splits)

lemma visit_file_Opened:
  "visit_file v p r = Opened ds s \<Longrightarrow> open_files s = open_files r @ [identity_of v p] \<and>
     identity_of v p \<notin> set (open_files r) \<and> identity_of v p \<in> readable v"
  by (auto simp: visit_file_def Let_def readable_def split: if_splits sum.splits option.splits)

text \<open>Every call leaves the stack as it found it.\<close>

lemma expanded_cases:
  assumes "expanded_files n v (d # rest) r = Some (ds, s)"
  obtains (pulled) es t fs where "name_of d = ''include'' \<and> directive_block d = None" "included n v (given_words d) r = Some (es, t)"
      "expanded_files n v rest t = Some (fs, s)" "ds = es @ fs"
    | (plain) fs where "\<not> (name_of d = ''include'' \<and> directive_block d = None)" "directive_block d = None"
      "expanded_files n v rest r = Some (fs, s)" "ds = d # fs"
    | (nested) block es t fs where "directive_block d = Some block" "expanded_files n v block r = Some (es, t)"
      "expanded_files n v rest t = Some (fs, s)" "ds = Directive (directive_name d) (directive_arguments d) (Some es) # fs"
proof (cases "directive_block d")
  case None
  with assms show ?thesis
    by (cases "name_of d = ''include''") (auto split: option.splits intro: pulled plain)
next
  case (Some block)
  with assms show ?thesis by (auto split: option.splits intro: nested)
qed

lemma open_files_kept:
  "visit n v p r = Some (ds, s) \<Longrightarrow> open_files s = open_files r"
  "visit_all n v ps r = Some (ds, s) \<Longrightarrow> open_files s = open_files r"
  "included n v as r = Some (ds, s) \<Longrightarrow> open_files s = open_files r"
  "expanded_files n v es r = Some (ds, s) \<Longrightarrow> open_files s = open_files r"
proof (induction n v p r and n v ps r and n v as r and n v es r arbitrary: ds s and ds s and ds s and ds s
    rule: visit_visit_all_included_expanded_files.induct)
  case (2 n v p r)
  show ?case
  proof (cases "visit_file v p r")
    case (Stopped u)
    with "2.prems" visit_file_Stopped[OF Stopped] show ?thesis by (simp add: visit.simps)
  next
    case (Opened es u)
    with "2.prems" obtain fs t where t: "expanded_files n v es u = Some (fs, t)" "s = closed t" by (auto simp: visit.simps)
    with "2.IH"[OF Opened t(1)] visit_file_Opened[OF Opened] show ?thesis by (simp add: closed_def)
  qed
next
  case (4 n v p ps r)
  from "4.prems" obtain es t fs where t: "visit n v p r = Some (es, t)" "visit_all n v ps t = Some (fs, s)"
    by (auto split: option.splits)
  from "4.IH"(1)[OF t(1)] "4.IH"(2)[OF t(1) refl t(2)] show ?case by simp
next
  case (6 n v a as r)
  show ?case
  proof (cases "included_paths v a")
    case (Inl e)
    with "6.prems" obtain fs where t: "included n v as (refuse v (text_joined (include_prefix v) a) e r) = Some (fs, s)"
      by (auto split: option.splits)
    have "(case included_paths v a of Inr ps \<Rightarrow> visit_all n v ps r | Inl e \<Rightarrow> Some ([], refuse v (text_joined (include_prefix v) a) e r))
        = Some ([], refuse v (text_joined (include_prefix v) a) e r)" using Inl by simp
    from "6.IH"(2)[OF this refl t] show ?thesis by simp
  next
    case (Inr ps)
    with "6.prems" obtain es t fs where t: "visit_all n v ps r = Some (es, t)" "included n v as t = Some (fs, s)"
      by (auto split: option.splits)
    have "(case included_paths v a of Inr ps \<Rightarrow> visit_all n v ps r | Inl e \<Rightarrow> Some ([], refuse v (text_joined (include_prefix v) a) e r))
        = Some (es, t)" using Inr t(1) by simp
    from "6.IH"(1)[OF Inr t(1)] "6.IH"(2)[OF this refl t(2)] show ?thesis by simp
  qed
next
  case (8 n v d rest r)
  let ?step = "if name_of d = ''include'' \<and> directive_block d = None then included n v (given_words d) r
      else case directive_block d of None \<Rightarrow> Some ([d], r)
        | Some block \<Rightarrow> map_option (\<lambda>(es, r). ([Directive (directive_name d) (directive_arguments d) (Some es)], r)) (expanded_files n v block r)"
  note rest = "8.IH"(3)
  from "8.prems" show ?case
  proof (cases rule: expanded_cases)
    case (pulled es t fs)
    then have "?step = Some (es, t)" by simp
    from "8.IH"(1)[OF pulled(1,2)] rest[OF this refl pulled(3)] show ?thesis by simp
  next
    case (plain fs)
    then have "?step = Some ([d], r)" by simp
    from rest[OF this refl plain(3)] show ?thesis by simp
  next
    case (nested block es t fs)
    then have "\<not> (name_of d = ''include'' \<and> directive_block d = None)"
      "?step = Some ([Directive (directive_name d) (directive_arguments d) (Some es)], t)" by simp_all
    from "8.IH"(2)[OF this(1) nested(1,2)] rest[OF this(2) refl nested(3)] show ?thesis by simp
  qed
qed (simp_all add: visit.simps)

text \<open>
  Whatever includes what, a pass over finitely many readable files returns: the stack of open files never
  holds one twice, and one more than the number of readable files is fuel enough.
\<close>

lemma enough_for_finitely_many:
  assumes "finite (readable v)"
  shows "card (readable v - set (open_files r)) < n \<Longrightarrow> visit n v p r \<noteq> None"
    "card (readable v - set (open_files r)) < n \<Longrightarrow> visit_all n v ps r \<noteq> None"
    "card (readable v - set (open_files r)) < n \<Longrightarrow> included n v as r \<noteq> None"
    "card (readable v - set (open_files r)) < n \<Longrightarrow> expanded_files n v es r \<noteq> None"
  using assms
proof (induction n v p r and n v ps r and n v as r and n v es r rule: visit_visit_all_included_expanded_files.induct)
  case (2 n v p r)
  show ?case
  proof (cases "visit_file v p r")
    case (Opened es u)
    note opened = visit_file_Opened[OF Opened]
    then have "readable v - set (open_files u) = (readable v - set (open_files r)) - {identity_of v p}" by auto
    moreover have "identity_of v p \<in> readable v - set (open_files r)" using opened by simp
    ultimately have "card (readable v - set (open_files u)) < card (readable v - set (open_files r))"
      using "2.prems"(2) card_Diff1_less[of "readable v - set (open_files r)" "identity_of v p"] by (simp only: finite_Diff)
    with "2.prems" have "card (readable v - set (open_files u)) < n" by simp
    with "2.IH"[OF Opened] "2.prems"(2) Opened show ?thesis by (simp add: visit.simps)
  qed (simp add: visit.simps)
next
  case (4 n v p ps r)
  then obtain es t where t: "visit n v p r = Some (es, t)" by fastforce
  with open_files_kept(1)[OF t] "4.IH"(2)[OF t refl] "4.prems" show ?case by simp
next
  case (6 n v a as r)
  have "(case included_paths v a of Inr ps \<Rightarrow> visit_all n v ps r | Inl e \<Rightarrow> Some ([], refuse v (text_joined (include_prefix v) a) e r)) \<noteq> None"
    using "6.IH"(1) "6.prems" by (auto split: sum.split)
  then obtain es t where t: "(case included_paths v a of Inr ps \<Rightarrow> visit_all n v ps r
      | Inl e \<Rightarrow> Some ([], refuse v (text_joined (include_prefix v) a) e r)) = Some (es, t)" by fastforce
  then have "open_files t = open_files r" by (auto split: sum.splits dest: open_files_kept(2))
  with "6.IH"(2)[OF t refl] "6.prems" t show ?case by simp
next
  case (8 n v d rest r)
  let ?step = "if name_of d = ''include'' \<and> directive_block d = None then included n v (given_words d) r
      else case directive_block d of None \<Rightarrow> Some ([d], r)
        | Some block \<Rightarrow> map_option (\<lambda>(es, r). ([Directive (directive_name d) (directive_arguments d) (Some es)], r)) (expanded_files n v block r)"
  have "?step \<noteq> None" using "8.IH"(1,2) "8.prems" by (auto split: option.split)
  then obtain es t where t: "?step = Some (es, t)" by fastforce
  then have "open_files t = open_files r" by (auto split: if_splits option.splits dest: open_files_kept(3,4))
  with "8.IH"(3)[OF t refl] "8.prems" t show ?case by simp
qed simp_all

lemma configuration_read:
  assumes "finite (readable v)"
  shows "read_configuration (Suc (card (readable v))) v root prefix chosen_by \<noteq> None"
  using enough_for_finitely_many(1)[OF assms, of "\<lparr>files_seen = [], open_files = [], newest_seen = None\<rparr>" "Suc (card (readable v))"]
  by (simp add: read_configuration_def)

end
