(* ===== verification/TextSplits.thy ===== *)
theory TextSplits
  imports TextFields
begin

text \<open>
  \<open>str::split_once\<close>, \<open>rsplit_once\<close> and \<open>split\<close> on a separator of several characters, and the laws the
  readers of line formats rest on: what was joined is found again.
\<close>

fun cut_at :: "str \<Rightarrow> str \<Rightarrow> (str \<times> str) option" where
  "cut_at sep [] = (if sep = [] then Some ([], []) else None)"
| "cut_at sep (c # s) =
     (case strip_prefix sep (c # s) of
        Some r \<Rightarrow> Some ([], r)
      | None \<Rightarrow> map_option (\<lambda>(a, b). (c # a, b)) (cut_at sep s))"

definition rcut_at :: "str \<Rightarrow> str \<Rightarrow> (str \<times> str) option" where
  "rcut_at sep s = map_option (\<lambda>(a, b). (rev b, rev a)) (cut_at (rev sep) (rev s))"

lemma cut_at_Some: "cut_at sep s = Some (a, b) \<Longrightarrow> s = a @ sep @ b"
proof (induction sep s arbitrary: a rule: cut_at.induct)
  case (2 sep c s)
  then show ?case by (auto simp: strip_prefix_Some_iff split: option.splits)
qed (auto split: if_splits)

lemma rcut_at_Some: "rcut_at sep s = Some (a, b) \<Longrightarrow> s = a @ sep @ b"
  unfolding rcut_at_def
  by (auto dest!: cut_at_Some) (metis append.assoc rev_append rev_rev_ident)

text \<open>The first occurrence is the one that is found.\<close>

lemma cut_at_first:
  assumes "sep \<noteq> []" "\<And>u v. a @ butlast sep \<noteq> u @ sep @ v"
  shows "cut_at sep (a @ sep @ b) = Some (a, b)"
  using assms(2)
proof (induction a)
  case Nil
  from assms(1) show ?case by (cases sep) (auto simp: strip_prefix_def starts_with_def)
next
  case (Cons c a)
  have none: "strip_prefix sep (c # a @ sep @ b) = None"
  proof (rule ccontr)
    assume "strip_prefix sep (c # a @ sep @ b) \<noteq> None"
    then obtain r where r: "(c # a @ butlast sep) @ last sep # b = sep @ r"
      using append_butlast_last_id[OF assms(1)] by (auto simp: strip_prefix_Some_iff) (metis append.assoc append_Cons append_Nil)
    have "length sep \<le> length (c # a @ butlast sep)" using assms(1) by (cases sep) auto
    with r have "take (length sep) (c # a @ butlast sep) = sep"
      by (metis append_eq_conv_conj take_append diff_is_0_eq take_0 append_Nil2)
    then have "c # a @ butlast sep = [] @ sep @ drop (length sep) (c # a @ butlast sep)"
      by (metis append_Nil append_take_drop_id)
    with Cons.prems[of "[]"] show False by (metis append_Cons)
  qed
  have "a @ butlast sep \<noteq> u @ sep @ v" for u v
    using Cons.prems[of "c # u" v] by auto
  with Cons.IH none show ?case by simp
qed

lemma cut_at_None_iff: "sep \<noteq> [] \<Longrightarrow> cut_at sep s = None \<longleftrightarrow> (\<nexists>a b. s = a @ sep @ b)"
proof (induction s)
  case (Cons c s)
  have "(\<exists>a b. c # s = a @ sep @ b) \<longleftrightarrow> (\<exists>r. c # s = sep @ r) \<or> (\<exists>a b. s = a @ sep @ b)"
    by (metis append_Cons append_Nil append_eq_Cons_conv)
  moreover have "strip_prefix sep (c # s) = None \<longleftrightarrow> (\<nexists>r. c # s = sep @ r)"
    by (auto simp: strip_prefix_Some_iff simp flip: not_Some_eq)
  ultimately show ?case using Cons by (auto split: option.split)
qed simp

lemma cut_at_skip:
  "sep \<noteq> [] \<Longrightarrow> c \<noteq> hd sep \<Longrightarrow> cut_at sep (c # s) = map_option (\<lambda>(a, b). (c # a, b)) (cut_at sep s)"
  by (cases sep) (auto simp: strip_prefix_def starts_with_def)

text \<open>\<open>str::split\<close>.\<close>

function split_text :: "str \<Rightarrow> str \<Rightarrow> str list" where
  "split_text sep s =
     (case (if sep = [] then None else cut_at sep s) of
        None \<Rightarrow> [s]
      | Some (a, b) \<Rightarrow> a # split_text sep b)"
  by pat_completeness auto
termination
  by (relation "measure (\<lambda>(sep, s). length s)") (auto dest: cut_at_Some split: if_splits)

declare split_text.simps [simp del]

lemma split_text_None: "cut_at sep s = None \<Longrightarrow> split_text sep s = [s]"
  by (simp add: split_text.simps)

lemma split_text_Some: "cut_at sep s = Some (a, b) \<Longrightarrow> sep \<noteq> [] \<Longrightarrow> split_text sep s = a # split_text sep b"
  by (simp add: split_text.simps[of sep s])

text \<open>Putting the separator back gives the text.\<close>

fun joined_with :: "str \<Rightarrow> str list \<Rightarrow> str" where
  "joined_with sep [] = []"
| "joined_with sep [p] = p"
| "joined_with sep (p # q # ps) = p @ sep @ joined_with sep (q # ps)"

lemma split_text_nonempty [simp]: "split_text sep s \<noteq> []"
  by (subst split_text.simps) (auto split: option.split)

lemma joined_with_Cons: "ps \<noteq> [] \<Longrightarrow> joined_with sep (p # ps) = p @ sep @ joined_with sep ps"
  by (cases ps) auto

lemma joined_with_split_text: "joined_with sep (split_text sep s) = s"
proof (induction sep s rule: split_text.induct)
  case (1 sep s)
  show ?case
  proof (cases "sep = [] \<or> cut_at sep s = None")
    case True
    then show ?thesis by (auto simp: split_text.simps[of sep s])
  next
    case False
    then obtain a b where "cut_at sep s = Some (a, b)" by auto
    with False 1 cut_at_Some[of sep s a b] show ?thesis by (simp add: split_text_Some joined_with_Cons)
  qed
qed

text \<open>Parts that neither hold the separator nor complete one at their end come back apart.\<close>

definition apart :: "str \<Rightarrow> str \<Rightarrow> bool" where
  "apart sep p \<longleftrightarrow> sep \<noteq> [] \<and> cut_at sep (p @ butlast sep) = None"

lemma apartE:
  assumes "apart sep p"
  obtains "sep \<noteq> []" "\<And>u v. p @ butlast sep \<noteq> u @ sep @ v" "cut_at sep p = None"
proof -
  from assms have sep: "sep \<noteq> []" and none: "\<nexists>u v. p @ butlast sep = u @ sep @ v"
    using cut_at_None_iff[of sep "p @ butlast sep"] by (auto simp: apart_def)
  have "p \<noteq> u @ sep @ v" for u v using none by (metis append.assoc)
  with sep have "cut_at sep p = None" by (simp add: cut_at_None_iff)
  with sep none show ?thesis using that by blast
qed

lemma split_text_apart: "apart sep p \<Longrightarrow> split_text sep (p @ sep @ b) = p # split_text sep b"
  by (auto elim!: apartE intro!: cut_at_first split_text_Some)

lemma split_text_joined:
  "ps \<noteq> [] \<Longrightarrow> list_all (apart sep) ps \<Longrightarrow> split_text sep (joined_with sep ps) = ps"
proof (induction sep ps rule: joined_with.induct)
  case (2 sep p)
  then show ?case by (auto elim!: apartE intro: split_text_None)
next
  case (3 sep p q ps)
  then have "cut_at sep (p @ sep @ joined_with sep (q # ps)) = Some (p, joined_with sep (q # ps))"
    by (auto elim!: apartE intro!: cut_at_first)
  with 3 show ?case by (auto simp: split_text_Some elim!: apartE)
qed simp

lemma apart_fresh: "sep \<noteq> [] \<Longrightarrow> hd sep \<notin> set p \<Longrightarrow> hd sep \<notin> set (tl sep) \<Longrightarrow> apart sep p"
proof -
  assume sep: "sep \<noteq> []" and p: "hd sep \<notin> set p" and tl: "hd sep \<notin> set (tl sep)"
  have "p @ butlast sep \<noteq> u @ sep @ v" for u v
  proof
    assume eq: "p @ butlast sep = u @ sep @ v"
    obtain x xs where x: "sep = x # xs" using sep by (cases sep) auto
    show False
    proof (cases xs)
      case Nil
      with eq x p show False by (auto simp: append_eq_append_conv2)
    next
      case (Cons y ys)
      from eq x Cons have eq': "p @ x # butlast xs = u @ x # xs @ v" by simp
      from x p tl have fresh: "x \<notin> set p" "x \<notin> set xs" by auto
      from fresh have "x \<notin> set (butlast xs)" by (meson in_set_butlastD)
      then have "p = u \<and> butlast xs = xs @ v"
        using eq' fresh by (smt (verit, del_insts) append_Cons_eq_iff in_set_conv_decomp append_eq_Cons_conv set_append Un_iff append_eq_append_conv2 list.set_intros(1))
      then have "length xs - 1 = length xs + length v" by (metis length_append length_butlast)
      with Cons show False by simp
    qed
  qed
  with sep show ?thesis by (simp add: apart_def cut_at_None_iff)
qed

section \<open>Trimming\<close>

text \<open>Text no white space begins or ends: what \<open>trim\<close> leaves, whatever ASCII space surrounded it.\<close>

definition trimmed :: "str \<Rightarrow> bool" where
  "trimmed s \<longleftrightarrow> valid_utf8 s \<and>
     (s = [] \<or> \<not> is_whitespace (hd (chars_of s)) \<and> \<not> is_whitespace (last (chars_of s)))"

definition ascii_space :: "char \<Rightarrow> bool" where
  "ascii_space c \<longleftrightarrow> between 0 127 c \<and> is_whitespace [c]"

lemma chars_of_Nil_iff [simp]: "chars_of s = [] \<longleftrightarrow> s = []"
  by (cases s) (auto simp: chars_of.simps(2))

lemma valid_utf8_ascii_Cons: "between 0 127 c \<Longrightarrow> valid_utf8 (c # s) = valid_utf8 s"
  using valid_utf8_append[of "[c]" s] valid_utf8_ascii[of "[c]"] by simp

lemma chars_of_padded:
  assumes "list_all ascii_space a" "list_all ascii_space b" "valid_utf8 s"
  shows "chars_of (a @ s @ b) = map (\<lambda>c. [c]) a @ chars_of s @ map (\<lambda>c. [c]) b"
proof -
  have a: "list_all (between 0 127) a" "list_all (between 0 127) b"
    using assms by (auto simp: list_all_iff ascii_space_def)
  then have "valid_utf8 a" by (auto simp: list_all_iff intro: valid_utf8_ascii)
  with a assms(3) show ?thesis by (simp add: chars_of_append chars_of_ascii)
qed

lemma dropWhile_stops: "(\<And>x. x \<in> set xs \<Longrightarrow> P x) \<Longrightarrow> ys \<noteq> [] \<Longrightarrow> \<not> P (hd ys) \<Longrightarrow> dropWhile P (xs @ ys) = ys"
  by (induction xs) (cases ys, auto)

lemma trim_end_padded:
  assumes "list_all ascii_space b" "valid_utf8 s" "s \<noteq> []" "\<not> is_whitespace (last (chars_of s))"
  shows "trim_end (s @ b) = s"
proof -
  have "rev (chars_of (s @ b)) = rev (map (\<lambda>c. [c]) b) @ rev (chars_of s)"
    using chars_of_padded[of "[]" b s] assms by simp
  moreover have "dropWhile is_whitespace (rev (map (\<lambda>c. [c]) b) @ rev (chars_of s)) = rev (chars_of s)"
    using assms by (intro dropWhile_stops) (auto simp: list_all_iff ascii_space_def hd_rev)
  ultimately show ?thesis by (simp add: trim_end_def)
qed

lemma trim_padded:
  assumes "trimmed s" "list_all ascii_space a" "list_all ascii_space b"
  shows "trim (a @ s @ b) = s"
proof (cases "s = []")
  case True
  have blank: "list_all ascii_space c \<Longrightarrow> trim_end c = []" for c
  proof -
    assume c: "list_all ascii_space c"
    then have "chars_of c = map (\<lambda>x. [x]) c"
      by (intro chars_of_ascii) (auto simp: list_all_iff ascii_space_def)
    moreover have "dropWhile is_whitespace (rev (map (\<lambda>x. [x]) c)) = []"
      unfolding dropWhile_eq_Nil_conv using c by (auto simp: list_all_iff ascii_space_def)
    ultimately show "trim_end c = []" by (metis concat.simps(1) rev.simps(1) trim_end_def)
  qed
  with True assms show ?thesis by (simp add: trim_def trim_start_def blank)
next
  case False
  have valid: "valid_utf8 (a @ s)"
    using assms valid_utf8_ascii[of a] by (auto simp: trimmed_def list_all_iff ascii_space_def valid_utf8_append)
  have chars: "chars_of (a @ s) = map (\<lambda>c. [c]) a @ chars_of s"
    using chars_of_padded[of a "[]" s] assms by (simp add: trimmed_def)
  have "trim_end ((a @ s) @ b) = a @ s"
    using assms False valid chars by (intro trim_end_padded) (auto simp: trimmed_def)
  moreover have "dropWhile is_whitespace (map (\<lambda>c. [c]) a @ chars_of s) = chars_of s"
    using assms False by (intro dropWhile_stops) (auto simp: list_all_iff ascii_space_def trimmed_def)
  ultimately show ?thesis by (simp add: trim_def trim_start_def chars)
qed

lemma trim_trimmed: "trimmed s \<Longrightarrow> trim s = s"
  using trim_padded[of s "[]" "[]"] by simp

lemma trimmed_wrapped:
  assumes "valid_utf8 s" "between 0 127 a" "between 0 127 b" "\<not> is_whitespace [a]" "\<not> is_whitespace [b]"
  shows "trimmed (a # s @ [b])"
proof -
  have b: "valid_utf8 [b]" using assms(3) valid_utf8_ascii[of "[b]"] by simp
  have "chars_of (a # s @ [b]) = [a] # chars_of s @ [[b]]"
    using assms by (simp add: chars_of_ascii_Cons chars_of_append)
  moreover have "valid_utf8 (a # s @ [b])" using assms b by (simp add: valid_utf8_ascii_Cons valid_utf8_append)
  ultimately show ?thesis using assms by (simp add: trimmed_def)
qed

lemma trimmed_append: "trimmed s \<Longrightarrow> trimmed t \<Longrightarrow> trimmed (s @ t)"
  by (cases "s = []"; cases "t = []") (auto simp: trimmed_def valid_utf8_append chars_of_append)

lemma ascii_space_blank [simp]: "ascii_space (CHR '' '')"
  by (simp add: ascii_space_def between_def is_whitespace_def Let_def)

section \<open>Characters of valid text\<close>

lemma valid_char_single:
  assumes "valid_utf8 s" "ch \<in> set (chars_of s)"
  shows "valid_utf8 ch \<and> chars_of ch = [ch]"
  using assms
proof (induction s rule: chars_of.induct)
  case (2 c cs)
  let ?ch = "take (utf8_width c) (c # cs)"
  have head: "valid_utf8 ?ch" using valid_utf8_char[OF "2.prems"(1), of "[]"] by simp
  have "chars_of ?ch = [?ch]"
    using utf8_width_pos[of c] by (cases "utf8_width c") (simp_all add: chars_of.simps(2))
  moreover have "ch = ?ch \<or> ch \<in> set (chars_of (drop (utf8_width c) (c # cs)))"
    using "2.prems"(2) by (simp add: chars_of.simps(2))
  ultimately show ?case using head "2.IH" valid_utf8_first(2)[OF "2.prems"(1)] by blast
qed simp

text \<open>An ASCII byte at the end is a character of its own.\<close>

lemma ascii_last_single:
  assumes "valid_utf8 ch" "chars_of ch = [ch]" "between 0 127 (last ch)"
  shows "ch = [last ch]"
proof -
  from assms(2) obtain a rest where ch: "ch = a # rest" by (cases ch) auto
  have "take (utf8_width a) ch # chars_of (drop (utf8_width a) ch) = [ch]"
    using assms(2) ch by (simp add: chars_of.simps(2))
  then have width: "length ch \<le> utf8_width a" by auto
  from assms(1,3) width show ?thesis
    by (auto simp: ch valid_utf8.simps(2)[of a rest] utf8_width_def between_def continuation_def Let_def
      split: list.splits if_splits)
qed

lemma ascii_last_char:
  assumes "valid_utf8 s" "s \<noteq> []" "between 0 127 (last s)"
  shows "last (chars_of s) = [last s]"
proof -
  have "chars_of s \<noteq> []" using assms(2) by simp
  then obtain us ch where us: "chars_of s = us @ [ch]" by (cases "chars_of s" rule: rev_cases) auto
  have s: "s = concat us @ ch" using concat_chars_of[of s] us by simp
  have "ch \<in> set (chars_of s)" using us by simp
  then have ch: "valid_utf8 ch" "chars_of ch = [ch]" using valid_char_single[OF assms(1)] by blast+
  moreover from ch(2) have "ch \<noteq> []" by auto
  ultimately show ?thesis using ascii_last_single[of ch] assms(3) us s by simp
qed

lemma chars_of_concat:
  assumes "\<And>ch. ch \<in> set cs \<Longrightarrow> valid_utf8 ch"
  shows "chars_of (concat cs) = concat (map chars_of cs)" "valid_utf8 (concat cs)"
  using assms by (induction cs) (auto simp: chars_of_append valid_utf8_append)

lemma valid_concat_chars:
  assumes "valid_utf8 s" "set cs \<subseteq> set (chars_of s)"
  shows "valid_utf8 (concat cs)" "chars_of (concat cs) = cs"
proof -
  have ch: "valid_utf8 ch \<and> chars_of ch = [ch]" if "ch \<in> set cs" for ch
    using valid_char_single[OF assms(1)] assms(2) that by blast
  then show "valid_utf8 (concat cs)" using chars_of_concat(2) by blast
  have "chars_of (concat cs) = concat (map chars_of cs)" using ch chars_of_concat(1) by blast
  also have "\<dots> = concat (map (\<lambda>ch. [ch]) cs)" using ch by (intro arg_cong[of _ _ concat] map_cong) auto
  finally show "chars_of (concat cs) = cs" by simp
qed

lemma valid_trim:
  assumes "valid_utf8 s"
  shows "valid_utf8 (trim_start s)" "valid_utf8 (trim_end s)" "valid_utf8 (trim s)"
proof -
  have start: "valid_utf8 (trim_start s)" if "valid_utf8 s" for s
    unfolding trim_start_def using that set_dropWhileD by (intro valid_concat_chars(1)) fastforce+
  from this[OF assms] show "valid_utf8 (trim_start s)" .
  show e: "valid_utf8 (trim_end s)"
    unfolding trim_end_def using assms set_dropWhileD by (intro valid_concat_chars(1)) fastforce+
  show "valid_utf8 (trim s)" unfolding trim_def by (rule start[OF e])
qed

end
