(* ===== verification/Systemd.thy ===== *)
theory Systemd
  imports TextSplits Values BTree
begin

text \<open>
  The vocabulary of systemd the collectors share (\<open>collectors/systemd\<close>): unit names, what a unit
  starts, where its environment comes from, and the parser of the property dump \<open>systemctl show\<close>
  prints.  An environment written with any of the escapes the parser knows is read back variable for
  variable; a command is read back unless its own words hold the separator of the dump.
\<close>

section \<open>Values\<close>

datatype unit_name = UnitName (unit_text: non_empty_text)
datatype executable_path = ExecutablePath (executable_text: non_empty_text)

instantiation unit_name :: linorder
begin

definition less_eq_unit_name :: "unit_name \<Rightarrow> unit_name \<Rightarrow> bool" where
  "less_eq_unit_name m n \<longleftrightarrow> unit_text m \<le> unit_text n"

definition less_unit_name :: "unit_name \<Rightarrow> unit_name \<Rightarrow> bool" where
  "less_unit_name m n \<longleftrightarrow> unit_text m < unit_text n"

instance
  by standard (auto simp: less_eq_unit_name_def less_unit_name_def unit_name.expand)

end

definition unit_name_new :: "str \<Rightarrow> unit_name collected" where
  "unit_name_new v = map_ok UnitName (non_empty_text_new v ''unit name'')"

definition unit_str :: "unit_name \<Rightarrow> str" where
  "unit_str n = text_str (unit_text n)"

definition executable_path_new :: "str \<Rightarrow> executable_path collected" where
  "executable_path_new v = map_ok ExecutablePath (non_empty_text_new v ''unit executable'')"

definition executable_str :: "executable_path \<Rightarrow> str" where
  "executable_str p = text_str (executable_text p)"

definition is_a_login_session :: "unit_name \<Rightarrow> bool" where
  "is_a_login_session n =
     (case Option.bind (strip_prefix ''session-'' (unit_str n)) (strip_suffix ''.scope'') of
        Some counter \<Rightarrow> counter \<noteq> [] \<and> list_all is_ascii_digit counter
      | None \<Rightarrow> False)"

record exec_start =
  start_executable :: executable_path
  start_argv :: non_empty_text

definition exec_start_new :: "str \<Rightarrow> str \<Rightarrow> exec_start collected" where
  "exec_start_new executable argv =
     and_then (executable_path_new executable) (\<lambda>e.
       map_ok (\<lambda>a. \<lparr>start_executable = e, start_argv = a\<rparr>) (non_empty_text_new argv ''unit argument vector''))"

definition exec_start_observed :: "exec_start \<Rightarrow> observation" where
  "exec_start_observed start = object
     [(''argv'', text_of (text_str (start_argv start))),
      (''executable'', text_of (executable_str (start_executable start)))]"

record environment_file =
  environment_path :: absolute_path
  ignore_errors :: bool

definition environment_file_new :: "str \<Rightarrow> bool \<Rightarrow> environment_file collected" where
  "environment_file_new path ignored =
     map_ok (\<lambda>p. \<lparr>environment_path = p, ignore_errors = ignored\<rparr>) (absolute_path_new path ''unit environment file'')"

record shown_unit =
  shown_starts :: "exec_start list"
  shown_environment :: "(environment_variable_name, str) btree"
  shown_files :: "environment_file list"
  shown_unset :: "environment_variable_name list"

section \<open>The property dump\<close>

text \<open>The environment line, character by character: an escape stands for one character.\<close>

definition env_quote :: char where "env_quote = CHR 0x22"
definition env_backslash :: char where "env_backslash = CHR 0x5C"

definition hex_escape :: "str list \<Rightarrow> (str \<times> str list) collected" where
  "hex_escape cs =
     (let digits = concat (take 2 cs)
      in case parse_radix 8 16 digits of
           None \<Rightarrow> Inl (CollectionError ''the escape {digits} in an Environment= line is not two hex digits'' [digits])
         | Some byte \<Rightarrow>
             if byte < 128 then Inr ([char_of byte], drop 2 cs)
             else Inl (CollectionError ''the byte {byte} was escaped, so that value is not text'' [show_nat byte]))"

definition letter_escapes :: "(str \<times> str) list" where
  "letter_escapes =
     [(''a'', [CHR 0x07]), (''b'', [CHR 0x08]), (''f'', [CHR 0x0C]), (''n'', [CHR 0x0A]), (''r'', [CHR 0x0D]),
      (''t'', [CHR 0x09]), (''v'', [CHR 0x0B]), ([CHR 0x5C], [CHR 0x5C]), ([CHR 0x22], [CHR 0x22]),
      ([CHR 0x27], [CHR 0x27]), (''$'', ''$'')]"

fun env_unescaped :: "str list \<Rightarrow> (str \<times> str list) collected" where
  "env_unescaped [] = Inl (CollectionError ''an Environment= line ends in a lone backslash'' [])"
| "env_unescaped (c # cs) =
     (case map_of letter_escapes c of
        Some meant \<Rightarrow> Inr (meant, cs)
      | None \<Rightarrow>
          if c = ''x'' then hex_escape cs
          else Inl (CollectionError ''the escape {other:?} in an Environment= line cannot be read'' [c]))"

lemma hex_escape_shorter: "hex_escape cs = Inr (d, rest) \<Longrightarrow> length rest \<le> length cs"
  by (auto simp: hex_escape_def Let_def split: option.splits if_splits)

lemma env_unescaped_shorter: "env_unescaped cs = Inr (d, rest) \<Longrightarrow> length rest \<le> length cs"
  by (cases cs) (auto dest: hex_escape_shorter split: option.splits if_splits)

function entries_loop :: "str list \<Rightarrow> str \<Rightarrow> bool \<Rightarrow> bool \<Rightarrow> str list collected" where
  "entries_loop [] entry started quoted =
     (if quoted then Inl (CollectionError ''an Environment= line whose quoting does not close'' [])
      else Inr (if started then [entry] else []))"
| "entries_loop (c # cs) entry started quoted =
     (if c = [env_quote] then entries_loop cs entry True (\<not> quoted)
      else if c = '' '' \<and> \<not> quoted then
        (if started then map_ok (Cons entry) (entries_loop cs [] False quoted)
         else entries_loop cs entry False quoted)
      else if c = [env_backslash] then
        (case env_unescaped cs of
           Inl e \<Rightarrow> Inl e
         | Inr (d, rest) \<Rightarrow> entries_loop rest (entry @ d) True quoted)
      else entries_loop cs (entry @ c) True quoted)"
  by pat_completeness auto
termination
  by (relation "measure (\<lambda>(cs, e, s, q). length cs)") (auto dest: env_unescaped_shorter)

declare entries_loop.simps(2) [simp del]

definition entries_of_line :: "str \<Rightarrow> str list collected" where
  "entries_of_line l = entries_loop (chars_of l) [] False False"

fun environment_from ::
  "str list \<Rightarrow> (environment_variable_name, str) btree \<Rightarrow> (environment_variable_name, str) btree collected" where
  "environment_from [] env = Inr env"
| "environment_from (entry # rest) env =
     (case split_once (CHR ''='') entry of
        None \<Rightarrow> Inl (CollectionError ''an Environment= entry with no = in it: {entry:?}'' [entry])
      | Some (n, v) \<Rightarrow>
          and_then (environment_variable_name_new n) (\<lambda>key.
            if btree_get key env \<noteq> None
            then Inl (CollectionError ''{name:?} twice on one Environment= line'' [n])
            else environment_from rest (btree_insert key v env)))"

definition parse_environment :: "str \<Rightarrow> (environment_variable_name, str) btree collected" where
  "parse_environment l = and_then (entries_of_line l) (\<lambda>entries. environment_from entries [])"

definition ignore_note :: str where "ignore_note = '' (ignore_errors=''"

definition parse_environment_file :: "str \<Rightarrow> environment_file collected" where
  "parse_environment_file l =
     (case Option.bind (strip_suffix '')'' (trim_end l)) (rcut_at ignore_note) of
        None \<Rightarrow> Inl (CollectionError ''an EnvironmentFiles= line with no ignore_errors= note: {line:?}'' [l])
      | Some (path, tolerated) \<Rightarrow>
          if tolerated = ''yes'' then environment_file_new path True
          else if tolerated = ''no'' then environment_file_new path False
          else Inl (CollectionError ''ignore_errors={other} for {path:?}'' [tolerated, path]))"

definition fields_mark :: str where "fields_mark = '' ; ''"

definition command_field :: "str \<Rightarrow> str \<Rightarrow> str collected" where
  "command_field inside name = ok_or (CollectionError ''an ExecStart with no {name:?} field'' [name])
     (find_map (\<lambda>part. strip_prefix name (trim part)) (split_text fields_mark inside))"

definition parse_command :: "str \<Rightarrow> exec_start collected" where
  "parse_command command =
     (case Option.bind (strip_prefix ''{'' (trim command)) (strip_suffix ''}'') of
        None \<Rightarrow> Inl (CollectionError ''an ExecStartEx= value that is not a braced group'' [])
      | Some inside \<Rightarrow>
          and_then (command_field inside ''path='') (\<lambda>path.
          and_then (command_field inside ''argv[]='') (\<lambda>argv.
            exec_start_new path argv)))"

definition lines_under :: "str \<Rightarrow> str list \<Rightarrow> str list" where
  "lines_under key ls = List.map_filter (strip_prefix key) ls"

definition parse_group :: "str \<Rightarrow> (unit_name \<times> shown_unit) collected" where
  "parse_group g =
     (let ls = lines g in
      and_then (ok_or (CollectionError ''a group with no Id= line'' []) (find_map (strip_prefix ''Id='') ls)) (\<lambda>n.
      and_then (collect_results (map parse_command (lines_under ''ExecStartEx='' ls))) (\<lambda>starts.
      and_then (case find_map (strip_prefix ''Environment='') ls of Some l \<Rightarrow> parse_environment l | None \<Rightarrow> Inr []) (\<lambda>env.
      and_then (collect_results (map parse_environment_file (lines_under ''EnvironmentFiles='' ls))) (\<lambda>env_files.
      and_then (collect_results (map environment_variable_name_new
          (split_whitespace (case find_map (strip_prefix ''UnsetEnvironment='') ls of Some l \<Rightarrow> l | None \<Rightarrow> [])))) (\<lambda>unset.
      map_ok (\<lambda>unit. (unit, \<lparr>shown_starts = starts, shown_environment = env, shown_files = env_files,
          shown_unset = dedup (sort_by cmp_of unset)\<rparr>)) (unit_name_new n)))))))"

fun parse_groups :: "str list \<Rightarrow> (unit_name, shown_unit) btree \<Rightarrow> (unit_name, shown_unit) btree collected" where
  "parse_groups [] known = Inr known"
| "parse_groups (g # gs) known =
     (if trim g = [] then parse_groups gs known
      else and_then (parse_group (trim g)) (\<lambda>(n, unit).
        if btree_get n known \<noteq> None
        then Inl (CollectionError ''systemctl show reported the unit {:?} twice'' [unit_str n])
        else parse_groups gs (btree_insert n unit known)))"

definition show_parse :: "str \<Rightarrow> (unit_name, shown_unit) btree collected" where
  "show_parse dump = parse_groups (split_text [newline, newline] dump) []"

text \<open>The names of the loaded units; \<open>rows\<close> is the JSON reader of the rows' names.\<close>

definition unit_names :: "(str \<Rightarrow> str + str list) \<Rightarrow> str \<Rightarrow> str list collected" where
  "unit_names rows loaded = map_err (\<lambda>error. CollectionError ''could not read what systemctl list-units reported: {error}'' [error]) (rows loaded)"

section \<open>Login sessions\<close>

lemma login_session_iff:
  "is_a_login_session n \<longleftrightarrow>
     (\<exists>d. d \<noteq> [] \<and> list_all is_ascii_digit d \<and> unit_str n = ''session-'' @ d @ ''.scope'')"
  by (auto simp: is_a_login_session_def strip_prefix_Some_iff strip_suffix_Some_iff bind_eq_Some_conv
    simp del: append_Cons split: option.split)
    (auto simp: strip_prefix_Some_iff strip_suffix_Some_iff bind_eq_Some_conv simp flip: not_Some_eq simp del: append_Cons)

section \<open>An environment is read back\<close>

text \<open>
  The ways to write a variable: the characters of \<open>E\<close> escaped, by their letter where there is one and
  by two hex digits otherwise, and the entry quoted where it has to be or where \<open>Q\<close> says so.
\<close>

definition hex_pair :: "char \<Rightarrow> str" where
  "hex_pair c = zero_padded 2 (positional 16 (of_char c))"

definition escape_written :: "char \<Rightarrow> str" where
  "escape_written c = env_backslash #
     (case find (\<lambda>(k, v). v = [c]) letter_escapes of Some (k, v) \<Rightarrow> k | None \<Rightarrow> ''x'' @ hex_pair c)"

definition char_written :: "char set \<Rightarrow> str \<Rightarrow> str" where
  "char_written E ch = (case ch of [c] \<Rightarrow> if c \<in> E then escape_written c else ch | _ \<Rightarrow> ch)"

definition entry_written :: "char set \<Rightarrow> (str \<Rightarrow> bool) \<Rightarrow> str \<Rightarrow> str" where
  "entry_written E Q entry =
     (let w = concat (map (char_written E) (chars_of entry))
      in if entry = [] \<or> CHR '' '' \<in> set entry \<or> Q entry then [env_quote] @ w @ [env_quote] else w)"

definition environment_written :: "char set \<Rightarrow> (str \<Rightarrow> bool) \<Rightarrow> (environment_variable_name, str) btree \<Rightarrow> str" where
  "environment_written E Q env =
     joined_with '' '' (map (\<lambda>(n, v). entry_written E Q (text_str (variable_text n) @ ''='' @ v)) env)"

definition escapes_ok :: "char set \<Rightarrow> bool" where
  "escapes_ok E \<longleftrightarrow> env_quote \<in> E \<and> env_backslash \<in> E \<and> (\<forall>c \<in> E. between 0 127 c) \<and> CHR '' '' \<notin> E"

lemma hex_digits:
  assumes "n < (256::nat)"
  shows "zero_padded 2 (positional 16 n) = [digit (n div 16), digit (n mod 16)]"
proof (cases "n < 16")
  case True
  have "CHR ''0'' = digit 0" by (simp add: of_char_digit flip: of_char_eq_iff[where 'a = nat])
  with True show ?thesis by (simp add: positional.simps[of 16 n] zero_padded_def)
next
  case False
  with assms have "n div 16 < 16" by linarith
  with False show ?thesis
    by (simp add: positional.simps[of 16 n] positional.simps[of 16 "n div 16"] zero_padded_def)
qed

lemma hex_pair_read:
  assumes "of_char c < (128::nat)"
  shows "parse_radix 8 16 (hex_pair c) = Some (of_char c)" "length (hex_pair c) = 2"
    "list_all (between 0 127) (hex_pair c)"
proof -
  let ?n = "of_char c :: nat"
  let ?digits = "[digit (?n div 16), digit (?n mod 16)]"
  have small: "?n div 16 < 16" "?n mod 16 < 16" using assms by auto
  have pair: "hex_pair c = ?digits" using hex_digits[of ?n] assms by (simp add: hex_pair_def)
  then show "length (hex_pair c) = 2" by simp
  show "list_all (between 0 127) (hex_pair c)"
    using small by (auto simp: pair between_def of_char_digit)
  have "digit (?n div 16) \<noteq> CHR ''+''"
    using small(1) by (simp add: of_char_digit flip: of_char_eq_iff[where 'a = nat])
  then have "strip_prefix ''+'' ?digits = None" by (auto simp: strip_prefix_def starts_with_def)
  moreover have "radix_value 16 0 ?digits = Some ?n"
    using radix_digit_digit[OF small(1)] radix_digit_digit[OF small(2)] by simp
  ultimately show "parse_radix 8 16 (hex_pair c) = Some ?n" using assms by (simp add: pair parse_radix_def)
qed

lemma letter_escapes_facts:
  "distinct (map fst letter_escapes)" "map_of letter_escapes ''x'' = None"
  "list_all (\<lambda>(k, v). length k = 1 \<and> list_all (between 0 127) k) letter_escapes"
  by (simp_all add: letter_escapes_def between_def)

lemma escape_read:
  assumes "between 0 127 c"
  shows "\<exists>w. escape_written c = env_backslash # w \<and> list_all (between 0 127) w \<and>
    (\<forall>rest. env_unescaped (map (\<lambda>c. [c]) w @ rest) = Inr ([c], rest))"
proof (cases "find (\<lambda>(k, v). v = [c]) letter_escapes")
  case None
  from assms have small: "of_char c < (128::nat)" by (simp add: between_def Let_def)
  obtain x y where xy: "hex_pair c = [x, y]"
    using hex_pair_read(2)[OF small] by (auto simp: numeral_2_eq_2 length_Suc_conv)
  have "env_unescaped (map (\<lambda>c. [c]) (''x'' @ hex_pair c) @ rest) = Inr ([c], rest)" for rest
    using hex_pair_read(1)[OF small] small xy by (simp add: letter_escapes_facts hex_escape_def)
  moreover have "list_all (between 0 127) (''x'' @ hex_pair c)"
    using hex_pair_read(3)[OF small] by (simp add: between_def)
  ultimately show ?thesis using None by (auto simp: escape_written_def)
next
  case (Some kv)
  then obtain k where kv: "kv = (k, [c])" "(k, [c]) \<in> set letter_escapes"
    by (cases kv) (auto simp: find_Some_iff in_set_conv_nth; metis)
  then have k: "map_of letter_escapes k = Some [c]" "length k = 1" "list_all (between 0 127) k"
    using letter_escapes_facts by (auto simp: list_all_iff)
  then obtain x where "k = [x]" by (auto simp: length_Suc_conv)
  with k have "env_unescaped (map (\<lambda>c. [c]) k @ rest) = Inr ([c], rest)" for rest by simp
  with Some kv(1) k(3) show ?thesis by (auto simp: escape_written_def)
qed

lemma escape_consumed:
  assumes "between 0 127 c"
  shows "entries_loop (chars_of (escape_written c) @ rest) entry started quoted
    = entries_loop rest (entry @ [c]) True quoted" "valid_utf8 (escape_written c)"
proof -
  obtain w where w: "escape_written c = env_backslash # w" "list_all (between 0 127) w"
    "\<And>rest. env_unescaped (map (\<lambda>c. [c]) w @ rest) = Inr ([c], rest)"
    using escape_read[OF assms] by blast
  have ascii: "list_all (between 0 127) (escape_written c)" using w by (simp add: env_backslash_def between_def)
  then show "valid_utf8 (escape_written c)" by (auto simp: list_all_iff intro: valid_utf8_ascii)
  have "chars_of (escape_written c) = [env_backslash] # map (\<lambda>c. [c]) w"
    using chars_of_ascii[OF ascii] w(1) by simp
  then show "entries_loop (chars_of (escape_written c) @ rest) entry started quoted
    = entries_loop rest (entry @ [c]) True quoted"
    by (simp add: entries_loop.simps(2) w(3)) (simp add: env_backslash_def env_quote_def)
qed

lemma char_consumed:
  assumes "escapes_ok E" "valid_utf8 ch" "chars_of ch = [ch]" "quoted \<or> ch \<noteq> '' ''"
  shows "entries_loop (chars_of (char_written E ch) @ rest) entry started quoted
    = entries_loop rest (entry @ ch) True quoted" "valid_utf8 (char_written E ch)"
proof -
  have "entries_loop (chars_of (char_written E ch) @ rest) entry started quoted
      = entries_loop rest (entry @ ch) True quoted \<and> valid_utf8 (char_written E ch)"
  proof (cases "\<exists>c. ch = [c] \<and> c \<in> E")
    case True
    with assms(1) show ?thesis
      by (auto simp: char_written_def escapes_ok_def escape_consumed)
  next
    case False
    then have "char_written E ch = ch" by (auto simp: char_written_def split: list.split)
    moreover have "ch \<noteq> [env_quote]" "ch \<noteq> [env_backslash]" using False assms(1) by (auto simp: escapes_ok_def)
    ultimately show ?thesis using assms by (auto simp: entries_loop.simps(2))
  qed
  then show "entries_loop (chars_of (char_written E ch) @ rest) entry started quoted
    = entries_loop rest (entry @ ch) True quoted" "valid_utf8 (char_written E ch)" by simp_all
qed

lemma chars_consumed:
  assumes "escapes_ok E" "\<And>ch. ch \<in> set cs \<Longrightarrow> valid_utf8 ch \<and> chars_of ch = [ch] \<and> (quoted \<or> ch \<noteq> '' '')"
  shows "entries_loop (concat (map chars_of (map (char_written E) cs)) @ rest) entry started quoted
    = entries_loop rest (entry @ concat cs) (started \<or> cs \<noteq> []) quoted"
  using assms(2)
proof (induction cs arbitrary: entry started)
  case (Cons ch cs)
  then show ?case using char_consumed[OF assms(1), of ch quoted] by simp
qed simp

lemma entry_consumed:
  assumes "escapes_ok E" "valid_utf8 e"
  shows "entries_loop (chars_of (entry_written E Q e) @ rest) [] False False = entries_loop rest e True False"
    "valid_utf8 (entry_written E Q e)"
proof -
  let ?w = "concat (map (char_written E) (chars_of e))"
  have ch: "valid_utf8 ch \<and> chars_of ch = [ch]" if "ch \<in> set (chars_of e)" for ch
    using valid_char_single[OF assms(2) that] .
  have each: "valid_utf8 x" if "x \<in> set (map (char_written E) (chars_of e))" for x
    using that ch char_consumed(2)[OF assms(1), of _ True] by auto
  then have w: "chars_of ?w = concat (map chars_of (map (char_written E) (chars_of e)))" "valid_utf8 ?w"
    using chars_of_concat by blast+
  have q: "between 0 127 env_quote" by (simp add: env_quote_def between_def)
  have quoted: "entries_loop (chars_of ([env_quote] @ ?w @ [env_quote]) @ rest) [] False False = entries_loop rest e True False"
    using chars_consumed[OF assms(1), of "chars_of e" True "[[env_quote]] @ rest" "[]" True] ch w q
    by (simp add: chars_of_ascii_Cons chars_of_append chars_of_ascii entries_loop.simps(2))
  have plain: "entries_loop (chars_of ?w @ rest) [] False False = entries_loop rest e True False"
    if "e \<noteq> []" "CHR '' '' \<notin> set e"
  proof -
    have "ch \<noteq> '' ''" if "ch \<in> set (chars_of e)" for ch
      using that \<open>CHR '' '' \<notin> set e\<close> concat_chars_of[of e] by (metis UN_I list.set_intros(1) set_concat)
    then show ?thesis
      using chars_consumed[OF assms(1), of "chars_of e" False rest "[]" False] ch w that by simp
  qed
  show "entries_loop (chars_of (entry_written E Q e) @ rest) [] False False = entries_loop rest e True False"
    unfolding entry_written_def Let_def using quoted plain by auto
  show "valid_utf8 (entry_written E Q e)"
    using w(2) q valid_utf8_ascii[of "[env_quote]"]
    by (simp add: entry_written_def Let_def valid_utf8_append valid_utf8_ascii_Cons)
qed

lemma space_ends_entry: "entries_loop ('' '' # rest) e True False = map_ok (Cons e) (entries_loop rest [] False False)"
  by (simp add: entries_loop.simps(2) env_quote_def)

lemma entries_read:
  assumes "escapes_ok E" "list_all valid_utf8 es"
  shows "entries_of_line (joined_with '' '' (map (entry_written E Q) es)) = Inr es"
proof -
  have "entries_loop (chars_of (joined_with '' '' (map (entry_written E Q) es))) [] False False = Inr es"
    using assms(2)
  proof (induction es)
    case (Cons e es)
    note e = entry_consumed[OF assms(1), of e Q]
    show ?case
    proof (cases es)
      case Nil
      then show ?thesis using e(1)[of "[]"] Cons.prems by simp
    next
      case (Cons f fs)
      have sp: "between 0 127 (CHR '' '')" by (simp add: between_def)
      have "chars_of (joined_with '' '' (map (entry_written E Q) (e # es)))
          = chars_of (entry_written E Q e) @ '' '' # chars_of (joined_with '' '' (map (entry_written E Q) es))"
        using e(2) Cons.prems Cons by (simp add: chars_of_append chars_of_ascii_Cons[OF sp])
      then show ?thesis using e(1) Cons.IH Cons.prems by (simp add: space_ends_entry)
    qed
  qed simp
  then show ?thesis by (simp add: entries_of_line_def)
qed

text \<open>Names and values as systemd prints them: any name, any text.\<close>

definition variable_ok :: "environment_variable_name \<times> str \<Rightarrow> bool" where
  "variable_ok nv \<longleftrightarrow> environment_variable_name_new (text_str (variable_text (fst nv))) = Inr (fst nv) \<and>
     valid_utf8 (text_str (variable_text (fst nv))) \<and> valid_utf8 (snd nv)"

lemma environment_from_sorted:
  assumes "btree_sorted (done @ env)" "list_all variable_ok env"
  shows "environment_from (map (\<lambda>(n, v). text_str (variable_text n) @ ''='' @ v) env) done = Inr (done @ env)"
  using assms
proof (induction env arbitrary: "done")
  case (Cons nv env)
  obtain n v where nv: "nv = (n, v)" by (cases nv)
  let ?t = "text_str (variable_text n)"
  have name: "environment_variable_name_new ?t = Inr n" using Cons.prems nv by (simp add: variable_ok_def)
  then have "CHR ''='' \<notin> set ?t"
    by (auto simp: environment_variable_name_new_def non_empty_text_new_def split: if_splits)
  then have "split_once (CHR ''='') (?t @ ''='' @ v) = Some (?t, v)" by (simp add: split_once_Some_iff)
  moreover have above: "\<forall>k \<in> set (map fst done). k < n"
    using Cons.prems(1) nv by (auto simp: btree_sorted_def sorted_wrt_append)
  then have "btree_get n done = None" by (auto simp: btree_get_def map_of_eq_None_iff)
  ultimately show ?case
    using Cons.IH[of "done @ [(n, v)]"] Cons.prems nv name btree_insert_above[OF above] by simp
qed simp

lemma environment_read_back:
  assumes "escapes_ok E" "btree_sorted env" "list_all variable_ok env"
  shows "parse_environment (environment_written E Q env) = Inr env"
proof -
  let ?es = "map (\<lambda>(n, v). text_str (variable_text n) @ ''='' @ v) env"
  have "list_all valid_utf8 ?es"
    using assms(3)
    by (auto simp: list_all_iff variable_ok_def valid_utf8_append valid_utf8_ascii_Cons between_def)
  from entries_read[OF assms(1) this, of Q] have "entries_of_line (environment_written E Q env) = Inr ?es"
    by (simp add: environment_written_def comp_def case_prod_unfold)
  with environment_from_sorted[of "[]" env] assms show ?thesis by (simp add: parse_environment_def)
qed

section \<open>A command is read back, unless it holds the dump's separator\<close>

definition group_written :: "str \<Rightarrow> str \<Rightarrow> str \<Rightarrow> str" where
  "group_written path argv rest = ''{ path='' @ path @ fields_mark @ ''argv[]='' @ argv @ fields_mark @ rest @ '' }''"

lemma trimmed_ascii:
  "list_all (between 0 127) s \<Longrightarrow> s \<noteq> [] \<Longrightarrow> \<not> is_whitespace [hd s] \<Longrightarrow> \<not> is_whitespace [last s] \<Longrightarrow> trimmed s"
  by (auto simp: trimmed_def chars_of_ascii hd_map last_map list_all_iff intro: valid_utf8_ascii)

lemma trimmed_keys: "trimmed ''path=''" "trimmed ''argv[]=''" "trimmed ''{''" "trimmed ''}''"
  by (auto intro!: trimmed_ascii simp: between_def is_whitespace_def)

lemma braces_stripped: "Option.bind (strip_prefix [a] (a # s @ [b])) (strip_suffix [b]) = Some s"
  using strip_prefix_append[of "[a]" "s @ [b]"] by (simp add: strip_suffix_Some_iff)

lemma command_read_back:
  assumes "trimmed path" "path \<noteq> []" "trimmed argv" "argv \<noteq> []"
    and "cut_at fields_mark (path @ '' ;'') = None" "cut_at fields_mark (argv @ '' ;'') = None"
    and "valid_utf8 rest"
  shows "parse_command (group_written path argv rest) =
    Inr \<lparr>start_executable = ExecutablePath (NonEmptyText path), start_argv = NonEmptyText argv\<rparr>"
proof -
  let ?tail = "rest @ '' ''"
  let ?second = "''argv[]='' @ argv @ fields_mark @ ?tail"
  let ?inside = "'' path='' @ path @ fields_mark @ ?second"
  have mark: "fields_mark \<noteq> []" "hd fields_mark = CHR '' ''" "butlast fields_mark = '' ;''"
    by (simp_all add: fields_mark_def)
  have valid: "valid_utf8 path" "valid_utf8 argv" using assms by (simp_all add: trimmed_def)
  have "group_written path argv rest = CHR ''{'' # ?inside @ ''}''" by (simp add: group_written_def)
  moreover have "valid_utf8 ?inside"
    using valid assms(7) by (simp add: valid_utf8_append valid_utf8_ascii_Cons between_def fields_mark_def)
  moreover from this have "trimmed (CHR ''{'' # ?inside @ ''}'')"
    by (intro trimmed_wrapped) (simp_all add: between_def is_whitespace_def)
  ultimately have inside: "Option.bind (strip_prefix ''{'' (trim (group_written path argv rest))) (strip_suffix ''}'') = Some ?inside"
    using trim_trimmed braces_stripped[of "CHR ''{''" ?inside "CHR ''}''"] by metis
  have "cut_at fields_mark (''path='' @ path @ '' ;'') = None"
    using assms(5) mark by (simp add: cut_at_skip del: cut_at.simps)
  then have "apart fields_mark ('' path='' @ path)"
    by (simp add: apart_def mark) (simp add: fields_mark_def strip_prefix_def starts_with_def)
  then have "split_text fields_mark (('' path='' @ path) @ fields_mark @ ?second) = ('' path='' @ path) # split_text fields_mark ?second"
    by (rule split_text_apart)
  then have first: "split_text fields_mark ?inside = ('' path='' @ path) # split_text fields_mark ?second"
    by (simp only: append_assoc)
  have "apart fields_mark (''argv[]='' @ argv)"
    using assms(6) mark by (simp add: apart_def cut_at_skip del: cut_at.simps)
  then have "split_text fields_mark ((''argv[]='' @ argv) @ fields_mark @ ?tail) = (''argv[]='' @ argv) # split_text fields_mark ?tail"
    by (rule split_text_apart)
  then have second: "split_text fields_mark ?second = (''argv[]='' @ argv) # split_text fields_mark ?tail"
    by (simp only: append_assoc)
  have trims: "trim ('' path='' @ path) = ''path='' @ path" "trim (''argv[]='' @ argv) = ''argv[]='' @ argv"
    using trim_padded[of "''path='' @ path" "'' ''" "[]"] trim_trimmed[of "''argv[]='' @ argv"] assms trimmed_keys
    by (simp_all add: trimmed_append del: append_Cons append_Nil) (simp_all add: trimmed_append)
  have path: "command_field ?inside ''path='' = Inr path"
    unfolding command_field_def first find_map.simps trims strip_prefix_append by simp
  have "strip_prefix ''argv[]='' (''path='' @ path) = None" by (simp add: strip_prefix_def starts_with_def)
  then have argv: "command_field ?inside ''argv[]='' = Inr argv"
    unfolding command_field_def first second find_map.simps trims strip_prefix_append by simp
  show ?thesis
    unfolding parse_command_def inside using path argv assms(2,4)
    by (simp add: exec_start_new_def executable_path_new_def non_empty_text_new_def)
qed

text \<open>An argument that holds the separator loses what follows it, without a word.\<close>

lemma command_truncated:
  "parse_command (group_written ''/bin/sh'' ''/bin/sh -c a ; b'' ''ignore_errors=no'') =
     Inr \<lparr>start_executable = ExecutablePath (NonEmptyText ''/bin/sh''), start_argv = NonEmptyText ''/bin/sh -c a''\<rparr>"
  by code_simp

text \<open>A sign is taken for a digit of an escape.\<close>

lemma signed_escape: "parse_environment (''A='' @ [env_backslash] @ ''x+7'') = Inr [(EnvironmentVariableName (NonEmptyText ''A''), [CHR 0x07])]"
  by code_simp

section \<open>A dump is read unit for unit\<close>

lemma btree_insert_set:
  assumes "btree_get k m = None"
  shows "set (btree_insert k v m) = insert (k, v) (set m)"
  using assms by (induction m) (auto simp: btree_get_def split: if_splits)

lemma parse_groups_Inr:
  assumes "parse_groups gs known = Inr m" "btree_sorted known"
  shows "btree_sorted m \<and>
    set m = set known \<union> {unit. \<exists>g \<in> set gs. trim g \<noteq> [] \<and> parse_group (trim g) = Inr unit}"
  using assms
proof (induction gs arbitrary: known)
  case (Cons g gs)
  show ?case
  proof (cases "trim g = []")
    case True
    with Cons show ?thesis by auto
  next
    case False
    with Cons.prems obtain n u where nu: "parse_group (trim g) = Inr (n, u)" "btree_get n known = None"
      "parse_groups gs (btree_insert n u known) = Inr m"
      by (auto simp: result_iffs split: if_splits)
    from Cons.IH[OF nu(3) btree_sorted_insert[OF Cons.prems(2)]] False nu show ?thesis
      by (auto simp: btree_insert_set)
  qed
qed simp

lemma show_parse_Inr:
  "show_parse dump = Inr m \<Longrightarrow> btree_sorted m \<and>
    set m = {unit. \<exists>g \<in> set (split_text [newline, newline] dump). trim g \<noteq> [] \<and> parse_group (trim g) = Inr unit}"
  unfolding show_parse_def by (drule parse_groups_Inr) auto

end
