(* ===== verification/EnvironmentFiles.thy ===== *)
theory EnvironmentFiles
  imports Systemd Globs
begin

text \<open>
  The \<open>EnvironmentFile=\<close> format as systemd reads it (\<open>units/source/environment_file_contents.rs\<close>,
  \<open>units/model/environment_source.rs\<close>).  Files are reached through a record of calls: what \<open>stat\<close> says of
  a path and what reading it gives.  A file of quoted assignments is read back variable for variable,
  whatever the quoting; a path that is not a regular file is never opened.
\<close>

section \<open>Lines\<close>

definition trailing_backslashes :: "str \<Rightarrow> nat" where
  "trailing_backslashes l = length l - length (trim_end_matches env_backslash l)"

fun logical_loop :: "str list \<Rightarrow> str \<Rightarrow> str list" where
  "logical_loop [] current = (if current = [] then [] else [current])"
| "logical_loop (l # ls) current =
     (if trailing_backslashes l mod 2 = 1 then logical_loop ls (current @ take (length l - 1) l)
      else (current @ l) # logical_loop ls [])"

definition logical_lines :: "str \<Rightarrow> str list" where
  "logical_lines s = logical_loop (lines s) []"

section \<open>One assignment\<close>

definition is_systemd_environment_name :: "str \<Rightarrow> bool" where
  "is_systemd_environment_name n = (case n of
      [] \<Rightarrow> False
    | c # cs \<Rightarrow> (is_ascii_alphabetic c \<or> c = CHR ''_'') \<and> list_all (\<lambda>c. is_ascii_alphanumeric c \<or> c = CHR ''_'') cs)"

definition env_apostrophe :: char where "env_apostrophe = CHR 0x27"

definition opens_quote :: "str \<Rightarrow> bool" where
  "opens_quote c \<longleftrightarrow> c = [env_quote] \<or> c = [env_apostrophe]"

definition escapable :: "str \<Rightarrow> bool" where
  "escapable c \<longleftrightarrow> c = [env_quote] \<or> c = [env_backslash] \<or> c = ''$'' \<or> c = [CHR 0x60]"

text \<open>
  One step of the scan: the quote that is open, what is resolved, how much of it is significant, and the
  characters that are left.
\<close>

definition unquote_step ::
  "str \<Rightarrow> str list \<Rightarrow> str option \<Rightarrow> str \<Rightarrow> nat \<Rightarrow> str option \<times> str \<times> nat \<times> str list" where
  "unquote_step c cs quote resolved significant =
     (if opens_quote c \<and> quote = None then (Some c, resolved, length resolved, cs)
      else if opens_quote c \<and> quote = Some c then (None, resolved, significant, cs)
      else if c = [env_backslash] \<and> quote = None then
        (case cs of [] \<Rightarrow> (quote, resolved, significant, []) | d # ds \<Rightarrow> (quote, resolved @ d, significant, ds))
      else if c = [env_backslash] \<and> quote = Some [env_quote] then
        (case cs of
           [] \<Rightarrow> (quote, resolved @ [env_backslash], significant, [])
         | d # ds \<Rightarrow> if escapable d then (quote, resolved @ d, significant, ds)
             else (quote, resolved @ [env_backslash] @ d, significant, ds))
      else (quote, resolved @ c, significant, cs))"

lemma unquote_step_shorter: "(q, r, n, rest) = unquote_step c cs quote resolved significant \<Longrightarrow> length rest \<le> length cs"
  by (auto simp: unquote_step_def split: if_splits list.splits)

function unquote_loop :: "str list \<Rightarrow> str option \<Rightarrow> str \<Rightarrow> nat \<Rightarrow> str" where
  "unquote_loop [] quote resolved significant = take significant resolved"
| "unquote_loop (c # cs) quote resolved significant =
     (let (quote', resolved', significant', rest) = unquote_step c cs quote resolved significant
      in unquote_loop rest quote' resolved'
           (if quote' \<noteq> None \<or> \<not> is_whitespace c then length resolved' else significant'))"
  by pat_completeness auto
termination
  by (relation "measure (\<lambda>(cs, q, r, n). length cs)") (auto dest: unquote_step_shorter)

declare unquote_loop.simps(2) [simp del]

definition env_unquoted :: "str \<Rightarrow> str" where
  "env_unquoted v = unquote_loop (chars_of (trim_start v)) None [] 0"

definition env_assignment :: "str \<Rightarrow> (environment_variable_name \<times> str) option" where
  "env_assignment l =
     Option.bind (split_once (CHR ''='') l) (\<lambda>(n, v).
       let n = trim n
       in if \<not> is_systemd_environment_name n then None
          else map_option (\<lambda>key. (key, env_unquoted v)) (result_ok (environment_variable_name_new n)))"

record environment_file_contents =
  file_variables :: "(environment_variable_name, str) btree"
  file_ignored :: nat

definition contents_step :: "environment_file_contents \<Rightarrow> str \<Rightarrow> environment_file_contents" where
  "contents_step c l =
     (let l = trim_start l
      in if l = [] \<or> starts_with ''#'' l then c
         else (case env_assignment l of
             Some (n, v) \<Rightarrow> c\<lparr>file_variables := btree_insert n v (file_variables c)\<rparr>
           | None \<Rightarrow> c\<lparr>file_ignored := Suc (file_ignored c)\<rparr>))"

definition environment_file_parse :: "str \<Rightarrow> environment_file_contents" where
  "environment_file_parse s = foldl contents_step \<lparr>file_variables = [], file_ignored = 0\<rparr> (logical_lines s)"

section \<open>Reading one\<close>

datatype environment_reading =
    EnvironmentRead "(environment_variable_name, str) btree" nat
  | EnvironmentAbsent
  | EnvironmentUnreadable str

record environment_source =
  declared_file :: environment_file
  resolved_path :: "absolute_path option"
  source_reading :: environment_reading

datatype stat_failure = StatNotFound | StatFailed str

record environment_host =
  stat_of :: "str \<Rightarrow> stat_failure + bool \<times> nat"
  held_by :: "str \<Rightarrow> str + str"
  host_directories :: directories
  rendered :: "collection_error \<Rightarrow> str"

definition largest_environment_file :: nat where
  "largest_environment_file = 1024 * 1024"

definition contents_of :: "environment_host \<Rightarrow> str \<Rightarrow> environment_reading + environment_file_contents" where
  "contents_of h path =
     (case stat_of h path of
        Inl StatNotFound \<Rightarrow> Inl EnvironmentAbsent
      | Inl (StatFailed e) \<Rightarrow> Inl (EnvironmentUnreadable e)
      | Inr (is_file, len) \<Rightarrow>
          if \<not> is_file then Inl (EnvironmentUnreadable (rendered h (CollectionError ''{path} is not a regular file'' [path])))
          else if largest_environment_file < len
          then Inl (EnvironmentUnreadable (rendered h (CollectionError ''{path} is {} bytes, past what is read of an environment file'' [path, show_nat len])))
          else (case held_by h path of
              Inl e \<Rightarrow> Inl (EnvironmentUnreadable e)
            | Inr held \<Rightarrow>
                (let taken = take (largest_environment_file + 1) held
                 in if \<not> valid_utf8 taken then Inl (EnvironmentUnreadable ''stream did not contain valid UTF-8'')
                    else if largest_environment_file < length taken
                    then Inl (EnvironmentUnreadable (rendered h (CollectionError ''{path} grew past what is read of an environment file'' [path])))
                    else Inr (environment_file_parse taken))))"

definition environment_reading_at :: "environment_host \<Rightarrow> str \<Rightarrow> environment_reading" where
  "environment_reading_at h path = (case contents_of h path of
      Inr c \<Rightarrow> EnvironmentRead (file_variables c) (file_ignored c)
    | Inl reading \<Rightarrow> reading)"

definition environment_sources_of :: "environment_host \<Rightarrow> environment_file \<Rightarrow> environment_source list" where
  "environment_sources_of h declared =
     (let path = path_str (environment_path declared); pattern = Paths.components path
      in if \<not> is_pattern pattern
         then [\<lparr>declared_file = declared, resolved_path = Some (environment_path declared), source_reading = environment_reading_at h path\<rparr>]
         else (case matching (host_directories h) path pattern of
             Inr [] \<Rightarrow> [\<lparr>declared_file = declared, resolved_path = None, source_reading = EnvironmentAbsent\<rparr>]
           | Inr matched \<Rightarrow> map (\<lambda>p. let found = lossy (path_bytes p)
               in \<lparr>declared_file = declared, resolved_path = result_ok (absolute_path_new found ''unit environment file''),
                   source_reading = environment_reading_at h found\<rparr>) matched
           | Inl refusal \<Rightarrow> [\<lparr>declared_file = declared, resolved_path = None,
               source_reading = EnvironmentUnreadable (rendered h refusal)\<rparr>]))"

definition saturated_count :: "nat \<Rightarrow> i64" where
  "saturated_count n = (if n < 2 ^ 63 then word_of_nat n else word_of_nat (2 ^ 63 - 1))"

fun reading_status :: "environment_reading \<Rightarrow> str" where
  "reading_status (EnvironmentRead vs n) = ''ok''"
| "reading_status EnvironmentAbsent = ''absent''"
| "reading_status (EnvironmentUnreadable why) = ''error''"

definition withheld_variables :: "(environment_variable_name, str) btree \<Rightarrow> observation" where
  "withheld_variables vs = object (map (\<lambda>(n, v). (text_str (variable_text n), sensitive (text_of v))) vs)"

definition environment_source_observed :: "environment_source \<Rightarrow> observation" where
  "environment_source_observed src =
     (let (vs, ignored, err) = (case source_reading src of
          EnvironmentRead vs n \<Rightarrow> (withheld_variables vs, integer (saturated_count n), null)
        | EnvironmentAbsent \<Rightarrow> (null, null, null)
        | EnvironmentUnreadable why \<Rightarrow> (null, null, text_of why))
      in incomplete_when (object
        [(''declared'', text_of (path_str (environment_path (declared_file src)))),
         (''error'', err),
         (''ignore_errors'', boolean (ignore_errors (declared_file src))),
         (''ignored_lines'', ignored),
         (''path'', case resolved_path src of Some p \<Rightarrow> text_of (path_str p) | None \<Rightarrow> null),
         (''status'', text_of (reading_status (source_reading src))),
         (''variables'', vs)])
        (case source_reading src of EnvironmentUnreadable why \<Rightarrow> True | _ \<Rightarrow> False))"

section \<open>Continuations\<close>

text \<open>No logical line ends in a backslash that escapes nothing.\<close>

lemma trailing_backslashes_append:
  "trailing_backslashes (u @ l) = (if l = replicate (length l) env_backslash then trailing_backslashes u + length l
     else trailing_backslashes l)"
proof -
  let ?P = "(=) env_backslash"
  have all: "l = replicate (length l) env_backslash \<longleftrightarrow> (\<forall>x \<in> set (rev l). ?P x)"
    by (metis (mono_tags) in_set_replicate replicate_eqI set_rev)
  have count: "trailing_backslashes s = length (takeWhile ?P (rev s))" for s
  proof -
    have "length s = length (takeWhile ?P (rev s)) + length (dropWhile ?P (rev s))"
      by (metis length_append length_rev takeWhile_dropWhile_id)
    then show ?thesis by (simp add: trailing_backslashes_def trim_end_matches_def)
  qed
  show ?thesis
  proof (cases "\<forall>x \<in> set (rev l). ?P x")
    case True
    then have "takeWhile ?P (rev l @ rev u) = rev l @ takeWhile ?P (rev u)" by (intro takeWhile_append2) simp
    with True all show ?thesis by (simp add: count)
  next
    case False
    then obtain x where "x \<in> set (rev l)" "\<not> ?P x" by blast
    then have "takeWhile ?P (rev l @ rev u) = takeWhile ?P (rev l)" by (rule takeWhile_append1)
    with False all show ?thesis by (auto simp: count)
  qed
qed

lemma trailing_backslashes_butlast:
  assumes "odd (trailing_backslashes l)"
  shows "even (trailing_backslashes (take (length l - 1) l))" "l \<noteq> []"
proof -
  show l: "l \<noteq> []" using assms by (auto simp: trailing_backslashes_def trim_end_matches_def)
  then obtain u c where uc: "l = u @ [c]" by (cases l rule: rev_cases) auto
  with assms have "c = env_backslash"
    using trailing_backslashes_append[of u "[c]"] by (auto simp: trailing_backslashes_def trim_end_matches_def split: if_splits)
  with uc assms trailing_backslashes_append[of u "[c]"] show "even (trailing_backslashes (take (length l - 1) l))" by simp
qed

lemma even_append: "even (trailing_backslashes u) \<Longrightarrow> even (trailing_backslashes l) \<Longrightarrow> even (trailing_backslashes (u @ l))"
proof -
  assume even: "even (trailing_backslashes u)" "even (trailing_backslashes l)"
  have "trailing_backslashes (replicate n env_backslash) = n" for n
    by (simp add: trailing_backslashes_def trim_end_matches_def)
  with even show ?thesis by (metis trailing_backslashes_append dvd_add)
qed

lemma logical_loop_even:
  "even (trailing_backslashes current) \<Longrightarrow> l \<in> set (logical_loop ls current) \<Longrightarrow> even (trailing_backslashes l)"
proof (induction ls current rule: logical_loop.induct)
  case (2 a ls current)
  show ?case
  proof (cases "trailing_backslashes a mod 2 = 1")
    case True
    with 2 trailing_backslashes_butlast[of a] show ?thesis by (auto simp: odd_iff_mod_2_eq_one intro: even_append)
  next
    case False
    then have "even (trailing_backslashes a)" by presburger
    with 2 False show ?thesis
      by (auto intro: even_append simp: trailing_backslashes_def[of "[]"] trim_end_matches_def)
  qed
qed (auto split: if_splits)

lemma logical_lines_even: "l \<in> set (logical_lines s) \<Longrightarrow> even (trailing_backslashes l)"
  unfolding logical_lines_def
  by (rule logical_loop_even) (auto simp: trailing_backslashes_def[of "[]"] trim_end_matches_def)

lemma logical_loop_plain: "list_all (\<lambda>l. trailing_backslashes l = 0) ls \<Longrightarrow> logical_loop ls [] = ls"
  by (induction ls) auto

section \<open>A file of assignments is read back\<close>

datatype env_quoting = Bare | Single | Double "char set"

definition double_written :: "char set \<Rightarrow> str \<Rightarrow> str" where
  "double_written E ch = (case ch of [c] \<Rightarrow> if c \<in> E then [env_backslash, c] else ch | _ \<Rightarrow> ch)"

fun value_written :: "env_quoting \<Rightarrow> str \<Rightarrow> str" where
  "value_written Bare v = v"
| "value_written Single v = [env_apostrophe] @ v @ [env_apostrophe]"
| "value_written (Double E) v = [env_quote] @ concat (map (double_written E) (chars_of v)) @ [env_quote]"

fun value_ok :: "env_quoting \<Rightarrow> str \<Rightarrow> bool" where
  "value_ok Bare v \<longleftrightarrow> trimmed v \<and> env_quote \<notin> set v \<and> env_apostrophe \<notin> set v \<and> env_backslash \<notin> set v"
| "value_ok Single v \<longleftrightarrow> env_apostrophe \<notin> set v"
| "value_ok (Double E) v \<longleftrightarrow> env_quote \<in> E \<and> env_backslash \<in> E \<and> E \<subseteq> {env_quote, env_backslash, CHR ''$'', CHR 0x60}"

type_synonym assignment = "env_quoting \<times> environment_variable_name \<times> str"

fun assignment_ok :: "assignment \<Rightarrow> bool" where
  "assignment_ok (q, n, v) \<longleftrightarrow> is_systemd_environment_name (text_str (variable_text n)) \<and>
     valid_utf8 v \<and> newline \<notin> set v \<and> value_ok q v"

fun assignment_written :: "assignment \<Rightarrow> str" where
  "assignment_written (q, n, v) = text_str (variable_text n) @ CHR ''='' # value_written q v"

definition assignments_written :: "assignment list \<Rightarrow> str" where
  "assignments_written vs = concat (map (\<lambda>a. assignment_written a @ [newline]) vs)"

lemma env_chars_distinct [simp]:
  "env_quote \<noteq> env_backslash" "env_quote \<noteq> env_apostrophe" "env_apostrophe \<noteq> env_backslash"
  "env_backslash \<noteq> env_quote" "env_apostrophe \<noteq> env_quote" "env_backslash \<noteq> env_apostrophe"
  by (simp_all add: env_quote_def env_backslash_def env_apostrophe_def)

lemma env_chars_ascii [simp]:
  "between 0 127 env_quote" "between 0 127 env_backslash" "between 0 127 env_apostrophe"
  "\<not> is_whitespace [env_quote]" "\<not> is_whitespace [env_backslash]" "\<not> is_whitespace [env_apostrophe]"
  by (simp_all add: env_quote_def env_backslash_def env_apostrophe_def between_def is_whitespace_def)

text \<open>Inside quotes everything scanned so far is significant.\<close>

lemma quoted_step:
  assumes "unquote_step c cs (Some q) r (length r) = (Some q, r', n, rest)"
  shows "unquote_loop (c # cs) (Some q) r (length r) = unquote_loop rest (Some q) r' (length r')"
  using assms by (simp add: unquote_loop.simps(2))

lemma double_scanned:
  assumes "value_ok (Double E) v" "\<And>ch. ch \<in> set cs \<Longrightarrow> chars_of ch = [ch]"
  shows "unquote_loop (concat (map (chars_of \<circ> double_written E) cs) @ rest) (Some [env_quote]) r (length r)
    = unquote_loop rest (Some [env_quote]) (r @ concat cs) (length (r @ concat cs))"
  using assms(2)
proof (induction cs arbitrary: r)
  case (Cons ch cs)
  let ?more = "concat (map (chars_of \<circ> double_written E) cs) @ rest"
  have "unquote_loop (chars_of (double_written E ch) @ ?more) (Some [env_quote]) r (length r)
      = unquote_loop ?more (Some [env_quote]) (r @ ch) (length (r @ ch))"
  proof (cases "\<exists>c. ch = [c] \<and> c \<in> E")
    case True
    then obtain c where c: "ch = [c]" "c \<in> E" by blast
    with assms(1) have "escapable ch" by (auto simp: escapable_def)
    moreover have "chars_of (double_written E ch) = [[env_backslash], ch]"
      using c Cons.prems[of ch] by (simp add: double_written_def chars_of_ascii_Cons)
    ultimately show ?thesis
      by (simp only: append_Cons append_Nil) (intro quoted_step, simp add: unquote_step_def opens_quote_def)
  next
    case False
    then have "double_written E ch = ch" by (auto simp: double_written_def split: list.split)
    moreover have "ch \<noteq> [env_quote]" "ch \<noteq> [env_backslash]" using False assms(1) by auto
    ultimately show ?thesis
      using Cons.prems[of ch] quoted_step[of ch ?more "[env_quote]" r "r @ ch" "length r" ?more]
      by (auto simp: unquote_step_def)
  qed
  with Cons.IH[of "r @ ch"] Cons.prems show ?case by (simp add: comp_def)
qed simp

lemma single_scanned:
  assumes "\<And>ch. ch \<in> set cs \<Longrightarrow> ch \<noteq> [env_apostrophe]"
  shows "unquote_loop (cs @ rest) (Some [env_apostrophe]) r (length r)
    = unquote_loop rest (Some [env_apostrophe]) (r @ concat cs) (length (r @ concat cs))"
  using assms
proof (induction cs arbitrary: r)
  case (Cons ch cs)
  have "unquote_loop (ch # cs @ rest) (Some [env_apostrophe]) r (length r)
      = unquote_loop (cs @ rest) (Some [env_apostrophe]) (r @ ch) (length (r @ ch))"
    using Cons.prems[of ch] by (intro quoted_step) (auto simp: unquote_step_def)
  with Cons.IH[of "r @ ch"] Cons.prems show ?case by simp
qed simp

text \<open>Outside quotes, what ends in no white space is kept whole.\<close>

lemma bare_scanned:
  assumes "\<And>ch. ch \<in> set cs \<Longrightarrow> \<not> opens_quote ch \<and> ch \<noteq> [env_backslash]"
    and "cs \<noteq> [] \<Longrightarrow> \<not> is_whitespace (last cs)" "cs = [] \<Longrightarrow> n = length r"
  shows "unquote_loop cs None r n = r @ concat cs"
  using assms
proof (induction cs arbitrary: r n)
  case (Cons ch cs)
  then have "unquote_loop (ch # cs) None r n
      = unquote_loop cs None (r @ ch) (if \<not> is_whitespace ch then length (r @ ch) else n)"
    by (simp add: unquote_loop.simps(2) unquote_step_def)
  with Cons show ?case by (cases "cs = []") auto
qed simp


lemma trim_start_id: "valid_utf8 s \<Longrightarrow> s \<noteq> [] \<Longrightarrow> \<not> is_whitespace (hd (chars_of s)) \<Longrightarrow> trim_start s = s"
proof -
  assume "s \<noteq> []" "\<not> is_whitespace (hd (chars_of s))"
  then have "dropWhile is_whitespace (chars_of s) = chars_of s" by (cases "chars_of s") auto
  then show ?thesis by (simp add: trim_start_def)
qed

lemma trim_start_ascii: "between 0 127 c \<Longrightarrow> \<not> is_whitespace [c] \<Longrightarrow> trim_start (c # s) = c # s"
  by (simp add: trim_start_def chars_of_ascii_Cons)

lemma valid_char_no_quote:
  assumes "valid_utf8 v" "ch \<in> set (chars_of v)" "c \<notin> set v"
  shows "ch \<noteq> [c]"
  using assms concat_chars_of[of v] by (metis UN_I list.set_intros(1) set_concat)

lemma value_read:
  assumes "valid_utf8 v" "value_ok q v"
  shows "env_unquoted (value_written q v) = v"
proof (cases q)
  case Bare
  have "unquote_loop (chars_of v) None [] 0 = v"
    using bare_scanned[of "chars_of v" 0 "[]"] assms Bare valid_char_no_quote[OF assms(1)]
    by (auto simp: opens_quote_def trimmed_def)
  moreover have "trim_start v = v"
    using assms Bare by (cases "v = []") (auto simp: trimmed_def trim_start_def[of "[]"] intro: trim_start_id)
  ultimately show ?thesis using Bare by (simp add: env_unquoted_def)
next
  case Single
  have "chars_of (v @ [env_apostrophe]) = chars_of v @ [[env_apostrophe]]"
    using assms(1) by (simp add: chars_of_append chars_of_ascii)
  moreover have "unquote_loop (chars_of v @ [[env_apostrophe]]) (Some [env_apostrophe]) [] 0 = v"
    using single_scanned[of "chars_of v" "[[env_apostrophe]]" "[]"] assms Single valid_char_no_quote[OF assms(1)]
    by (simp add: unquote_loop.simps(2) unquote_step_def opens_quote_def)
  ultimately show ?thesis using Single
    by (simp add: env_unquoted_def trim_start_ascii chars_of_ascii_Cons unquote_loop.simps(2)[of "[env_apostrophe]"]
      unquote_step_def opens_quote_def)
next
  case (Double E)
  let ?w = "concat (map (double_written E) (chars_of v))"
  have ch: "valid_utf8 ch \<and> chars_of ch = [ch]" if "ch \<in> set (chars_of v)" for ch
    using valid_char_single[OF assms(1) that] .
  have each: "valid_utf8 x" if "x \<in> set (map (double_written E) (chars_of v))" for x
    using that ch by (auto simp: double_written_def valid_utf8_ascii_Cons split: list.splits)
  have "chars_of (?w @ [env_quote]) = concat (map (chars_of \<circ> double_written E) (chars_of v)) @ [[env_quote]]"
    using chars_of_concat[of "map (double_written E) (chars_of v)"] each
    by (simp add: chars_of_append chars_of_ascii)
  moreover have "unquote_loop (concat (map (chars_of \<circ> double_written E) (chars_of v)) @ [[env_quote]]) (Some [env_quote]) [] 0 = v"
    using double_scanned[of E v "chars_of v" "[[env_quote]]" "[]"] assms Double ch
    by (simp add: unquote_loop.simps(2) unquote_step_def opens_quote_def)
  ultimately show ?thesis using Double
    by (simp add: env_unquoted_def trim_start_ascii chars_of_ascii_Cons unquote_loop.simps(2)[of "[env_quote]"]
      unquote_step_def opens_quote_def)
qed

text \<open>What the name of a variable is made of.\<close>

lemma name_chars:
  assumes "is_systemd_environment_name n"
  shows "n \<noteq> []" "c \<in> set n \<Longrightarrow> between 0 127 c" "c \<in> set n \<Longrightarrow> \<not> is_whitespace [c]"
    "c \<in> set n \<Longrightarrow> c \<notin> {CHR ''='', CHR ''#'', newline}"
proof -
  show "n \<noteq> []" using assms by (auto simp: is_systemd_environment_name_def)
  have cls: "is_ascii_alphanumeric c \<or> c = CHR ''_''" if "c \<in> set n"
    using assms that by (auto simp: is_systemd_environment_name_def list_all_iff ascii_class_defs split: list.splits)
  show "between 0 127 c" if "c \<in> set n"
    using cls[OF that] by (auto simp: ascii_class_defs between_def)
  show "\<not> is_whitespace [c]" if "c \<in> set n"
    using cls[OF that] by (auto simp: ascii_class_defs is_whitespace_def)
  show "c \<notin> {CHR ''='', CHR ''#'', newline}" if "c \<in> set n"
    using cls[OF that] by (auto simp: ascii_class_defs newline_def)
qed

lemma assignment_read:
  assumes "assignment_ok (q, n, v)"
  shows "contents_step c (assignment_written (q, n, v)) = c\<lparr>file_variables := btree_insert n v (file_variables c)\<rparr>"
proof -
  let ?n = "text_str (variable_text n)"
  from assms have name: "is_systemd_environment_name ?n" by simp
  note chars = name_chars[OF name]
  from chars(1) obtain x xs where x: "?n = x # xs" by (cases ?n) auto
  with chars have start: "trim_start (assignment_written (q, n, v)) = assignment_written (q, n, v)"
    by (simp add: trim_start_ascii)
  have "CHR ''='' \<notin> set ?n" using chars(4) by blast
  then have cut: "split_once (CHR ''='') (assignment_written (q, n, v)) = Some (?n, value_written q v)"
    by (simp add: split_once_Some_iff)
  have "trimmed ?n" using chars by (intro trimmed_ascii) (auto simp: list_all_iff)
  moreover have "environment_variable_name_new ?n = Inr n"
    using chars(1,4) \<open>CHR ''='' \<notin> set ?n\<close>
    by (cases n; cases "variable_text n") (auto simp: environment_variable_name_new_def non_empty_text_new_def)
  ultimately have "env_assignment (assignment_written (q, n, v)) = Some (n, v)"
    using cut name value_read[of v q] assms by (simp add: env_assignment_def trim_trimmed)
  moreover have "assignment_written (q, n, v) \<noteq> []" "\<not> starts_with ''#'' (assignment_written (q, n, v))"
    using x chars(4)[of x] by (auto simp: starts_with_def)
  ultimately show ?thesis unfolding contents_step_def start Let_def by simp
qed

lemma double_written_set: "set (concat (map (double_written E) cs)) \<subseteq> insert env_backslash (set (concat cs))"
  by (auto simp: double_written_def split: list.splits if_splits)

lemma assignment_line:
  assumes "assignment_ok (q, n, v)"
  shows "newline \<notin> set (assignment_written (q, n, v))" "trailing_backslashes (assignment_written (q, n, v)) = 0"
    "last (assignment_written (q, n, v)) \<noteq> carriage_return"
proof -
  let ?l = "assignment_written (q, n, v)"
  have special: "newline \<noteq> env_quote" "newline \<noteq> env_apostrophe" "newline \<noteq> env_backslash" "newline \<noteq> CHR ''=''"
    "carriage_return \<noteq> env_quote" "carriage_return \<noteq> env_apostrophe" "carriage_return \<noteq> CHR ''=''"
    "is_whitespace [carriage_return]" "between 0 127 carriage_return" "env_backslash \<noteq> CHR ''=''"
    by (simp_all add: newline_def carriage_return_def env_quote_def env_apostrophe_def env_backslash_def
      is_whitespace_def between_def)
  have "newline \<notin> set (text_str (variable_text n))" using name_chars(4) assms by auto
  moreover have "newline \<notin> set (value_written q v)"
    using assms special double_written_set[of _ "chars_of v"] by (cases q) auto
  ultimately show "newline \<notin> set ?l" using special by simp
  have last: "last ?l \<noteq> env_backslash \<and> last ?l \<noteq> carriage_return"
  proof (cases "q = Bare \<and> v \<noteq> []")
    case True
    with assms have v: "trimmed v" "env_backslash \<notin> set v" "v \<noteq> []" by simp_all
    then have "last v \<noteq> env_backslash" by (metis last_in_set)
    moreover have "last v \<noteq> carriage_return"
    proof
      assume "last v = carriage_return"
      then have "last (chars_of v) = [carriage_return]"
        using v special ascii_last_char[of v] by (simp add: trimmed_def)
      with v special show False by (simp add: trimmed_def)
    qed
    ultimately show ?thesis using True v by simp
  next
    case False
    then show ?thesis
      by (cases q) (auto simp: env_quote_def env_apostrophe_def env_backslash_def carriage_return_def)
  qed
  then show "last ?l \<noteq> carriage_return" ..
  have "trim_end_matches env_backslash ?l = ?l" using last by (intro trim_end_matches_id) simp
  then show "trailing_backslashes ?l = 0" by (simp add: trailing_backslashes_def)
qed

lemma environment_file_read_back:
  assumes "list_all assignment_ok vs"
  shows "environment_file_parse (assignments_written vs) =
    \<lparr>file_variables = btree_collect (map snd vs), file_ignored = 0\<rparr>"
proof -
  have ok: "assignment_ok a" if "a \<in> set vs" for a using assms that by (simp add: list_all_iff)
  have line: "newline \<notin> set l \<and> (l = [] \<or> last l \<noteq> carriage_return)" "trailing_backslashes l = 0"
    if "l \<in> set (map assignment_written vs)" for l
  proof -
    from that obtain q n v where "l = assignment_written (q, n, v)" "(q, n, v) \<in> set vs" by auto
    with ok[of "(q, n, v)"] assignment_line[of q n v]
    show "newline \<notin> set l \<and> (l = [] \<or> last l \<noteq> carriage_return)" "trailing_backslashes l = 0" by metis+
  qed
  have "logical_lines (assignments_written vs) = map assignment_written vs"
    using lines_concat[of "map assignment_written vs"] logical_loop_plain[of "map assignment_written vs"] line
    by (simp add: logical_lines_def assignments_written_def comp_def list_all_iff)
  moreover have "foldl contents_step \<lparr>file_variables = m, file_ignored = 0\<rparr> (map assignment_written vs) =
      \<lparr>file_variables = foldl (\<lambda>m (k, v). btree_insert k v m) m (map snd vs), file_ignored = 0\<rparr>" for m
    using assms
  proof (induction vs arbitrary: m)
    case (Cons a vs)
    obtain q n v where a: "a = (q, n, v)" by (cases a)
    with Cons assignment_read[of q n v] show ?case by (simp del: assignment_written.simps assignment_ok.simps)
  qed simp
  ultimately show ?thesis by (simp add: environment_file_parse_def btree_collect_def)
qed

text \<open>A quoted value that goes on past its line is cut there, and what follows reads as a name of its own.\<close>

lemma spanning_value_cut:
  "environment_file_parse (''KEY='' @ [env_quote] @ ''abc'' @ [newline] @ ''MIIE='' @ [env_quote]) =
     \<lparr>file_variables = [(EnvironmentVariableName (NonEmptyText ''KEY''), ''abc''),
        (EnvironmentVariableName (NonEmptyText ''MIIE''), [])], file_ignored = 0\<rparr>"
  by code_simp

section \<open>What is opened, and how much of it\<close>

lemma only_regular_files_opened:
  assumes "stat_of h path = Inr (False, len)"
  shows "contents_of (h\<lparr>held_by := f\<rparr>) path = contents_of h path"
  using assms by (simp add: contents_of_def)

lemma contents_bounded:
  assumes "contents_of h path = Inr c"
  obtains held where "held_by h path = Inr held" "length held \<le> largest_environment_file" "valid_utf8 held"
    "c = environment_file_parse held"
  using assms
  by (auto simp: contents_of_def Let_def split: sum.splits stat_failure.splits prod.splits if_splits)

end

