(* ===== verification/Units.thy ===== *)
theory Units
  imports EnvironmentFiles NginxModel Claims
begin

text \<open>
  The units collector (\<open>collectors/units\<close>): the rows systemd lists, the join of what is installed, what is
  loaded and what the property dump shows, and the observation of the registry.  The JSON reader of the
  rows is a parameter, as is running \<open>systemctl\<close>.
\<close>

section \<open>Values\<close>

datatype load_state = LoadState (load_state_text: non_empty_text)

definition load_state_new :: "str \<Rightarrow> load_state collected" where
  "load_state_new v = map_ok LoadState (non_empty_text_new v ''load state'')"

definition load_state_observed :: "load_state \<Rightarrow> observation" where
  "load_state_observed x = text_of (text_str (load_state_text x))"

datatype active_state = ActiveState (active_state_text: non_empty_text)

definition active_state_new :: "str \<Rightarrow> active_state collected" where
  "active_state_new v = map_ok ActiveState (non_empty_text_new v ''active state'')"

definition active_state_observed :: "active_state \<Rightarrow> observation" where
  "active_state_observed x = text_of (text_str (active_state_text x))"

datatype sub_state = SubState (sub_state_text: non_empty_text)

definition sub_state_new :: "str \<Rightarrow> sub_state collected" where
  "sub_state_new v = map_ok SubState (non_empty_text_new v ''sub state'')"

definition sub_state_observed :: "sub_state \<Rightarrow> observation" where
  "sub_state_observed x = text_of (text_str (sub_state_text x))"

datatype preset_state = PresetState (preset_state_text: non_empty_text)

definition preset_state_new :: "str \<Rightarrow> preset_state collected" where
  "preset_state_new v = map_ok PresetState (non_empty_text_new v ''preset state'')"

definition preset_state_observed :: "preset_state \<Rightarrow> observation" where
  "preset_state_observed x = text_of (text_str (preset_state_text x))"

datatype unit_file_state = UnitFileState (unit_file_state_text: non_empty_text)

definition unit_file_state_new :: "str \<Rightarrow> unit_file_state collected" where
  "unit_file_state_new v = map_ok UnitFileState (non_empty_text_new v ''unit file state'')"

definition unit_file_state_observed :: "unit_file_state \<Rightarrow> observation" where
  "unit_file_state_observed x = text_of (text_str (unit_file_state_text x))"

datatype description = Description (description_text: non_empty_text)

definition description_new :: "str \<Rightarrow> description collected" where
  "description_new v = map_ok Description (non_empty_text_new v ''description'')"

definition description_observed :: "description \<Rightarrow> observation" where
  "description_observed x = text_of (text_str (description_text x))"

record unit_file =
  file_state :: unit_file_state
  file_preset :: "preset_state option"

definition unit_file_observed :: "unit_file \<Rightarrow> observation" where
  "unit_file_observed f = object
     [(''preset'', observed_or_null preset_state_observed (file_preset f)),
      (''state'', unit_file_state_observed (file_state f))]"

record unit_runtime =
  runtime_load :: load_state
  runtime_active :: active_state
  runtime_sub :: sub_state
  runtime_description :: "description option"

definition unit_runtime_observed :: "unit_runtime \<Rightarrow> observation" where
  "unit_runtime_observed r = object
     [(''active'', active_state_observed (runtime_active r)),
      (''description'', observed_or_null description_observed (runtime_description r)),
      (''load'', load_state_observed (runtime_load r)),
      (''sub'', sub_state_observed (runtime_sub r))]"

record systemd_unit =
  unit_file_of :: "unit_file option"
  unit_runtime_of :: "unit_runtime option"
  unit_starts :: "exec_start list"
  unit_environment :: "(environment_variable_name, str) btree"
  unit_sources :: "environment_source list"
  unit_unset :: "environment_variable_name list"

definition unit_observed :: "hashes \<Rightarrow> systemd_unit \<Rightarrow> observation" where
  "unit_observed H u = object
     [(''environment'', withheld_variables (unit_environment u)),
      (''environment_files'', sequence (map environment_source_observed (unit_sources u))),
      (''exec_start'', sequence (map exec_start_observed (unit_starts u))),
      (''unset_environment'', set_of H (map (\<lambda>n. text_of (text_str (variable_text n))) (unit_unset u))),
      (''file'', observed_or_null unit_file_observed (unit_file_of u)),
      (''runtime'', observed_or_null unit_runtime_observed (unit_runtime_of u))]"

type_synonym unit_registry = "(unit_name, systemd_unit) btree"

definition registered_observed :: "hashes \<Rightarrow> unit_name \<Rightarrow> systemd_unit \<Rightarrow> observation" where
  "registered_observed H n u =
     (if is_a_login_session n then volatile (unit_observed H u) else unit_observed H u)"

definition unit_registry_observed :: "hashes \<Rightarrow> unit_registry \<Rightarrow> observation" where
  "unit_registry_observed H r = object (map (\<lambda>(n, u). (unit_str n, registered_observed H n u)) r)"

section \<open>The rows of a listing\<close>

record unit_row =
  row_unit :: str
  row_load :: str
  row_active :: str
  row_sub :: str
  row_description :: str

record unit_file_row =
  row_unit_file :: str
  row_state :: str
  row_preset :: "str option"

definition optional_description :: "str \<Rightarrow> description option collected" where
  "optional_description d = (if d = [] then Inr None else map_ok Some (description_new d))"

definition to_runtime :: "unit_row \<Rightarrow> (unit_name \<times> unit_runtime) collected" where
  "to_runtime row =
     and_then (load_state_new (row_load row)) (\<lambda>l.
     and_then (active_state_new (row_active row)) (\<lambda>a.
     and_then (sub_state_new (row_sub row)) (\<lambda>sub.
     and_then (optional_description (row_description row)) (\<lambda>d.
       map_ok (\<lambda>n. (n, \<lparr>runtime_load = l, runtime_active = a, runtime_sub = sub, runtime_description = d\<rparr>))
         (unit_name_new (row_unit row))))))"

definition optional_preset :: "str option \<Rightarrow> preset_state option collected" where
  "optional_preset p = (case p of
      None \<Rightarrow> Inr None
    | Some v \<Rightarrow> if v = [] \<or> v = ''-'' then Inr None else map_ok Some (preset_state_new v))"

definition to_unit_file :: "unit_file_row \<Rightarrow> (unit_name \<times> unit_file) collected" where
  "to_unit_file row =
     and_then (unit_file_state_new (row_state row)) (\<lambda>state.
     and_then (optional_preset (row_preset row)) (\<lambda>p.
       map_ok (\<lambda>n. (n, \<lparr>file_state = state, file_preset = p\<rparr>)) (unit_name_new (row_unit_file row))))"

fun keyed_rows :: "str \<Rightarrow> (unit_name \<times> 'r) collected list \<Rightarrow> (unit_name, 'r) btree \<Rightarrow> (unit_name, 'r) btree collected" where
  "keyed_rows kind [] known = Inr known"
| "keyed_rows kind (r # rs) known = and_then r (\<lambda>(n, v).
     if btree_get n known \<noteq> None
     then Inl (CollectionError ''systemd reported the {kind} {:?} twice'' [kind, unit_str n])
     else keyed_rows kind rs (btree_insert n v known))"

text \<open>What reads the JSON of each listing.\<close>

record systemd_rows =
  unit_rows :: "str \<Rightarrow> str + unit_row list"
  unit_file_rows :: "str \<Rightarrow> str + unit_file_row list"

definition decoded_rows :: "str \<Rightarrow> str + 'r list \<Rightarrow> 'r list collected" where
  "decoded_rows subcommand = map_err (\<lambda>error.
     CollectionError ''could not read what systemctl {subcommand} reported as JSON: {error}'' [subcommand, error])"

definition parse_unit_files :: "systemd_rows \<Rightarrow> str \<Rightarrow> (unit_name, unit_file) btree collected" where
  "parse_unit_files J out =
     and_then (decoded_rows ''list-unit-files'' (unit_file_rows J out)) (\<lambda>rs. keyed_rows ''unit file'' (map to_unit_file rs) [])"

definition parse_units :: "systemd_rows \<Rightarrow> str \<Rightarrow> (unit_name, unit_runtime) btree collected" where
  "parse_units J out =
     and_then (decoded_rows ''list-units'' (unit_rows J out)) (\<lambda>rs. keyed_rows ''loaded unit'' (map to_runtime rs) [])"

section \<open>The join\<close>

definition nothing_shown :: shown_unit where
  "nothing_shown = \<lparr>shown_starts = [], shown_environment = [], shown_files = [], shown_unset = []\<rparr>"

definition unit_joined :: "environment_host \<Rightarrow> (unit_name, unit_file) btree \<Rightarrow> (unit_name, unit_runtime) btree
    \<Rightarrow> (unit_name, shown_unit) btree \<Rightarrow> unit_name \<Rightarrow> systemd_unit" where
  "unit_joined h installed loaded shown_units n =
     (let u = (case btree_get n shown_units of Some u \<Rightarrow> u | None \<Rightarrow> nothing_shown)
      in \<lparr>unit_file_of = btree_get n installed, unit_runtime_of = btree_get n loaded, unit_starts = shown_starts u,
          unit_environment = shown_environment u,
          unit_sources = concat (map (environment_sources_of h) (shown_files u)), unit_unset = shown_unset u\<rparr>)"

definition unit_names_of :: "(unit_name, 'a) btree \<Rightarrow> (unit_name, 'b) btree \<Rightarrow> unit_name list" where
  "unit_names_of installed loaded = dedup (sort_by cmp_of (map fst installed @ map fst loaded))"

definition units_join :: "environment_host \<Rightarrow> systemd_rows \<Rightarrow> str \<Rightarrow> str \<Rightarrow> str \<Rightarrow> unit_registry collected" where
  "units_join h J installed loaded shown_text =
     and_then (parse_unit_files J installed) (\<lambda>installed_units.
     and_then (parse_units J loaded) (\<lambda>loaded_units.
     map_ok (\<lambda>shown_units. btree_collect (map (\<lambda>n. (n, unit_joined h installed_units loaded_units shown_units n))
         (unit_names_of installed_units loaded_units)))
       (show_parse shown_text)))"

definition list_unit_files :: "str list" where
  "list_unit_files = [''list-unit-files'', ''--output=json'', ''--no-pager'']"

definition list_units :: "str list" where
  "list_units = [''list-units'', ''--all'', ''--output=json'', ''--no-pager'']"

definition show_arguments :: "str list \<Rightarrow> str list" where
  "show_arguments ns =
     [''show'', ''--property=Id'', ''--property=ExecStartEx'', ''--property=Environment'', ''--property=EnvironmentFiles'',
      ''--property=UnsetEnvironment'', ''--no-pager'', ''--''] @ ns"

definition units_show :: "(str list \<Rightarrow> str collected) \<Rightarrow> unit_name list \<Rightarrow> str collected" where
  "units_show run ns = (if ns = [] then Inr [] else run (show_arguments (map unit_str ns)))"

definition units_read :: "environment_host \<Rightarrow> systemd_rows \<Rightarrow> (str list \<Rightarrow> str collected) \<Rightarrow> unit_registry collected" where
  "units_read h J run =
     and_then (run list_unit_files) (\<lambda>installed.
     and_then (run list_units) (\<lambda>loaded.
     and_then (parse_units J loaded) (\<lambda>loaded_units.
     and_then (units_show run (map fst loaded_units)) (\<lambda>shown_text.
       units_join h J installed loaded shown_text))))"

definition units_collect ::
  "hashes \<Rightarrow> environment_host \<Rightarrow> systemd_rows \<Rightarrow> (str list \<Rightarrow> str collected) option \<Rightarrow> observation collected" where
  "units_collect H h J systemctl = (case systemctl of
      None \<Rightarrow> Inl (CollectionError ''systemd was not found, so there are no units to read'' [])
    | Some run \<Rightarrow> map_ok (unit_registry_observed H) (units_read h J run))"

definition units_presence :: "(str list \<Rightarrow> str collected) option \<Rightarrow> presence" where
  "units_presence systemctl = (case systemctl of Some run \<Rightarrow> Present | None \<Rightarrow> Absent)"

section \<open>Every unit of either listing, with what each says of it\<close>

lemma keyed_rows_Inr:
  assumes "keyed_rows kind rs known = Inr m" "btree_sorted known"
  shows "btree_sorted m \<and> set m = set known \<union> {nv. Inr nv \<in> set rs} \<and> (\<forall>r \<in> set rs. \<exists>nv. r = Inr nv)"
  using assms
proof (induction rs arbitrary: known)
  case (Cons r rs)
  then obtain n v where nv: "r = Inr (n, v)" "btree_get n known = None" "keyed_rows kind rs (btree_insert n v known) = Inr m"
    by (auto simp: result_iffs split: if_splits)
  from Cons.IH[OF nv(3) btree_sorted_insert[OF Cons.prems(2)]] nv show ?case
    by (auto simp: btree_insert_set)
qed simp

lemma unit_names_of_set: "set (unit_names_of a b) = set (map fst a) \<union> set (map fst b)"
  by (simp add: unit_names_of_def)

lemma unit_names_of_sorted: "sorted_wrt (<) (unit_names_of a b)"
  unfolding unit_names_of_def by (intro sorted_dedup sorted_sort_by_cmp_of)

lemma units_join_Inr:
  assumes "units_join h J installed loaded shown_text = Inr r"
  obtains i l sh where "parse_unit_files J installed = Inr i" "parse_units J loaded = Inr l" "show_parse shown_text = Inr sh"
    "r = map (\<lambda>n. (n, unit_joined h i l sh n)) (unit_names_of i l)"
proof -
  from assms obtain i l sh where parts: "parse_unit_files J installed = Inr i" "parse_units J loaded = Inr l"
    "show_parse shown_text = Inr sh"
    "r = btree_collect (map (\<lambda>n. (n, unit_joined h i l sh n)) (unit_names_of i l))"
    by (auto simp: units_join_def result_iffs)
  have "btree_sorted (map (\<lambda>n. (n, unit_joined h i l sh n)) (unit_names_of i l))"
    using unit_names_of_sorted[of i l] by (simp add: btree_sorted_def comp_def)
  with parts that show ?thesis by (simp add: btree_collect_sorted)
qed

lemma units_join_accounts:
  assumes "units_join h J installed loaded shown_text = Inr r"
    and "parse_unit_files J installed = Inr i" "parse_units J loaded = Inr l" "show_parse shown_text = Inr sh"
  shows "btree_sorted r" "btree_get n r =
    (if btree_get n i = None \<and> btree_get n l = None then None else Some (unit_joined h i l sh n))"
proof -
  from units_join_Inr[OF assms(1)] assms
  have r: "r = map (\<lambda>n. (n, unit_joined h i l sh n)) (unit_names_of i l)" by (metis sum.inject(2))
  then show "btree_sorted r" using unit_names_of_sorted[of i l] by (simp add: btree_sorted_def comp_def)
  have "btree_get n r = (if n \<in> set (unit_names_of i l) then Some (unit_joined h i l sh n) else None)"
    unfolding r btree_get_def by (induction "unit_names_of i l") (auto simp: map_of_map_restrict map_of_eq_None_iff)
  moreover have "n \<in> set (unit_names_of i l) \<longleftrightarrow> \<not> (btree_get n i = None \<and> btree_get n l = None)"
    by (simp add: unit_names_of_set btree_get_def map_of_eq_None_iff)
  ultimately show "btree_get n r =
    (if btree_get n i = None \<and> btree_get n l = None then None else Some (unit_joined h i l sh n))" by auto
qed

section \<open>Who is logged in leaves no trace in a diff\<close>

lemma registry_content:
  assumes "btree_sorted r"
  shows "content_of (unit_registry_observed H r) = Object (map (\<lambda>(n, u). (unit_str n, registered_observed H n u)) r)"
proof -
  have "btree_sorted (map (\<lambda>(n, u). (unit_str n, registered_observed H n u)) r)"
    using assms by (simp add: btree_sorted_def sorted_wrt_map case_prod_unfold unit_str_def less_unit_name_def less_non_empty_text_def)
  then show ?thesis by (simp add: unit_registry_observed_def object_def unannotated_def btree_collect_sorted)
qed

lemma registered_session_dropped:
  assumes "is_a_login_session n" "view p = Diffable"
  shows "visible_under p w (registered_observed H n u) = None"
  using assms by (cases "unit_observed H u") (simp add: visible_under_def dropped_by_def registered_observed_def)

lemma login_sessions_shown:
  assumes "btree_sorted r" "view p = Diffable"
  shows "canon H (Visible (unit_registry_observed H r) p w) = ShownObject
    (map (\<lambda>(n, u). (unit_str n, canon H (Visible (unit_observed H u) p (withheld_under (unit_observed H u) p w))))
      (filter (\<lambda>(n, u). \<not> is_a_login_session n) r))"
proof -
  let ?es = "map (\<lambda>(n, u). (unit_str n, registered_observed H n u)) r"
  have plain: "visible_under p w (unit_observed H u) = Some (Visible (unit_observed H u) p (withheld_under (unit_observed H u) p w))" for u
    by (simp add: visible_under_def dropped_by_def unit_observed_def object_def unannotated_def)
  have "object_iter ?es p w = map (\<lambda>(n, u). (unit_str n, Visible (unit_observed H u) p (withheld_under (unit_observed H u) p w)))
      (filter (\<lambda>(n, u). \<not> is_a_login_session n) r)"
  proof (induction r)
    case (Cons nu r)
    obtain n u where nu: "nu = (n, u)" by (cases nu)
    show ?case
    proof (cases "is_a_login_session n")
      case True
      with Cons nu registered_session_dropped[OF True assms(2)] show ?thesis
        by (simp add: object_iter_def map_filter_def)
    next
      case False
      then have "registered_observed H n u = unit_observed H u" by (simp add: registered_observed_def)
      with Cons nu False plain show ?thesis by (simp add: object_iter_def map_filter_def)
    qed
  qed (simp add: object_iter_def)
  then show ?thesis
    using canon_shapes(2)[of H "Visible (unit_registry_observed H r) p w" ?es p w] registry_content[OF assms(1)]
    by (simp add: comp_def case_prod_unfold)
qed

end
