(* ===== verification/CanonicalTool.thy ===== *)
theory CanonicalTool
  imports TextSplits Lossy Paths
begin

text \<open>
  Running the tool that already knows the answer (\<open>collectors/canonical_tool.rs\<close> and its directory): the one
  place that executes anything.  The process is a record of what each call on it answers; what is done to
  it is kept as a list of actions.  An answer is returned whole or not at all, nothing is left running
  unkilled, and no wait is longer than what is left of the limit.
\<close>

section \<open>Where a tool is\<close>

text \<open>Durations are counted in milliseconds.\<close>

record run_limits =
  limit_time :: nat
  limit_output :: u64

definition default_limits :: run_limits where
  "default_limits = \<lparr>limit_time = 30 * 1000, limit_output = 64 * 1024 * 1024\<rparr>"

record canonical_tool =
  tool_program :: str
  tool_path :: str
  tool_limits :: run_limits

definition system_directories :: "str list" where
  "system_directories = [''/usr/bin'', ''/usr/sbin'', ''/bin'', ''/sbin'', ''/usr/local/bin'', ''/usr/local/sbin'']"

definition located_in :: "(str \<Rightarrow> bool) \<Rightarrow> str \<Rightarrow> str list \<Rightarrow> canonical_tool option" where
  "located_in is_file program directories =
     map_option (\<lambda>path. \<lparr>tool_program = program, tool_path = path, tool_limits = default_limits\<rparr>)
       (find is_file (map (\<lambda>d. text_joined d program) directories))"

definition tool_located :: "(str \<Rightarrow> bool) \<Rightarrow> str \<Rightarrow> canonical_tool option" where
  "tool_located is_file program = located_in is_file program system_directories"

definition tool_within :: "run_limits \<Rightarrow> canonical_tool \<Rightarrow> canonical_tool" where
  "tool_within limits t = t\<lparr>tool_limits := limits\<rparr>"

definition tool_failure :: "canonical_tool \<Rightarrow> str \<Rightarrow> str list \<Rightarrow> collection_error" where
  "tool_failure t reason args = CollectionError (''{program} ({path}) '' @ reason) ([tool_program t, lossy (tool_path t)] @ args)"

section \<open>What a failing tool said last\<close>

definition stderr_quoted :: nat where
  "stderr_quoted = 512"

fun tail_within :: "nat \<Rightarrow> str list \<Rightarrow> str list" where
  "tail_within n [] = []"
| "tail_within n (c # cs) = (if length (concat (c # cs)) \<le> n then c # cs else tail_within n cs)"

definition quoted_tail :: "str \<Rightarrow> str" where
  "quoted_tail stderr =
     (let said = trim (lossy stderr)
      in if said = [] then ''and wrote nothing to stderr'' else concat (tail_within stderr_quoted (chars_of said)))"

section \<open>Starting\<close>

definition spawn_busy_budget :: nat where "spawn_busy_budget = 1000"
definition spawn_busy_pause :: nat where "spawn_busy_pause = 5"

datatype 'j start_answer = StartedJob 'j | TextFileBusy str | StartFailed str

text \<open>
  The answers of the attempts to start, in order, each with the time the clock shows after it; a pause
  follows an attempt that is repeated.  The list running out stands for a clock that stands still.
\<close>

fun started_tool :: "canonical_tool \<Rightarrow> nat \<Rightarrow> ('j start_answer \<times> nat) list \<Rightarrow> 'j collected option" where
  "started_tool t deadline [] = None"
| "started_tool t deadline ((StartedJob j, now) # later) = Some (Inr j)"
| "started_tool t deadline ((StartFailed e, now) # later) = Some (Inl (tool_failure t ''could not be started: {error}'' [e]))"
| "started_tool t deadline ((TextFileBusy e, now) # later) =
     (if now < deadline then started_tool t deadline later
      else Some (Inl (tool_failure t ''could not be started: {error}'' [e])))"

section \<open>Reading and waiting\<close>

datatype read_failure = ReadTimedOut | ReadFailed str
datatype tool_action = ReadFor nat u64 | KillGroup | WaitFor nat | Detach

record exit_status =
  exit_success :: bool
  exit_text :: str

text \<open>
  What a started process answers: whether its pipes can be had, what a read within a time and a size
  gives, its status within a time (asked before a signal and after one), and the time that has passed
  since it was started at the read and at the wait.
\<close>

record job =
  job_communicates :: "str option"
  job_reads :: "nat \<Rightarrow> u64 \<Rightarrow> read_failure + str \<times> str"
  job_exits :: "nat \<Rightarrow> exit_status option"
  job_exits_killed :: "nat \<Rightarrow> exit_status option"
  read_elapsed :: nat
  wait_elapsed :: nat

definition saturating_add :: "u64 \<Rightarrow> u64 \<Rightarrow> u64" where
  "saturating_add a b = (if unat a + unat b < 2 ^ 64 then a + b else -1)"

definition remaining_time :: "canonical_tool \<Rightarrow> nat \<Rightarrow> nat" where
  "remaining_time t elapsed = limit_time (tool_limits t) - elapsed"

definition tool_capture :: "canonical_tool \<Rightarrow> job \<Rightarrow> tool_action list \<times> (str \<times> str) collected" where
  "tool_capture t j =
     (case job_communicates j of
        Some e \<Rightarrow> ([], Inl (tool_failure t ''could not be communicated with: {error}'' [e]))
      | None \<Rightarrow>
          (let time = remaining_time t (read_elapsed j); room = saturating_add (limit_output (tool_limits t)) 1
           in case job_reads j time room of
                Inl ReadTimedOut \<Rightarrow>
                  ([ReadFor time room, KillGroup], Inl (tool_failure t ''did not finish within {:?}'' [show_nat (limit_time (tool_limits t))]))
              | Inl (ReadFailed e) \<Rightarrow>
                  ([ReadFor time room, KillGroup], Inl (tool_failure t ''could not be read: {error}'' [e]))
              | Inr (out, err) \<Rightarrow>
                  if unat (limit_output (tool_limits t)) < length out + length err
                  then ([ReadFor time room, KillGroup], Inl (tool_failure t
                    ''wrote more than {} bytes, so its answer would have been truncated'' [show_nat (unat (limit_output (tool_limits t)))]))
                  else ([ReadFor time room], Inr (out, err))))"

definition reap_grace :: nat where "reap_grace = 2000"

definition tool_reap :: "canonical_tool \<Rightarrow> job \<Rightarrow> tool_action list \<times> exit_status collected" where
  "tool_reap t j =
     (let time = remaining_time t (wait_elapsed j)
      in case job_exits j time of
           Some status \<Rightarrow> ([WaitFor time], Inr status)
         | None \<Rightarrow>
             ([WaitFor time, KillGroup, WaitFor reap_grace] @ (if job_exits_killed j reap_grace = None then [Detach] else []),
              Inl (tool_failure t ''did not finish within {:?}'' [show_nat (limit_time (tool_limits t))])))"

definition decoded_stream :: "canonical_tool \<Rightarrow> str \<Rightarrow> str \<Rightarrow> str collected" where
  "decoded_stream t stream which =
     (if valid_utf8 stream then Inr stream
      else Inl (tool_failure t ''wrote {which} that is not valid UTF-8'' [which]))"

record tool_output =
  output_stdout :: str
  output_stderr :: str

record tool_exit =
  exit_succeeded :: bool
  exit_stdout :: str
  exit_stderr :: str

definition run_capturing_stderr :: "canonical_tool \<Rightarrow> job \<Rightarrow> tool_action list \<times> tool_output collected" where
  "run_capturing_stderr t j =
     (let (reading, captured) = tool_capture t j; (waiting, reaped) = tool_reap t j
      in (reading @ waiting,
          and_then captured (\<lambda>(out, err).
          and_then reaped (\<lambda>status.
            if \<not> exit_success status
            then Inl (tool_failure t ''exited unsuccessfully ({status:?}): {}'' [exit_text status, quoted_tail err])
            else and_then (decoded_stream t out ''stdout'') (\<lambda>out.
              map_ok (\<lambda>err. \<lparr>output_stdout = out, output_stderr = err\<rparr>) (decoded_stream t err ''stderr''))))))"

definition run_to_exit :: "canonical_tool \<Rightarrow> job \<Rightarrow> tool_action list \<times> tool_exit collected" where
  "run_to_exit t j =
     (let (reading, captured) = tool_capture t j; (waiting, reaped) = tool_reap t j
      in (reading @ waiting,
          and_then captured (\<lambda>(out, err).
          and_then reaped (\<lambda>status.
            and_then (decoded_stream t out ''stdout'') (\<lambda>out.
              map_ok (\<lambda>err. \<lparr>exit_succeeded = exit_success status, exit_stdout = out, exit_stderr = err\<rparr>)
                (decoded_stream t err ''stderr''))))))"

definition stderr_tail :: "tool_exit \<Rightarrow> str" where
  "stderr_tail e = quoted_tail (exit_stderr e)"

definition tool_run :: "canonical_tool \<Rightarrow> job \<Rightarrow> str collected" where
  "tool_run t j = map_ok output_stdout (snd (run_capturing_stderr t j))"

section \<open>As another account\<close>

datatype target_user = TargetUser (user_str: str)

definition target_user_new :: "str \<Rightarrow> target_user collected" where
  "target_user_new v =
     (if v = [] then Inl (CollectionError ''a target user name cannot be empty'' [])
      else if starts_with ''-'' v then Inl (CollectionError ''{name:?} cannot be a target user, because sudo would read it as an option'' [v])
      else if starts_with ''#'' v then Inl (CollectionError ''{name:?} cannot be a target user, because sudo would read it as a numeric user ID'' [v])
      else if list_ex is_whitespace (chars_of v)
      then Inl (CollectionError ''{name:?} cannot be a target user, because no account name contains whitespace'' [v])
      else Inr (TargetUser v))"

record tool_as_user =
  delegator :: canonical_tool
  delegated_tool :: canonical_tool
  delegated_user :: target_user

definition tool_as_user_located :: "(str \<Rightarrow> bool) \<Rightarrow> str \<Rightarrow> target_user \<Rightarrow> tool_as_user collected" where
  "tool_as_user_located is_file program user =
     and_then (ok_or (CollectionError ''{program} is not installed in a system directory, so its state cannot be read as {}'' [program, user_str user])
       (tool_located is_file program)) (\<lambda>tool.
     map_ok (\<lambda>d. \<lparr>delegator = d, delegated_tool = tool, delegated_user = user\<rparr>)
       (ok_or (CollectionError ''sudo is not installed in a system directory, so {program} cannot be run as {}'' [program, user_str user])
         (tool_located is_file ''sudo'')))"

definition delegated_within :: "run_limits \<Rightarrow> tool_as_user \<Rightarrow> tool_as_user" where
  "delegated_within limits u = u\<lparr>delegator := tool_within limits (delegator u)\<rparr>"

definition arguments_for :: "tool_as_user \<Rightarrow> str list \<Rightarrow> str list" where
  "arguments_for u given = [''-n'', ''-u'', user_str (delegated_user u), lossy (tool_path (delegated_tool u))] @ given"

text \<open>\<open>run\<close> starts a tool on an argument vector and answers as \<open>tool_run\<close> does.\<close>

definition run_as_user :: "(canonical_tool \<Rightarrow> str list \<Rightarrow> str collected) \<Rightarrow> tool_as_user \<Rightarrow> str list \<Rightarrow> str collected" where
  "run_as_user run u given =
     map_err (within ''{program} as {user}: '' [tool_program (delegated_tool u), user_str (delegated_user u)])
       (run (delegator u) (arguments_for u given))"

section \<open>An answer is whole\<close>

text \<open>
  What \<open>subprocess\<close> documents of a bounded read: a prefix of each stream, no more than the bound together,
  and both streams whole where the bound was not reached.
\<close>

definition reads_within :: "job \<Rightarrow> str \<Rightarrow> str \<Rightarrow> bool" where
  "reads_within j whole_out whole_err \<longleftrightarrow> (\<forall>time bound out err. job_reads j time bound = Inr (out, err) \<longrightarrow>
     take (length out) whole_out = out \<and> take (length err) whole_err = err \<and> length out + length err \<le> unat bound \<and>
     (length out + length err < unat bound \<longrightarrow> out = whole_out \<and> err = whole_err))"

lemma unat_saturating_add_one: "w \<noteq> -1 \<Longrightarrow> unat (saturating_add w 1) = unat w + 1"
proof -
  assume w: "w \<noteq> (-1 :: u64)"
  moreover have "unat (-1 :: u64) = 2 ^ 64 - 1" by (simp add: unsigned_minus_1_eq_mask mask_eq_exp_minus_1)
  ultimately have "unat w \<noteq> 2 ^ 64 - 1" by (metis word_unat_eq_iff)
  moreover have "unat w < 2 ^ 64" using unsigned_less[of w] by simp
  ultimately have less: "unat w + unat (1 :: u64) < 2 ^ 64" by simp
  then show ?thesis using unat_add_lem[of w 1] by (simp add: saturating_add_def)
qed

lemma captured_whole:
  assumes "reads_within j whole_out whole_err" "limit_output (tool_limits t) \<noteq> -1"
    and "snd (tool_capture t j) = Inr (out, err)"
  shows "out = whole_out \<and> err = whole_err \<and> length out + length err \<le> unat (limit_output (tool_limits t))"
proof -
  let ?bound = "saturating_add (limit_output (tool_limits t)) 1"
  from assms(3) have read: "job_reads j (remaining_time t (read_elapsed j)) ?bound = Inr (out, err)"
    and len: "length out + length err \<le> unat (limit_output (tool_limits t))"
    by (auto simp: tool_capture_def Let_def split: option.splits sum.splits read_failure.splits if_splits)
  have "length out + length err < unat ?bound" using len unat_saturating_add_one[OF assms(2)] by simp
  with assms(1) read len show ?thesis unfolding reads_within_def by blast
qed

lemma run_whole:
  assumes "reads_within j whole_out whole_err" "limit_output (tool_limits t) \<noteq> -1"
    and "snd (run_capturing_stderr t j) = Inr r"
  shows "output_stdout r = whole_out \<and> output_stderr r = whole_err \<and> valid_utf8 whole_out \<and> valid_utf8 whole_err \<and>
    (\<exists>status. job_exits j (remaining_time t (wait_elapsed j)) = Some status \<and> exit_success status)"
proof -
  from assms(3) obtain out err status where parts: "snd (tool_capture t j) = Inr (out, err)"
    "snd (tool_reap t j) = Inr status" "exit_success status"
    "decoded_stream t out ''stdout'' = Inr (output_stdout r)" "decoded_stream t err ''stderr'' = Inr (output_stderr r)"
    by (auto simp: run_capturing_stderr_def Let_def result_iffs case_prod_unfold split: if_splits)
  then have "job_exits j (remaining_time t (wait_elapsed j)) = Some status"
    by (auto simp: tool_reap_def Let_def split: option.splits)
  with parts captured_whole[OF assms(1,2) parts(1)] show ?thesis
    by (auto simp: decoded_stream_def split: if_splits)
qed

section \<open>Nothing is left behind\<close>

text \<open>A process either gave its status in time or had its group killed, and is let go of only after that.\<close>

definition waits_of :: "tool_action list \<Rightarrow> nat list" where
  "waits_of acts = List.map_filter (\<lambda>a. case a of ReadFor time room \<Rightarrow> Some time | WaitFor time \<Rightarrow> Some time | _ \<Rightarrow> None) acts"

lemma left_behind:
  assumes "snd (tool_reap t j) = Inl e"
  shows "KillGroup \<in> set (fst (run_capturing_stderr t j))" "KillGroup \<in> set (fst (run_to_exit t j))"
  using assms
  by (auto simp: run_capturing_stderr_def run_to_exit_def tool_reap_def Let_def case_prod_unfold split: option.splits)

lemma detached_after_kill:
  assumes "Detach \<in> set (fst (run_capturing_stderr t j))"
  obtains before where "fst (run_capturing_stderr t j) = before @ [KillGroup, WaitFor reap_grace, Detach]"
    "job_exits_killed j reap_grace = None"
proof -
  have capture: "Detach \<notin> set (fst (tool_capture t j))"
    by (auto simp: tool_capture_def Let_def split: option.splits sum.splits read_failure.splits)
  with assms have "Detach \<in> set (fst (tool_reap t j))" by (auto simp: run_capturing_stderr_def Let_def case_prod_unfold)
  then have "fst (tool_reap t j) = [WaitFor (remaining_time t (wait_elapsed j))] @ [KillGroup, WaitFor reap_grace, Detach]"
    "job_exits_killed j reap_grace = None"
    by (auto simp: tool_reap_def Let_def split: option.splits if_splits)
  then show ?thesis
    using that[of "fst (tool_capture t j) @ [WaitFor (remaining_time t (wait_elapsed j))]"]
    by (simp add: run_capturing_stderr_def Let_def case_prod_unfold)
qed

lemma breach_kills:
  assumes "job_communicates j = None" "snd (tool_capture t j) = Inl e"
  shows "KillGroup \<in> set (fst (tool_capture t j))"
  using assms by (auto simp: tool_capture_def Let_def split: sum.splits read_failure.splits if_splits)

lemma waits_bounded:
  assumes "time \<in> set (waits_of (fst (run_capturing_stderr t j)))"
  shows "time \<le> max (limit_time (tool_limits t)) reap_grace"
  using assms
  by (auto simp: waits_of_def run_capturing_stderr_def tool_capture_def tool_reap_def Let_def case_prod_unfold
      remaining_time_def map_filter_def split: option.splits sum.splits read_failure.splits if_splits)

section \<open>Starting ends\<close>

text \<open>Each repeated attempt pauses, so a clock that keeps time lets no more than the budget holds.\<close>

fun keeps_time :: "nat \<Rightarrow> ('j start_answer \<times> nat) list \<Rightarrow> bool" where
  "keeps_time since [] = True"
| "keeps_time since ((a, now) # later) = (since \<le> now \<and> keeps_time (now + spawn_busy_pause) later)"

lemma started_tool_ends:
  "keeps_time since answers \<Longrightarrow> deadline \<le> since + spawn_busy_pause * n \<Longrightarrow> n < length answers \<Longrightarrow>
    started_tool t deadline answers \<noteq> None"
proof (induction t deadline answers arbitrary: n since rule: started_tool.induct)
  case (4 t deadline e now later)
  show ?case
  proof (cases "now < deadline")
    case True
    with 4 obtain m where "n = Suc m" by (cases n) auto
    moreover from this 4 have "since \<le> now" "keeps_time (now + spawn_busy_pause) later" "m < length later"
      "deadline \<le> (now + spawn_busy_pause) + spawn_busy_pause * m" by auto
    ultimately show ?thesis using "4.IH"[OF True] True by simp
  qed simp
qed simp_all

section \<open>What is quoted, and who is asked\<close>

lemma tail_within_spec:
  "\<exists>us. cs = us @ tail_within n cs" "length (concat (tail_within n cs)) \<le> n"
  by (induction cs) (auto, metis append_Cons)

lemma quoted_tail_bounded: "length (quoted_tail stderr) \<le> stderr_quoted"
  using tail_within_spec(2)[of stderr_quoted]
  by (auto simp: quoted_tail_def Let_def stderr_quoted_def)

lemma quoted_tail_text: "valid_utf8 (quoted_tail stderr)"
proof -
  let ?said = "trim (lossy stderr)"
  have said: "valid_utf8 ?said" by (rule valid_trim(3)[OF lossy_is_text])
  obtain us where "chars_of ?said = us @ tail_within stderr_quoted (chars_of ?said)"
    using tail_within_spec(1) by blast
  then have "set (tail_within stderr_quoted (chars_of ?said)) \<subseteq> set (chars_of ?said)"
    by (metis Un_upper2 set_append)
  from valid_concat_chars(1)[OF said this] show ?thesis
    by (auto simp: quoted_tail_def Let_def intro!: valid_utf8_ascii simp: between_def)
qed

lemma target_user_new_iff:
  "target_user_new v = Inr u \<longleftrightarrow> u = TargetUser v \<and> v \<noteq> [] \<and> hd v \<notin> {CHR ''-'', CHR ''#''} \<and>
     (\<forall>ch \<in> set (chars_of v). \<not> is_whitespace ch)"
  by (cases v) (auto simp: target_user_new_def starts_with_def list_ex_iff)

lemma text_joined_absolute: "starts_with ''/'' d \<Longrightarrow> starts_with ''/'' (text_joined d p)"
  by (cases d) (auto simp: text_joined_def starts_with_def)

lemma located_is_absolute:
  assumes "tool_located is_file program = Some t"
  shows "is_file (tool_path t)" "tool_program t = program" "starts_with ''/'' (tool_path t)"
proof -
  from assms obtain path where path: "find is_file (map (\<lambda>d. text_joined d program) system_directories) = Some path"
    and t: "t = \<lparr>tool_program = program, tool_path = path, tool_limits = default_limits\<rparr>"
    by (auto simp: tool_located_def located_in_def)
  from path obtain d where "is_file path" "d \<in> set system_directories" "path = text_joined d program"
    by (auto simp: find_Some_iff)
  moreover from this have "starts_with ''/'' d" by (auto simp: system_directories_def starts_with_def)
  ultimately show "is_file (tool_path t)" "tool_program t = program" "starts_with ''/'' (tool_path t)"
    using t text_joined_absolute by simp_all
qed

end
