(* ===== verification/HostFiles.thy ===== *)
theory HostFiles
  imports MountTable Globs Claims
begin

text \<open>
  How the host's own files are reached safely: files inside the root of another process
  (\<open>inside_root.rs\<close>), the host directories that show a process's path (\<open>host_directories.rs\<close>), whether a
  kernel subsystem is resident before a tool that would load it is run (\<open>kernel_residency.rs\<close>), and work
  inside another network namespace (\<open>network_namespace.rs\<close>).  What the kernel answers is a parameter.
\<close>

section \<open>Inside the root of a process\<close>

datatype opening_kind = OpenRead | OpenList | OpenDirectory

datatype open_error = NoOpenat2 | OpenError str

text \<open>
  What a resolved path is: its kind, the magic number of its filesystem, what reading it from a
  descriptor opened again gives, the names a directory lists, and its device and inode.
\<close>

record opened_file =
  opened_regular :: "str + bool"
  opened_filesystem :: "str + int"
  opened_holds :: "str + str"
  opened_names :: "str + (str + str) list"
  opened_identity :: "(u64 \<times> u64) option"

record inside_host =
  pins_root :: "path \<Rightarrow> str option"
  resolves_inside :: "path \<Rightarrow> path \<Rightarrow> opening_kind \<Rightarrow> open_error + opened_file"

definition inside_most_read :: nat where
  "inside_most_read = 1024 * 1024"

definition most_listed :: nat where
  "most_listed = 10000"

definition kernel_filesystems :: "int list" where
  "kernel_filesystems = [0x9fa0, 0x62656572, 0x64626720, 0x74726163, 0x73636673, 0x62656570, 0xcafe4a11, 0xde5e81e4,
     0x6165676c, 0x0027e0eb, 0x63677270, 0xf97cff8c]"

definition reopened_if_regular :: "opened_file \<Rightarrow> str + opened_file" where
  "reopened_if_regular f =
     and_then (opened_regular f) (\<lambda>regular.
       if \<not> regular then Inl ''it is not a regular file''
       else and_then (opened_filesystem f) (\<lambda>filesystem.
         if filesystem \<in> set kernel_filesystems
         then Inl ''it is a file the kernel serves rather than stores, which reading can change''
         else Inr f))"

definition open_under :: "inside_host \<Rightarrow> path \<Rightarrow> path \<Rightarrow> opening_kind \<Rightarrow> str + opened_file" where
  "open_under h root relative kind =
     (case resolves_inside h root (if relative = [] then [CurDir] else relative) kind of
        Inl NoOpenat2 \<Rightarrow> Inl ''this kernel has no openat2, so the path cannot be resolved inside the process's root''
      | Inl (OpenError e) \<Rightarrow> Inl e
      | Inr f \<Rightarrow> if kind = OpenRead then reopened_if_regular f else Inr f)"

definition open_inside :: "inside_host \<Rightarrow> path \<Rightarrow> path \<Rightarrow> opening_kind \<Rightarrow> str + opened_file" where
  "open_inside h root relative kind =
     (case pins_root h root of Some e \<Rightarrow> Inl e | None \<Rightarrow> open_under h root relative kind)"

definition read_inside :: "inside_host \<Rightarrow> path \<Rightarrow> path \<Rightarrow> str + str" where
  "read_inside h root relative =
     and_then (open_inside h root relative OpenRead) (\<lambda>f.
     and_then (opened_regular f) (\<lambda>regular.
       if \<not> regular then Inl ''it is not a regular file''
       else and_then (opened_holds f) (\<lambda>held.
         let taken = take (inside_most_read + 1) held
         in if \<not> valid_utf8 taken then Inl ''stream did not contain valid UTF-8''
            else if length taken \<le> inside_most_read then Inr taken
            else Inl ''it is larger than {MOST_READ} bytes'')))"

definition bounded_names :: "(str + str) list \<Rightarrow> str + str list" where
  "bounded_names ns = and_then (collect_results (take (most_listed + 1) ns)) (\<lambda>names.
     if most_listed < length names then Inl ''it holds more than {MOST_LISTED} entries'' else Inr names)"

definition names_inside :: "inside_host \<Rightarrow> path \<Rightarrow> path \<Rightarrow> str + str list" where
  "names_inside h root relative =
     and_then (open_inside h root relative OpenList) (\<lambda>f.
     and_then (opened_names f) (\<lambda>ns.
       bounded_names (filter (\<lambda>n. n \<noteq> Inr ''.'' \<and> n \<noteq> Inr ''..'') (map (map_ok lossy) ns))))"

section \<open>Host directories\<close>

text \<open>What the host answers of its own paths: a table's bytes, a directory's identity, where a path leads.\<close>

record host_files =
  file_bytes :: "path \<Rightarrow> str option"
  directory_identity :: "path \<Rightarrow> (u64 \<times> u64) option"
  canonical_path :: "path \<Rightarrow> path option"
  process_roots :: inside_host

fun component_place :: "component \<Rightarrow> nat \<times> str" where
  "component_place RootDir = (1, [])"
| "component_place CurDir = (2, [])"
| "component_place ParentDir = (3, [])"
| "component_place (Normal s) = (4, s)"

lemma component_place_inj: "component_place c = component_place d \<longleftrightarrow> c = d"
  by (cases c; cases d) auto

instantiation component :: linorder
begin

definition less_eq_component :: "component \<Rightarrow> component \<Rightarrow> bool" where
  "less_eq_component c d \<longleftrightarrow> fst (component_place c) < fst (component_place d) \<or>
     fst (component_place c) = fst (component_place d) \<and> snd (component_place c) \<le> snd (component_place d)"

definition less_component :: "component \<Rightarrow> component \<Rightarrow> bool" where
  "less_component c d \<longleftrightarrow> fst (component_place c) < fst (component_place d) \<or>
     fst (component_place c) = fst (component_place d) \<and> snd (component_place c) < snd (component_place d)"

instance
proof
  fix c d :: component
  assume "c \<le> d" "d \<le> c"
  then have "component_place c = component_place d"
    by (auto simp: less_eq_component_def prod_eq_iff)
  then show "c = d" by (simp add: component_place_inj)
qed (auto simp: less_eq_component_def less_component_def)

end

definition compare_views :: "host_view \<Rightarrow> host_view \<Rightarrow> comparison" where
  "compare_views v w = then_with (cmp_of (view_path v) (view_path w)) (cmp_of (view_part v) (view_part w))"

interpretation views: linear_comparator_on compare_views UNIV
  unfolding compare_views_def
proof (rule then_with_linear)
  show "comparator_on (\<lambda>v w. cmp_of (view_path v) (view_path w)) (UNIV :: host_view set)"
    "comparator_on (\<lambda>v w. cmp_of (view_part v) (view_part w)) (UNIV :: host_view set)"
    by (rule comparator_pullback[OF cmp_of.comparator_on_axioms]; simp)+
qed (auto simp: cmp_simps)

text \<open>Sorting by a linear comparison and dropping equal neighbours leaves each item once.\<close>

context linear_comparator_on
begin

lemma dedup_sorted_distinct: "set xs \<subseteq> A \<Longrightarrow> sorted_by cmp xs \<Longrightarrow> distinct (dedup xs) \<and> sorted_by cmp (dedup xs)"
proof (induction xs rule: dedup.induct)
  case (1 x y xs)
  have rest: "distinct (dedup (y # xs)) \<and> sorted_by cmp (dedup (y # xs))" if "x \<noteq> y" using 1 that by auto
  have "x \<notin> set (y # xs)" if "x \<noteq> y"
  proof
    assume "x \<in> set (y # xs)"
    with that have x: "x \<in> set xs" by simp
    with "1.prems" have "cmp x y \<noteq> Greater" "cmp y x \<noteq> Greater" "x \<in> A" "y \<in> A" by auto
    then have "cmp x y = Equal" using cmp_swap[of x y] by (cases "cmp x y") auto
    with cmp_eq \<open>x \<in> A\<close> \<open>y \<in> A\<close> that show False by blast
  qed
  with rest 1 show ?case by auto
qed auto

lemma dedup_sort_by: "set xs \<subseteq> A \<Longrightarrow>
    distinct (dedup (sort_by cmp xs)) \<and> sorted_by cmp (dedup (sort_by cmp xs)) \<and> set (dedup (sort_by cmp xs)) = set xs"
  using dedup_sorted_distinct[of "sort_by cmp xs"] sorted_sort_by[of xs] by simp

end

definition same_directory :: "host_files \<Rightarrow> path \<Rightarrow> path \<Rightarrow> bool" where
  "same_directory h root p =
     (case path_strip_prefix p [RootDir] of
        None \<Rightarrow> False
      | Some relative \<Rightarrow>
          (case (directory_identity h p, Option.bind (result_ok (open_inside (process_roots h) root relative OpenDirectory)) opened_identity) of
             (Some here, Some there) \<Rightarrow> here = there
           | _ \<Rightarrow> False))"

definition host_directory_views_of :: "host_files \<Rightarrow> path \<Rightarrow> nat \<Rightarrow> path \<Rightarrow> host_view list" where
  "host_directory_views_of h proc process_id p =
     (let process = proc @ [Normal (show_nat process_id)];
          host_table = file_bytes h (proc @ [Normal ''self'', Normal ''mountinfo'']);
          seen = (if same_directory h (process @ [Normal ''root'']) p
            then (case host_table of Some table \<Rightarrow> host_alias_views_of table p | None \<Rightarrow> []) @ [\<lparr>view_path = p, view_part = []\<rparr>]
            else (case (file_bytes h (process @ [Normal ''mountinfo'']), host_table) of
                (Some own, Some hosts) \<Rightarrow> host_views_of own hosts p
              | _ \<Rightarrow> []))
      in dedup (sort_by compare_views
           (List.map_filter (\<lambda>v. map_option (\<lambda>c. \<lparr>view_path = c, view_part = view_part v\<rparr>) (canonical_path h (view_path v)))
             (filter (\<lambda>v. directory_identity h (view_path v) \<noteq> None) seen))))"

definition host_directories_of :: "host_files \<Rightarrow> path \<Rightarrow> nat \<Rightarrow> path \<Rightarrow> path list" where
  "host_directories_of h proc process_id p =
     dedup (sort_by cmp_of (map view_path (host_directory_views_of h proc process_id p)))"

text \<open>The directories are the host's views of the path that are directories, each once, in order.\<close>

definition views_seen :: "host_files \<Rightarrow> path \<Rightarrow> nat \<Rightarrow> path \<Rightarrow> host_view list" where
  "views_seen h proc process_id p =
     (let process = proc @ [Normal (show_nat process_id)];
          host_table = file_bytes h (proc @ [Normal ''self'', Normal ''mountinfo''])
      in if same_directory h (process @ [Normal ''root'']) p
         then (case host_table of Some table \<Rightarrow> host_alias_views_of table p | None \<Rightarrow> []) @ [\<lparr>view_path = p, view_part = []\<rparr>]
         else (case (file_bytes h (process @ [Normal ''mountinfo'']), host_table) of
             (Some own, Some hosts) \<Rightarrow> host_views_of own hosts p
           | _ \<Rightarrow> []))"

lemma host_directory_views:
  shows "set (host_directory_views_of h proc process_id p) =
      {v. \<exists>seen \<in> set (views_seen h proc process_id p). directory_identity h (view_path seen) \<noteq> None \<and>
         canonical_path h (view_path seen) = Some (view_path v) \<and> view_part v = view_part seen}"
    "distinct (host_directory_views_of h proc process_id p)"
proof -
  let ?vs = "List.map_filter (\<lambda>v. map_option (\<lambda>c. \<lparr>view_path = c, view_part = view_part v\<rparr>) (canonical_path h (view_path v)))
      (filter (\<lambda>v. directory_identity h (view_path v) \<noteq> None) (views_seen h proc process_id p))"
  have views: "host_directory_views_of h proc process_id p = dedup (sort_by compare_views ?vs)"
    by (simp add: host_directory_views_of_def views_seen_def Let_def)
  show "distinct (host_directory_views_of h proc process_id p)"
    unfolding views using views.dedup_sort_by[of ?vs] by simp
  have "set ?vs = {v. \<exists>seen \<in> set (views_seen h proc process_id p). directory_identity h (view_path seen) \<noteq> None \<and>
         canonical_path h (view_path seen) = Some (view_path v) \<and> view_part v = view_part seen}"
    by (auto simp: set_map_filter) (metis host_view.surjective old.unit.exhaust)+
  then show "set (host_directory_views_of h proc process_id p) =
      {v. \<exists>seen \<in> set (views_seen h proc process_id p). directory_identity h (view_path seen) \<noteq> None \<and>
         canonical_path h (view_path seen) = Some (view_path v) \<and> view_part v = view_part seen}"
    unfolding views using views.dedup_sort_by[of ?vs] by simp
qed

lemma host_directories:
  "set (host_directories_of h proc process_id p) = view_path ` set (host_directory_views_of h proc process_id p)"
  "sorted_wrt (<) (host_directories_of h proc process_id p)"
  unfolding host_directories_of_def by (simp, intro sorted_dedup sorted_sort_by_cmp_of)

section \<open>Whether a subsystem is resident\<close>

datatype residency = Loaded | BuiltIn | NotResident | ResidencyUnknown

record kernel_subsystem =
  subsystem_module :: str
  subsystem_symbol :: str

record kernel_residency =
  loaded_modules :: "str list option"
  built_in_symbols :: "str list option"

definition residency_parse :: "str option \<Rightarrow> str option \<Rightarrow> kernel_residency" where
  "residency_parse modules config =
     \<lparr>loaded_modules = map_option (\<lambda>s. sorted_set (List.map_filter (\<lambda>l. nth_opt 0 (split_whitespace l)) (lines s))) modules,
      built_in_symbols = map_option (\<lambda>s. sorted_set (List.map_filter (\<lambda>l. strip_suffix ''=y'' (trim l)) (lines s))) config\<rparr>"

definition residency_at :: "(str \<Rightarrow> str option) \<Rightarrow> str \<Rightarrow> str \<Rightarrow> str \<Rightarrow> kernel_residency" where
  "residency_at read modules osrelease config_prefix =
     residency_parse (read modules) (Option.bind (read osrelease) (\<lambda>release. read (config_prefix @ trim release)))"

definition residency_detect :: "(str \<Rightarrow> str option) \<Rightarrow> kernel_residency" where
  "residency_detect read = residency_at read ''/proc/modules'' ''/proc/sys/kernel/osrelease'' ''/boot/config-''"

definition residency_of :: "kernel_residency \<Rightarrow> kernel_subsystem \<Rightarrow> residency" where
  "residency_of r sub =
     (if (case loaded_modules r of Some ms \<Rightarrow> subsystem_module sub \<in> set ms | None \<Rightarrow> False) then Loaded
      else if (case built_in_symbols r of Some cs \<Rightarrow> subsystem_symbol sub \<in> set cs | None \<Rightarrow> False) then BuiltIn
      else (case (loaded_modules r, built_in_symbols r) of (Some _, Some _) \<Rightarrow> NotResident | _ \<Rightarrow> ResidencyUnknown))"

fun residency_is_resident :: "residency \<Rightarrow> bool" where
  "residency_is_resident Loaded = True"
| "residency_is_resident BuiltIn = True"
| "residency_is_resident NotResident = False"
| "residency_is_resident ResidencyUnknown = False"

definition is_resident :: "kernel_residency \<Rightarrow> kernel_subsystem \<Rightarrow> bool" where
  "is_resident r sub = residency_is_resident (residency_of r sub)"

text \<open>A subsystem is called absent only on the word of both listings, and resident only on the word of one.\<close>

lemma residency_evidence:
  "residency_of (residency_parse modules config) sub = Loaded \<longleftrightarrow>
     (\<exists>s l. modules = Some s \<and> l \<in> set (lines s) \<and> nth_opt 0 (split_whitespace l) = Some (subsystem_module sub))"
  "residency_of (residency_parse modules config) sub = NotResident \<longleftrightarrow>
     (\<exists>s t. modules = Some s \<and> config = Some t \<and> \<not> is_resident (residency_parse modules config) sub)"
  by (cases modules; cases config;
    auto simp: residency_of_def residency_parse_def is_resident_def set_map_filter sorted_set_props(1) image_iff)+

section \<open>Another network namespace\<close>

record namespace_refusal =
  refusal_reason :: str
  refusal_refused :: bool

record process_namespace =
  namespace_path :: str
  namespace_ours :: bool

datatype link_failure = LinkNotFound str | LinkDenied str | LinkFailed str

definition namespace_of_in :: "(str \<Rightarrow> link_failure + str) \<Rightarrow> str \<Rightarrow> nat \<Rightarrow> namespace_refusal + process_namespace" where
  "namespace_of_in read_link proc process_id =
     (let path = text_joined (text_joined proc (show_nat process_id)) ''ns/net''
      in case read_link path of
           Inl (LinkNotFound e) \<Rightarrow> Inl \<lparr>refusal_reason = ''the process exited while it was being read'', refusal_refused = False\<rparr>
         | Inl (LinkDenied e) \<Rightarrow> Inl \<lparr>refusal_reason = ''the process's ns/net could not be read: '' @ e, refusal_refused = True\<rparr>
         | Inl (LinkFailed e) \<Rightarrow> Inl \<lparr>refusal_reason = ''the process's ns/net could not be read: '' @ e, refusal_refused = False\<rparr>
         | Inr theirs \<Rightarrow>
             (case read_link (text_joined (text_joined proc ''self'') ''ns/net'') of
                Inr ours \<Rightarrow> Inr \<lparr>namespace_path = path, namespace_ours = (theirs = ours)\<rparr>
              | Inl e \<Rightarrow> Inl \<lparr>refusal_reason = ''rastro's own ns/net could not be read: '' @
                    (case e of LinkNotFound e \<Rightarrow> e | LinkDenied e \<Rightarrow> e | LinkFailed e \<Rightarrow> e), refusal_refused = False\<rparr>))"

text \<open>
  Work in a namespace: \<open>None\<close> is work that panicked.  \<open>opens\<close> is opening the namespace's file, \<open>joins\<close> the
  thread entering it, each with the refusal of the call where it fails.
\<close>

definition namespace_run ::
  "(str \<Rightarrow> (str \<times> bool) option) \<Rightarrow> (str \<Rightarrow> (str \<times> bool) option) \<Rightarrow> process_namespace \<Rightarrow> (str option \<Rightarrow> 'a option)
    \<Rightarrow> (namespace_refusal + 'a) option" where
  "namespace_run opens joins ns work =
     (if namespace_ours ns then map_option Inr (work None)
      else (case opens (namespace_path ns) of
          Some (e, denied) \<Rightarrow> Some (Inl \<lparr>refusal_reason = ''the process's network namespace could not be opened: '' @ e, refusal_refused = denied\<rparr>)
        | None \<Rightarrow> (case joins (namespace_path ns) of
            Some (e, denied) \<Rightarrow> Some (Inl \<lparr>refusal_reason = ''joining the process's network namespace failed: '' @ e, refusal_refused = denied\<rparr>)
          | None \<Rightarrow> (case work (Some (namespace_path ns)) of
              Some answer \<Rightarrow> Some (Inr answer)
            | None \<Rightarrow> Some (Inl \<lparr>refusal_reason = ''the work inside the process's network namespace panicked'', refusal_refused = False\<rparr>)))))"

text \<open>An answer is only ever given from where the process is, and a panic there stays there.\<close>

lemma namespace_run_answers:
  "namespace_run opens joins ns work = Some (Inr a) \<Longrightarrow>
     work (if namespace_ours ns then None else Some (namespace_path ns)) = Some a"
  "\<not> namespace_ours ns \<Longrightarrow> namespace_run opens joins ns work \<noteq> None"
  by (auto simp: namespace_run_def split: if_splits option.splits prod.splits)

section \<open>What is read is bounded, and stored\<close>

lemma read_inside_Inr:
  assumes "read_inside h root relative = Inr s"
  shows "length s \<le> inside_most_read \<and> valid_utf8 s \<and>
    (\<exists>f. open_inside h root relative OpenRead = Inr f \<and> opened_regular f = Inr True \<and> opened_holds f = Inr s \<and>
       (\<exists>filesystem. opened_filesystem f = Inr filesystem \<and> filesystem \<notin> set kernel_filesystems))"
proof -
  from assms obtain f held where f: "open_inside h root relative OpenRead = Inr f" "opened_regular f = Inr True"
    "opened_holds f = Inr held" "valid_utf8 s" "length s \<le> inside_most_read" "s = take (inside_most_read + 1) held"
    by (auto simp: read_inside_def result_iffs Let_def split: if_splits)
  then have "held = s" by (simp add: min_def split: if_splits)
  moreover have "\<exists>filesystem. opened_filesystem f = Inr filesystem \<and> filesystem \<notin> set kernel_filesystems"
    using f(1) by (auto simp: open_inside_def open_under_def reopened_if_regular_def result_iffs
      split: option.splits sum.splits open_error.splits if_splits)
  ultimately show ?thesis using f by blast
qed

lemma names_inside_bounded:
  assumes "names_inside h root relative = Inr ns"
  shows "length ns \<le> most_listed \<and> ''.'' \<notin> set ns \<and> ''..'' \<notin> set ns"
proof -
  from assms obtain all :: "(str + str) list" where ns: "collect_results (take (most_listed + 1)
      (filter (\<lambda>n. n \<noteq> Inr ''.'' \<and> n \<noteq> Inr ''..'') (map (map_ok lossy) all))) = Inr ns" "length ns \<le> most_listed"
    by (auto simp: names_inside_def bounded_names_def result_iffs not_less split: if_splits)
  let ?kept = "filter (\<lambda>n. n \<noteq> Inr ''.'' \<and> n \<noteq> Inr ''..'') (map (map_ok lossy) all)"
  have "take (most_listed + 1) ?kept = map Inr ns" using ns(1) unfolding collect_results_Inr_iff .
  then have kept: "Inr n \<in> set ?kept" if "n \<in> set ns" for n
    using that set_take_subset[of "most_listed + 1" ?kept] by auto
  have "''.'' \<notin> set ns" "''..'' \<notin> set ns" using kept[of "''.''"] kept[of "''..''"] by auto
  with ns(2) show ?thesis by blast
qed

end
