(* ===== verification/TextWords.thy ===== *)
theory TextWords
  imports TextSplits
begin

text \<open>
  Words between white space: \<open>split_whitespace\<close> gives back the words a line was made of, however much
  space lies between them.
\<close>

definition word :: "str \<Rightarrow> bool" where
  "word t \<longleftrightarrow> t \<noteq> [] \<and> valid_utf8 t \<and> (\<forall>ch \<in> set (chars_of t). \<not> is_whitespace ch)"

definition space :: "str \<Rightarrow> bool" where
  "space g \<longleftrightarrow> list_all ascii_space g"

lemma space_simps [simp]: "space []" "space (c # g) \<longleftrightarrow> ascii_space c \<and> space g" "space (g @ h) \<longleftrightarrow> space g \<and> space h"
  by (simp_all add: space_def)

lemma runs_word: "(\<And>x. x \<in> set t \<Longrightarrow> \<not> sep x) \<Longrightarrow> sep y \<Longrightarrow> runs sep (t @ y # xs) = t # runs sep xs"
  by (induction t) auto

lemma runs_only: "(\<And>x. x \<in> set t \<Longrightarrow> \<not> sep x) \<Longrightarrow> runs sep t = [t]"
  by (induction t) auto

lemma runs_gap: "(\<And>x. x \<in> set g \<Longrightarrow> sep x) \<Longrightarrow> runs sep (g @ xs) = replicate (length g) [] @ runs sep xs"
  by (induction g) auto

lemma space_chars:
  assumes "space g"
  shows "chars_of g = map (\<lambda>c. [c]) g" "valid_utf8 g" "x \<in> set (chars_of g) \<Longrightarrow> is_whitespace x"
proof -
  have ascii: "list_all (between 0 127) g" using assms by (auto simp: space_def list_all_iff ascii_space_def)
  then show chars: "chars_of g = map (\<lambda>c. [c]) g" by (rule chars_of_ascii)
  show "valid_utf8 g" using ascii by (auto simp: list_all_iff intro: valid_utf8_ascii)
  show "is_whitespace x" if "x \<in> set (chars_of g)"
    using that assms by (auto simp: chars space_def list_all_iff ascii_space_def)
qed

lemma split_whitespace_gap:
  assumes "space g"
  shows "split_whitespace (g @ s) = split_whitespace s"
proof -
  have "chars_of (g @ s) = chars_of g @ chars_of s" using space_chars(2)[OF assms] by (rule chars_of_append)
  then show ?thesis using space_chars(3)[OF assms] by (simp add: split_whitespace_def runs_gap)
qed

lemma split_whitespace_space: "space g \<Longrightarrow> split_whitespace g = []"
  using split_whitespace_gap[of g "[]"] by (simp add: split_whitespace_def)

lemma split_whitespace_word:
  assumes "word t" "rest = [] \<or> ascii_space (hd rest)"
  shows "split_whitespace (t @ rest) = t # split_whitespace rest"
proof (cases rest)
  case Nil
  have "runs is_whitespace (chars_of t) = [chars_of t]" using assms by (intro runs_only) (simp add: word_def)
  with Nil assms show ?thesis by (simp add: split_whitespace_def word_def)
next
  case (Cons c r)
  with assms have c: "between 0 127 c" "is_whitespace [c]" by (simp_all add: ascii_space_def)
  have chars: "chars_of (t @ rest) = chars_of t @ [c] # chars_of r"
    using assms Cons c by (simp add: chars_of_append word_def chars_of_ascii_Cons)
  have "runs is_whitespace (chars_of (t @ rest)) = chars_of t # runs is_whitespace (chars_of r)"
    unfolding chars using assms c by (intro runs_word) (simp_all add: word_def)
  moreover have "split_whitespace rest = split_whitespace r"
    using split_whitespace_gap[of "[c]" r] Cons assms by simp
  ultimately show ?thesis using assms by (simp add: split_whitespace_def word_def)
qed

text \<open>A line as it is written: each word after its gap, and what is left at the end.\<close>

fun spaced :: "(str \<times> str) list \<Rightarrow> str \<Rightarrow> str" where
  "spaced [] trail = trail"
| "spaced ((g, t) # ws) trail = g @ t @ spaced ws trail"

definition gaps_ok :: "(str \<times> str) list \<Rightarrow> bool" where
  "gaps_ok ws \<longleftrightarrow> list_all (\<lambda>(g, t). space g \<and> word t) ws \<and> list_all (\<lambda>(g, t). g \<noteq> []) (tl ws)"

lemma split_whitespace_spaced:
  "gaps_ok ws \<Longrightarrow> space trail \<Longrightarrow> split_whitespace (spaced ws trail) = map snd ws"
proof (induction ws)
  case Nil
  then show ?case by (simp add: split_whitespace_space)
next
  case (Cons w ws)
  obtain g t where w: "w = (g, t)" by (cases w)
  have tail: "gaps_ok ws" using Cons.prems by (cases ws) (auto simp: gaps_ok_def)
  have "spaced ws trail = [] \<or> ascii_space (hd (spaced ws trail))"
  proof (cases ws)
    case Nil
    with Cons.prems show ?thesis by (cases trail) auto
  next
    case (Cons v vs)
    obtain h u where "v = (h, u)" by (cases v)
    with \<open>gaps_ok (w # ws)\<close> Cons show ?thesis by (cases h) (auto simp: gaps_ok_def)
  qed
  then have "split_whitespace (t @ spaced ws trail) = t # split_whitespace (spaced ws trail)"
    using Cons.prems w by (intro split_whitespace_word) (simp_all add: gaps_ok_def)
  with Cons.IH[OF tail] Cons.prems w show ?case by (simp add: split_whitespace_gap gaps_ok_def)
qed

lemma spaced_append: "spaced ws trail @ s = spaced ws (trail @ s)"
  by (induction ws) auto

text \<open>Plain words: printable ASCII.\<close>

lemma word_ascii:
  assumes "t \<noteq> []" "list_all (between 33 126) t"
  shows "word t"
proof -
  have ascii: "list_all (between 0 127) t" using assms by (auto simp: list_all_iff between_def Let_def)
  then have "chars_of t = map (\<lambda>c. [c]) t" by (rule chars_of_ascii)
  moreover have "\<not> is_whitespace [c]" if "c \<in> set t" for c
    using that assms by (auto simp: list_all_iff between_def Let_def is_whitespace_def)
  moreover have "valid_utf8 t" using ascii by (auto simp: list_all_iff intro: valid_utf8_ascii)
  ultimately show ?thesis using assms by (auto simp: word_def)
qed

lemma word_append: "word s \<Longrightarrow> word t \<Longrightarrow> word (s @ t)"
  by (auto simp: word_def valid_utf8_append chars_of_append)

lemma word_trimmed: "word t \<Longrightarrow> trimmed t"
  unfolding word_def trimmed_def by (metis chars_of_Nil_iff hd_in_set last_in_set)

lemma digits_printable: "2 \<le> b \<Longrightarrow> b \<le> 16 \<Longrightarrow> list_all (between 33 126) (positional b n)"
proof -
  assume "2 \<le> b" "b \<le> 16"
  then have "\<exists>k < b. c = digit k" if "c \<in> set (positional b n)" for c using positional_digits that by blast
  with \<open>b \<le> 16\<close> show ?thesis by (fastforce simp: list_all_iff between_def of_char_digit)
qed

text \<open>Trimming a line first changes nothing.\<close>

lemma runs_nonempty: "runs sep xs \<noteq> []"
  by (induction xs) (auto split: list.split)

lemma runs_append: "sep y \<Longrightarrow> runs sep (xs @ y # ys) = runs sep xs @ runs sep ys"
proof (induction xs)
  case (Cons x xs)
  then show ?case using runs_nonempty[of sep xs] by (cases "runs sep xs") auto
qed simp

lemma runs_all_gap: "(\<And>x. x \<in> set g \<Longrightarrow> sep x) \<Longrightarrow> filter (\<lambda>r. r \<noteq> []) (runs sep g) = []"
  by (induction g) auto

lemma runs_between_gaps:
  assumes "\<And>x. x \<in> set a \<Longrightarrow> sep x" "\<And>x. x \<in> set b \<Longrightarrow> sep x"
  shows "filter (\<lambda>r. r \<noteq> []) (runs sep (a @ m @ b)) = filter (\<lambda>r. r \<noteq> []) (runs sep m)"
proof -
  have "filter (\<lambda>r. r \<noteq> []) (runs sep (m @ b)) = filter (\<lambda>r. r \<noteq> []) (runs sep m)"
  proof (cases b)
    case (Cons y ys)
    with assms(2) show ?thesis using runs_all_gap[of ys sep] by (simp add: runs_append)
  qed simp
  with assms(1) show ?thesis by (simp add: runs_gap)
qed

lemma split_whitespace_trim:
  assumes "valid_utf8 s"
  shows "split_whitespace (trim s) = split_whitespace s"
proof -
  let ?cs = "chars_of s" and ?e = "chars_of (trim_end s)"
  obtain b where b: "?cs = ?e @ b" "\<And>x. x \<in> set b \<Longrightarrow> is_whitespace x"
  proof
    let ?b = "rev (takeWhile is_whitespace (rev ?cs))"
    have "?cs = rev (dropWhile is_whitespace (rev ?cs)) @ ?b"
      by (metis rev_append rev_rev_ident takeWhile_dropWhile_id)
    moreover have "?e = rev (dropWhile is_whitespace (rev ?cs))"
      unfolding trim_end_def using assms set_dropWhileD by (intro valid_concat_chars(2)) fastforce+
    ultimately show "?cs = ?e @ ?b" by simp
    show "is_whitespace x" if "x \<in> set ?b" for x using that set_takeWhileD by fastforce
  qed
  obtain a where a: "?e = a @ chars_of (trim s)" "\<And>x. x \<in> set a \<Longrightarrow> is_whitespace x"
  proof
    let ?a = "takeWhile is_whitespace ?e"
    have "chars_of (trim s) = dropWhile is_whitespace ?e"
      unfolding trim_def trim_start_def using valid_trim(2)[OF assms] set_dropWhileD
      by (intro valid_concat_chars(2)) fastforce+
    then show "?e = ?a @ chars_of (trim s)" by simp
    show "is_whitespace x" if "x \<in> set ?a" for x using that set_takeWhileD by fastforce
  qed
  have "?cs = a @ chars_of (trim s) @ b" using a(1) b(1) by simp
  then show ?thesis using runs_between_gaps[of a is_whitespace b "chars_of (trim s)"] a(2) b(2)
    by (simp add: split_whitespace_def)
qed

lemma spaced_valid: "gaps_ok ws \<Longrightarrow> space trail \<Longrightarrow> valid_utf8 (spaced ws trail)"
proof (induction ws)
  case Nil
  then show ?case by (simp add: space_chars)
next
  case (Cons w ws)
  obtain g t where w: "w = (g, t)" by (cases w)
  have "gaps_ok ws" using Cons.prems by (cases ws) (auto simp: gaps_ok_def)
  with Cons w show ?case by (auto simp: gaps_ok_def valid_utf8_append space_chars word_def)
qed

lemma trim_start_gap:
  assumes "space g" "word t" "valid_utf8 rest"
  shows "trim_start (g @ t @ rest) = t @ rest"
proof -
  have t: "valid_utf8 t" "chars_of t \<noteq> []" "\<not> is_whitespace (hd (chars_of t))"
    using assms(2) by (auto simp: word_def)
  have "chars_of (g @ t @ rest) = chars_of g @ chars_of t @ chars_of rest"
    using space_chars(2)[OF assms(1)] t(1) by (simp add: chars_of_append)
  moreover have "dropWhile is_whitespace (chars_of g @ chars_of t @ chars_of rest) = chars_of t @ chars_of rest"
    using space_chars(3)[OF assms(1)] t by (intro dropWhile_stops) auto
  ultimately show ?thesis by (simp add: trim_start_def)
qed

lemma first_word:
  assumes "word t" "rest = [] \<or> ascii_space (hd rest)"
  shows "takeWhile (\<lambda>ch. \<not> is_whitespace ch) (chars_of (t @ rest)) = chars_of t"
proof -
  have "takeWhile (\<lambda>ch. \<not> is_whitespace ch) (chars_of rest) = []"
    using assms(2) by (cases rest) (auto simp: ascii_space_def chars_of_ascii_Cons)
  with assms(1) show ?thesis by (simp add: word_def chars_of_append takeWhile_append2)
qed

text \<open>What is trimmed does not end in a carriage return, and a number is one word.\<close>

lemma trimmed_last_not_return:
  assumes "trimmed s" "s \<noteq> []"
  shows "last s \<noteq> carriage_return"
proof
  assume return: "last s = carriage_return"
  have "between 0 127 carriage_return" "is_whitespace [carriage_return]" by code_simp+
  then show False using assms return ascii_last_char[of s] by (simp add: trimmed_def)
qed

lemma trimmed_without_return: "trimmed s \<Longrightarrow> without_return s = s"
  using trimmed_last_not_return[of s] by (cases "s = []") (auto simp: without_return_def strip_suffix_Some_iff split: option.split)

lemma show_nat_word: "word (show_nat n)"
proof (rule word_ascii)
  have "between 33 126 c" if c: "c \<in> set (positional 10 n)" for c
  proof -
    obtain k where "k < 10" "c = digit k" using positional_digits[of 10 c n] c by auto
    then show ?thesis using of_char_digit[of k] by (simp add: between_def)
  qed
  then show "list_all (between 33 126) (show_nat n)" by (simp add: show_nat_def list_all_iff)
qed (simp add: show_nat_def)

end
