(* ===== verification/ProcSockets.thy ===== *)
theory ProcSockets
  imports TextWords Values BTree Paths NginxModel
begin

text \<open>
  The kernel's socket tables and who holds what (\<open>collectors/proc_sockets\<close>, the addresses of
  \<open>collectors/inet\<close>).  An address is its bytes in network order, as the standard library keeps it;
  \<open>little\<close> says in which order the machine keeps a word.  A word the kernel prints of an address is read back as the
  address on either kind of machine.
\<close>

section \<open>Addresses\<close>

datatype ip_addr = V4 str | V6 str

record socket_addr =
  addr_ip :: ip_addr
  addr_port :: "16 word"

text \<open>\<open>to_ne_bytes\<close>.\<close>

definition le_bytes :: "32 word \<Rightarrow> str" where
  "le_bytes w = map (\<lambda>i. char_of (unat w div 256 ^ i mod 256 :: nat)) [0, 1, 2, 3]"

definition ne_bytes :: "bool \<Rightarrow> 32 word \<Rightarrow> str" where
  "ne_bytes little w = (if little then le_bytes w else rev (le_bytes w))"

definition word_of :: "str \<Rightarrow> nat \<Rightarrow> 32 word collected" where
  "word_of hexadecimal width =
     (if length hexadecimal \<noteq> width
      then Inl (CollectionError ''{hexadecimal:?} is not a {width}-digit address word, so the row was misread'' [hexadecimal, show_nat width])
      else (case parse_radix 32 16 hexadecimal of
          Some n \<Rightarrow> Inr (word_of_nat n)
        | None \<Rightarrow> Inl (CollectionError ''{hexadecimal:?} is not an address word: {error}'' [hexadecimal])))"

definition ipv4_of :: "bool \<Rightarrow> str \<Rightarrow> str collected" where
  "ipv4_of little hexadecimal = map_ok (ne_bytes little) (word_of hexadecimal 8)"

fun eights :: "str \<Rightarrow> str list" where
  "eights s = (if s = [] then [] else take 8 s # eights (drop 8 s))"

declare eights.simps [simp del]

definition ipv6_of :: "bool \<Rightarrow> str \<Rightarrow> str collected" where
  "ipv6_of little hexadecimal =
     (if length hexadecimal \<noteq> 32 \<or> \<not> list_all (between 0 127) hexadecimal
      then Inl (CollectionError ''{hexadecimal:?} is not a 16-byte address, so the row was misread'' [hexadecimal])
      else map_ok (\<lambda>ws. concat (map (ne_bytes little) ws))
        (collect_results (map (\<lambda>part. word_of part 8) (eights hexadecimal))))"

text \<open>How the standard library shows an address.\<close>

definition ipv4_shown :: "str \<Rightarrow> str" where
  "ipv4_shown octets = joined_with ''.'' (map (\<lambda>b. show_nat (of_char b)) octets)"

fun segments :: "str \<Rightarrow> nat list" where
  "segments (a # b # rest) = (256 * of_char a + of_char b) # segments rest"
| "segments _ = []"

text \<open>The longest run of zeroes, the first of equals: its start and its length.\<close>

fun zero_span :: "nat \<Rightarrow> nat list \<Rightarrow> nat \<times> nat \<Rightarrow> nat \<times> nat \<Rightarrow> nat \<times> nat" where
  "zero_span i [] current longest = longest"
| "zero_span i (s # ss) (start, len) (start', len') =
     (if s = 0
      then (let current = (if len = 0 then i else start, len + 1)
            in zero_span (Suc i) ss current (if len + 1 > len' then current else (start', len')))
      else zero_span (Suc i) ss (0, 0) (start', len'))"

definition segments_shown :: "nat list \<Rightarrow> str" where
  "segments_shown ss = joined_with '':'' (map (positional 16) ss)"

definition ipv6_shown :: "str \<Rightarrow> str" where
  "ipv6_shown octets =
     (let ss = segments octets
      in if take 12 octets = replicate 10 (char_of (0::nat)) @ [char_of (255::nat), char_of (255::nat)]
         then ''::ffff:'' @ ipv4_shown (drop 12 octets)
         else (let (start, len) = zero_span 0 ss (0, 0) (0, 0)
               in if len > 1 then segments_shown (take start ss) @ ''::'' @ segments_shown (drop (start + len) ss)
                  else segments_shown ss))"

fun ip_shown :: "ip_addr \<Rightarrow> str" where
  "ip_shown (V4 octets) = ipv4_shown octets"
| "ip_shown (V6 octets) = ipv6_shown octets"

definition socket_addr_shown :: "socket_addr \<Rightarrow> str" where
  "socket_addr_shown a = (case addr_ip a of
      V4 octets \<Rightarrow> ipv4_shown octets @ '':'' @ show_nat (unat (addr_port a))
    | V6 octets \<Rightarrow> ''['' @ ipv6_shown octets @ '']:'' @ show_nat (unat (addr_port a)))"

section \<open>Listeners\<close>

record inet_listener =
  listener_address :: socket_addr
  listener_inode :: u64

definition text_holds :: "str \<Rightarrow> str \<Rightarrow> bool" where
  "text_holds needle s \<longleftrightarrow> cut_at needle s \<noteq> None"

definition inet_listener_of :: "bool \<Rightarrow> bool \<Rightarrow> str \<Rightarrow> inet_listener option" where
  "inet_listener_of little is_ipv6 l =
     (let columns = split_whitespace l
      in if length columns < 10 \<or> columns ! 3 \<noteq> ''0A'' then None
         else Option.bind (split_once (CHR '':'') (columns ! 1)) (\<lambda>(host, port).
           Option.bind (result_ok (if is_ipv6 then map_ok V6 (ipv6_of little host) else map_ok V4 (ipv4_of little host))) (\<lambda>ip.
           Option.bind (parse_radix 16 16 port) (\<lambda>p.
           map_option (\<lambda>inode. \<lparr>listener_address = \<lparr>addr_ip = ip, addr_port = word_of_nat p\<rparr>, listener_inode = word_of_nat inode\<rparr>)
             (parse_unsigned 64 (columns ! 9))))))"

definition table_listeners :: "bool \<Rightarrow> bool \<Rightarrow> str \<Rightarrow> inet_listener list" where
  "table_listeners little is_ipv6 table =
     List.map_filter (inet_listener_of little is_ipv6) (filter (\<lambda>l. \<not> text_holds ''local_address'' l) (lines table))"

text \<open>\<open>read\<close> gives the text of a file, where there is one that can be read.\<close>

definition inet_listeners :: "bool \<Rightarrow> (str \<Rightarrow> str option) \<Rightarrow> str \<Rightarrow> inet_listener list option" where
  "inet_listeners little read net =
     (let tables = List.map_filter (\<lambda>(table, is_ipv6). map_option (Pair is_ipv6) (read (text_joined net table)))
            [(''tcp'', False), (''tcp6'', True)]
      in if tables = [] then None
         else Some (concat (map (\<lambda>(is_ipv6, table). table_listeners little is_ipv6 table) tables)))"

definition listening_inodes :: "bool \<Rightarrow> (str \<Rightarrow> str option) \<Rightarrow> str \<Rightarrow> 16 word \<Rightarrow> u64 list option" where
  "listening_inodes little read net port =
     map_option (\<lambda>ls. dedup (sort_by cmp_of (map listener_inode (filter (\<lambda>l. addr_port (listener_address l) = port) ls))))
       (inet_listeners little read net)"

section \<open>Who holds a socket\<close>

record held_descriptor =
  held_process :: int
  held_descriptor :: int

definition compare_held :: "held_descriptor \<Rightarrow> held_descriptor \<Rightarrow> comparison" where
  "compare_held h k = then_with (cmp_of (held_process h) (held_process k)) (cmp_of (held_descriptor h) (held_descriptor k))"

fun process_text :: "process_name \<Rightarrow> non_empty_text" where
  "process_text (ProcessName t) = t"

instantiation process_name :: linorder
begin

definition less_eq_process_name :: "process_name \<Rightarrow> process_name \<Rightarrow> bool" where
  "less_eq_process_name m n \<longleftrightarrow> process_text m \<le> process_text n"

definition less_process_name :: "process_name \<Rightarrow> process_name \<Rightarrow> bool" where
  "less_process_name m n \<longleftrightarrow> process_text m < process_text n"

instance
proof
  fix m n :: process_name
  assume "m \<le> n" "n \<le> m"
  then show "m = n" by (cases m; cases n) (simp add: less_eq_process_name_def)
qed (auto simp: less_eq_process_name_def less_process_name_def)

end

datatype 'a reading_of_proc = ProcRead 'a | ProcGone | ProcUnread

text \<open>
  What \<open>/proc\<close> answers: the names it lists, and of each what its \<open>comm\<close> holds and what its descriptors link
  to; a process that went away between the two is gone, anything else that fails is unread.
\<close>

record proc_files =
  proc_names :: "str list option"
  proc_comm :: "str \<Rightarrow> str reading_of_proc"
  proc_links :: "str \<Rightarrow> (str \<times> str option) list reading_of_proc"

definition inode_of :: "str \<Rightarrow> u64 option" where
  "inode_of target =
     Option.bind (strip_prefix ''socket:['' target) (\<lambda>rest.
     Option.bind (strip_suffix '']'' rest) (\<lambda>digits.
       map_option word_of_nat (parse_unsigned 64 digits)))"

definition sockets_among :: "(str \<times> str option) list \<Rightarrow> (u64 \<times> int) list" where
  "sockets_among links = List.map_filter (\<lambda>(file_name, target).
     Option.bind (if valid_utf8 file_name then parse_signed 64 file_name else None) (\<lambda>descriptor.
     Option.bind target (\<lambda>t.
     Option.bind (if valid_utf8 t then inode_of t else None) (\<lambda>inode. Some (inode, descriptor))))) links"

type_synonym holder = "u64 \<times> process_name \<times> held_descriptor"

record socket_holders =
  holders_listed :: "holder list"
  holders_complete :: bool

text \<open>One entry of \<open>/proc\<close>: the holders it adds, or that it could not be read.\<close>

definition process_holders :: "proc_files \<Rightarrow> str \<Rightarrow> holder list option" where
  "process_holders P entry =
     (case (if valid_utf8 entry then parse_signed 64 entry else None) of
        None \<Rightarrow> Some []
      | Some process_id \<Rightarrow>
          (case proc_comm P entry of
             ProcGone \<Rightarrow> Some []
           | ProcUnread \<Rightarrow> None
           | ProcRead comm \<Rightarrow>
               (case result_ok (process_name_new (trim comm)) of
                  None \<Rightarrow> Some []
                | Some named \<Rightarrow>
                    (case proc_links P entry of
                       ProcGone \<Rightarrow> Some []
                     | ProcUnread \<Rightarrow> None
                     | ProcRead links \<Rightarrow> Some (map (\<lambda>(inode, descriptor).
                         (inode, named, \<lparr>held_process = process_id, held_descriptor = descriptor\<rparr>)) (sockets_among links))))))"

definition holders_step :: "proc_files \<Rightarrow> socket_holders \<Rightarrow> str \<Rightarrow> socket_holders" where
  "holders_step P s entry = (case process_holders P entry of
      Some hs \<Rightarrow> s\<lparr>holders_listed := holders_listed s @ hs\<rparr>
    | None \<Rightarrow> s\<lparr>holders_complete := False\<rparr>)"

definition socket_holders_at :: "proc_files \<Rightarrow> socket_holders" where
  "socket_holders_at P = (case proc_names P of
      None \<Rightarrow> \<lparr>holders_listed = [], holders_complete = False\<rparr>
    | Some entries \<Rightarrow> foldl (holders_step P) \<lparr>holders_listed = [], holders_complete = True\<rparr> entries)"

definition holders_of :: "socket_holders \<Rightarrow> u64 \<Rightarrow> (process_name \<times> held_descriptor list) list" where
  "holders_of s inode =
     (let held = filter (\<lambda>(i, n, d). i = inode) (holders_listed s)
      in map (\<lambda>n. (n, dedup (sort_by compare_held (map (snd \<circ> snd) (filter (\<lambda>(i, m, d). m = n) held)))))
           (dedup (sort_by cmp_of (map (fst \<circ> snd) held))))"

definition process_ids_of :: "socket_holders \<Rightarrow> u64 \<Rightarrow> int list" where
  "process_ids_of s inode =
     dedup (sort_by cmp_of (concat (map (\<lambda>(n, ds). map held_process ds) (holders_of s inode))))"

definition sockets_held_by :: "proc_files \<Rightarrow> nat \<Rightarrow> u64 list reading_of_proc" where
  "sockets_held_by P process_id = (case proc_links P (show_nat process_id) of
      ProcRead links \<Rightarrow> ProcRead (dedup (sort_by cmp_of (map fst (sockets_among links))))
    | ProcGone \<Rightarrow> ProcGone
    | ProcUnread \<Rightarrow> ProcUnread)"

section \<open>A word the kernel prints is read back\<close>

text \<open>\<open>%0kX\<close>: the lowest \<open>k\<close> hexadecimal digits.\<close>

definition upper_digit :: "nat \<Rightarrow> char" where
  "upper_digit n = char_of (if n < 10 then 48 + n else 55 + n)"

definition hex_printed :: "nat \<Rightarrow> nat \<Rightarrow> str" where
  "hex_printed k n = map (\<lambda>i. upper_digit (n div 16 ^ i mod 16)) (rev [0..<k])"

lemma radix_upper_digit: "d < 16 \<Longrightarrow> radix_digit 16 (upper_digit d) = Some d"
  by (auto simp: radix_digit_def upper_digit_def Let_def)

lemma upper_digit_range: "d < 16 \<Longrightarrow> between 48 70 (upper_digit d)"
  by (auto simp: upper_digit_def between_def Let_def)

lemma length_hex_printed [simp]: "length (hex_printed k n) = k"
  by (simp add: hex_printed_def)

lemma hex_printed_range: "list_all (between 48 70) (hex_printed k n)"
  by (auto simp: hex_printed_def list_all_iff intro: upper_digit_range)

lemma radix_value_hex: "radix_value 16 a (hex_printed k n) = Some (a * 16 ^ k + n mod 16 ^ k)"
proof (induction k arbitrary: a)
  case (Suc k)
  have digits: "hex_printed (Suc k) n = upper_digit (n div 16 ^ k mod 16) # hex_printed k n"
    by (simp add: hex_printed_def)
  have "n mod 16 ^ Suc k = 16 ^ k * (n div 16 ^ k mod 16) + n mod 16 ^ k"
    using mod_mult2_eq[of n "16 ^ k" 16] by (simp add: mult.commute)
  then show ?case
    using Suc.IH[of "16 * a + n div 16 ^ k mod 16"]
    by (simp add: digits radix_upper_digit algebra_simps)
qed (simp add: hex_printed_def)

lemma parse_hex_printed:
  assumes "0 < k" "n < 16 ^ k" "n < 2 ^ bits"
  shows "parse_radix bits 16 (hex_printed k n) = Some n"
proof -
  have "strip_prefix ''+'' (hex_printed k n) = None"
    using hex_printed_range[of k n] by (cases "hex_printed k n") (auto simp: strip_prefix_def starts_with_def between_def)
  moreover have "hex_printed k n \<noteq> []" using assms(1) by (metis length_0_conv length_hex_printed less_nat_zero_code)
  ultimately show ?thesis using assms radix_value_hex[of 0 k n] by (simp add: parse_radix_def)
qed

lemma word_read: "word_of (hex_printed 8 (unat w)) 8 = Inr w"
proof -
  have "unat w < 2 ^ 32" using unsigned_less[of w] by simp
  then have "parse_radix 32 16 (hex_printed 8 (unat w)) = Some (unat w)" by (intro parse_hex_printed) auto
  then show ?thesis by (simp add: word_of_def)
qed

lemma ipv4_read: "ipv4_of little (hex_printed 8 (unat w)) = Inr (ne_bytes little w)"
  by (simp add: ipv4_of_def word_read)

lemma eights_concat: "list_all (\<lambda>p. length p = 8) ps \<Longrightarrow> eights (concat ps) = ps"
proof (induction ps)
  case (Cons p ps)
  then have "p \<noteq> []" by auto
  with Cons show ?case by (simp add: eights.simps[of "p @ concat ps"])
qed (simp add: eights.simps)

lemma ipv6_read:
  assumes "length ws = 4"
  shows "ipv6_of little (concat (map (\<lambda>w. hex_printed 8 (unat w)) ws)) = Inr (concat (map (ne_bytes little) ws))"
proof -
  let ?ps = "map (\<lambda>w. hex_printed 8 (unat w)) ws"
  have len: "length (concat ?ps) = 32" using assms by (simp add: length_concat comp_def sum_list_triv)
  have ascii: "list_all (between 0 127) (concat ?ps)"
    using hex_printed_range by (fastforce simp: list_all_iff between_def Let_def)
  have "eights (concat ?ps) = ?ps" by (rule eights_concat) (simp add: list_all_iff)
  moreover have "collect_results (map (\<lambda>part. word_of part 8) ?ps) = Inr ws"
    by (simp add: collect_results_Inr_iff word_read)
  ultimately show ?thesis using len ascii unfolding ipv6_of_def by simp
qed

section \<open>A row of a table is read back\<close>

text \<open>A socket as the kernel holds it, and the columns it prints of it; the columns between are anything.\<close>

record kernel_socket =
  socket_words :: "32 word list"
  socket_port :: "16 word"
  socket_state :: str
  socket_inode :: u64

definition address_printed :: "kernel_socket \<Rightarrow> str" where
  "address_printed k = concat (map (\<lambda>w. hex_printed 8 (unat w)) (socket_words k)) @ CHR '':'' # hex_printed 4 (unat (socket_port k))"

definition prints :: "(str \<times> str) list \<Rightarrow> kernel_socket \<Rightarrow> bool" where
  "prints ws k \<longleftrightarrow> gaps_ok ws \<and> 10 \<le> length ws \<and> snd (ws ! 1) = address_printed k \<and> snd (ws ! 3) = socket_state k \<and>
     snd (ws ! 9) = show_nat (unat (socket_inode k))"

definition meant_address :: "bool \<Rightarrow> bool \<Rightarrow> kernel_socket \<Rightarrow> socket_addr" where
  "meant_address little is_ipv6 k =
     \<lparr>addr_ip = (if is_ipv6 then V6 else V4) (concat (map (ne_bytes little) (socket_words k))), addr_port = socket_port k\<rparr>"

lemma address_columns:
  assumes "length (socket_words k) = (if is_ipv6 then 4 else 1)"
  shows "split_once (CHR '':'') (address_printed k) =
      Some (concat (map (\<lambda>w. hex_printed 8 (unat w)) (socket_words k)), hex_printed 4 (unat (socket_port k)))"
    "(if is_ipv6 then map_ok V6 (ipv6_of little (concat (map (\<lambda>w. hex_printed 8 (unat w)) (socket_words k))))
      else map_ok V4 (ipv4_of little (concat (map (\<lambda>w. hex_printed 8 (unat w)) (socket_words k)))))
     = Inr (addr_ip (meant_address little is_ipv6 k))"
    "parse_radix 16 16 (hex_printed 4 (unat (socket_port k))) = Some (unat (socket_port k))"
proof -
  have colon: "CHR '':'' \<notin> set (hex_printed n m)" for n m
  proof
    assume "CHR '':'' \<in> set (hex_printed n m)"
    then obtain i where "CHR '':'' = upper_digit (m div 16 ^ i mod 16)" by (auto simp: hex_printed_def)
    moreover define d where "d = m div 16 ^ i mod 16"
    ultimately have "d < 16" "CHR '':'' = upper_digit d" by simp_all
    then show False by (auto simp: upper_digit_def simp flip: of_char_eq_iff[where 'a = nat] split: if_splits)
  qed
  then show "split_once (CHR '':'') (address_printed k) =
      Some (concat (map (\<lambda>w. hex_printed 8 (unat w)) (socket_words k)), hex_printed 4 (unat (socket_port k)))"
    by (simp add: split_once_Some_iff address_printed_def)
  show "(if is_ipv6 then map_ok V6 (ipv6_of little (concat (map (\<lambda>w. hex_printed 8 (unat w)) (socket_words k))))
      else map_ok V4 (ipv4_of little (concat (map (\<lambda>w. hex_printed 8 (unat w)) (socket_words k)))))
     = Inr (addr_ip (meant_address little is_ipv6 k))"
    using assms ipv6_read[of "socket_words k" little]
    by (auto simp: meant_address_def ipv4_read length_Suc_conv)
  have "unat (socket_port k) < 2 ^ 16" using unsigned_less[of "socket_port k"] by simp
  then show "parse_radix 16 16 (hex_printed 4 (unat (socket_port k))) = Some (unat (socket_port k))"
    by (intro parse_hex_printed) auto
qed

lemma listener_read:
  assumes "prints ws k" "space trail" "length (socket_words k) = (if is_ipv6 then 4 else 1)"
  shows "inet_listener_of little is_ipv6 (spaced ws trail) =
    (if socket_state k = ''0A''
     then Some \<lparr>listener_address = meant_address little is_ipv6 k, listener_inode = socket_inode k\<rparr> else None)"
proof -
  have columns: "split_whitespace (spaced ws trail) = map snd ws"
    using assms by (intro split_whitespace_spaced) (simp_all add: prints_def)
  have "unat (socket_inode k) < 2 ^ 64" using unsigned_less[of "socket_inode k"] by simp
  then have "parse_unsigned 64 (show_nat (unat (socket_inode k))) = Some (unat (socket_inode k))" by (rule parse_show_nat)
  then show ?thesis
    using assms(1) address_columns[OF assms(3)]
    by (simp add: inet_listener_of_def columns prints_def meant_address_def)
qed

section \<open>What is said of the holders is what was found\<close>

lemma holders_fold:
  "holders_listed (foldl (holders_step P) s entries) = holders_listed s @ concat (List.map_filter (process_holders P) entries)"
  "holders_complete (foldl (holders_step P) s entries) \<longleftrightarrow>
     holders_complete s \<and> (\<forall>e \<in> set entries. process_holders P e \<noteq> None)"
  by (induction entries arbitrary: s) (auto simp: holders_step_def map_filter_def split: option.splits)

lemma holders_complete_iff:
  "holders_complete (socket_holders_at P) \<longleftrightarrow>
     (\<exists>entries. proc_names P = Some entries \<and> (\<forall>e \<in> set entries. process_holders P e \<noteq> None))"
  by (auto simp: socket_holders_at_def holders_fold split: option.split)

lemma holders_listed_iff:
  "h \<in> set (holders_listed (socket_holders_at P)) \<longleftrightarrow>
     (\<exists>entries e hs. proc_names P = Some entries \<and> e \<in> set entries \<and> process_holders P e = Some hs \<and> h \<in> set hs)"
  by (auto simp: socket_holders_at_def holders_fold set_map_filter split: option.split)

interpretation held: linear_comparator_on compare_held UNIV
  unfolding compare_held_def
proof (rule then_with_linear)
  show "comparator_on (\<lambda>h k. cmp_of (held_process h) (held_process k)) (UNIV :: held_descriptor set)"
    "comparator_on (\<lambda>h k. cmp_of (held_descriptor h) (held_descriptor k)) (UNIV :: held_descriptor set)"
    by (rule comparator_pullback[OF cmp_of.comparator_on_axioms]; simp)+
qed (auto simp: cmp_simps)

lemma holders_of_Nil_iff: "holders_of s inode = [] \<longleftrightarrow> (\<forall>(i, n, d) \<in> set (holders_listed s). i \<noteq> inode)"
proof -
  have nil: "dedup xs = [] \<longleftrightarrow> xs = []" for xs :: "'a list" by (induction xs rule: dedup.induct) auto
  have "sort_by cmp_of xs = [] \<longleftrightarrow> xs = []" for xs :: "process_name list"
    by (metis length_0_conv length_sort_by)
  then show ?thesis by (auto simp: holders_of_def Let_def nil filter_empty_conv case_prod_unfold)
qed

end
