(* ===== verification/Sockets.thy ===== *)
theory Sockets
  imports ProcSockets Claims SetOrder
begin

text \<open>
  What the host is listening on (\<open>collectors/sockets\<close>): the inet and unix tables of the kernel, the holders
  of each socket, and the set they are observed as.  A table of sockets is read back as the sockets it
  offers; a socket is said to have no holder only where every process could be read.
\<close>

section \<open>Values\<close>

datatype socket_kind = SocketKind (kind_text: non_empty_text)
datatype socket_state_word = SocketState (state_text: non_empty_text)
datatype socket_path = SocketPath (socket_path_text: non_empty_text)

definition socket_kind_new :: "str \<Rightarrow> socket_kind collected" where
  "socket_kind_new v = map_ok SocketKind (non_empty_text_new v ''socket kind'')"

definition socket_state_new :: "str \<Rightarrow> socket_state_word collected" where
  "socket_state_new v = map_ok SocketState (non_empty_text_new v ''socket state'')"

definition socket_path_new :: "str \<Rightarrow> socket_path collected" where
  "socket_path_new v = map_ok SocketPath (non_empty_text_new v ''socket path'')"

definition is_abstract :: "socket_path \<Rightarrow> bool" where
  "is_abstract p \<longleftrightarrow> starts_with ''@'' (text_str (socket_path_text p))"

definition parse_hexadecimal :: "str \<Rightarrow> port_number collected" where
  "parse_hexadecimal v = (case parse_radix 16 16 v of
      Some n \<Rightarrow> Inr (PortNumber (word_of_nat n))
    | None \<Rightarrow> Inl (CollectionError ''{value:?} is not a port number'' [v]))"

datatype socket_address = InetAddress inet_host port_number | LocalAddress socket_path

record socket_row =
  row_kind :: socket_kind
  row_state_word :: socket_state_word
  row_address :: socket_address
  row_inode :: u64

section \<open>The inet tables\<close>

datatype inet_table = Tcp | Tcp6 | Udp | Udp6

definition inet_tables :: "(inet_table \<times> str) list" where
  "inet_tables = [(Tcp, ''tcp''), (Tcp6, ''tcp6''), (Udp, ''udp''), (Udp6, ''udp6'')]"

fun is_ipv6 :: "inet_table \<Rightarrow> bool" where
  "is_ipv6 Tcp = False" | "is_ipv6 Tcp6 = True" | "is_ipv6 Udp = False" | "is_ipv6 Udp6 = True"

fun table_kind :: "inet_table \<Rightarrow> str" where
  "table_kind Tcp = ''tcp''" | "table_kind Tcp6 = ''tcp''" | "table_kind Udp = ''udp''" | "table_kind Udp6 = ''udp''"

fun offered_state :: "inet_table \<Rightarrow> str" where
  "offered_state Tcp = ''0A''" | "offered_state Tcp6 = ''0A''" | "offered_state Udp = ''07''" | "offered_state Udp6 = ''07''"

fun state_word :: "inet_table \<Rightarrow> str" where
  "state_word Tcp = ''LISTEN''" | "state_word Tcp6 = ''LISTEN''" | "state_word Udp = ''UNCONN''" | "state_word Udp6 = ''UNCONN''"

definition parse_address :: "bool \<Rightarrow> inet_table \<Rightarrow> str \<Rightarrow> socket_address collected" where
  "parse_address little table column =
     (case split_once (CHR '':'') column of
        None \<Rightarrow> Inl (CollectionError ''{column:?} is not an address and port, so the row was misread'' [column])
      | Some (host, port) \<Rightarrow>
          and_then (if is_ipv6 table then map_ok ipv6_shown (ipv6_of little host) else map_ok ipv4_shown (ipv4_of little host)) (\<lambda>shown_host.
          and_then (inet_host_new shown_host) (\<lambda>h.
            map_ok (InetAddress h) (parse_hexadecimal port))))"

fun inet_rows :: "bool \<Rightarrow> inet_table \<Rightarrow> str list \<Rightarrow> socket_row list collected" where
  "inet_rows little table [] = Inr []"
| "inet_rows little table (l # ls) =
     (let l = trim l
      in if l = [] \<or> text_holds ''local_address'' l then inet_rows little table ls
         else (let columns = split_whitespace l
           in if length columns < 10
              then Inl (CollectionError ''{line:?} has {} columns, so the table was misread'' [l, show_nat (length columns)])
              else
                and_then (parse_address little table (columns ! 1)) (\<lambda>address.
                and_then (ok_or (CollectionError ''{:?} is not a socket inode: {error}'' [columns ! 9]) (parse_unsigned 64 (columns ! 9))) (\<lambda>inode.
                  if columns ! 3 \<noteq> offered_state table then inet_rows little table ls
                  else
                    and_then (socket_kind_new (table_kind table)) (\<lambda>k.
                    and_then (socket_state_new (state_word table)) (\<lambda>st.
                      map_ok (Cons \<lparr>row_kind = k, row_state_word = st, row_address = address, row_inode = word_of_nat inode\<rparr>)
                        (inet_rows little table ls)))))))"

declare inet_rows.simps(2) [simp del]

definition proc_net_inet_parse :: "bool \<Rightarrow> inet_table \<Rightarrow> str \<Rightarrow> socket_row list collected" where
  "proc_net_inet_parse little table s = inet_rows little table (lines s)"

section \<open>The unix table\<close>

fun split_off :: "nat \<Rightarrow> str \<Rightarrow> (str list \<times> str) option" where
  "split_off 0 rest = Some ([], rest)"
| "split_off (Suc n) rest =
     (let start = trim_start rest; field = concat (takeWhile (\<lambda>ch. \<not> is_whitespace ch) (chars_of start))
      in if start = [] then None
         else map_option (\<lambda>(fields, rest). (field # fields, rest)) (split_off n (drop (length field) start)))"

definition split_off_path :: "str \<Rightarrow> (str list \<times> str) option" where
  "split_off_path l = map_option (\<lambda>(fields, rest). (fields, trim_start rest)) (split_off 7 l)"

definition unix_kind_of :: "str \<Rightarrow> str collected" where
  "unix_kind_of field =
     (if field = ''0001'' then Inr ''u_str''
      else if field = ''0002'' then Inr ''u_dgr''
      else if field = ''0005'' then Inr ''u_seq''
      else Inl (CollectionError ''{other:?} is not a unix socket type, so the table was misread'' [field]))"

definition accept_connections :: "32 word" where
  "accept_connections = 0x10000"

definition unix_state_of :: "str \<Rightarrow> str collected" where
  "unix_state_of field = (case parse_radix 32 16 field of
      None \<Rightarrow> Inl (CollectionError ''{field:?} is not a socket flags word: {error}'' [field])
    | Some flags \<Rightarrow> Inr (if and (word_of_nat flags) accept_connections = 0 then ''UNCONN'' else ''LISTEN''))"

fun unix_rows :: "str list \<Rightarrow> socket_row list collected" where
  "unix_rows [] = Inr []"
| "unix_rows (l # ls) =
     (let l = trim_end l
      in if trim l = [] \<or> text_holds ''RefCount'' l then unix_rows ls
         else (case split_off_path l of
             None \<Rightarrow> Inl (CollectionError ''{line:?} has too few columns, so the table was misread'' [l])
           | Some (columns, path) \<Rightarrow>
               if columns ! 5 \<noteq> ''01'' then unix_rows ls
               else if path = [] then unix_rows ls
               else
                 and_then (and_then (unix_kind_of (columns ! 4)) socket_kind_new) (\<lambda>k.
                 and_then (and_then (unix_state_of (columns ! 3)) socket_state_new) (\<lambda>st.
                 and_then (socket_path_new path) (\<lambda>p.
                 and_then (ok_or (CollectionError ''{:?} is not a socket inode: {error}'' [columns ! 6]) (parse_unsigned 64 (columns ! 6))) (\<lambda>inode.
                   map_ok (Cons \<lparr>row_kind = k, row_state_word = st, row_address = LocalAddress p, row_inode = word_of_nat inode\<rparr>)
                     (unix_rows ls)))))))"

declare unix_rows.simps(2) [simp del]

definition proc_net_unix_parse :: "str \<Rightarrow> socket_row list collected" where
  "proc_net_unix_parse s = unix_rows (lines s)"

section \<open>Sockets and their holders\<close>

record socket_process =
  socket_process_id :: int
  socket_descriptor :: int

record socket_holder =
  holder_name :: process_name
  holder_processes :: "socket_process list"

record listening_socket =
  listening_kind :: socket_kind
  listening_state :: socket_state_word
  listening_address :: socket_address
  listening_holders :: "socket_holder list"
  holders_unknown :: bool

definition held_by_processes :: "socket_holders \<Rightarrow> u64 \<Rightarrow> socket_holder list" where
  "held_by_processes s inode = map (\<lambda>(n, ds). \<lparr>holder_name = n,
     holder_processes = map (\<lambda>d. \<lparr>socket_process_id = held_process d, socket_descriptor = held_descriptor d\<rparr>) ds\<rparr>)
     (holders_of s inode)"

definition attributed :: "socket_holders \<Rightarrow> socket_row list \<Rightarrow> listening_socket list" where
  "attributed holders rows = map (\<lambda>row. let held = held_by_processes holders (row_inode row)
     in \<lparr>listening_kind = row_kind row, listening_state = row_state_word row, listening_address = row_address row,
         listening_holders = held, holders_unknown = (held = [] \<and> \<not> holders_complete holders)\<rparr>) rows"

text \<open>The derived orders, field by field.\<close>

definition compare_processes :: "socket_process \<Rightarrow> socket_process \<Rightarrow> comparison" where
  "compare_processes p q = then_with (cmp_of (socket_process_id p) (socket_process_id q)) (cmp_of (socket_descriptor p) (socket_descriptor q))"

definition compare_holders :: "socket_holder \<Rightarrow> socket_holder \<Rightarrow> comparison" where
  "compare_holders g h = then_with (cmp_of (holder_name g) (holder_name h))
     (lexicographic compare_processes (holder_processes g) (holder_processes h))"

fun compare_addresses_of :: "socket_address \<Rightarrow> socket_address \<Rightarrow> comparison" where
  "compare_addresses_of (InetAddress h p) (InetAddress h' p') = then_with (compare_hosts h h') (compare_ports p p')"
| "compare_addresses_of (InetAddress h p) (LocalAddress q) = Less"
| "compare_addresses_of (LocalAddress q) (InetAddress h p) = Greater"
| "compare_addresses_of (LocalAddress p) (LocalAddress q) = cmp_of (socket_path_text p) (socket_path_text q)"

definition compare_sockets :: "listening_socket \<Rightarrow> listening_socket \<Rightarrow> comparison" where
  "compare_sockets x y =
     then_with (cmp_of (kind_text (listening_kind x)) (kind_text (listening_kind y)))
     (then_with (cmp_of (state_text (listening_state x)) (state_text (listening_state y)))
     (then_with (compare_addresses_of (listening_address x) (listening_address y))
     (then_with (lexicographic compare_holders (listening_holders x) (listening_holders y))
       (cmp_of (holders_unknown x) (holders_unknown y)))))"

datatype socket_table = SocketTable (table_sockets: "listening_socket list")

definition socket_table_new :: "listening_socket list \<Rightarrow> socket_table" where
  "socket_table_new sockets = SocketTable (sort_by compare_sockets sockets)"

section \<open>What is observed\<close>

definition socket_process_observed :: "socket_process \<Rightarrow> observation" where
  "socket_process_observed p = object
     [(''file_descriptor'', integer (word_of_int (socket_descriptor p))), (''process_id'', integer (word_of_int (socket_process_id p)))]"

definition socket_holder_observed :: "hashes \<Rightarrow> socket_holder \<Rightarrow> observation" where
  "socket_holder_observed H h = object
     [(''name'', process_name_observed (holder_name h)),
      (''processes'', volatile (set_of H (map socket_process_observed (holder_processes h))))]"

fun socket_address_observed :: "socket_address \<Rightarrow> observation" where
  "socket_address_observed (InetAddress h p) = object
     [(''host'', text_of (inet_host_str h)), (''path'', null), (''port'', port_number_observed p)]"
| "socket_address_observed (LocalAddress p) = object
     [(''host'', null), (''path'', text_of (text_str (socket_path_text p))), (''port'', null)]"

definition holders_unknown_reason :: str where
  "holders_unknown_reason = ''the descriptors of some processes could not be listed, so what holds this socket is not something this run could find out''"

definition listening_socket_observed :: "hashes \<Rightarrow> listening_socket \<Rightarrow> observation" where
  "listening_socket_observed H x = object
     [(''address'', socket_address_observed (listening_address x)),
      (''holders'', if holders_unknown x then incomplete (object [(''error'', text_of holders_unknown_reason)])
         else set_of H (map (socket_holder_observed H) (listening_holders x))),
      (''kind'', text_of (text_str (kind_text (listening_kind x)))),
      (''state'', text_of (text_str (state_text (listening_state x))))]"

definition socket_table_observed :: "hashes \<Rightarrow> socket_table \<Rightarrow> observation" where
  "socket_table_observed H table = set_by H [''kind'', ''address'', ''state''] (map (listening_socket_observed H) (table_sockets table))"

section \<open>Reading them all\<close>

record socket_files =
  is_socket_file :: "str \<Rightarrow> bool"
  socket_text :: "str \<Rightarrow> str + str"
  socket_proc :: proc_files
  socket_little :: bool

definition socket_read :: "socket_files \<Rightarrow> str \<Rightarrow> str collected" where
  "socket_read F path = map_err (\<lambda>e. CollectionError ''could not read {}: {error}'' [path, e]) (socket_text F path)"

definition inet_tables_read :: "socket_files \<Rightarrow> str \<Rightarrow> socket_row list list collected" where
  "inet_tables_read F net = collect_results (map (\<lambda>(table, file_name).
     and_then (socket_read F (text_joined net file_name)) (proc_net_inet_parse (socket_little F) table))
     (filter (\<lambda>(table, file_name). is_socket_file F (text_joined net file_name)) inet_tables))"

definition proc_net_read :: "socket_files \<Rightarrow> str \<Rightarrow> socket_table collected" where
  "proc_net_read F net =
     and_then (inet_tables_read F net) (\<lambda>inet.
     and_then (and_then (socket_read F (text_joined net ''unix'')) proc_net_unix_parse) (\<lambda>local.
       Inr (socket_table_new (attributed (socket_holders_at (socket_proc F)) (concat inet @ local)))))"

definition sockets_detected :: "socket_files \<Rightarrow> str option" where
  "sockets_detected F = (if is_socket_file F ''/proc/net/unix'' then Some ''/proc/net'' else None)"

definition sockets_presence :: "str option \<Rightarrow> presence" where
  "sockets_presence source = (case source of Some net \<Rightarrow> Present
     | None \<Rightarrow> Undetermined (CollectionError ''/proc/net/unix was not found, so what this host is listening on cannot be told'' []))"

definition sockets_collect :: "hashes \<Rightarrow> socket_files \<Rightarrow> str option \<Rightarrow> observation collected" where
  "sockets_collect H F source = (case source of
      None \<Rightarrow> Inl (CollectionError ''/proc/net/unix was not found'' [])
    | Some net \<Rightarrow> map_ok (socket_table_observed H) (proc_net_read F net))"

section \<open>A table of sockets is read back as the sockets it offers\<close>

record printed_row =
  printed_words :: "(str \<times> str) list"
  printed_trail :: str
  printed_socket :: kernel_socket

definition line_of :: "printed_row \<Rightarrow> str" where
  "line_of r = spaced (printed_words r) (printed_trail r)"

definition row_ok :: "inet_table \<Rightarrow> printed_row \<Rightarrow> bool" where
  "row_ok table r \<longleftrightarrow> prints (printed_words r) (printed_socket r) \<and> space (printed_trail r) \<and>
     length (socket_words (printed_socket r)) = (if is_ipv6 table then 4 else 1) \<and>
     newline \<notin> set (line_of r) \<and> last (line_of r) \<noteq> carriage_return \<and> \<not> text_holds ''local_address'' (trim (line_of r))"

definition row_meant :: "bool \<Rightarrow> inet_table \<Rightarrow> kernel_socket \<Rightarrow> socket_row" where
  "row_meant little table k =
     \<lparr>row_kind = SocketKind (NonEmptyText (table_kind table)), row_state_word = SocketState (NonEmptyText (state_word table)),
      row_address = InetAddress (InetHost (NonEmptyText (ip_shown (addr_ip (meant_address little (is_ipv6 table) k)))))
        (PortNumber (socket_port k)),
      row_inode = socket_inode k\<rparr>"

lemma joined_with_nonempty: "list_all (\<lambda>p. p \<noteq> []) ps \<Longrightarrow> ps \<noteq> [] \<Longrightarrow> joined_with sep ps \<noteq> []"
  by (induction sep ps rule: joined_with.induct) auto

lemma ipv4_shown_nonempty: "octets \<noteq> [] \<Longrightarrow> ipv4_shown octets \<noteq> []"
  unfolding ipv4_shown_def by (intro joined_with_nonempty) (auto simp: show_nat_def list_all_iff)

lemma segments_nonempty: "2 \<le> length octets \<Longrightarrow> segments octets \<noteq> []"
  by (cases octets rule: segments.cases) auto

lemma ipv6_shown_nonempty: "2 \<le> length octets \<Longrightarrow> ipv6_shown octets \<noteq> []"
  using segments_nonempty[of octets] joined_with_nonempty[of "map (positional 16) (segments octets)" "'':''"]
  by (auto simp: ipv6_shown_def Let_def segments_shown_def list_all_iff split: prod.split)

lemma length_ne_bytes [simp]: "length (ne_bytes little w) = 4"
  by (simp add: ne_bytes_def le_bytes_def)

lemma address_read:
  assumes "length (socket_words k) = (if is_ipv6 table then 4 else 1)"
  shows "parse_address little table (address_printed k) = Inr (row_address (row_meant little table k))"
proof -
  let ?octets = "concat (map (ne_bytes little) (socket_words k))"
  have len: "length ?octets = 4 * length (socket_words k)" by (simp add: length_concat comp_def sum_list_triv)
  have shown: "(if is_ipv6 table then map_ok ipv6_shown (ipv6_of little host) else map_ok ipv4_shown (ipv4_of little host))
      = map_ok ip_shown (if is_ipv6 table then map_ok V6 (ipv6_of little host) else map_ok V4 (ipv4_of little host))" for host
    by (cases "ipv6_of little host"; cases "ipv4_of little host") auto
  have "0 < length ?octets" using assms len by (simp split: if_splits)
  then have "?octets \<noteq> []" by (rule length_greater_0_conv[THEN iffD1])
  then have nonempty: "ip_shown (addr_ip (meant_address little (is_ipv6 table) k)) \<noteq> []"
    using assms len ipv4_shown_nonempty[of ?octets] ipv6_shown_nonempty[of ?octets]
    by (cases "is_ipv6 table") (auto simp: meant_address_def)
  show ?thesis
    unfolding parse_address_def address_columns(1)[OF assms] option.case prod.case shown address_columns(2)[OF assms]
    using nonempty address_columns(3)[OF assms]
    by (simp add: inet_host_new_def non_empty_text_new_def parse_hexadecimal_def row_meant_def)
qed

lemma inet_row_read:
  assumes "row_ok table r"
  shows "inet_rows little table (line_of r # ls) =
    (if socket_state (printed_socket r) = offered_state table
     then map_ok (Cons (row_meant little table (printed_socket r))) (inet_rows little table ls) else inet_rows little table ls)"
proof -
  let ?k = "printed_socket r" and ?ws = "printed_words r"
  have ok: "gaps_ok ?ws" "space (printed_trail r)" "10 \<le> length ?ws" "snd (?ws ! 1) = address_printed ?k"
    "snd (?ws ! 3) = socket_state ?k" "snd (?ws ! 9) = show_nat (unat (socket_inode ?k))"
    using assms by (simp_all add: row_ok_def prints_def)
  have columns: "split_whitespace (trim (line_of r)) = map snd ?ws"
    using split_whitespace_trim[OF spaced_valid[OF ok(1,2)]] split_whitespace_spaced[OF ok(1,2)] by (simp add: line_of_def)
  then have "trim (line_of r) \<noteq> []" using ok(3) by (auto simp: split_whitespace_def)
  moreover have "unat (socket_inode ?k) < 2 ^ 64" using unsigned_less[of "socket_inode ?k"] by simp
  then have "parse_unsigned 64 (show_nat (unat (socket_inode ?k))) = Some (unat (socket_inode ?k))" by (rule parse_show_nat)
  moreover have "parse_address little table (address_printed ?k) = Inr (row_address (row_meant little table ?k))"
    using assms by (intro address_read) (simp add: row_ok_def)
  moreover have "socket_kind_new (table_kind table) = Inr (row_kind (row_meant little table ?k))"
    "socket_state_new (state_word table) = Inr (row_state_word (row_meant little table ?k))"
    by (cases table; simp add: socket_kind_new_def socket_state_new_def non_empty_text_new_def row_meant_def)+
  ultimately show ?thesis
    using assms ok by (simp add: inet_rows.simps(2) columns row_ok_def row_meant_def Let_def)
qed

lemma inet_rows_read:
  "list_all (row_ok table) rs \<Longrightarrow> inet_rows little table (map line_of rs) =
     Inr (map (row_meant little table) (filter (\<lambda>k. socket_state k = offered_state table) (map printed_socket rs)))"
  by (induction rs) (simp_all add: inet_row_read)

definition table_printed :: "str \<Rightarrow> printed_row list \<Rightarrow> str" where
  "table_printed header rs = concat (map (\<lambda>l. l @ [newline]) (header # map line_of rs))"

definition header_ok :: "str \<Rightarrow> bool" where
  "header_ok header \<longleftrightarrow> newline \<notin> set header \<and> (header = [] \<or> last header \<noteq> carriage_return) \<and> text_holds ''local_address'' (trim header)"

lemma inet_table_read_back:
  assumes "header_ok header" "list_all (row_ok table) rs"
  shows "proc_net_inet_parse little table (table_printed header rs) =
    Inr (map (row_meant little table) (filter (\<lambda>k. socket_state k = offered_state table) (map printed_socket rs)))"
proof -
  have "lines (table_printed header rs) = header # map line_of rs"
    unfolding table_printed_def using assms by (intro lines_concat) (auto simp: header_ok_def row_ok_def list_all_iff)
  then show ?thesis
    using assms inet_rows_read[OF assms(2), of little]
    by (simp add: proc_net_inet_parse_def inet_rows.simps(2)[of _ _ header] header_ok_def Let_def)
qed

section \<open>A socket without a holder\<close>

lemma unheld_sockets:
  assumes "x \<in> set (attributed (socket_holders_at P) rows)" "listening_holders x = []" "\<not> holders_unknown x"
  obtains row entries where "row \<in> set rows" "proc_names P = Some entries" "row_address row = listening_address x"
    "\<And>e. e \<in> set entries \<Longrightarrow> \<exists>hs. process_holders P e = Some hs \<and> (\<forall>(i, n, d) \<in> set hs. i \<noteq> row_inode row)"
proof -
  let ?s = "socket_holders_at P"
  from assms obtain row where row: "row \<in> set rows" "holders_of ?s (row_inode row) = []" "holders_complete ?s"
    "row_address row = listening_address x"
    by (auto simp: attributed_def held_by_processes_def Let_def)
  from row(3) obtain entries where entries: "proc_names P = Some entries" "\<forall>e \<in> set entries. process_holders P e \<noteq> None"
    by (auto simp: holders_complete_iff)
  have "\<exists>hs. process_holders P e = Some hs \<and> (\<forall>(i, n, d) \<in> set hs. i \<noteq> row_inode row)" if e: "e \<in> set entries" for e
  proof -
    from entries(2) e obtain hs where hs: "process_holders P e = Some hs" by auto
    have "h \<in> set (holders_listed ?s)" if "h \<in> set hs" for h
      using that hs e entries(1) by (auto simp: holders_listed_iff)
    with row(2) hs show ?thesis by (auto simp: holders_of_Nil_iff)
  qed
  with row entries that show ?thesis by blast
qed

section \<open>A unix socket can keep itself out of the table\<close>

text \<open>The word that marks the header hides every socket bound to a path that holds it.\<close>

lemma unix_row_hidden:
  "text_holds ''RefCount'' (trim_end l) \<Longrightarrow> unix_rows (l # ls) = unix_rows ls"
  by (simp add: unix_rows.simps(2) Let_def)

lemma unix_row_hidden_example:
  "proc_net_unix_parse (''0000000000000000: 00000002 00000000 00010000 0001 01 11955 /run/RefCount'' @ [newline]) = Inr []"
proof -
  let ?l = "''0000000000000000: 00000002 00000000 00010000 0001 01 11955 /run/RefCount''"
  have "lines (?l @ [newline]) = [?l]" by code_simp
  moreover have "text_holds ''RefCount'' (trim_end ?l)" by code_simp
  ultimately show ?thesis by (simp only: proc_net_unix_parse_def unix_row_hidden unix_rows.simps(1))
qed

text \<open>Any other path is read whole, spaces within it included.\<close>

lemma split_off_spaced:
  assumes "gaps_ok ws" "trail = [] \<or> ascii_space (hd trail)" "valid_utf8 trail"
  shows "split_off (length ws) (spaced ws trail) = Some (map snd ws, trail)"
  using assms(1)
proof (induction ws)
  case (Cons w ws)
  obtain g t where w: "w = (g, t)" by (cases w)
  have gt: "space g" "word t" using Cons.prems w by (simp_all add: gaps_ok_def)
  have tail: "gaps_ok ws" using Cons.prems by (cases ws) (auto simp: gaps_ok_def)
  have rest: "spaced ws trail = [] \<or> ascii_space (hd (spaced ws trail))"
  proof (cases ws)
    case Nil
    with assms(2) show ?thesis by simp
  next
    case (Cons v vs)
    obtain h u where "v = (h, u)" by (cases v)
    with \<open>gaps_ok (w # ws)\<close> Cons show ?thesis by (cases h) (auto simp: gaps_ok_def)
  qed
  have valid: "valid_utf8 (spaced ws trail)"
    using spaced_valid[OF tail, of "[]"] assms(3) spaced_append[of ws "[]" trail] by (metis append_Nil space_simps(1) valid_utf8_append)
  have "t \<noteq> []" using gt(2) by (simp add: word_def)
  then show ?case
    using trim_start_gap[OF gt valid] first_word[OF gt(2) rest] Cons.IH[OF tail] w by simp
qed simp

lemma unix_row_read:
  assumes "gaps_ok ws" "length ws = 7" "trimmed path" "path \<noteq> []" "snd (ws ! 5) = ''01''"
    and "unix_kind_of (snd (ws ! 4)) = Inr k" "unix_state_of (snd (ws ! 3)) = Inr st" "snd (ws ! 6) = show_nat (unat inode)"
    and "\<not> text_holds ''RefCount'' (spaced ws ('' '' @ path))"
  shows "unix_rows (spaced ws ('' '' @ path) # ls) =
    map_ok (Cons \<lparr>row_kind = SocketKind (NonEmptyText k), row_state_word = SocketState (NonEmptyText st),
      row_address = LocalAddress (SocketPath (NonEmptyText path)), row_inode = inode\<rparr>) (unix_rows ls)"
proof -
  let ?l = "spaced ws ('' '' @ path)"
  have path: "valid_utf8 path" "\<not> is_whitespace (last (chars_of path))" using assms(3,4) by (simp_all add: trimmed_def)
  have valid: "valid_utf8 (spaced ws '' '')" using assms(1) by (intro spaced_valid) simp_all
  have l: "?l = spaced ws '' '' @ path" by (simp add: spaced_append)
  have "chars_of ?l = chars_of (spaced ws '' '') @ chars_of path" unfolding l using valid by (rule chars_of_append)
  then have last: "\<not> is_whitespace (last (chars_of ?l))" using path assms(4) by simp
  have whole: "valid_utf8 ?l" "?l \<noteq> []" unfolding l using valid path assms(4) by (simp_all add: valid_utf8_append)
  have end_trim: "trim_end ?l = ?l" using trim_end_padded[of "[]" ?l] whole last by simp
  have "valid_utf8 ('' '' @ path)" using path by (simp add: valid_utf8_ascii_Cons between_def)
  then have split: "split_off 7 ?l = Some (map snd ws, '' '' @ path)"
    using split_off_spaced[OF assms(1), of "'' '' @ path"] assms(2) by simp
  have "trim_start ('' '' @ path) = path"
    using trim_padded[OF assms(3), of "'' ''" "[]"] trim_end_padded[of "[]" "'' '' @ path"] \<open>valid_utf8 ('' '' @ path)\<close> path assms(4)
    by (simp add: trim_def chars_of_ascii_Cons between_def)
  then have columns: "split_off_path ?l = Some (map snd ws, path)" unfolding split_off_path_def split by simp
  have "dropWhile is_whitespace (chars_of ?l) \<noteq> []"
    unfolding dropWhile_eq_Nil_conv using last last_in_set[of "chars_of ?l"] whole(2) by auto
  moreover from this have "hd (dropWhile is_whitespace (chars_of ?l)) \<in> set (chars_of ?l)"
    by (meson hd_in_set set_dropWhileD)
  moreover have "trim ?l = concat (dropWhile is_whitespace (chars_of ?l))" unfolding trim_def end_trim trim_start_def ..
  ultimately have "trim ?l \<noteq> []"
    using Nil_notin_chars_of[of "hd (dropWhile is_whitespace (chars_of ?l))" ?l]
    by (cases "dropWhile is_whitespace (chars_of ?l)") auto
  moreover have "unat inode < 2 ^ 64" using unsigned_less[of inode] by simp
  then have "parse_unsigned 64 (show_nat (unat inode)) = Some (unat inode)" by (rule parse_show_nat)
  moreover have "socket_kind_new k = Inr (SocketKind (NonEmptyText k))" "socket_state_new st = Inr (SocketState (NonEmptyText st))"
    using assms(6,7) by (auto simp: unix_kind_of_def unix_state_of_def socket_kind_new_def socket_state_new_def
      non_empty_text_new_def split: if_splits option.splits)
  ultimately show ?thesis
    using assms unfolding unix_rows.simps(2)[of ?l] end_trim Let_def columns option.case prod.case
    by (simp add: socket_path_new_def non_empty_text_new_def)
qed

end
