(* ===== verification/Messages.thy ===== *)
theory Messages
  imports TextSplits
begin

text \<open>
  A message as the document holds it.  Most collectors hand their errors on unrendered; the ones that
  write them into their own observation need the text: \<open>{...}\<close> in the template stands for the next argument,
  \<open>{...:?}\<close> for its debug form, which is a parameter since it follows Unicode's tables.  A duration's debug
  form is the standard library's.
\<close>

fun rendered_from :: "(str \<Rightarrow> str) \<Rightarrow> str \<Rightarrow> str list \<Rightarrow> str" where
  "rendered_from D [] args = []"
| "rendered_from D (c # t) args =
     (if c = CHR ''{'' \<and> args \<noteq> []
      then (let slot = takeWhile (\<lambda>d. d \<noteq> CHR ''}'') t
            in (if strip_suffix '':?'' slot = None then hd args else D (hd args))
               @ rendered_from D (drop (length slot + 1) t) (tl args))
      else c # rendered_from D t args)"

definition rendered :: "(str \<Rightarrow> str) \<Rightarrow> collection_error \<Rightarrow> str" where
  "rendered D e = rendered_from D (template e) (arguments e)"

lemma rendered_plain: "CHR ''{'' \<notin> set t \<Longrightarrow> rendered_from D (t @ s) args = t @ rendered_from D s args"
  by (induction t) auto

lemma rendered_plain_only: "CHR ''{'' \<notin> set t \<Longrightarrow> rendered_from D t args = t"
  using rendered_plain[of t D "[]" args] by simp

lemma rendered_slot:
  assumes "CHR ''}'' \<notin> set slot"
  shows "rendered_from D (CHR ''{'' # slot @ CHR ''}'' # s) (a # as) =
    (if strip_suffix '':?'' slot = None then a else D a) @ rendered_from D s as"
proof -
  have "takeWhile (\<lambda>d. d \<noteq> CHR ''}'') (slot @ CHR ''}'' # s) = slot"
    using assms by (subst takeWhile_append2) auto
  then show ?thesis by simp
qed

text \<open>\<open>Duration\<close>, as nanoseconds, in the unit its debug form picks, without the fraction's last zeroes.\<close>

definition fraction_shown :: "nat \<Rightarrow> nat \<Rightarrow> str" where
  "fraction_shown width n =
     (let digits = rev (dropWhile ((=) (CHR ''0'')) (rev (zero_padded width (show_nat n))))
      in if n = 0 then [] else CHR ''.'' # digits)"

definition duration_shown :: "nat \<Rightarrow> str" where
  "duration_shown ns =
     (if ns \<ge> 1000000000 then show_nat (ns div 1000000000) @ fraction_shown 9 (ns mod 1000000000) @ ''s''
      else if ns \<ge> 1000000 then show_nat (ns div 1000000) @ fraction_shown 6 (ns mod 1000000) @ ''ms''
      else if ns \<ge> 1000 then show_nat (ns div 1000) @ fraction_shown 3 (ns mod 1000) @ [CHR 0xC2, CHR 0xB5, CHR ''s'']
      else show_nat ns @ ''ns'')"

end
