(* ===== verification/RedisModel.thy ===== *)
theory RedisModel
  imports NginxModel ProcSockets SetOrder Messages
begin

text \<open>
  What the redis facet holds of a server (\<open>collectors/redis/model\<close>, \<open>collectors/redis/value_objects\<close>): what the
  server said of itself, its settings, its place in replication, its accounts and its modules, and how each
  is written into the document, with every value that is a credential, or may be one, marked sensitive.
\<close>

section \<open>Values\<close>

datatype server_kind = Redis | Valkey

definition all_kinds :: "server_kind list" where
  "all_kinds = [Redis, Valkey]"

fun program_of :: "server_kind \<Rightarrow> str" where
  "program_of Redis = ''redis-server''"
| "program_of Valkey = ''valkey-server''"

definition kind_from_program :: "str \<Rightarrow> server_kind option" where
  "kind_from_program program = find (\<lambda>k. program_of k = program) all_kinds"

fun kind_str :: "server_kind \<Rightarrow> str" where
  "kind_str Redis = ''redis''"
| "kind_str Valkey = ''valkey''"

fun kind_place :: "server_kind \<Rightarrow> nat" where
  "kind_place Redis = 0"
| "kind_place Valkey = 1"

lemma kind_place_inj: "kind_place k = kind_place l \<longleftrightarrow> k = l"
  by (cases k; cases l) auto

instantiation server_kind :: linorder
begin

definition less_eq_server_kind :: "server_kind \<Rightarrow> server_kind \<Rightarrow> bool" where
  "less_eq_server_kind k l \<longleftrightarrow> kind_place k \<le> kind_place l"

definition less_server_kind :: "server_kind \<Rightarrow> server_kind \<Rightarrow> bool" where
  "less_server_kind k l \<longleftrightarrow> kind_place k < kind_place l"

instance
  by standard (auto simp: less_eq_server_kind_def less_server_kind_def kind_place_inj)

end

record supported_release =
  release_kind :: server_kind
  release_major :: nat
  release_minor :: nat

definition supported_line :: "server_kind \<Rightarrow> nat \<Rightarrow> nat \<Rightarrow> supported_release" where
  "supported_line kind major minor = \<lparr>release_kind = kind, release_major = major, release_minor = minor\<rparr>"

definition supported_releases :: "supported_release list" where
  "supported_releases =
     [supported_line Redis 8 0, supported_line Redis 8 2, supported_line Redis 8 4, supported_line Redis 8 6,
      supported_line Redis 8 8, supported_line Redis 8 10, supported_line Valkey 7 2, supported_line Valkey 8 0,
      supported_line Valkey 8 1, supported_line Valkey 9 0, supported_line Valkey 9 1]"

definition is_supported :: "server_kind \<Rightarrow> str \<Rightarrow> bool" where
  "is_supported kind version =
     (case map (parse_unsigned 32) (split_on (CHR ''.'') version) of
        Some major # Some minor # _ \<Rightarrow> supported_line kind major minor \<in> set supported_releases
      | _ \<Rightarrow> False)"

datatype setting_name = SettingName (setting_text: non_empty_text)

instantiation setting_name :: linorder
begin

definition less_eq_setting_name :: "setting_name \<Rightarrow> setting_name \<Rightarrow> bool" where
  "less_eq_setting_name m n \<longleftrightarrow> setting_text m \<le> setting_text n"

definition less_setting_name :: "setting_name \<Rightarrow> setting_name \<Rightarrow> bool" where
  "less_setting_name m n \<longleftrightarrow> setting_text m < setting_text n"

instance
  by standard (auto simp: less_eq_setting_name_def less_setting_name_def setting_name.expand)

end

definition setting_name_new :: "str \<Rightarrow> setting_name collected" where
  "setting_name_new v = map_ok SettingName (non_empty_text_new v ''setting name'')"

definition setting_str :: "setting_name \<Rightarrow> str" where
  "setting_str n = text_str (setting_text n)"

definition credential_settings :: "str list" where
  "credential_settings = [''requirepass'', ''masterauth'', ''primaryauth'', ''tls-key-file-pass'', ''tls-client-key-file-pass'']"

definition holds_credential :: "setting_name \<Rightarrow> bool" where
  "holds_credential n \<longleftrightarrow> setting_str n \<in> set credential_settings \<or> CHR ''.'' \<in> set (setting_str n)"

record redis_listener =
  redis_host :: inet_host
  redis_port :: port_number

definition bracketed_address :: "str \<Rightarrow> str \<Rightarrow> str" where
  "bracketed_address host port =
     (if CHR '':'' \<in> set host then ''['' @ host @ '']:'' @ port else host @ '':'' @ port)"

definition redis_listener_shown :: "redis_listener \<Rightarrow> str" where
  "redis_listener_shown l = bracketed_address (inet_host_str (redis_host l)) (show_nat (unat (port_word (redis_port l))))"

definition redis_listener_observed :: "redis_listener \<Rightarrow> observation" where
  "redis_listener_observed l = text_of (redis_listener_shown l)"

definition compare_redis_listeners :: "redis_listener \<Rightarrow> redis_listener \<Rightarrow> comparison" where
  "compare_redis_listeners l r =
     then_with (compare_hosts (redis_host l) (redis_host r)) (compare_ports (redis_port l) (redis_port r))"

section \<open>What a server said\<close>

record server_identity =
  identity_kind :: server_kind
  identity_version :: str
  identity_mode :: "str option"
  identity_executable :: "str option"
  identity_config_file :: "str option"

definition accounts_since :: nat where
  "accounts_since = 6"

definition has_accounts :: "server_identity \<Rightarrow> bool" where
  "has_accounts i = (case parse_unsigned 32 (hd (split_on (CHR ''.'') (identity_version i))) of
      None \<Rightarrow> True
    | Some major \<Rightarrow> accounts_since \<le> major)"

definition unsupported_note :: "server_identity \<Rightarrow> str option" where
  "unsupported_note i = (if is_supported (identity_kind i) (identity_version i) then None
     else Some (kind_str (identity_kind i) @ '' '' @ identity_version i @
       '' is not a release rastro supports, so it is read on a best-effort basis''))"

type_synonym redis_settings = "(setting_name, str) btree"

definition setting_observed :: "setting_name \<times> str \<Rightarrow> str \<times> observation" where
  "setting_observed nv = (setting_str (fst nv),
     if holds_credential (fst nv) \<and> snd nv \<noteq> [] then sensitive (text_of (snd nv)) else text_of (snd nv))"

definition redis_settings_observed :: "redis_settings \<Rightarrow> observation" where
  "redis_settings_observed s = object (map setting_observed s)"

definition withheld_word :: str where
  "withheld_word = ''<withheld>''"

text \<open>What \<open>Debug\<close> shows of the settings and of the accounts: the entries of a map.\<close>

definition settings_debugged :: "redis_settings \<Rightarrow> (str \<times> str) list" where
  "settings_debugged s = map (\<lambda>(n, v). (setting_str n, if holds_credential n then withheld_word else v)) s"

record replication =
  replication_role :: str
  replication_master :: "str option"
  master_link_status :: "str option"
  replication_replicas :: "str list"

definition text_or_null :: "str option \<Rightarrow> observation" where
  "text_or_null v = observed_or_null text_of v"

definition replication_observed :: "hashes \<Rightarrow> replication \<Rightarrow> observation" where
  "replication_observed H r = object
     [(''role'', text_of (replication_role r)),
      (''master'', text_or_null (replication_master r)),
      (''master_link_status'', volatile (text_or_null (master_link_status r))),
      (''replicas'', volatile (set_of H (map text_of (replication_replicas r))))]"

type_synonym redis_accounts = "(str, str list) btree"

definition is_verifier :: "str \<Rightarrow> bool" where
  "is_verifier rule = starts_with ''#'' rule"

definition rule_observed :: "str \<Rightarrow> observation" where
  "rule_observed rule = (if is_verifier rule then sensitive (text_of rule) else text_of rule)"

definition redis_accounts_observed :: "redis_accounts \<Rightarrow> observation" where
  "redis_accounts_observed a = object (map (\<lambda>(user, rules). (user, sequence (map rule_observed rules))) a)"

definition accounts_debugged :: "redis_accounts \<Rightarrow> (str \<times> str list) list" where
  "accounts_debugged a = map (\<lambda>(user, rules). (user, map (\<lambda>rule. if is_verifier rule then withheld_word else rule) rules)) a"

record redis_module =
  module_version :: i64
  module_path :: "str option"
  module_args :: "str list option"

type_synonym redis_modules = "(str, redis_module) btree"

definition redis_module_observed :: "redis_module \<Rightarrow> observation" where
  "redis_module_observed m = object
     [(''version'', integer (module_version m)),
      (''path'', text_or_null (module_path m)),
      (''args'', observed_or_null (\<lambda>args. sensitive (sequence (map text_of args))) (module_args m))]"

definition redis_modules_observed :: "redis_modules \<Rightarrow> observation" where
  "redis_modules_observed ms = object (map (\<lambda>(n, m). (n, redis_module_observed m)) ms)"

section \<open>One server\<close>

record redis_instance =
  process_kind :: server_kind
  instance_listening :: "redis_listener list"
  instance_identity :: "server_identity option"
  instance_settings :: "redis_settings option"
  instance_replication :: "replication option"
  instance_acl :: "redis_accounts option"
  instance_modules :: "redis_modules option"
  instance_not_read :: "str list"
  instance_errors :: "str list"

definition instance_server :: "redis_instance \<Rightarrow> server_kind" where
  "instance_server i = (case instance_identity i of None \<Rightarrow> process_kind i | Some identity \<Rightarrow> identity_kind identity)"

definition reasons_joined :: "str list \<Rightarrow> str option" where
  "reasons_joined reasons = (if reasons = [] then None else Some (joined_with ''; '' reasons))"

definition redis_instance_observed :: "hashes \<Rightarrow> redis_instance \<Rightarrow> observation" where
  "redis_instance_observed H i =
     (let identity = instance_identity i;
          unsupported = Option.bind identity unsupported_note;
          ob = object
            [(''server'', text_of (kind_str (instance_server i))),
             (''listening'', set_of H (map redis_listener_observed (instance_listening i))),
             (''version'', text_or_null (map_option identity_version identity)),
             (''mode'', text_or_null (Option.bind identity identity_mode)),
             (''executable'', text_or_null (Option.bind identity identity_executable)),
             (''config_file'', text_or_null (Option.bind identity identity_config_file)),
             (''settings'', observed_or_null redis_settings_observed (instance_settings i)),
             (''replication'', observed_or_null (replication_observed H) (instance_replication i)),
             (''acl'', observed_or_null redis_accounts_observed (instance_acl i)),
             (''modules'', observed_or_null redis_modules_observed (instance_modules i)),
             (''unsupported'', text_or_null unsupported),
             (''not_read'', text_or_null (reasons_joined (instance_not_read i))),
             (''error'', text_or_null (reasons_joined (instance_errors i)))];
          best_effort = (if unsupported \<noteq> None then approximate ob else ob)
      in incomplete_when best_effort (instance_errors i \<noteq> [] \<or> instance_not_read i \<noteq> []))"

section \<open>The box\<close>

record redis_installation =
  redis_installed :: "server_kind list"
  redis_instances :: "(str, redis_instance) btree"
  uninspected_processes :: bool

definition uninspected_reason :: str where
  "uninspected_reason = ''some processes could not be inspected, so a server among them would not be listed''"

definition redis_installation_observed :: "hashes \<Rightarrow> redis_installation \<Rightarrow> observation" where
  "redis_installation_observed H i = object
     [(''installed'', set_of H (map (\<lambda>k. text_of (kind_str k)) (redis_installed i))),
      (''instances'', object (map (\<lambda>(key, inst). (key, redis_instance_observed H inst)) (redis_instances i))),
      (''uninspected_processes'', if uninspected_processes i then incomplete (text_of uninspected_reason) else null)]"

end
