(* ===== verification/RedisServers.thy ===== *)
theory RedisServers
  imports RedisModel HostFiles CanonicalTool TextWords
begin

text \<open>
  The servers on the box, from \<open>/proc\<close> alone (\<open>redis/source/resident_servers.rs\<close>, \<open>server_discovery.rs\<close>,
  \<open>data_directory.rs\<close>, \<open>installed_servers.rs\<close>): which processes are servers, what each is keyed by, and the one
  socket it may be asked at.  The lemmas: no two servers share a key, and the socket is always one the server
  was seen holding.
\<close>

section \<open>Server processes\<close>

text \<open>What \<open>/proc\<close> answers, by the process's number and the name of the file in its directory.\<close>

record redis_host =
  host_entries :: "str list option"
  entry_text :: "str \<Rightarrow> str \<Rightarrow> str reading_of_proc"
  process_cmdline :: "nat \<Rightarrow> str option"
  process_fds :: "nat \<Rightarrow> (bool \<times> str) + (str \<times> str option) list"
  process_cwd :: "nat \<Rightarrow> path option"
  socket_table :: "str \<Rightarrow> str option"
  namespace_link :: "str \<Rightarrow> link_failure + str"

record resident_server =
  resident_pid :: nat
  resident_kind :: server_kind

record resident_census =
  census_servers :: "resident_server list"
  some_processes_unseen :: bool

fun proc_ok :: "'a reading_of_proc \<Rightarrow> 'a option" where
  "proc_ok (ProcRead a) = Some a"
| "proc_ok _ = None"

definition pid_of_entry :: "str \<Rightarrow> nat option" where
  "pid_of_entry entry = (if valid_utf8 entry then parse_unsigned 32 entry else None)"

definition census_step :: "redis_host \<Rightarrow> resident_census \<Rightarrow> str \<Rightarrow> resident_census" where
  "census_step h census entry = (case pid_of_entry entry of
      None \<Rightarrow> census
    | Some pid \<Rightarrow> (case entry_text h entry ''comm'' of
        ProcRead comm \<Rightarrow> (case kind_from_program (trim_end_matches newline comm) of
            Some kind \<Rightarrow> census\<lparr>census_servers := census_servers census @ [\<lparr>resident_pid = pid, resident_kind = kind\<rparr>]\<rparr>
          | None \<Rightarrow> census)
      | ProcGone \<Rightarrow> census
      | ProcUnread \<Rightarrow> census\<lparr>some_processes_unseen := True\<rparr>))"

definition parent_of :: "redis_host \<Rightarrow> nat \<Rightarrow> nat option" where
  "parent_of h pid =
     Option.bind (proc_ok (entry_text h (show_nat pid) ''stat'')) (\<lambda>stat.
     Option.bind (rcut_at '')'' stat) (\<lambda>(_, after_comm).
     Option.bind (nth_opt 1 (split_whitespace after_comm)) (parse_unsigned 32)))"

definition compare_pids :: "resident_server \<Rightarrow> resident_server \<Rightarrow> comparison" where
  "compare_pids l r = cmp_of (resident_pid l) (resident_pid r)"

definition resident_census :: "redis_host \<Rightarrow> resident_census" where
  "resident_census h = (case host_entries h of
      None \<Rightarrow> \<lparr>census_servers = [], some_processes_unseen = True\<rparr>
    | Some entries \<Rightarrow>
        (let census = foldl (census_step h) \<lparr>census_servers = [], some_processes_unseen = False\<rparr> entries;
             servers = sort_by compare_pids (census_servers census);
             pids = map resident_pid servers
         in census\<lparr>census_servers := filter (\<lambda>s. case parent_of h (resident_pid s) of None \<Rightarrow> True | Some p \<Rightarrow> p \<notin> set pids) servers\<rparr>))"

definition resident_servers :: "redis_host \<Rightarrow> resident_server list" where
  "resident_servers h = census_servers (resident_census h)"

section \<open>One server\<close>

record unreached =
  unreached_reason :: str
  unreached_withheld :: bool

definition unreached_failed :: "str \<Rightarrow> unreached" where
  "unreached_failed reason = \<lparr>unreached_reason = reason, unreached_withheld = False\<rparr>"

definition unreached_withholding :: "str \<Rightarrow> unreached" where
  "unreached_withholding reason = \<lparr>unreached_reason = reason, unreached_withheld = True\<rparr>"

record discovered_server =
  server_key :: str
  server_family :: server_kind
  server_pid :: nat
  server_listeners :: "redis_listener list"
  server_reach :: "unreached + socket_addr"
  server_namespace :: process_namespace
  shared_port_key :: "str option"

definition our_namespace :: process_namespace where
  "our_namespace = \<lparr>namespace_path = [], namespace_ours = True\<rparr>"

definition title_of :: "redis_host \<Rightarrow> resident_server \<Rightarrow> str" where
  "title_of h s =
     (let cmdline = (case process_cmdline h (resident_pid s) of Some bs \<Rightarrow> if valid_utf8 bs then bs else [] | None \<Rightarrow> []);
          title = joined_with '' '' (filter (\<lambda>a. a \<noteq> []) (split_on (CHR 0x00) cmdline))
      in if title = [] then program_of (resident_kind s) else title)"

definition titled_port :: "str \<Rightarrow> nat option" where
  "titled_port title =
     Option.bind (nth_opt 1 (split_whitespace title)) (\<lambda>listen_address.
     Option.bind (rcut_at '':'' listen_address) (\<lambda>(_, port). parse_unsigned 16 port))"

fun ip_loopback :: "ip_addr \<Rightarrow> bool" where
  "ip_loopback (V4 octets) \<longleftrightarrow> take 1 octets = [char_of (127 :: nat)]"
| "ip_loopback (V6 octets) \<longleftrightarrow> octets = replicate 15 (char_of (0 :: nat)) @ [char_of (1 :: nat)]"

fun ip_unspecified :: "ip_addr \<Rightarrow> bool" where
  "ip_unspecified (V4 octets) \<longleftrightarrow> octets = replicate 4 (char_of (0 :: nat))"
| "ip_unspecified (V6 octets) \<longleftrightarrow> octets = replicate 16 (char_of (0 :: nat))"

fun loopback_of :: "ip_addr \<Rightarrow> ip_addr" where
  "loopback_of (V4 _) = V4 (map char_of [127, 0, 0, 1 :: nat])"
| "loopback_of (V6 _) = V6 (replicate 15 (char_of (0 :: nat)) @ [char_of (1 :: nat)])"

text \<open>Loopback first, then a wildcard at its family's loopback address, then the first address.\<close>

definition nearest_of :: "socket_addr list \<Rightarrow> socket_addr option" where
  "nearest_of addresses =
     (case (find (\<lambda>a. ip_loopback (addr_ip a)) addresses, find (\<lambda>a. ip_unspecified (addr_ip a)) addresses) of
        (Some a, _) \<Rightarrow> Some a
      | (None, Some a) \<Rightarrow> Some \<lparr>addr_ip = loopback_of (addr_ip a), addr_port = addr_port a\<rparr>
      | (None, None) \<Rightarrow> (case addresses of a # _ \<Rightarrow> Some a | [] \<Rightarrow> None))"

definition tcp_reach_of :: "socket_addr list \<Rightarrow> nat option \<Rightarrow> socket_addr option" where
  "tcp_reach_of addresses titled =
     (let on_titled = filter (\<lambda>a. Some (unat (addr_port a)) = titled) addresses
      in nearest_of (if on_titled = [] then addresses else on_titled))"

fun ip_place :: "ip_addr \<Rightarrow> nat \<times> str" where
  "ip_place (V4 octets) = (0, octets)"
| "ip_place (V6 octets) = (1, octets)"

definition compare_addresses :: "socket_addr \<Rightarrow> socket_addr \<Rightarrow> comparison" where
  "compare_addresses l r =
     then_with (cmp_of (fst (ip_place (addr_ip l))) (fst (ip_place (addr_ip r))))
       (then_with (cmp_of (snd (ip_place (addr_ip l))) (snd (ip_place (addr_ip r))))
         (cmp_of (addr_port l) (addr_port r)))"

definition lowest_port_of :: "socket_addr list \<Rightarrow> nat option" where
  "lowest_port_of addresses = (if addresses = [] then None else Some (Min (set (map (\<lambda>a. unat (addr_port a)) addresses))))"

text \<open>The sockets a process holds; the flag of a failure is whether the process was not found.\<close>

definition held_sockets :: "redis_host \<Rightarrow> nat \<Rightarrow> (bool \<times> str) + u64 list" where
  "held_sockets h pid = map_ok (\<lambda>links. dedup (sort_by cmp_of (map fst (sockets_among links)))) (process_fds h pid)"

definition addresses_held :: "inet_listener list \<Rightarrow> u64 list \<Rightarrow> socket_addr list" where
  "addresses_held inet held =
     dedup (sort_by compare_addresses (map listener_address (filter (\<lambda>l. listener_inode l \<in> set held) inet)))"

definition server_at :: "resident_server \<Rightarrow> str \<Rightarrow> process_namespace \<Rightarrow> socket_addr list \<Rightarrow> discovered_server" where
  "server_at s title ns addresses =
     (let lowest_port = lowest_port_of addresses
      in \<lparr>server_key = (case lowest_port of Some port \<Rightarrow> show_nat port | None \<Rightarrow> title),
          server_family = resident_kind s, server_pid = resident_pid s,
          server_listeners = sort_by compare_redis_listeners (List.map_filter (\<lambda>a.
            map_option (\<lambda>host. \<lparr>redis_host = host, redis_port = PortNumber (addr_port a)\<rparr>)
              (result_ok (inet_host_new (ip_shown (addr_ip a))))) addresses),
          server_reach = ok_or (unreached_failed ''it listens on no TCP port, and rastro dials nothing else'')
            (tcp_reach_of addresses (titled_port title)),
          server_namespace = ns,
          shared_port_key = map_option socket_addr_shown (find (\<lambda>a. Some (unat (addr_port a)) = lowest_port) addresses)\<rparr>)"

definition server_unreached :: "resident_server \<Rightarrow> str \<Rightarrow> unreached \<Rightarrow> discovered_server" where
  "server_unreached s title why =
     \<lparr>server_key = title, server_family = resident_kind s, server_pid = resident_pid s, server_listeners = [],
      server_reach = Inl why, server_namespace = our_namespace, shared_port_key = None\<rparr>"

definition discovered :: "bool \<Rightarrow> redis_host \<Rightarrow> str \<Rightarrow> inet_listener list option \<Rightarrow> resident_server \<Rightarrow> discovered_server" where
  "discovered little h proc inet s =
     (let title = title_of h s; gone = unreached_failed ''the server exited while it was being read''
      in case held_sockets h (resident_pid s) of
           Inl (not_found, error) \<Rightarrow> server_unreached s title (if not_found then gone
             else unreached_withholding (''its file descriptors could not be read ('' @ error @
                ''), so which sockets it listens on is unknown; a run as root can see them''))
         | Inr held \<Rightarrow>
             (case namespace_of_in (namespace_link h) proc (resident_pid s) of
                Inl refusal \<Rightarrow> server_unreached s title
                  \<lparr>unreached_reason = refusal_reason refusal, unreached_withheld = refusal_refused refusal\<rparr>
              | Inr ns \<Rightarrow>
                  (case (if namespace_ours ns then inet
                         else inet_listeners little (socket_table h) (text_joined (text_joined proc (show_nat (resident_pid s))) ''net'')) of
                     None \<Rightarrow> server_unreached s title
                       (unreached_failed ''the kernel's socket tables could not be read, so which sockets it listens on is unknown'')
                   | Some listeners \<Rightarrow> server_at s title ns (addresses_held listeners held))))"

section \<open>A key for each\<close>

definition colliding :: "discovered_server list \<Rightarrow> discovered_server \<Rightarrow> bool" where
  "colliding ds d \<longleftrightarrow> 1 < length (filter (\<lambda>e. server_key e = server_key d) ds)"

definition cgroup_fields :: "str \<Rightarrow> (str \<times> str \<times> str) option" where
  "cgroup_fields l =
     Option.bind (split_once (CHR '':'') l) (\<lambda>(hierarchy, rest).
     map_option (\<lambda>(controllers, path). (hierarchy, controllers, path)) (split_once (CHR '':'') rest))"

definition systemd_cgroup_of :: "redis_host \<Rightarrow> nat \<Rightarrow> str option" where
  "systemd_cgroup_of h pid =
     Option.bind (proc_ok (entry_text h (show_nat pid) ''cgroup'')) (\<lambda>cgroup.
       (let ls = List.map_filter cgroup_fields (lines cgroup);
            path_where = (\<lambda>wanted. map_option (\<lambda>(_, _, path). path) (find wanted ls))
        in case path_where (\<lambda>(hierarchy, controllers, _). hierarchy = ''0'' \<and> controllers = []) of
             Some path \<Rightarrow> Some path
           | None \<Rightarrow> path_where (\<lambda>(_, controllers, _). controllers = ''name=systemd'')))"

definition scope_of :: "redis_host \<Rightarrow> nat \<Rightarrow> str option" where
  "scope_of h pid = Option.bind (systemd_cgroup_of h pid) (\<lambda>path.
     (let scope = last (split_on (CHR ''/'') path) in if scope = [] then None else Some scope))"

definition keyed_by_address :: "discovered_server list \<Rightarrow> discovered_server list" where
  "keyed_by_address ds = map (\<lambda>d. if colliding ds d
     then (case shared_port_key d of Some address \<Rightarrow> d\<lparr>server_key := address\<rparr> | None \<Rightarrow> d) else d) ds"

definition keyed_by_scope :: "redis_host \<Rightarrow> discovered_server list \<Rightarrow> discovered_server list" where
  "keyed_by_scope h ds = map (\<lambda>d. if colliding ds d
     then (case scope_of h (server_pid d) of Some scope \<Rightarrow> d\<lparr>server_key := server_key d @ '' in '' @ scope\<rparr> | None \<Rightarrow> d) else d) ds"

definition candidate_key :: "str \<Rightarrow> nat \<Rightarrow> str" where
  "candidate_key key ordinal = (if ordinal = 1 then key else key @ '' #'' @ show_nat ordinal)"

lemma candidate_key_inj: "candidate_key key m = candidate_key key n \<longleftrightarrow> m = n"
proof -
  have "m = n" if "show_nat m = show_nat n" for m n
    using that positional_inj[of 10 m n] by (simp add: show_nat_def)
  then show ?thesis by (auto simp: candidate_key_def)
qed

lemma finite_taken: "finite {n. m \<le> n \<and> candidate_key key n \<in> set seen}"
proof (rule finite_subset)
  show "{n. m \<le> n \<and> candidate_key key n \<in> set seen} \<subseteq> candidate_key key -` set seen" by auto
  show "finite (candidate_key key -` set seen)"
    by (rule finite_vimageI) (auto simp: inj_def candidate_key_inj)
qed

text \<open>The loop that numbers a key ends, since only finitely many are taken.\<close>

function free_key :: "str list \<Rightarrow> str \<Rightarrow> nat \<Rightarrow> str" where
  "free_key seen key ordinal =
     (if candidate_key key ordinal \<in> set seen then free_key seen key (ordinal + 1) else candidate_key key ordinal)"
  by auto

termination
proof (relation "measure (\<lambda>(seen, key, m). card {n. m \<le> n \<and> candidate_key key n \<in> set seen})")
  fix seen key m
  assume taken: "candidate_key key m \<in> set seen"
  have "{n. m + 1 \<le> n \<and> candidate_key key n \<in> set seen} \<subset> {n. m \<le> n \<and> candidate_key key n \<in> set seen}"
  proof
    show "{n. m + 1 \<le> n \<and> candidate_key key n \<in> set seen} \<noteq> {n. m \<le> n \<and> candidate_key key n \<in> set seen}"
      using taken by (metis (mono_tags, lifting) Suc_eq_plus1 mem_Collect_eq not_less_eq_eq order_refl)
  qed auto
  then have "card {n. m + 1 \<le> n \<and> candidate_key key n \<in> set seen} < card {n. m \<le> n \<and> candidate_key key n \<in> set seen}"
    by (intro psubset_card_mono finite_taken)
  then show "((seen, key, m + 1), seen, key, m) \<in> measure (\<lambda>(seen, key, m). card {n. m \<le> n \<and> candidate_key key n \<in> set seen})"
    by simp
qed simp

declare free_key.simps [simp del]

fun numbered :: "str list \<Rightarrow> discovered_server list \<Rightarrow> discovered_server list" where
  "numbered seen [] = []"
| "numbered seen (d # ds) = (let key = free_key seen (server_key d) 1
     in d\<lparr>server_key := key\<rparr> # numbered (key # seen) ds)"

definition discover :: "bool \<Rightarrow> redis_host \<Rightarrow> str \<Rightarrow> discovered_server list" where
  "discover little h proc =
     (let inet = inet_listeners little (socket_table h) (text_joined proc ''net'')
      in numbered [] (keyed_by_scope h (keyed_by_address (map (discovered little h proc inet) (resident_servers h)))))"

section \<open>Its files\<close>

definition server_files :: "str list" where
  "server_files = [''dump.rdb'', ''appendonlydir'', ''appendonly.aof'']"

definition shown_at :: "path \<Rightarrow> path \<Rightarrow> path \<Rightarrow> path option" where
  "shown_at host part f =
     (if path_starts_with part f then Some host else map_option (joined host) (path_strip_prefix f part))"

definition server_files_of :: "redis_host \<Rightarrow> host_files \<Rightarrow> path \<Rightarrow> nat \<Rightarrow> path list" where
  "server_files_of h H proc pid = (case process_cwd h pid of
      None \<Rightarrow> []
    | Some directory \<Rightarrow> dedup (sort_by cmp_of (concat (map (\<lambda>v. List.map_filter (\<lambda>n. shown_at (view_path v) (view_part v) [Normal n]) server_files)
        (host_directory_views_of H proc pid directory)))))"

definition installed_servers_new :: "server_kind list \<Rightarrow> server_kind list" where
  "installed_servers_new kinds = dedup (sort_by cmp_of kinds)"

definition installed_servers_located :: "(str \<Rightarrow> bool) \<Rightarrow> server_kind list" where
  "installed_servers_located is_file =
     installed_servers_new (filter (\<lambda>k. tool_located is_file (program_of k) \<noteq> None) all_kinds)"

section \<open>No two servers share a key\<close>

lemma free_key_free: "free_key seen key m \<notin> set seen"
  by (induction seen key m rule: free_key.induct) (subst free_key.simps, simp)

lemma numbered_fresh: "server_key ` set (numbered seen ds) \<inter> set seen = {}"
proof (induction ds arbitrary: seen)
  case (Cons d ds)
  then show ?case using free_key_free[of seen "server_key d" 1] Cons[of "free_key seen (server_key d) 1 # seen"]
    by (auto simp: Let_def)
qed simp

lemma numbered_distinct: "distinct (map server_key (numbered seen ds))"
proof (induction ds arbitrary: seen)
  case (Cons d ds)
  have "free_key seen (server_key d) 1 \<notin> server_key ` set (numbered (free_key seen (server_key d) 1 # seen) ds)"
    using numbered_fresh[of "free_key seen (server_key d) 1 # seen" ds] by auto
  with Cons show ?case by (simp add: Let_def)
qed simp

lemma discover_keys_distinct: "distinct (map server_key (discover little h proc))"
  unfolding discover_def Let_def by (rule numbered_distinct)

text \<open>Where no key is taken twice nothing is numbered.\<close>

lemma numbered_plain: "distinct (map server_key ds) \<Longrightarrow> server_key ` set ds \<inter> set seen = {} \<Longrightarrow> numbered seen ds = ds"
proof (induction ds arbitrary: seen)
  case (Cons d ds)
  then have "free_key seen (server_key d) 1 = server_key d" by (subst free_key.simps) (simp add: candidate_key_def)
  with Cons show ?case by (auto simp: Let_def)
qed simp

section \<open>What is reached is what was held\<close>

text \<open>Everything of a server but its key is what discovery found.\<close>

definition unkeyed :: "discovered_server \<Rightarrow> discovered_server" where
  "unkeyed d = d\<lparr>server_key := []\<rparr>"

lemma unkeyed_update [simp]: "unkeyed (d\<lparr>server_key := k\<rparr>) = unkeyed d"
  by (simp add: unkeyed_def)

lemma unkeyed_eqD:
  assumes "unkeyed d = unkeyed e"
  shows "server_reach d = server_reach e" "server_pid d = server_pid e" "server_namespace d = server_namespace e"
  using assms by (cases d; cases e; simp add: unkeyed_def)+

lemma numbered_unkeyed: "map unkeyed (numbered seen ds) = map unkeyed ds"
  by (induction ds arbitrary: seen) (simp_all add: Let_def)

lemma discover_unkeyed:
  "map unkeyed (discover little h proc) =
     map (\<lambda>s. unkeyed (discovered little h proc (inet_listeners little (socket_table h) (text_joined proc ''net'')) s)) (resident_servers h)"
proof -
  have "map unkeyed (keyed_by_address ds) = map unkeyed ds" for ds
    by (auto simp: keyed_by_address_def split: option.split)
  moreover have "map unkeyed (keyed_by_scope h ds) = map unkeyed ds" for ds
    by (auto simp: keyed_by_scope_def split: option.split)
  ultimately show ?thesis by (simp add: discover_def numbered_unkeyed comp_def)
qed

definition reaches :: "socket_addr \<Rightarrow> socket_addr \<Rightarrow> bool" where
  "reaches bound dialled \<longleftrightarrow> addr_port dialled = addr_port bound \<and>
     (addr_ip dialled = addr_ip bound \<or> ip_unspecified (addr_ip bound) \<and> addr_ip dialled = loopback_of (addr_ip bound))"

lemma nearest_held: "nearest_of addresses = Some a \<Longrightarrow> \<exists>b \<in> set addresses. reaches b a"
  by (cases addresses) (auto simp: nearest_of_def reaches_def find_Some_iff split: option.splits if_splits)

lemma tcp_reach_held: "tcp_reach_of addresses titled = Some a \<Longrightarrow> \<exists>b \<in> set addresses. reaches b a"
  using nearest_held[of addresses a] nearest_held[of "filter (\<lambda>a. Some (unat (addr_port a)) = titled) addresses" a]
  by (auto simp: tcp_reach_of_def Let_def split: if_splits)

definition sockets_seen :: "bool \<Rightarrow> redis_host \<Rightarrow> str \<Rightarrow> discovered_server \<Rightarrow> inet_listener list option" where
  "sockets_seen little h proc d = inet_listeners little (socket_table h)
     (if namespace_ours (server_namespace d) then text_joined proc ''net''
      else text_joined (text_joined proc (show_nat (server_pid d))) ''net'')"

lemma discovered_reach:
  assumes "server_reach (discovered little h proc (inet_listeners little (socket_table h) (text_joined proc ''net'')) s) = Inr a"
    "d = discovered little h proc (inet_listeners little (socket_table h) (text_joined proc ''net'')) s"
  shows "\<exists>ls held l. sockets_seen little h proc d = Some ls \<and> held_sockets h (server_pid d) = Inr held \<and>
    l \<in> set ls \<and> listener_inode l \<in> set held \<and> reaches (listener_address l) a"
proof -
  let ?inet = "inet_listeners little (socket_table h) (text_joined proc ''net'')"
  from assms(1) obtain held ns ls where parts: "held_sockets h (resident_pid s) = Inr held"
    "namespace_of_in (namespace_link h) proc (resident_pid s) = Inr ns"
    "(if namespace_ours ns then ?inet
      else inet_listeners little (socket_table h) (text_joined (text_joined proc (show_nat (resident_pid s))) ''net'')) = Some ls"
    "server_reach (server_at s (title_of h s) ns (addresses_held ls held)) = Inr a"
    by (auto simp: discovered_def Let_def server_unreached_def split: sum.splits prod.splits option.splits)
  then have d: "d = server_at s (title_of h s) ns (addresses_held ls held)"
    using assms(2) by (simp add: discovered_def Let_def)
  then have "server_namespace d = ns" "server_pid d = resident_pid s" by (simp_all add: server_at_def Let_def)
  then have "sockets_seen little h proc d = Some ls" "held_sockets h (server_pid d) = Inr held"
    using parts(1,3) by (simp_all add: sockets_seen_def split: if_splits)
  moreover from parts(4) have "tcp_reach_of (addresses_held ls held) (titled_port (title_of h s)) = Some a"
    by (simp add: server_at_def Let_def ok_or_Inr_iff)
  then obtain b where "b \<in> set (addresses_held ls held)" "reaches b a" using tcp_reach_held by blast
  then have "\<exists>l \<in> set ls. listener_inode l \<in> set held \<and> reaches (listener_address l) a"
    by (auto simp: addresses_held_def)
  ultimately show ?thesis by blast
qed

lemma reach_is_held:
  assumes "d \<in> set (discover little h proc)" "server_reach d = Inr a"
  shows "\<exists>ls held l. sockets_seen little h proc d = Some ls \<and> held_sockets h (server_pid d) = Inr held \<and>
    l \<in> set ls \<and> listener_inode l \<in> set held \<and> reaches (listener_address l) a"
proof -
  let ?found = "discovered little h proc (inet_listeners little (socket_table h) (text_joined proc ''net''))"
  from assms(1) have "unkeyed d \<in> set (map unkeyed (discover little h proc))" by simp
  then obtain s where s: "unkeyed d = unkeyed (?found s)" by (auto simp: discover_unkeyed)
  then have same: "server_reach d = server_reach (?found s)" "server_pid d = server_pid (?found s)"
    "server_namespace d = server_namespace (?found s)"
    by (rule unkeyed_eqD)+
  then have "sockets_seen little h proc d = sockets_seen little h proc (?found s)" by (simp add: sockets_seen_def)
  with same assms(2) discovered_reach[of little h proc s a "?found s"] show ?thesis by auto
qed

section \<open>Which processes are servers\<close>

definition server_entry :: "redis_host \<Rightarrow> str \<Rightarrow> resident_server option" where
  "server_entry h entry = Option.bind (pid_of_entry entry) (\<lambda>pid. Option.bind (proc_ok (entry_text h entry ''comm'')) (\<lambda>comm.
     map_option (\<lambda>kind. \<lparr>resident_pid = pid, resident_kind = kind\<rparr>) (kind_from_program (trim_end_matches newline comm))))"

definition entry_unseen :: "redis_host \<Rightarrow> str \<Rightarrow> bool" where
  "entry_unseen h entry \<longleftrightarrow> pid_of_entry entry \<noteq> None \<and> entry_text h entry ''comm'' = ProcUnread"

lemma census_fold:
  "foldl (census_step h) c entries =
     c\<lparr>census_servers := census_servers c @ List.map_filter (server_entry h) entries,
       some_processes_unseen := some_processes_unseen c \<or> (\<exists>e \<in> set entries. entry_unseen h e)\<rparr>"
proof (induction entries arbitrary: c)
  case (Cons e es)
  have "census_step h c e = c\<lparr>census_servers := census_servers c @ option_list (server_entry h e),
      some_processes_unseen := some_processes_unseen c \<or> entry_unseen h e\<rparr>"
    by (auto simp: census_step_def server_entry_def entry_unseen_def split: option.split reading_of_proc.split)
  then show ?case using Cons by (cases "server_entry h e") (auto simp: List.map_filter_simps)
qed (simp add: List.map_filter_simps)

lemma census_complete_iff:
  "some_processes_unseen (resident_census h) \<longleftrightarrow>
     (case host_entries h of None \<Rightarrow> True | Some entries \<Rightarrow> \<exists>e \<in> set entries. entry_unseen h e)"
  by (simp add: resident_census_def census_fold Let_def split: option.split)

lemma census_servers_iff:
  assumes "host_entries h = Some entries"
  shows "s \<in> set (resident_servers h) \<longleftrightarrow> s \<in> set (List.map_filter (server_entry h) entries) \<and>
    (\<forall>p t. parent_of h (resident_pid s) = Some p \<longrightarrow> t \<in> set (List.map_filter (server_entry h) entries) \<longrightarrow> p \<noteq> resident_pid t)"
  using assms by (auto simp: resident_servers_def resident_census_def census_fold Let_def image_iff split: option.splits)

lemma compare_pids_comparator: "comparator_on compare_pids UNIV"
  unfolding compare_pids_def by (rule comparator_pullback[OF cmp_of.comparator_on_axioms]) simp

lemma census_in_order: "sorted_wrt (\<lambda>s t. resident_pid s \<le> resident_pid t) (resident_servers h)"
proof (cases "host_entries h")
  case (Some entries)
  have "sorted_by compare_pids (sort_by compare_pids xs)" for xs
    using comparator_on.sorted_sort_by[OF compare_pids_comparator] by simp
  then have "sorted_wrt (\<lambda>s t. resident_pid s \<le> resident_pid t) (sort_by compare_pids xs)" for xs
    by (rule sorted_wrt_mono_rel[rotated]) (auto simp: compare_pids_def cmp_of_def split: if_splits)
  with Some show ?thesis by (simp add: resident_servers_def resident_census_def Let_def sorted_wrt_filter)
qed (simp add: resident_servers_def resident_census_def)

end
