(* ===== verification/RedisReplies.thy ===== *)
theory RedisReplies
  imports RedisModel TextWords
begin

text \<open>
  What a server's replies mean (\<open>collectors/redis/source\<close>: \<open>reply\<close>, \<open>acl_list\<close>, \<open>config_get\<close>, \<open>info_fields\<close>,
  \<open>info_server\<close>, \<open>info_replication\<close>, \<open>module_list\<close>).  The parser of the protocol is a crate; its value is the
  datatype below, with one constructor for every shape the source turns away.
\<close>

section \<open>Replies\<close>

datatype resp_value =
    RespSimple str
  | RespOkay
  | RespError str "str option"
  | RespInt i64
  | RespBulk str
  | RespNil
  | RespArray "resp_value list"
  | RespNewer

datatype reply =
    SimpleReply str
  | ErrorReply str
  | IntegerReply i64
  | BulkReply str
  | NilReply
  | ArrayReply "reply list"

fun reply_kind :: "reply \<Rightarrow> str" where
  "reply_kind (SimpleReply _) = ''a status''"
| "reply_kind (ErrorReply _) = ''an error''"
| "reply_kind (IntegerReply _) = ''an integer''"
| "reply_kind (BulkReply _) = ''text''"
| "reply_kind NilReply = ''nothing''"
| "reply_kind (ArrayReply _) = ''a list''"

definition most_quoted :: nat where
  "most_quoted = 200"

definition ellipsis :: str where
  "ellipsis = [CHR 0xE2, CHR 0x80, CHR 0xA6]"

definition shortened :: "str \<Rightarrow> str" where
  "shortened s = (if most_quoted < length (chars_of s) then concat (take most_quoted (chars_of s)) @ ellipsis else s)"

definition reply_text_of :: "str \<Rightarrow> str collected" where
  "reply_text_of bs = (if valid_utf8 bs then Inr bs
     else Inl (CollectionError ''the server replied with bytes that are not valid UTF-8'' []))"

fun reply_of :: "resp_value \<Rightarrow> reply collected" where
  "reply_of (RespSimple s) = Inr (SimpleReply s)"
| "reply_of RespOkay = Inr (SimpleReply ''OK'')"
| "reply_of (RespError code details) = Inr (ErrorReply (case details of Some d \<Rightarrow> code @ '' '' @ d | None \<Rightarrow> code))"
| "reply_of (RespInt n) = Inr (IntegerReply n)"
| "reply_of (RespBulk bs) = map_ok BulkReply (reply_text_of bs)"
| "reply_of RespNil = Inr NilReply"
| "reply_of (RespArray vs) = map_ok ArrayReply (collect_results (map reply_of vs))"
| "reply_of RespNewer = Inl (CollectionError ''the server replied in a protocol newer than the RESP2 rastro asked in'' [])"

section \<open>\<open>ACL LIST\<close>\<close>

text \<open>The lines of accounts; the argument is the accounts already read.\<close>

fun acl_lines :: "reply list \<Rightarrow> redis_accounts \<Rightarrow> redis_accounts collected" where
  "acl_lines [] users = Inr users"
| "acl_lines (r # rs) users = (case r of
      BulkReply l \<Rightarrow>
        (case split_whitespace l of
           first # user # given \<Rightarrow>
             if first = ''user''
             then (if btree_get user users \<noteq> None
                   then Inl (CollectionError ''the server's ACL LIST names {name} twice, so it was misread'' [user])
                   else acl_lines rs (btree_insert user given users))
             else Inl (CollectionError ''the server's ACL LIST has a line that names no account, so it was misread: it starts {:?}'' [first])
         | ws \<Rightarrow> Inl (CollectionError ''the server's ACL LIST has a line that names no account, so it was misread: it starts {:?}''
                   [case ws of first # _ \<Rightarrow> first | [] \<Rightarrow> []]))
    | _ \<Rightarrow> Inl (CollectionError ''the server's ACL LIST holds something other than text, so it was misread'' []))"

definition acl_list_parse :: "reply \<Rightarrow> redis_accounts collected" where
  "acl_list_parse r = (case r of
      ArrayReply rs \<Rightarrow> acl_lines rs []
    | _ \<Rightarrow> Inl (CollectionError ''the server answered ACL LIST with {} rather than a list of accounts'' [reply_kind r]))"

section \<open>\<open>CONFIG GET *\<close>\<close>

fun config_pairs :: "reply list \<Rightarrow> redis_settings \<Rightarrow> redis_settings collected" where
  "config_pairs (n # v # rs) values = (case (n, v) of
      (BulkReply named, BulkReply given) \<Rightarrow>
        and_then (setting_name_new named) (\<lambda>key.
          if btree_get key values \<noteq> None
          then Inl (CollectionError ''the server's CONFIG GET * names {} twice, so it was misread'' [setting_str key])
          else config_pairs rs (btree_insert key given values))
    | _ \<Rightarrow> Inl (CollectionError ''the server's CONFIG GET * holds something other than text, so it was misread'' []))"
| "config_pairs _ values = Inr values"

definition config_get_parse :: "reply \<Rightarrow> redis_settings collected" where
  "config_get_parse r = (case r of
      ArrayReply rs \<Rightarrow>
        if odd (length rs)
        then Inl (CollectionError ''the server's CONFIG GET * has a name without a value, so it was misread'' [])
        else config_pairs rs []
    | _ \<Rightarrow> Inl (CollectionError ''the server answered CONFIG GET * with {} rather than a list of settings'' [reply_kind r]))"

section \<open>\<open>INFO\<close>\<close>

definition info_fields :: "str \<Rightarrow> (str, str) btree" where
  "info_fields s = btree_collect (List.map_filter (split_once (CHR '':''))
     (filter (\<lambda>l. l \<noteq> [] \<and> \<not> starts_with ''#'' l) (map (trim_end_matches carriage_return) (lines s))))"

definition non_empty_field :: "(str, str) btree \<Rightarrow> str \<Rightarrow> str option" where
  "non_empty_field fs field = Option.bind (btree_get field fs) (\<lambda>v. if v = [] then None else Some v)"

fun version_field :: "server_kind \<Rightarrow> str" where
  "version_field Valkey = ''valkey_version''"
| "version_field Redis = ''redis_version''"

definition info_server_parse :: "str \<Rightarrow> server_identity collected" where
  "info_server_parse s =
     (let fs = info_fields s;
          kind = (if btree_get ''server_name'' fs = Some ''valkey'' then Valkey else Redis)
      in map_ok (\<lambda>version. \<lparr>identity_kind = kind, identity_version = version,
            identity_mode = find_map (non_empty_field fs) [''redis_mode'', ''server_mode''],
            identity_executable = non_empty_field fs ''executable'',
            identity_config_file = non_empty_field fs ''config_file''\<rparr>)
          (ok_or (CollectionError ''the server's INFO carries no {version_field}, so it is not describing itself as a {}''
              [version_field kind, kind_str kind])
            (btree_get (version_field kind) fs)))"

definition replica_attribute :: "str \<Rightarrow> str \<Rightarrow> str option" where
  "replica_attribute v attribute =
     find_map (\<lambda>pair. Option.bind (strip_prefix attribute pair) (strip_prefix ''='')) (split_on (CHR '','') v)"

definition replica_address :: "str \<Rightarrow> str option" where
  "replica_address v =
     Option.bind (replica_attribute v ''ip'') (\<lambda>host. map_option (bracketed_address host) (replica_attribute v ''port''))"

definition names_a_replica :: "str \<Rightarrow> bool" where
  "names_a_replica field = (case strip_prefix ''slave'' field of
      Some number \<Rightarrow> number \<noteq> [] \<and> list_all is_ascii_digit number
    | None \<Rightarrow> False)"

definition info_replication_parse :: "str \<Rightarrow> replication collected" where
  "info_replication_parse s =
     (let fs = info_fields s
      in map_ok (\<lambda>role. \<lparr>replication_role = role,
            replication_master = (case (btree_get ''master_host'' fs, btree_get ''master_port'' fs) of
                (Some host, Some port) \<Rightarrow> Some (bracketed_address host port)
              | _ \<Rightarrow> None),
            master_link_status = btree_get ''master_link_status'' fs,
            replication_replicas = List.map_filter (\<lambda>(n, v). replica_address v) (filter (\<lambda>(n, v). names_a_replica n) fs)\<rparr>)
          (ok_or (CollectionError ''the server's INFO replication names no role, so it was misread'' []) (btree_get ''role'' fs)))"

section \<open>\<open>MODULE LIST\<close>\<close>

definition module_misread :: "str \<Rightarrow> str list \<Rightarrow> collection_error" where
  "module_misread what args = CollectionError (''the server's MODULE LIST '' @ what @ '', so it was misread'') args"

definition module_texts :: "reply list \<Rightarrow> str list collected" where
  "module_texts vs = collect_results (map (\<lambda>v. case v of BulkReply s \<Rightarrow> Inr s
     | _ \<Rightarrow> Inl (module_misread ''has an argument that is not text'' [])) vs)"

record module_fields =
  field_name :: "str option"
  field_version :: "i64 option"
  field_path :: "str option"
  field_args :: "str list option"

fun module_fields_of :: "reply list \<Rightarrow> module_fields \<Rightarrow> module_fields collected" where
  "module_fields_of (f # v # rs) m = (case f of
      BulkReply field \<Rightarrow>
        if field = ''name''
        then (case v of BulkReply s \<Rightarrow> module_fields_of rs (m\<lparr>field_name := Some s\<rparr>)
              | _ \<Rightarrow> Inl (module_misread ''has a {field} of an unexpected kind'' [field]))
        else if field = ''ver''
        then (case v of IntegerReply n \<Rightarrow> module_fields_of rs (m\<lparr>field_version := Some n\<rparr>)
              | _ \<Rightarrow> Inl (module_misread ''has a {field} of an unexpected kind'' [field]))
        else if field = ''path''
        then (case v of BulkReply s \<Rightarrow> module_fields_of rs (m\<lparr>field_path := (if s = [] then None else Some s)\<rparr>)
              | _ \<Rightarrow> Inl (module_misread ''has a {field} of an unexpected kind'' [field]))
        else if field = ''args''
        then (case v of ArrayReply vs \<Rightarrow> and_then (module_texts vs) (\<lambda>ts. module_fields_of rs (m\<lparr>field_args := Some ts\<rparr>))
              | _ \<Rightarrow> Inl (module_misread ''has a {field} of an unexpected kind'' [field]))
        else module_fields_of rs m
    | _ \<Rightarrow> Inl (module_misread ''has a field name that is not text'' []))"
| "module_fields_of _ m = Inr m"

definition module_of :: "reply \<Rightarrow> (str \<times> redis_module) collected" where
  "module_of entry = (case entry of
      ArrayReply fs \<Rightarrow>
        and_then (module_fields_of fs \<lparr>field_name = None, field_version = None, field_path = None, field_args = None\<rparr>) (\<lambda>m.
        and_then (ok_or (module_misread ''has a module with no name'' []) (field_name m)) (\<lambda>named.
        map_ok (\<lambda>version. (named, \<lparr>module_version = version, module_path = field_path m, module_args = field_args m\<rparr>))
          (ok_or (module_misread ''gives {name} no version'' [named]) (field_version m))))
    | _ \<Rightarrow> Inl (module_misread ''has a module that is not a list of fields'' []))"

fun modules_from :: "reply list \<Rightarrow> redis_modules \<Rightarrow> redis_modules collected" where
  "modules_from [] loaded = Inr loaded"
| "modules_from (e # es) loaded = and_then (module_of e) (\<lambda>(named, m).
     if btree_get named loaded \<noteq> None then Inl (module_misread ''names {name} twice'' [named])
     else modules_from es (btree_insert named m loaded))"

definition module_list_parse :: "reply \<Rightarrow> redis_modules collected" where
  "module_list_parse r = (case r of
      ArrayReply es \<Rightarrow> modules_from es []
    | _ \<Rightarrow> Inl (module_misread ''answered with {} rather than a list'' [reply_kind r]))"

section \<open>What a reply can hold\<close>

text \<open>Every text of a reply is text, given that the crate's strings are.\<close>

fun value_strings_ok :: "resp_value \<Rightarrow> bool" where
  "value_strings_ok (RespSimple s) = valid_utf8 s"
| "value_strings_ok (RespError code details) = (valid_utf8 code \<and> (case details of Some d \<Rightarrow> valid_utf8 d | None \<Rightarrow> True))"
| "value_strings_ok (RespArray vs) = list_all value_strings_ok vs"
| "value_strings_ok _ = True"

fun reply_texts :: "reply \<Rightarrow> str list" where
  "reply_texts (SimpleReply s) = [s]"
| "reply_texts (ErrorReply s) = [s]"
| "reply_texts (BulkReply s) = [s]"
| "reply_texts (ArrayReply rs) = concat (map reply_texts rs)"
| "reply_texts _ = []"

lemma reply_texts_valid:
  "reply_of v = Inr r \<Longrightarrow> value_strings_ok v \<Longrightarrow> list_all valid_utf8 (reply_texts r)"
proof (induction v arbitrary: r rule: reply_of.induct)
  case (7 vs)
  then obtain rs where r: "r = ArrayReply rs" "map reply_of vs = map Inr rs"
    by (auto simp: result_iffs collect_results_Inr_iff)
  have "list_all valid_utf8 (reply_texts q)" if "q \<in> set rs" for q
  proof -
    from that r(2) have "Inr q \<in> set (map reply_of vs)" by simp
    then obtain v where v: "v \<in> set vs" "reply_of v = Inr q" by auto
    moreover have "value_strings_ok v" using 7 v by (simp add: list_all_iff)
    ultimately show ?thesis using "7.IH" by blast
  qed
  then show ?case by (auto simp: r(1) list_all_iff)
next
  case (3 code details)
  then show ?case by (auto simp: valid_utf8_append valid_utf8_ascii_Cons between_def split: option.splits)
qed (auto simp: result_iffs reply_text_of_def valid_utf8_ascii_Cons between_def split: if_splits)

lemma shortened_bounded: "length (chars_of (shortened s)) \<le> most_quoted + 1" if "valid_utf8 s"
proof (cases "most_quoted < length (chars_of s)")
  case True
  have kept: "valid_utf8 (concat (take most_quoted (chars_of s)))" "chars_of (concat (take most_quoted (chars_of s))) = take most_quoted (chars_of s)"
    using that by (auto intro!: valid_concat_chars dest: in_set_takeD)
  have "chars_of ellipsis = [ellipsis]" unfolding ellipsis_def by code_simp
  with kept True show ?thesis by (simp add: shortened_def chars_of_append)
qed (simp add: shortened_def)

section \<open>Settings\<close>

definition settings_reply :: "(setting_name \<times> str) list \<Rightarrow> reply list" where
  "settings_reply ss = concat (map (\<lambda>(n, v). [BulkReply (setting_str n), BulkReply v]) ss)"

definition named_ok :: "(setting_name \<times> str) list \<Rightarrow> bool" where
  "named_ok ss \<longleftrightarrow> list_all (\<lambda>nv. setting_str (fst nv) \<noteq> []) ss"

lemma setting_name_new_iff: "setting_name_new s = Inr n \<longleftrightarrow> s = setting_str n \<and> s \<noteq> []"
  by (cases n; cases "setting_text n") (auto simp: setting_name_new_def non_empty_text_new_def setting_str_def)

abbreviation inserted_all :: "('k::linorder, 'v) btree \<Rightarrow> ('k \<times> 'v) list \<Rightarrow> ('k, 'v) btree" where
  "inserted_all known kvs \<equiv> foldl (\<lambda>m (k, v). btree_insert k v m) known kvs"

lemma absent_after_insert:
  "btree_sorted m \<Longrightarrow> btree_get k (btree_insert k' v m) = None \<longleftrightarrow> k \<noteq> k' \<and> btree_get k m = None"
  by (simp add: btree_get_insert)

lemma config_pairs_accepts:
  "btree_sorted known \<Longrightarrow> named_ok ss \<Longrightarrow> distinct (map fst ss) \<Longrightarrow> \<forall>n \<in> fst ` set ss. btree_get n known = None \<Longrightarrow>
     config_pairs (settings_reply ss) known = Inr (inserted_all known ss)"
proof (induction ss arbitrary: known)
  case (Cons nv ss)
  obtain n v where nv: "nv = (n, v)" by (cases nv)
  have "setting_name_new (setting_str n) = Inr n" using Cons.prems(2) nv by (simp add: setting_name_new_iff named_ok_def)
  moreover have "config_pairs (settings_reply ss) (btree_insert n v known) = Inr (inserted_all (btree_insert n v known) ss)"
    using Cons.prems nv by (intro Cons.IH) (auto simp: wf_intros named_ok_def absent_after_insert image_iff)
  ultimately show ?case using Cons.prems nv by (simp add: settings_reply_def)
qed (simp add: settings_reply_def)

lemma settings_cases:
  obtains (1) r r' rest where "rs = r # r' # rest" | (2) "rs = []" | (3) r where "rs = [r]"
  by (cases rs; cases "tl rs") auto

lemma config_pairs_accepted:
  "config_pairs rs known = Inr m \<Longrightarrow> even (length rs) \<Longrightarrow> btree_sorted known \<Longrightarrow>
     \<exists>ss. rs = settings_reply ss \<and> named_ok ss \<and> distinct (map fst ss) \<and> (\<forall>n \<in> fst ` set ss. btree_get n known = None)
       \<and> m = inserted_all known ss"
proof (induction rs arbitrary: known rule: measure_induct_rule[of length])
  case (less rs)
  show ?case
  proof (cases rs rule: settings_cases)
    case (1 r r' rest)
    from 1 less.prems(1) obtain named v where texts: "r = BulkReply named" "r' = BulkReply v" by (cases r; cases r') auto
    with 1 less.prems(1) obtain n where n: "setting_name_new named = Inr n" by (cases "setting_name_new named") auto
    with 1 less.prems(1) texts have rec: "btree_get n known = None" "config_pairs rest (btree_insert n v known) = Inr m"
      by (simp_all split: if_splits)
    have shorter: "even (length rest)" "length rest < length rs" using 1 less.prems(2) by simp_all
    from less.IH[OF shorter(2) rec(2) shorter(1) btree_sorted_insert[OF less.prems(3)]] obtain ss where
      ss: "rest = settings_reply ss" "named_ok ss" "distinct (map fst ss)" "m = inserted_all (btree_insert n v known) ss"
        "\<forall>k \<in> fst ` set ss. btree_get k (btree_insert n v known) = None"
      by blast
    from ss(5) have "\<forall>k \<in> fst ` set ss. k \<noteq> n \<and> btree_get k known = None"
      by (simp add: absent_after_insert[OF less.prems(3)])
    with ss n texts rec 1 have "rs = settings_reply ((n, v) # ss) \<and> named_ok ((n, v) # ss) \<and> distinct (map fst ((n, v) # ss))
        \<and> (\<forall>k \<in> fst ` set ((n, v) # ss). btree_get k known = None) \<and> m = inserted_all known ((n, v) # ss)"
      by (auto simp: settings_reply_def named_ok_def setting_name_new_iff image_iff)
    then show ?thesis by blast
  next
    case 2
    then have "rs = settings_reply [] \<and> named_ok [] \<and> m = inserted_all known []"
      using less.prems(1) by (simp add: settings_reply_def named_ok_def)
    then show ?thesis by force
  next
    case (3 r)
    then show ?thesis using less.prems(2) by simp
  qed
qed

text \<open>
  The reply to \<open>CONFIG GET *\<close> is either read whole, each setting under its name whatever order the server lists them in,
  or refused.
\<close>

lemma config_get_iff:
  "config_get_parse r = Inr m \<longleftrightarrow> (\<exists>ss. r = ArrayReply (settings_reply ss) \<and> named_ok ss \<and> distinct (map fst ss) \<and> m = btree_collect ss)"
proof
  assume "config_get_parse r = Inr m"
  then obtain rs where "r = ArrayReply rs" "even (length rs)" "config_pairs rs [] = Inr m"
    by (auto simp: config_get_parse_def split: reply.splits if_splits)
  then show "\<exists>ss. r = ArrayReply (settings_reply ss) \<and> named_ok ss \<and> distinct (map fst ss) \<and> m = btree_collect ss"
    using config_pairs_accepted[of rs "[]" m] by (auto simp: btree_collect_def)
next
  assume "\<exists>ss. r = ArrayReply (settings_reply ss) \<and> named_ok ss \<and> distinct (map fst ss) \<and> m = btree_collect ss"
  then obtain ss where ss: "r = ArrayReply (settings_reply ss)" "named_ok ss" "distinct (map fst ss)" "m = btree_collect ss" by blast
  have "even (length (settings_reply ss))" by (induction ss) (auto simp: settings_reply_def)
  then show "config_get_parse r = Inr m"
    using ss config_pairs_accepts[of "[]" ss] by (simp add: config_get_parse_def btree_get_def btree_collect_def)
qed

section \<open>Accounts\<close>

lemma joined_spaced: "list_all word ws \<Longrightarrow> ws \<noteq> [] \<Longrightarrow> joined_with '' '' ws = spaced (([], hd ws) # map (Pair '' '') (tl ws)) []"
proof (induction ws)
  case (Cons w ws)
  then show ?case by (cases ws) (auto simp: joined_with_Cons)
qed simp

lemma split_whitespace_joined:
  assumes "list_all word ws"
  shows "split_whitespace (joined_with '' '' ws) = ws"
proof (cases ws)
  case (Cons w rest)
  have "gaps_ok (([], w) # map (Pair '' '') rest)" using assms Cons by (auto simp: gaps_ok_def list_all_iff)
  from split_whitespace_spaced[OF this, of "[]"] show ?thesis
    using joined_spaced[OF assms] Cons by (simp add: comp_def)
qed (simp add: split_whitespace_def)

definition account_line :: "str \<times> str list \<Rightarrow> reply" where
  "account_line a = BulkReply (joined_with '' '' (''user'' # fst a # snd a))"

definition account_ok :: "str \<times> str list \<Rightarrow> bool" where
  "account_ok a \<longleftrightarrow> word (fst a) \<and> list_all word (snd a)"

lemma acl_lines_read:
  "btree_sorted known \<Longrightarrow> list_all account_ok as \<Longrightarrow> distinct (map fst as) \<Longrightarrow> \<forall>u \<in> fst ` set as. btree_get u known = None \<Longrightarrow>
     acl_lines (map account_line as) known = Inr (inserted_all known as)"
proof (induction as arbitrary: known)
  case (Cons a as)
  obtain u given where a: "a = (u, given)" by (cases a)
  have "word ''user''" by (rule word_ascii) (simp_all add: between_def)
  then have "split_whitespace (joined_with '' '' (''user'' # u # given)) = ''user'' # u # given"
    using Cons.prems(2) a by (intro split_whitespace_joined) (simp add: account_ok_def)
  moreover have "acl_lines (map account_line as) (btree_insert u given known) = Inr (inserted_all (btree_insert u given known) as)"
    using Cons.prems a by (intro Cons.IH) (auto simp: wf_intros absent_after_insert image_iff)
  moreover have "account_line a = BulkReply (joined_with '' '' (''user'' # u # given))" by (simp only: account_line_def a fst_conv snd_conv)
  ultimately show ?case using Cons.prems(4) a by (simp del: joined_with.simps)
qed simp

lemma accounts_read_back:
  "list_all account_ok as \<Longrightarrow> distinct (map fst as) \<Longrightarrow> acl_list_parse (ArrayReply (map account_line as)) = Inr (btree_collect as)"
  using acl_lines_read[of "[]" as] by (simp add: acl_list_parse_def btree_get_def btree_collect_def)

section \<open>No secret is shown\<close>

text \<open>A value that is, or may be, a credential is never in the document as it stands.\<close>

lemma secret_settings:
  assumes "(n, v) \<in> set s" "holds_credential n" "v \<noteq> []"
  shows "(setting_str n, sensitive (text_of v)) \<in> set (map setting_observed s)"
  using assms by (force simp: setting_observed_def)

lemma debugged_settings: "(n, v) \<in> set s \<Longrightarrow> holds_credential n \<Longrightarrow> (setting_str n, withheld_word) \<in> set (settings_debugged s)"
  by (force simp: settings_debugged_def)

end
