(* ===== verification/RedisConnection.thy ===== *)
theory RedisConnection
  imports RedisReplies
begin

text \<open>
  The socket to one server (\<open>redis/source/resp_connection.rs\<close>).  What the world does is a list of events, one
  for each call on the socket: when it is made and what it answers.  A call the list has no event for has not returned, and
  the whole is then \<open>None\<close>.  The protocol's encoder and its parser are a crate: \<open>encode\<close> writes a command, and a
  parser is a state that wants some bytes, is fed a read's answer, or has answered.  Flushing a TCP stream does
  nothing.  Moments and durations are nanoseconds.
\<close>

section \<open>The stream\<close>

datatype io_kind = WouldBlock | TimedOut | WriteZero | CallInterrupted | OtherKind

datatype io_error = IoError (io_kind: io_kind) (io_shown: str)

record write_event =
  write_at :: nat
  write_timeout_refused :: "io_error option"
  write_answer :: "io_error + nat"

record read_event =
  read_at :: nat
  read_timeout_refused :: "io_error option"
  read_answer :: "io_error + nat"

datatype 'p parser_step = Wants nat | Answered "str + resp_value" 'p

record 'p resp_parser =
  parser_next :: "'p \<Rightarrow> 'p parser_step"
  parser_fed :: "'p \<Rightarrow> io_error + str \<Rightarrow> 'p"
  parser_fresh :: 'p

text \<open>A connection, with what was put on the wire and what is still to come from it.\<close>

record 'p resp_connection =
  conn_parser :: 'p
  conn_bound :: nat
  conn_within :: nat
  conn_broken :: bool
  conn_sent :: str
  conn_incoming :: str

definition answer_within :: nat where "answer_within = 5000000000"
definition reply_bound :: nat where "reply_bound = 1024 * 1024"
definition most_written_at_once :: nat where "most_written_at_once = 64 * 1024"

definition timing_out_after :: "io_error option \<Rightarrow> nat \<Rightarrow> 'p resp_connection \<Rightarrow> 'p resp_connection collected" where
  "timing_out_after refused duration c = (case refused of
      Some e \<Rightarrow> Inl (CollectionError ''the server's socket refused a timeout: {error}'' [io_shown e])
    | None \<Rightarrow> Inr (c\<lparr>conn_within := duration\<rparr>))"

definition bounded_by :: "nat \<Rightarrow> 'p resp_connection \<Rightarrow> 'p resp_connection" where
  "bounded_by most c = c\<lparr>conn_bound := most\<rparr>"

definition connection_over :: "'p resp_parser \<Rightarrow> io_error option \<Rightarrow> str \<Rightarrow> 'p resp_connection collected" where
  "connection_over P refused incoming = timing_out_after refused answer_within
     \<lparr>conn_parser = parser_fresh P, conn_bound = reply_bound, conn_within = answer_within, conn_broken = False,
      conn_sent = [], conn_incoming = incoming\<rparr>"

definition dial :: "'p resp_parser \<Rightarrow> io_error + str \<Rightarrow> io_error option \<Rightarrow> socket_addr \<Rightarrow> 'p resp_connection collected" where
  "dial P connected refused address = (case connected of
      Inl e \<Rightarrow> Inl (CollectionError ''could not connect to {address}: {error}'' [socket_addr_shown address, io_shown e])
    | Inr incoming \<Rightarrow> connection_over P refused incoming)"

section \<open>Writing a command\<close>

text \<open>How many bytes one write takes of those it is handed: no write is handed more than the chunk.\<close>

definition taken :: "str \<Rightarrow> nat \<Rightarrow> nat \<Rightarrow> nat" where
  "taken bs written n = min n (min (length bs) (written + most_written_at_once) - written)"

fun write_before :: "nat \<Rightarrow> str \<Rightarrow> nat \<Rightarrow> write_event list \<Rightarrow> (nat \<times> (io_error + unit)) option" where
  "write_before deadline bs written [] = (if written < length bs then None else Some (written, Inr ()))"
| "write_before deadline bs written (e # es) =
     (if \<not> written < length bs then Some (written, Inr ())
      else if deadline - write_at e = 0 then Some (written, Inl (IoError TimedOut ''timed out''))
      else (case write_timeout_refused e of
          Some err \<Rightarrow> Some (written, Inl err)
        | None \<Rightarrow> (case write_answer e of
            Inr n \<Rightarrow> if taken bs written n = 0 then Some (written, Inl (IoError WriteZero ''write zero''))
                     else write_before deadline bs (written + taken bs written n) es
          | Inl err \<Rightarrow> if io_kind err = CallInterrupted then write_before deadline bs written es
                       else Some (written, Inl err))))"

definition exchange_failure :: "'p resp_connection \<Rightarrow> str \<Rightarrow> io_error \<Rightarrow> collection_error" where
  "exchange_failure c command e =
     (if io_kind e = WouldBlock \<or> io_kind e = TimedOut
      then CollectionError ''the server did not answer {command} within {within}'' [command, duration_shown (conn_within c)]
      else CollectionError ''{command} could not be exchanged: {error}'' [command, io_shown e])"

definition send_command :: "(str list \<Rightarrow> str) \<Rightarrow> 'p resp_connection \<Rightarrow> str \<Rightarrow> str list \<Rightarrow> nat \<Rightarrow> write_event list
    \<Rightarrow> ('p resp_connection \<times> unit collected) option" where
  "send_command encode c command args deadline es =
     (let bs = encode (command # tl args)
      in map_option (\<lambda>(written, done).
           (c\<lparr>conn_sent := conn_sent c @ take written bs\<rparr>, map_err (exchange_failure c command) done))
         (write_before deadline bs 0 es))"

section \<open>Reading a reply\<close>

datatype interruption = PastBound | PastDeadline | ClosedEarly | ReadBroke str

record exchange =
  exchange_read :: nat
  exchange_interrupted :: "interruption option"

text \<open>One read: how many bytes are handed over, of those still to come, or why none are.\<close>

definition exchange_took :: "nat \<Rightarrow> str \<Rightarrow> exchange \<Rightarrow> str \<Rightarrow> exchange \<times> str \<times> (io_error + str)" where
  "exchange_took bound got x incoming =
     (let read = exchange_read x + length got
      in if got = [] then (x\<lparr>exchange_interrupted := Some ClosedEarly\<rparr>, incoming, Inr [])
         else if bound < read
         then (x\<lparr>exchange_read := read, exchange_interrupted := Some PastBound\<rparr>, drop (length got) incoming,
               Inl (IoError OtherKind ''past the bound''))
         else (x\<lparr>exchange_read := read\<rparr>, drop (length got) incoming, Inr got))"

text \<open>What is left of the bound and one byte (\<open>usize\<close> saturating), and of the buffer.\<close>

definition read_room :: "nat \<Rightarrow> nat \<Rightarrow> exchange \<Rightarrow> nat" where
  "read_room bound wanted x = min (min (bound + 1) (2 ^ 64 - 1) - exchange_read x) wanted"

definition exchange_step :: "nat \<Rightarrow> nat \<Rightarrow> nat \<Rightarrow> read_event \<Rightarrow> exchange \<Rightarrow> str \<Rightarrow> exchange \<times> str \<times> (io_error + str)" where
  "exchange_step deadline bound wanted e x incoming =
     (if deadline - read_at e = 0
      then (x\<lparr>exchange_interrupted := Some PastDeadline\<rparr>, incoming, Inl (IoError TimedOut ''timed out''))
      else (case read_timeout_refused e of
          Some err \<Rightarrow> (x, incoming, Inl err)
        | None \<Rightarrow>
            (case read_answer e of
                  Inl err \<Rightarrow>
                    (if io_kind err = WouldBlock \<or> io_kind err = TimedOut then (x\<lparr>exchange_interrupted := Some PastDeadline\<rparr>, incoming, Inl err)
                     else if io_kind err = CallInterrupted then (x, incoming, Inl err)
                     else (x\<lparr>exchange_interrupted := Some (ReadBroke (io_shown err))\<rparr>, incoming, Inl err))
                | Inr n \<Rightarrow> exchange_took bound (take (min n (read_room bound wanted x)) incoming) x incoming)))"

fun parse_value :: "'p resp_parser \<Rightarrow> nat \<Rightarrow> nat \<Rightarrow> 'p \<Rightarrow> exchange \<Rightarrow> str \<Rightarrow> read_event list
    \<Rightarrow> ('p \<times> exchange \<times> str \<times> (str + resp_value)) option" where
  "parse_value P deadline bound p x incoming es = (case parser_next P p of
      Answered answer p' \<Rightarrow> Some (p', x, incoming, answer)
    | Wants n \<Rightarrow> (case es of
        [] \<Rightarrow> None
      | e # rest \<Rightarrow> (case exchange_step deadline bound n e x incoming of
          (x', incoming', got) \<Rightarrow> parse_value P deadline bound (parser_fed P p got) x' incoming' rest)))"

declare parse_value.simps [simp del]

definition reply_refusal :: "'p resp_connection \<Rightarrow> str \<Rightarrow> interruption option \<Rightarrow> str \<Rightarrow> collection_error" where
  "reply_refusal c command interrupted error = (case interrupted of
      Some PastBound \<Rightarrow> CollectionError ''the server's reply to {command} ran past {bound} bytes, so it was refused rather than truncated''
        [command, show_nat (conn_bound c)]
    | Some PastDeadline \<Rightarrow> CollectionError ''the server did not answer {command} within {within}'' [command, duration_shown (conn_within c)]
    | Some ClosedEarly \<Rightarrow> CollectionError ''the server closed the connection before its reply to {command} was complete'' [command]
    | Some (ReadBroke failure) \<Rightarrow> CollectionError ''the connection failed while the reply to {command} was read: {failure}'' [command, failure]
    | None \<Rightarrow> CollectionError ''the server's reply to {command} is not the redis protocol: {}'' [command, shortened error])"

text \<open>\<open>Inl\<close>: the stream broke; \<open>Inr (Inl _)\<close>: a whole reply was refused.\<close>

definition receive_reply :: "'p resp_parser \<Rightarrow> 'p resp_connection \<Rightarrow> str \<Rightarrow> nat \<Rightarrow> read_event list
    \<Rightarrow> ('p resp_connection \<times> reply collected collected) option" where
  "receive_reply P c command deadline es =
     map_option (\<lambda>(p, x, incoming, answer).
       (c\<lparr>conn_parser := p, conn_incoming := incoming\<rparr>,
        case answer of
          Inr v \<Rightarrow> Inr (reply_of v)
        | Inl error \<Rightarrow> Inl (reply_refusal c command (exchange_interrupted x) error)))
       (parse_value P deadline (conn_bound c) (conn_parser c) \<lparr>exchange_read = 0, exchange_interrupted = None\<rparr> (conn_incoming c) es)"

section \<open>One question\<close>

record asking =
  asking_args :: "str list"
  asking_at :: nat
  asking_writes :: "write_event list"
  asking_reads :: "read_event list"

definition not_sent :: "str \<Rightarrow> collection_error" where
  "not_sent command = CollectionError
     ''{command} was not sent: an earlier command failed part way, so what is left on the connection is no reply to it'' [command]"

definition command_of :: "str list \<Rightarrow> str" where
  "command_of args = (case args of [] \<Rightarrow> [] | a # _ \<Rightarrow> a)"

definition ask :: "'p resp_parser \<Rightarrow> (str list \<Rightarrow> str) \<Rightarrow> 'p resp_connection \<Rightarrow> asking \<Rightarrow> ('p resp_connection \<times> reply collected) option" where
  "ask P encode c a =
     (let command = command_of (asking_args a)
      in if conn_broken c then Some (c, Inl (not_sent command))
         else (let deadline = asking_at a + conn_within c
               in case send_command encode c command (asking_args a) deadline (asking_writes a) of
                    None \<Rightarrow> None
                  | Some (c', Inl e) \<Rightarrow> Some (c'\<lparr>conn_broken := True\<rparr>, Inl e)
                  | Some (c', Inr _) \<Rightarrow> (case receive_reply P c' command deadline (asking_reads a) of
                        None \<Rightarrow> None
                      | Some (c'', Inl e) \<Rightarrow> Some (c''\<lparr>conn_broken := True\<rparr>, Inl e)
                      | Some (c'', Inr r) \<Rightarrow> Some (c''\<lparr>conn_broken := False\<rparr>, r))))"

text \<open>The questions one after the other, with what each was answered.\<close>

fun conversed :: "'p resp_parser \<Rightarrow> (str list \<Rightarrow> str) \<Rightarrow> 'p resp_connection \<Rightarrow> asking list \<Rightarrow> ('p resp_connection \<times> reply collected list) option" where
  "conversed P encode c [] = Some (c, [])"
| "conversed P encode c (a # as) = (case ask P encode c a of
     None \<Rightarrow> None
   | Some (c', r) \<Rightarrow> map_option (\<lambda>(c'', rs). (c'', r # rs)) (conversed P encode c' as))"

section \<open>What goes over the wire\<close>

lemma taken_fits: "w < length bs \<Longrightarrow> w + taken bs w n \<le> length bs"
  by (auto simp: taken_def min_def)

lemma write_before_spec:
  "write_before d bs w es = Some (w', r) \<Longrightarrow> w \<le> length bs \<Longrightarrow> w \<le> w' \<and> w' \<le> length bs \<and> (r = Inr () \<longrightarrow> w' = length bs)"
proof (induction es arbitrary: w)
  case (Cons e es)
  show ?case
  proof (cases "\<exists>n. w < length bs \<and> d - write_at e \<noteq> 0 \<and> write_timeout_refused e = None \<and> write_answer e = Inr n \<and> taken bs w n \<noteq> 0")
    case True
    then obtain n where "w < length bs" "write_before d bs (w + taken bs w n) es = Some (w', r)" using Cons.prems(1) by auto
    then show ?thesis using Cons.IH[of "w + taken bs w n"] taken_fits[of w bs n] by simp
  next
    case False
    then show ?thesis using Cons by (auto split: if_splits option.splits sum.splits)
  qed
qed (auto split: if_splits)

lemma write_before_returns:
  "e \<in> set es \<Longrightarrow> d \<le> write_at e \<Longrightarrow> write_before d bs w es \<noteq> None"
proof (induction es arbitrary: w)
  case (Cons e' es)
  show ?case
  proof (cases "e = e'")
    case True
    then show ?thesis using Cons.prems by simp
  next
    case False
    with Cons show ?thesis by (auto simp: Let_def split: option.splits sum.splits)
  qed
qed simp

section \<open>What is read of a reply\<close>

text \<open>The crate's parser hands an error of the stream on, except where a call was only interrupted.\<close>

definition gives_up :: "'p resp_parser \<Rightarrow> bool" where
  "gives_up P \<longleftrightarrow> (\<forall>p err. io_kind err \<noteq> CallInterrupted \<longrightarrow>
     (\<exists>e p'. parser_next P (parser_fed P p (Inl err)) = Answered (Inl e) p'))"

definition read_on :: "nat \<Rightarrow> exchange \<Rightarrow> str \<Rightarrow> exchange \<times> str \<times> (io_error + str) \<Rightarrow> bool" where
  "read_on b x incoming out = (case out of (x', incoming', got) \<Rightarrow> exchange_read x \<le> exchange_read x' \<and> exchange_read x' \<le> b + 1
    \<and> exchange_read x' - exchange_read x \<le> length incoming \<and> incoming' = drop (exchange_read x' - exchange_read x) incoming
    \<and> (exchange_read x \<le> b \<longrightarrow> exchange_read x' \<le> b \<or> (\<exists>err. got = Inl err \<and> io_kind err \<noteq> CallInterrupted)))"

lemma read_on_nothing: "exchange_read x' = exchange_read x \<Longrightarrow> exchange_read x \<le> b + 1 \<Longrightarrow> read_on b x incoming (x', incoming, got)"
  by (simp add: read_on_def)

lemma read_on_took:
  assumes "exchange_read x + length got \<le> b + 1" "length got \<le> length incoming" "exchange_read x \<le> b + 1"
  shows "read_on b x incoming (exchange_took b got x incoming)"
  using assms by (simp add: read_on_def exchange_took_def Let_def)

lemma exchange_step_read_on:
  assumes "exchange_read x \<le> b + 1"
  shows "read_on b x incoming (exchange_step d b n e x incoming)"
proof -
  have "read_room b n x \<le> b + 1 - exchange_read x"
    unfolding read_room_def by (meson diff_le_mono min.cobounded1 min.coboundedI1)
  then have "read_on b x incoming (exchange_took b (take (min m (read_room b n x)) incoming) x incoming)" for m
    using assms by (intro read_on_took) auto
  with assms show ?thesis
    unfolding exchange_step_def Let_def by (auto intro!: read_on_nothing split: option.split sum.split)
qed

lemma exchange_step_spec:
  assumes "exchange_step d b n e x incoming = (x', incoming', got)" "exchange_read x \<le> b + 1"
  shows "exchange_read x \<le> exchange_read x' \<and> exchange_read x' \<le> b + 1
    \<and> exchange_read x' - exchange_read x \<le> length incoming \<and> incoming' = drop (exchange_read x' - exchange_read x) incoming
    \<and> (exchange_read x \<le> b \<longrightarrow> exchange_read x' \<le> b \<or> (\<exists>err. got = Inl err \<and> io_kind err \<noteq> CallInterrupted))"
  using exchange_step_read_on[OF assms(2), of incoming d n e] unfolding assms(1) by (simp add: read_on_def)

lemma exchange_step_late:
  "d \<le> read_at e \<Longrightarrow> exchange_step d b n e x incoming =
     (x\<lparr>exchange_interrupted := Some PastDeadline\<rparr>, incoming, Inl (IoError TimedOut ''timed out''))"
  by (simp add: exchange_step_def)

lemma parse_value_spec:
  "parse_value P d b p x incoming es = Some (p', x', incoming', answer) \<Longrightarrow> exchange_read x \<le> b + 1 \<Longrightarrow>
     exchange_read x \<le> exchange_read x' \<and> exchange_read x' \<le> b + 1
     \<and> exchange_read x' - exchange_read x \<le> length incoming \<and> incoming' = drop (exchange_read x' - exchange_read x) incoming"
proof (induction es arbitrary: p x incoming)
  case Nil
  then show ?case by (subst (asm) parse_value.simps) (auto split: parser_step.splits)
next
  case (Cons e es)
  show ?case
  proof (cases "parser_next P p")
    case (Answered a q)
    with Cons.prems show ?thesis by (subst (asm) parse_value.simps) auto
  next
    case (Wants n)
    obtain y mid got where step: "exchange_step d b n e x incoming = (y, mid, got)" by (cases "exchange_step d b n e x incoming") auto
    with Wants Cons.prems(1) have rest: "parse_value P d b (parser_fed P p got) y mid es = Some (p', x', incoming', answer)"
      by (subst (asm) parse_value.simps) simp
    show ?thesis using Cons.IH[OF rest] exchange_step_spec[OF step Cons.prems(2)] by auto
  qed
qed

text \<open>A reply that is accepted was read within the bound.\<close>

lemma parse_value_bounded:
  "gives_up P \<Longrightarrow> parse_value P d b p x incoming es = Some (p', x', incoming', Inr v) \<Longrightarrow> exchange_read x \<le> b \<Longrightarrow>
     exchange_read x' \<le> b"
proof (induction es arbitrary: p x incoming)
  case Nil
  then show ?case by (subst (asm) parse_value.simps) (auto split: parser_step.splits)
next
  case (Cons e es)
  show ?case
  proof (cases "parser_next P p")
    case (Answered a q)
    with Cons.prems show ?thesis by (subst (asm) parse_value.simps) auto
  next
    case (Wants n)
    obtain y mid got where step: "exchange_step d b n e x incoming = (y, mid, got)" by (cases "exchange_step d b n e x incoming") auto
    with Wants Cons.prems(2) have rest: "parse_value P d b (parser_fed P p got) y mid es = Some (p', x', incoming', Inr v)"
      by (subst (asm) parse_value.simps) simp
    have "exchange_read y \<le> b \<or> (\<exists>err. got = Inl err \<and> io_kind err \<noteq> CallInterrupted)"
      using exchange_step_spec[OF step] Cons.prems(3) by auto
    then show ?thesis
    proof
      assume "exchange_read y \<le> b"
      then show ?thesis using Cons.IH[OF Cons.prems(1) rest] by blast
    next
      assume "\<exists>err. got = Inl err \<and> io_kind err \<noteq> CallInterrupted"
      with Cons.prems(1) obtain e' q where "parser_next P (parser_fed P p got) = Answered (Inl e') q"
        unfolding gives_up_def by blast
      with rest show ?thesis by (subst (asm) parse_value.simps) simp
    qed
  qed
qed

text \<open>Once the deadline has passed the next read is the last.\<close>

lemma parse_value_returns:
  "gives_up P \<Longrightarrow> e \<in> set es \<Longrightarrow> d \<le> read_at e \<Longrightarrow> parse_value P d b p x incoming es \<noteq> None"
proof (induction es arbitrary: p x incoming)
  case (Cons e' es)
  show ?case
  proof (cases "parser_next P p")
    case (Answered a q)
    then show ?thesis by (subst parse_value.simps) simp
  next
    case (Wants n)
    obtain y mid got where step: "exchange_step d b n e' x incoming = (y, mid, got)" by (cases "exchange_step d b n e' x incoming") auto
    have "parse_value P d b (parser_fed P p got) y mid es \<noteq> None"
    proof (cases "e = e'")
      case True
      then have "got = Inl (IoError TimedOut ''timed out'')" using step exchange_step_late[OF Cons.prems(3)] by simp
      then obtain e'' q where "parser_next P (parser_fed P p got) = Answered (Inl e'') q"
        using Cons.prems(1) unfolding gives_up_def by fastforce
      then show ?thesis by (subst parse_value.simps) simp
    next
      case False
      then show ?thesis using Cons by auto
    qed
    with Wants step show ?thesis by (subst parse_value.simps) simp
  qed
qed simp

section \<open>A conversation\<close>

definition wire_of :: "(str list \<Rightarrow> str) \<Rightarrow> asking \<Rightarrow> str" where
  "wire_of encode a = encode (command_of (asking_args a) # tl (asking_args a))"

definition refusal_for :: "asking \<Rightarrow> reply collected" where
  "refusal_for a = Inl (not_sent (command_of (asking_args a)))"

lemma ask_broken: "conn_broken c \<Longrightarrow> ask P encode c a = Some (c, refusal_for a)"
  by (simp add: ask_def refusal_for_def)

lemma conversed_broken: "conn_broken c \<Longrightarrow> conversed P encode c as = Some (c, map refusal_for as)"
  by (induction as) (simp_all add: ask_broken)

lemma ask_open:
  assumes "\<not> conn_broken c"
  shows "ask P encode c a =
    (let d = asking_at a + conn_within c; command = command_of (asking_args a)
     in case write_before d (wire_of encode a) 0 (asking_writes a) of
          None \<Rightarrow> None
        | Some (w, ended) \<Rightarrow>
            (let c' = c\<lparr>conn_sent := conn_sent c @ take w (wire_of encode a)\<rparr>
             in case ended of
                  Inl e \<Rightarrow> Some (c'\<lparr>conn_broken := True\<rparr>, Inl (exchange_failure c command e))
                | Inr u \<Rightarrow> (case receive_reply P c' command d (asking_reads a) of
                    None \<Rightarrow> None
                  | Some (c'', Inl e) \<Rightarrow> Some (c''\<lparr>conn_broken := True\<rparr>, Inl e)
                  | Some (c'', Inr r) \<Rightarrow> Some (c''\<lparr>conn_broken := False\<rparr>, r))))"
  using assms by (simp add: ask_def send_command_def wire_of_def Let_def split: option.split sum.split)

lemma receive_reply_Some:
  assumes "receive_reply P c command d es = Some (c', r)"
  obtains p x incoming answer where
    "parse_value P d (conn_bound c) (conn_parser c) \<lparr>exchange_read = 0, exchange_interrupted = None\<rparr> (conn_incoming c) es = Some (p, x, incoming, answer)"
    "c' = c\<lparr>conn_parser := p, conn_incoming := incoming\<rparr>" "(\<exists>v. answer = Inr v) \<longleftrightarrow> (\<exists>q. r = Inr q)"
proof -
  from assms obtain p x incoming answer where got:
    "parse_value P d (conn_bound c) (conn_parser c) \<lparr>exchange_read = 0, exchange_interrupted = None\<rparr> (conn_incoming c) es = Some (p, x, incoming, answer)"
    by (auto simp: receive_reply_def)
  with assms show thesis by (intro that[OF got]) (auto simp: receive_reply_def split: sum.splits)
qed

lemma ask_cases:
  assumes "ask P encode c a = Some (c', r)" "\<not> conn_broken c"
  obtains
    (unsent) w e where "conn_broken c'" "conn_sent c' = conn_sent c @ take w (wire_of encode a)" "conn_incoming c' = conn_incoming c" "r = Inl e"
  | (received) p x incoming answer where
      "parse_value P (asking_at a + conn_within c) (conn_bound c) (conn_parser c) \<lparr>exchange_read = 0, exchange_interrupted = None\<rparr>
         (conn_incoming c) (asking_reads a) = Some (p, x, incoming, answer)"
      "conn_sent c' = conn_sent c @ wire_of encode a" "conn_incoming c' = incoming"
      "conn_broken c' \<longleftrightarrow> (\<nexists>v. answer = Inr v)" "conn_broken c' \<Longrightarrow> \<exists>e. r = Inl e"
proof -
  let ?d = "asking_at a + conn_within c"
  from assms obtain w ended where w: "write_before ?d (wire_of encode a) 0 (asking_writes a) = Some (w, ended)"
    by (simp add: ask_open Let_def split: option.splits prod.splits)
  show thesis
  proof (cases ended)
    case (Inl e)
    with assms w unsent show thesis by (simp add: ask_open Let_def) fastforce
  next
    case (Inr u)
    let ?c = "c\<lparr>conn_sent := conn_sent c @ take w (wire_of encode a)\<rparr>"
    have all: "take w (wire_of encode a) = wire_of encode a" using write_before_spec[OF w] Inr by simp
    from assms w Inr obtain c'' q where q: "receive_reply P ?c (command_of (asking_args a)) ?d (asking_reads a) = Some (c'', q)"
      "(\<exists>e. q = Inl e \<and> c' = c''\<lparr>conn_broken := True\<rparr> \<and> r = Inl e) \<or> (\<exists>t. q = Inr t \<and> c' = c''\<lparr>conn_broken := False\<rparr> \<and> r = t)"
      by (simp add: ask_open Let_def split: option.splits prod.splits sum.splits)
    from q(1) obtain p x incoming answer where got: "parse_value P ?d (conn_bound c) (conn_parser c) \<lparr>exchange_read = 0, exchange_interrupted = None\<rparr>
         (conn_incoming c) (asking_reads a) = Some (p, x, incoming, answer)"
       "c'' = ?c\<lparr>conn_parser := p, conn_incoming := incoming\<rparr>" "(\<exists>v. answer = Inr v) \<longleftrightarrow> (\<exists>t. q = Inr t)"
      by (rule receive_reply_Some) simp
    show thesis
      by (rule received[OF got(1)]) (use q(2) got(2,3) all in auto)
  qed
qed

text \<open>One question puts its whole command on the wire, or a part of it and breaks the connection.\<close>

lemma ask_sends:
  assumes "ask P encode c a = Some (c', r)" "\<not> conn_broken c"
  shows "(\<not> conn_broken c' \<and> conn_sent c' = conn_sent c @ wire_of encode a) \<or>
    (conn_broken c' \<and> (\<exists>w. conn_sent c' = conn_sent c @ take w (wire_of encode a)) \<and> (\<exists>e. r = Inl e))"
  using assms
proof (cases rule: ask_cases)
  case (received p x incoming answer)
  have "conn_sent c' = conn_sent c @ take (length (wire_of encode a)) (wire_of encode a)" using received(2) by simp
  with received(2,5) show ?thesis by blast
qed auto

definition whole_conversation :: "(str list \<Rightarrow> str) \<Rightarrow> 'p resp_connection \<Rightarrow> asking list \<Rightarrow> 'p resp_connection \<Rightarrow> bool" where
  "whole_conversation encode c as c' \<longleftrightarrow> \<not> conn_broken c' \<and> conn_sent c' = conn_sent c @ concat (map (wire_of encode) as)"

definition broken_conversation :: "(str list \<Rightarrow> str) \<Rightarrow> 'p resp_connection \<Rightarrow> asking list \<Rightarrow> 'p resp_connection \<Rightarrow> reply collected list \<Rightarrow> bool" where
  "broken_conversation encode c as c' rs \<longleftrightarrow> conn_broken c' \<and>
     (\<exists>us a vs w e before. as = us @ a # vs \<and>
        conn_sent c' = conn_sent c @ concat (map (wire_of encode) us) @ take w (wire_of encode a) \<and>
        length before = length us \<and> rs = before @ Inl e # map refusal_for vs)"

lemma conversation:
  "conversed P encode c as = Some (c', rs) \<Longrightarrow> \<not> conn_broken c \<Longrightarrow>
     whole_conversation encode c as c' \<or> broken_conversation encode c as c' rs"
proof (induction as arbitrary: c rs)
  case (Cons a as)
  from Cons.prems obtain c1 r rs' where one: "ask P encode c a = Some (c1, r)" and
    rest: "conversed P encode c1 as = Some (c', rs')" and rs: "rs = r # rs'"
    by (auto split: option.splits)
  from ask_sends[OF one Cons.prems(2)] show ?case
  proof
    assume whole: "\<not> conn_broken c1 \<and> conn_sent c1 = conn_sent c @ wire_of encode a"
    then consider "whole_conversation encode c1 as c'" | "broken_conversation encode c1 as c' rs'" using Cons.IH[OF rest] by blast
    then show ?thesis
    proof cases
      case 1
      with whole show ?thesis by (simp add: whole_conversation_def)
    next
      case 2
      then obtain us b vs w e before where split: "as = us @ b # vs" "length before = length us"
        "conn_sent c' = conn_sent c1 @ concat (map (wire_of encode) us) @ take w (wire_of encode b)"
        "rs' = before @ Inl e # map refusal_for vs" "conn_broken c'"
        by (auto simp: broken_conversation_def)
      then have "a # as = (a # us) @ b # vs \<and> conn_sent c' = conn_sent c @ concat (map (wire_of encode) (a # us)) @ take w (wire_of encode b)
        \<and> length (r # before) = length (a # us) \<and> rs = (r # before) @ Inl e # map refusal_for vs"
        using whole rs by simp
      with split(5) show ?thesis unfolding broken_conversation_def by blast
    qed
  next
    assume broken: "conn_broken c1 \<and> (\<exists>w. conn_sent c1 = conn_sent c @ take w (wire_of encode a)) \<and> (\<exists>e. r = Inl e)"
    then have "c' = c1" "rs' = map refusal_for as" using rest conversed_broken[of c1] by auto
    with broken rs obtain w e where "a # as = [] @ a # as \<and> conn_sent c' = conn_sent c @ concat (map (wire_of encode) []) @ take w (wire_of encode a)
      \<and> length ([] :: reply collected list) = length ([] :: asking list) \<and> rs = [] @ Inl e # map refusal_for as" by auto
    with broken \<open>c' = c1\<close> show ?thesis unfolding broken_conversation_def by blast
  qed
qed (simp add: whole_conversation_def)

text \<open>One question reads no more than the bound and one byte; what it is answered with was within the bound.\<close>

lemma ask_reads:
  assumes "ask P encode c a = Some (c', r)"
  shows "\<exists>n \<le> conn_bound c + 1. conn_incoming c' = drop n (conn_incoming c) \<and>
    (gives_up P \<and> \<not> conn_broken c' \<longrightarrow> n \<le> conn_bound c)"
proof (cases "conn_broken c")
  case True
  then have "conn_incoming c' = drop 0 (conn_incoming c)" using assms by (simp add: ask_broken)
  then show ?thesis by blast
next
  case False
  show ?thesis using assms False
  proof (cases rule: ask_cases)
    case (unsent w e)
    then have "conn_incoming c' = drop 0 (conn_incoming c)" by simp
    then show ?thesis by blast
  next
    case (received p x incoming answer)
    have "exchange_read x \<le> conn_bound c + 1" "incoming = drop (exchange_read x) (conn_incoming c)"
      using parse_value_spec[OF received(1)] by simp_all
    moreover have "exchange_read x \<le> conn_bound c" if "gives_up P" "\<not> conn_broken c'"
    proof -
      from received(4) that(2) obtain v where "answer = Inr v" by blast
      with received(1) show ?thesis using parse_value_bounded[OF that(1)] by fastforce
    qed
    ultimately show ?thesis using received(3) by blast
  qed
qed

text \<open>A question is answered by its deadline: an attempt to write or read at it or later is the last.\<close>

lemma ask_returns:
  assumes "gives_up P" "\<exists>e \<in> set (asking_writes a). asking_at a + conn_within c \<le> write_at e"
    "\<exists>e \<in> set (asking_reads a). asking_at a + conn_within c \<le> read_at e"
  shows "ask P encode c a \<noteq> None"
proof (cases "conn_broken c")
  case False
  let ?d = "asking_at a + conn_within c"
  from assms(2) have "write_before ?d (wire_of encode a) 0 (asking_writes a) \<noteq> None" using write_before_returns by blast
  then obtain w ended where w: "write_before ?d (wire_of encode a) 0 (asking_writes a) = Some (w, ended)" by auto
  have "receive_reply P c' command ?d (asking_reads a) \<noteq> None" for c' command
    using parse_value_returns[OF assms(1)] assms(3) by (auto simp: receive_reply_def)
  with w show ?thesis by (auto simp: ask_open[OF False] Let_def split: option.splits sum.splits)
qed (simp add: ask_broken)

end
