(* ===== verification/RedisInventory.thy ===== *)
theory RedisInventory
  imports RedisServers RedisConnection Claims
begin

text \<open>
  Every server on the box, each asked what discovery says it may be asked (\<open>redis/source/server_inventory.rs\<close>), and the
  collector itself (\<open>redis.rs\<close>).  What the world does while a server is read is one record: whether its network
  namespace can be entered, whether the connection is made, and one script of the socket's answers for each
  question.  A call that has not returned makes the whole \<open>None\<close>.
\<close>

section \<open>Reading one server\<close>

datatype lacking = Lacked str | LackFailed str

record server_world =
  world_opens :: "str \<Rightarrow> (str \<times> bool) option"
  world_joins :: "str \<Rightarrow> (str \<times> bool) option"
  world_connects :: "str option \<Rightarrow> socket_addr \<Rightarrow> io_error + str"
  world_timeouts :: "io_error option"
  world_scripts :: "asking list"

definition unasked :: "discovered_server \<Rightarrow> redis_instance" where
  "unasked s = \<lparr>process_kind = server_family s, instance_listening = server_listeners s, instance_identity = None,
     instance_settings = None, instance_replication = None, instance_acl = None, instance_modules = None,
     instance_not_read = [], instance_errors = []\<rparr>"

fun record_lack :: "lacking \<Rightarrow> redis_instance \<Rightarrow> redis_instance" where
  "record_lack (Lacked reason) i = i\<lparr>instance_not_read := instance_not_read i @ [reason]\<rparr>"
| "record_lack (LackFailed reason) i = i\<lparr>instance_errors := instance_errors i @ [reason]\<rparr>"

definition lack_of :: "(str \<Rightarrow> str) \<Rightarrow> collection_error \<Rightarrow> lacking" where
  "lack_of D e = LackFailed (rendered D e)"

text \<open>A server's refusal said in words.\<close>

definition refusal_in :: "str list \<Rightarrow> reply \<Rightarrow> lacking + reply" where
  "refusal_in command r = (case r of
      ErrorReply message \<Rightarrow>
        if starts_with ''NOAUTH'' message
        then Inl (Lacked ''the server requires a password, which rastro does not look for'')
        else Inl (Lacked (''the server refused '' @ joined_with '' '' command @ '': '' @ shortened message))
    | _ \<Rightarrow> Inr r)"

definition text_in :: "str list \<Rightarrow> reply \<Rightarrow> lacking + str" where
  "text_in command r = and_then (refusal_in command r) (\<lambda>r. case r of
      BulkReply s \<Rightarrow> Inr s
    | _ \<Rightarrow> Inl (LackFailed (''the server answered '' @ joined_with '' '' command @ '' with '' @ reply_kind r @ '' rather than text'')))"

definition info_server_command :: "str list" where
  "info_server_command = [''INFO'', ''server'']"

definition config_command :: "str list" where
  "config_command = [''CONFIG'', ''GET'', ''*'']"

definition replication_command :: "str list" where
  "replication_command = [''INFO'', ''replication'']"

definition acl_command :: "str list" where
  "acl_command = [''ACL'', ''LIST'']"

definition modules_command :: "str list" where
  "modules_command = [''MODULE'', ''LIST'']"

definition identify :: "(str \<Rightarrow> str) \<Rightarrow> reply \<Rightarrow> lacking + server_identity" where
  "identify D r = and_then (text_in info_server_command r) (\<lambda>s. map_err (lack_of D) (info_server_parse s))"

definition untried_note :: "socket_addr \<Rightarrow> redis_listener list \<Rightarrow> str" where
  "untried_note address listening =
     (let untried = map redis_listener_shown (filter (\<lambda>l. port_word (redis_port l) \<noteq> addr_port address) listening)
      in if untried = [] then []
         else ''; it also listens on '' @ joined_with '', '' untried @
           '', not tried, because that may be its TLS port and a plain client there is a line in the server's log'')"

text \<open>A connection on which questions are asked, with the questions that were.\<close>

record 'p talk =
  talk_connection :: "'p resp_connection"
  talk_scripts :: "asking list"
  talk_asked :: "str list list"

definition ask_next :: "'p resp_parser \<Rightarrow> (str list \<Rightarrow> str) \<Rightarrow> 'p talk \<Rightarrow> str list \<Rightarrow> ('p talk \<times> reply collected) option" where
  "ask_next P encode t command = (case talk_scripts t of
      [] \<Rightarrow> None
    | script # rest \<Rightarrow> map_option (\<lambda>(c, r). (t\<lparr>talk_connection := c, talk_scripts := rest, talk_asked := talk_asked t @ [command]\<rparr>, r))
        (ask P encode (talk_connection t) (script\<lparr>asking_args := command\<rparr>)))"

text \<open>One item: its question, how the answer is read, and where it goes.\<close>

definition read_item :: "(str \<Rightarrow> str) \<Rightarrow> 'p resp_parser \<Rightarrow> (str list \<Rightarrow> str) \<Rightarrow> str list \<Rightarrow> (reply \<Rightarrow> lacking + 'a)
    \<Rightarrow> ('a \<Rightarrow> redis_instance \<Rightarrow> redis_instance) \<Rightarrow> 'p talk \<times> redis_instance \<Rightarrow> ('p talk \<times> redis_instance) option" where
  "read_item D P encode command reads puts ti = (case ask_next P encode (fst ti) command of
      None \<Rightarrow> None
    | Some (t, answer) \<Rightarrow> Some (t,
        case and_then (map_err (lack_of D) answer) reads of
          Inr x \<Rightarrow> puts x (snd ti)
        | Inl lack \<Rightarrow> record_lack lack (snd ti)))"

definition read_settings where
  "read_settings D P encode = read_item D P encode config_command
     (\<lambda>r. and_then (refusal_in config_command r) (\<lambda>r. map_err (lack_of D) (config_get_parse r)))
     (\<lambda>x i. i\<lparr>instance_settings := Some x\<rparr>)"

definition read_replication where
  "read_replication D P encode = read_item D P encode replication_command
     (\<lambda>r. and_then (text_in replication_command r) (\<lambda>s. map_err (lack_of D) (info_replication_parse s)))
     (\<lambda>x i. i\<lparr>instance_replication := Some x\<rparr>)"

definition read_accounts where
  "read_accounts D P encode ti =
     (if (case instance_identity (snd ti) of Some identity \<Rightarrow> has_accounts identity | None \<Rightarrow> False)
      then read_item D P encode acl_command
        (\<lambda>r. and_then (refusal_in acl_command r) (\<lambda>r. map_err (lack_of D) (acl_list_parse r)))
        (\<lambda>x i. i\<lparr>instance_acl := Some x\<rparr>) ti
      else Some ti)"

definition read_modules where
  "read_modules D P encode = read_item D P encode modules_command
     (\<lambda>r. and_then (refusal_in modules_command r) (\<lambda>r. map_err (lack_of D) (module_list_parse r)))
     (\<lambda>x i. i\<lparr>instance_modules := Some x\<rparr>)"

definition is_sentinel :: "redis_instance \<Rightarrow> bool" where
  "is_sentinel i \<longleftrightarrow> Option.bind (instance_identity i) identity_mode = Some ''sentinel''"

definition sentinel_reason :: str where
  "sentinel_reason = ''it is a sentinel, which this facet names and does not read beyond its identity''"

text \<open>After the first answer.\<close>

definition read_further :: "(str \<Rightarrow> str) \<Rightarrow> 'p resp_parser \<Rightarrow> (str list \<Rightarrow> str) \<Rightarrow> 'p talk \<Rightarrow> redis_instance \<Rightarrow> ('p talk \<times> redis_instance) option" where
  "read_further D P encode t i =
     (if is_sentinel i then Some (t, record_lack (Lacked sentinel_reason) i)
      else Option.bind (Option.bind (Option.bind (read_settings D P encode (t, i)) (read_replication D P encode))
        (read_accounts D P encode)) (read_modules D P encode))"

definition read_instance :: "(str \<Rightarrow> str) \<Rightarrow> 'p resp_parser \<Rightarrow> (str list \<Rightarrow> str) \<Rightarrow> server_world \<Rightarrow> discovered_server
    \<Rightarrow> ('p talk option \<times> redis_instance) option" where
  "read_instance D P encode W s =
     (let i = unasked s
      in case server_reach s of
           Inl why \<Rightarrow> Some (None, record_lack (if unreached_withheld why then Lacked (unreached_reason why) else LackFailed (unreached_reason why)) i)
         | Inr target \<Rightarrow>
             (case namespace_run (world_opens W) (world_joins W) (server_namespace s)
                 (\<lambda>ns. Some (dial P (world_connects W ns target) (world_timeouts W) target)) of
                None \<Rightarrow> None
              | Some (Inl refusal) \<Rightarrow> Some (None, record_lack (if refusal_refused refusal then Lacked (refusal_reason refusal) else LackFailed (refusal_reason refusal)) i)
              | Some (Inr (Inl error)) \<Rightarrow> Some (None, record_lack (LackFailed (rendered D error @ untried_note target (instance_listening i))) i)
              | Some (Inr (Inr c)) \<Rightarrow>
                  (case ask_next P encode \<lparr>talk_connection = c, talk_scripts = world_scripts W, talk_asked = []\<rparr> info_server_command of
                     None \<Rightarrow> None
                   | Some (t, Inl error) \<Rightarrow> Some (Some t, record_lack (LackFailed (rendered D error @ untried_note target (instance_listening i))) i)
                   | Some (t, Inr first) \<Rightarrow> (case identify D first of
                        Inl lack \<Rightarrow> Some (Some t, record_lack lack i)
                      | Inr identity \<Rightarrow> map_option (\<lambda>(t, i). (Some t, i)) (read_further D P encode t (i\<lparr>instance_identity := Some identity\<rparr>))))))"

section \<open>The box\<close>

definition facet_budget :: nat where
  "facet_budget = 60 * 1000000000"

text \<open>\<open>elapsed\<close> is the time spent when a server's turn comes.\<close>

definition server_instance :: "(str \<Rightarrow> str) \<Rightarrow> 'p resp_parser \<Rightarrow> (str list \<Rightarrow> str) \<Rightarrow> nat \<Rightarrow> (discovered_server \<Rightarrow> nat \<times> server_world)
    \<Rightarrow> discovered_server \<Rightarrow> redis_instance option" where
  "server_instance D P encode budget W s =
     (if fst (W s) < budget then map_option snd (read_instance D P encode (snd (W s)) s)
      else Some (record_lack (LackFailed (''not read: the facet's time budget of '' @ duration_shown budget @
        '' was spent on the servers before it'')) (unasked s)))"

fun all_returned :: "'a option list \<Rightarrow> 'a list option" where
  "all_returned [] = Some []"
| "all_returned (x # xs) = (case x of None \<Rightarrow> None | Some a \<Rightarrow> map_option ((#) a) (all_returned xs))"

definition read_installation :: "(str \<Rightarrow> str) \<Rightarrow> 'p resp_parser \<Rightarrow> (str list \<Rightarrow> str) \<Rightarrow> bool \<Rightarrow> redis_host \<Rightarrow> str \<Rightarrow> server_kind list \<Rightarrow> nat
    \<Rightarrow> (discovered_server \<Rightarrow> nat \<times> server_world) \<Rightarrow> redis_installation option" where
  "read_installation D P encode little h proc installed budget W =
     map_option (\<lambda>is. \<lparr>redis_installed = installed, redis_instances = btree_collect (zip (map server_key (discover little h proc)) is),
         uninspected_processes = some_processes_unseen (resident_census h)\<rparr>)
       (all_returned (map (server_instance D P encode budget W) (discover little h proc)))"

section \<open>The collector\<close>

definition redis_presence :: "redis_host \<Rightarrow> server_kind list \<Rightarrow> presence" where
  "redis_presence h installed =
     (let census = resident_census h
      in if census_servers census \<noteq> [] \<or> installed \<noteq> [] then Present
         else if some_processes_unseen census
         then Undetermined (CollectionError ''some processes could not be inspected, so a server among them would not be found'' [])
         else Absent)"

definition redis_claim :: "str \<Rightarrow> str \<Rightarrow> filesystem_claim option" where
  "redis_claim key f = (if valid_utf8 f then
      map_option (\<lambda>tree. case claim_qualifier_new key of Inr q \<Rightarrow> for_entry (claim_sealed tree) q | Inl _ \<Rightarrow> claim_sealed tree)
        (result_ok (walked_tree_new f))
      else None)"

text \<open>\<open>spelled\<close> is how a path is spelled.\<close>

definition redis_claims :: "(path \<Rightarrow> str) \<Rightarrow> bool \<Rightarrow> redis_host \<Rightarrow> host_files \<Rightarrow> str \<Rightarrow> path \<Rightarrow> filesystem_claim list" where
  "redis_claims spelled little h H proc proc_path =
     concat (map (\<lambda>s. List.map_filter (\<lambda>f. redis_claim (server_key s) (spelled f)) (server_files_of h H proc_path (server_pid s)))
       (discover little h proc))"

definition redis_collect :: "hashes \<Rightarrow> redis_installation \<Rightarrow> observation collected" where
  "redis_collect H i = Inr (redis_installation_observed H i)"

section \<open>Every server is in the document\<close>

lemma all_returned_iff: "all_returned xs = Some ys \<longleftrightarrow> xs = map Some ys"
proof (induction xs arbitrary: ys)
  case (Cons x xs)
  then show ?case by (cases ys) (auto split: option.splits)
qed auto

lemma installation_instances:
  assumes "read_installation D P encode little h proc installed budget W = Some i"
  shows "set (redis_instances i) = {(server_key s, r) | s r. s \<in> set (discover little h proc) \<and> server_instance D P encode budget W s = Some r}"
    "length (redis_instances i) = length (discover little h proc)" "btree_sorted (redis_instances i)"
proof -
  let ?ds = "discover little h proc"
  from assms obtain rs where rs: "map (server_instance D P encode budget W) ?ds = map Some rs"
    "redis_instances i = btree_collect (zip (map server_key ?ds) rs)"
    by (auto simp: read_installation_def all_returned_iff)
  have len: "length ?ds = length rs" using rs(1) by (metis length_map)
  have keys: "map fst (zip (map server_key ?ds) rs) = map server_key ?ds" using len by simp
  have dist: "distinct (map fst (zip (map server_key ?ds) rs))" unfolding keys by (rule discover_keys_distinct)
  have nth: "server_instance D P encode budget W (?ds ! k) = Some (rs ! k)" if "k < length ?ds" for k
    using that len rs(1) by (metis nth_map)
  have same: "set (redis_instances i) = set (zip (map server_key ?ds) rs)" using btree_collect_distinct[OF dist] rs(2) by simp
  show "set (redis_instances i) = {(server_key s, r) | s r. s \<in> set ?ds \<and> server_instance D P encode budget W s = Some r}"
  proof (intro set_eqI iffI)
    fix x assume "x \<in> set (redis_instances i)"
    then obtain k where "k < length ?ds" "x = (server_key (?ds ! k), rs ! k)" unfolding same by (auto simp: set_zip)
    with nth show "x \<in> {(server_key s, r) | s r. s \<in> set ?ds \<and> server_instance D P encode budget W s = Some r}" by fastforce
  next
    fix x assume "x \<in> {(server_key s, r) | s r. s \<in> set ?ds \<and> server_instance D P encode budget W s = Some r}"
    then obtain k r where "k < length ?ds" "x = (server_key (?ds ! k), r)" "server_instance D P encode budget W (?ds ! k) = Some r"
      by (auto simp: in_set_conv_nth)
    with nth len show "x \<in> set (redis_instances i)" unfolding same by (force simp: set_zip)
  qed
  show sorted: "btree_sorted (redis_instances i)" unfolding rs(2) by (rule btree.invar_collect)
  then have "distinct (map fst (redis_instances i))" by (simp add: btree_sorted_def strict_sorted_iff)
  then have "length (redis_instances i) = card (fst ` set (redis_instances i))" by (metis distinct_card length_map set_map)
  also have "\<dots> = card (set (map server_key ?ds))" unfolding same using keys by (metis set_map)
  finally show "length (redis_instances i) = length ?ds" using distinct_card[OF discover_keys_distinct] by simp
qed

text \<open>A box is only said to hold nothing where every process was seen and none is a server.\<close>

lemma redis_absent_iff:
  "redis_presence h installed = Absent \<longleftrightarrow> installed = [] \<and> resident_servers h = [] \<and>
     (\<exists>entries. host_entries h = Some entries \<and> (\<forall>e \<in> set entries. \<not> entry_unseen h e))"
  using census_complete_iff[of h] by (auto simp: redis_presence_def resident_servers_def Let_def split: option.splits)

section \<open>What a server is sent\<close>

text \<open>On the wire: the questions asked, whole and in order, or up to a part of one, after which nothing was sent.\<close>

definition talk_ok :: "(str list \<Rightarrow> str) \<Rightarrow> 'p talk \<Rightarrow> bool" where
  "talk_ok encode t \<longleftrightarrow>
     (if conn_broken (talk_connection t)
      then \<exists>us c vs w. talk_asked t = us @ c # vs \<and> conn_sent (talk_connection t) = concat (map encode us) @ take w (encode c)
      else conn_sent (talk_connection t) = concat (map encode (talk_asked t)))"

lemma wire_of_command: "command \<noteq> [] \<Longrightarrow> wire_of encode (script\<lparr>asking_args := command\<rparr>) = encode command"
  by (cases command) (simp_all add: wire_of_def command_of_def)

lemma ask_next_ok:
  assumes "ask_next P encode t command = Some (t', r)" "talk_ok encode t" "command \<noteq> []"
  shows "talk_ok encode t'" "talk_asked t' = talk_asked t @ [command]"
proof -
  from assms(1) obtain script rest c where step: "ask P encode (talk_connection t) (script\<lparr>asking_args := command\<rparr>) = Some (c, r)"
    "t' = t\<lparr>talk_connection := c, talk_scripts := rest, talk_asked := talk_asked t @ [command]\<rparr>"
    by (auto simp: ask_next_def split: list.splits)
  then show asked: "talk_asked t' = talk_asked t @ [command]" by simp
  show "talk_ok encode t'"
  proof (cases "conn_broken (talk_connection t)")
    case True
    then have "c = talk_connection t" using step(1) by (simp add: ask_broken)
    moreover from True assms(2) obtain us a vs w where "talk_asked t = us @ a # vs"
      "conn_sent (talk_connection t) = concat (map encode us) @ take w (encode a)"
      unfolding talk_ok_def by auto
    then have "talk_asked t' = us @ a # (vs @ [command]) \<and> conn_sent (talk_connection t) = concat (map encode us) @ take w (encode a)"
      using asked by simp
    ultimately show ?thesis using True step(2) unfolding talk_ok_def by auto
  next
    case False
    then have sent: "conn_sent (talk_connection t) = concat (map encode (talk_asked t))" using assms(2) by (simp add: talk_ok_def)
    from ask_sends[OF step(1) False] show ?thesis
    proof
      assume "\<not> conn_broken c \<and> conn_sent c = conn_sent (talk_connection t) @ wire_of encode (script\<lparr>asking_args := command\<rparr>)"
      then show ?thesis using sent step(2) by (simp add: talk_ok_def wire_of_command[OF assms(3)])
    next
      assume "conn_broken c \<and> (\<exists>w. conn_sent c = conn_sent (talk_connection t) @ take w (wire_of encode (script\<lparr>asking_args := command\<rparr>))) \<and> (\<exists>e. r = Inl e)"
      then obtain w where "conn_broken c" "talk_asked t' = talk_asked t @ command # [] \<and> conn_sent c = concat (map encode (talk_asked t)) @ take w (encode command)"
        using sent asked by (auto simp: wire_of_command[OF assms(3)])
      then show ?thesis using step(2) unfolding talk_ok_def by auto
    qed
  qed
qed

lemma record_lack_identity [simp]: "instance_identity (record_lack l i) = instance_identity i"
  by (cases l) simp_all

lemma read_item_ok:
  assumes "read_item D P encode command reads puts ti = Some ti'" "talk_ok encode (fst ti)" "command \<noteq> []"
    "\<And>x i. instance_identity (puts x i) = instance_identity i"
  shows "talk_ok encode (fst ti') \<and> talk_asked (fst ti') = talk_asked (fst ti) @ [command] \<and> instance_identity (snd ti') = instance_identity (snd ti)"
  using assms ask_next_ok[OF _ assms(2,3), of P]
  by (auto simp: read_item_def split: option.splits sum.splits)

definition questions_for :: "redis_instance \<Rightarrow> str list list" where
  "questions_for i = info_server_command #
     (case instance_identity i of
        None \<Rightarrow> []
      | Some identity \<Rightarrow> if is_sentinel i then []
          else [config_command, replication_command] @ (if has_accounts identity then [acl_command] else []) @ [modules_command])"

lemmas command_defs = info_server_command_def config_command_def replication_command_def acl_command_def modules_command_def

lemma read_further_ok:
  assumes "read_further D P encode t i = Some (t', i')" "talk_ok encode t" "talk_asked t = [info_server_command]" "instance_identity i = Some identity"
  shows "talk_ok encode t' \<and> talk_asked t' = questions_for i' \<and> instance_identity i' = Some identity"
proof (cases "is_sentinel i")
  case True
  then have "t' = t" "i' = record_lack (Lacked sentinel_reason) i" using assms(1) by (simp_all add: read_further_def)
  with True assms show ?thesis by (simp add: questions_for_def is_sentinel_def)
next
  case False
  with assms(1) obtain a b c where steps: "read_settings D P encode (t, i) = Some a" "read_replication D P encode a = Some b"
    "read_accounts D P encode b = Some c" "read_modules D P encode c = Some (t', i')"
    by (auto simp: read_further_def bind_eq_Some_conv)
  have a: "talk_ok encode (fst a) \<and> talk_asked (fst a) = [info_server_command, config_command] \<and> instance_identity (snd a) = Some identity"
    using read_item_ok[OF steps(1)[unfolded read_settings_def]] assms by (simp add: command_defs)
  have b: "talk_ok encode (fst b) \<and> talk_asked (fst b) = [info_server_command, config_command, replication_command] \<and> instance_identity (snd b) = Some identity"
    using read_item_ok[OF steps(2)[unfolded read_replication_def]] a by (simp add: command_defs)
  have c: "talk_ok encode (fst c) \<and> instance_identity (snd c) = Some identity \<and>
      talk_asked (fst c) = [info_server_command, config_command, replication_command] @ (if has_accounts identity then [acl_command] else [])"
  proof (cases "has_accounts identity")
    case True
    then show ?thesis using read_item_ok[OF steps(3)[unfolded read_accounts_def, simplified b option.case True if_True]] b by (simp add: command_defs)
  next
    case False
    then show ?thesis using steps(3) b by (simp add: read_accounts_def)
  qed
  have "talk_ok encode t' \<and> instance_identity i' = Some identity \<and> talk_asked t' = talk_asked (fst c) @ [modules_command]"
    using read_item_ok[OF steps(4)[unfolded read_modules_def]] c by (simp add: command_defs)
  with c False assms(4) show ?thesis by (simp add: questions_for_def is_sentinel_def)
qed

lemma connection_over_ok: "connection_over P refused incoming = Inr c \<Longrightarrow> \<not> conn_broken c \<and> conn_sent c = []"
  by (auto simp: connection_over_def timing_out_after_def split: option.splits)

lemma server_is_sent_questions:
  assumes "read_instance D P encode W s = Some (Some t, i)"
  shows "talk_ok encode t \<and> talk_asked t = questions_for i"
proof -
  from assms obtain target where first: "server_reach s = Inr target" by (auto simp: read_instance_def Let_def split: sum.splits)
  from assms first obtain c where run: "namespace_run (world_opens W) (world_joins W) (server_namespace s)
      (\<lambda>ns. Some (dial P (world_connects W ns target) (world_timeouts W) target)) = Some (Inr (Inr c))"
    by (auto simp: read_instance_def Let_def split: option.splits sum.splits)
  then have "\<exists>ns. dial P (world_connects W ns target) (world_timeouts W) target = Inr c"
    using namespace_run_answers(1)[OF run] by (auto split: if_splits)
  then have fresh: "\<not> conn_broken c \<and> conn_sent c = []" using connection_over_ok by (fastforce simp: dial_def split: sum.splits)
  define t0 where "t0 = \<lparr>talk_connection = c, talk_scripts = world_scripts W, talk_asked = []\<rparr>"
  have t0: "talk_ok encode t0" "talk_asked t0 = []" using fresh by (simp_all add: talk_ok_def t0_def)
  from assms first run obtain t1 answer where one: "ask_next P encode t0 info_server_command = Some (t1, answer)"
    by (auto simp: read_instance_def Let_def t0_def split: option.splits)
  have t1: "talk_ok encode t1" "talk_asked t1 = [info_server_command]"
    using ask_next_ok[OF one t0(1)] t0(2) by (simp_all add: command_defs)
  show ?thesis
  proof (cases "\<exists>r identity. answer = Inr r \<and> identify D r = Inr identity")
    case True
    then obtain r identity where r: "answer = Inr r" "identify D r = Inr identity" by blast
    with assms first run one have "read_further D P encode t1 ((unasked s)\<lparr>instance_identity := Some identity\<rparr>) = Some (t, i)"
      by (auto simp: read_instance_def Let_def t0_def)
    then show ?thesis using read_further_ok[OF _ t1] by auto
  next
    case False
    with assms first run one have "t = t1" "instance_identity i = None"
      by (auto simp: read_instance_def Let_def t0_def unasked_def split: sum.splits)
    with t1 show ?thesis by (simp add: questions_for_def)
  qed
qed

end
