(* ===== verification/Guarantees.thy ===== *)
theory Guarantees
  imports Units Sockets RedisInventory
begin

text \<open>
  What the collectors guarantee, each stated over the definitions of its component's theory and proved from the
  component's lemmas, with a concrete case of each.
\<close>

section \<open>The conversation with a server\<close>

text \<open>C30. Whatever a server answers, and whatever fails, what a connection puts on the wire is the questions asked, whole and
  in order; where one could not be exchanged, no more than a part of it follows, it is answered with an error, and
  every later question is refused without a byte being sent.\<close>

theorem wire_holds_whole_commands:
  assumes "conversed P encode c as = Some (c', rs)" "\<not> conn_broken c"
  shows "whole_conversation encode c as c' \<or> broken_conversation encode c as c' rs"
  using assms by (rule conversation)

text \<open>A parser for the concrete cases: it takes what it is fed for a reply once there is a newline in it.\<close>

definition example_parser :: "(str + str) resp_parser" where
  "example_parser = \<lparr>parser_next = (\<lambda>p. case p of
       Inl e \<Rightarrow> Answered (Inl e) (Inr [])
     | Inr got \<Rightarrow> if newline \<in> set got then Answered (Inr RespOkay) (Inr []) else Wants 64),
     parser_fed = (\<lambda>p fed. case p of Inl e \<Rightarrow> Inl e | Inr got \<Rightarrow>
       (case fed of Inl err \<Rightarrow> if io_kind err = CallInterrupted then Inr got else Inl (io_shown err)
        | Inr bs \<Rightarrow> if bs = [] then Inl ''closed'' else Inr (got @ bs))),
     parser_fresh = Inr []\<rparr>"

lemma example_gives_up: "gives_up example_parser"
proof -
  have "parser_next example_parser (parser_fed example_parser p (Inl err)) = Answered (Inl (case p of Inl e \<Rightarrow> e | Inr _ \<Rightarrow> io_shown err)) (Inr [])"
    if "io_kind err \<noteq> CallInterrupted" for p err
    using that by (cases p) (simp_all add: example_parser_def)
  then show ?thesis unfolding gives_up_def by blast
qed

definition example_connection :: "str \<Rightarrow> (str + str) resp_connection" where
  "example_connection incoming = \<lparr>conn_parser = Inr [], conn_bound = 8, conn_within = 10, conn_broken = False, conn_sent = [], conn_incoming = incoming\<rparr>"

definition example_write :: "nat \<Rightarrow> io_error + nat \<Rightarrow> write_event" where
  "example_write at answer = \<lparr>write_at = at, write_timeout_refused = None, write_answer = answer\<rparr>"

definition example_read :: "nat \<Rightarrow> io_error + nat \<Rightarrow> read_event" where
  "example_read at answer = \<lparr>read_at = at, read_timeout_refused = None, read_answer = answer\<rparr>"

definition example_asking :: "str list \<Rightarrow> write_event list \<Rightarrow> read_event list \<Rightarrow> asking" where
  "example_asking command ws rs = \<lparr>asking_args = command, asking_at = 0, asking_writes = ws, asking_reads = rs\<rparr>"

lemmas example_defs = example_parser_def example_connection_def example_write_def example_read_def example_asking_def

text \<open>The second of three questions is cut off after one byte; the third is not sent.\<close>

definition example_questions :: "asking list" where
  "example_questions =
     [example_asking [''A'', ''B''] [example_write 1 (Inr 9)] [example_read 2 (Inr 9)],
      example_asking [''CD''] [example_write 1 (Inr 1), example_write 2 (Inl (IoError OtherKind ''reset''))] [],
      example_asking [''E''] [] []]"

lemmas exchange_eqs = ask_def command_of_def send_command_def receive_reply_def exchange_step_def exchange_took_def read_room_def
  taken_def most_written_at_once_def parse_value.simps example_defs newline_def Let_def

lemma example_conversation:
  "map_option (\<lambda>(c, rs). (conn_broken c, conn_sent c, map result_ok rs)) (conversed example_parser concat (example_connection [CHR ''+'', newline]) example_questions)
     = Some (True, ''ABC'', [Some (SimpleReply ''OK''), None, None])"
  by (simp add: example_questions_def exchange_eqs)

theorem wire_holds_whole_commands_witness:
  "\<exists>c' rs. conversed example_parser concat (example_connection [CHR ''+'', newline]) example_questions = Some (c', rs) \<and>
     broken_conversation concat (example_connection [CHR ''+'', newline]) example_questions c' rs"
proof -
  from example_conversation obtain c' rs where run: "conversed example_parser concat (example_connection [CHR ''+'', newline]) example_questions = Some (c', rs)"
    "conn_broken c'" by auto
  then show ?thesis
    using wire_holds_whole_commands[OF run(1)] by (auto simp: whole_conversation_def example_connection_def)
qed

text \<open>C32. A question never takes more from the stream than the bound and one byte, and one that is answered took no more than
  the bound: a longer reply is refused, never cut short.\<close>

theorem replies_stay_within_the_bound:
  assumes "gives_up P" "ask P encode c a = Some (c', r)"
  shows "\<exists>n \<le> conn_bound c + 1. conn_incoming c' = drop n (conn_incoming c) \<and> (conn_broken c' \<or> n \<le> conn_bound c)"
  using ask_reads[OF assms(2)] assms(1) by blast

theorem replies_stay_within_the_bound_witness:
  "\<exists>c' r. ask example_parser concat (example_connection ''123456789012'') (example_asking [''A''] [example_write 1 (Inr 9)] [example_read 2 (Inr 99)]) = Some (c', r) \<and>
     conn_broken c' \<and> conn_incoming c' = ''012'' \<and> (\<exists>n \<le> 9. conn_incoming c' = drop n ''123456789012'')"
proof -
  have run: "map_option (\<lambda>(c, r). (conn_broken c, conn_incoming c, result_ok r))
      (ask example_parser concat (example_connection ''123456789012'') (example_asking [''A''] [example_write 1 (Inr 9)] [example_read 2 (Inr 99)])) = Some (True, ''012'', None)"
    by (simp add: exchange_eqs)
  then obtain c' r where conversed: "ask example_parser concat (example_connection ''123456789012'') (example_asking [''A''] [example_write 1 (Inr 9)] [example_read 2 (Inr 99)]) = Some (c', r)"
    "conn_broken c'" "conn_incoming c' = ''012''" by auto
  from replies_stay_within_the_bound[OF example_gives_up conversed(1)] conversed show ?thesis
    by (auto simp: example_connection_def)
qed



text \<open>C34. A server is sent, whole and in this order and nothing else, the question what it is; where it answered that, and is
  no sentinel, its settings, its place in replication, its accounts where its release has them, and its modules.  A server
  that wants a password is sent nothing more.\<close>

theorem servers_are_sent_five_questions:
  assumes "read_instance D P encode W s = Some (Some t, i)"
  shows "talk_ok encode t \<and> talk_asked t = questions_for i"
  using assms by (rule server_is_sent_questions)

definition example_server :: discovered_server where
  "example_server = \<lparr>server_key = ''6379'', server_family = Redis, server_pid = 7, server_listeners = [],
     server_reach = Inr \<lparr>addr_ip = V4 [CHR 0x7F, CHR 0x00, CHR 0x00, CHR 0x01], addr_port = 6379\<rparr>,
     server_namespace = our_namespace, shared_port_key = None\<rparr>"

definition example_world :: server_world where
  "example_world = \<lparr>world_opens = (\<lambda>_. None), world_joins = (\<lambda>_. None), world_connects = (\<lambda>_ _. Inr [CHR ''+'', newline]),
     world_timeouts = None, world_scripts = [example_asking [] [example_write 1 (Inr 99)] [example_read 2 (Inr 9)]]\<rparr>"

theorem servers_are_sent_five_questions_witness:
  "\<exists>t i. read_instance id example_parser concat example_world example_server = Some (Some t, i) \<and>
     talk_asked t = [[''INFO'', ''server'']] \<and> instance_errors i = [''the server answered INFO server with a status rather than text'']"
proof -
  have "map_option (\<lambda>(t, i). (map_option (\<lambda>_. ()) t, instance_errors i, instance_identity i)) (read_instance id example_parser concat example_world example_server)
      = Some (Some (), [''the server answered INFO server with a status rather than text''], None)"
    by (simp add: read_instance_def example_server_def example_world_def namespace_run_def our_namespace_def dial_def connection_over_def
      timing_out_after_def answer_within_def reply_bound_def ask_next_def info_server_command_def unasked_def identify_def text_in_def
      refusal_in_def exchange_eqs)
  then obtain t i where run: "read_instance id example_parser concat example_world example_server = Some (Some t, i)"
    "instance_errors i = [''the server answered INFO server with a status rather than text'']" "instance_identity i = None" by auto
  then show ?thesis using servers_are_sent_five_questions[OF run(1)] by (auto simp: questions_for_def info_server_command_def)
qed

section \<open>The servers of a box\<close>

text \<open>C33. A server is only ever dialled at a socket the kernel's tables, read in the server's own network namespace, show it
  holding: at that very address, or at its family's loopback address where it is bound to every one.\<close>

theorem only_held_sockets_are_dialled:
  assumes "d \<in> set (discover little h proc)" "server_reach d = Inr a"
  shows "\<exists>ls held l. sockets_seen little h proc d = Some ls \<and> held_sockets h (server_pid d) = Inr held \<and>
    l \<in> set ls \<and> listener_inode l \<in> set held \<and> reaches (listener_address l) a"
  using assms by (rule reach_is_held)

definition example_redis_host :: redis_host where
  "example_redis_host = \<lparr>host_entries = Some [''7'', ''self''],
     entry_text = (\<lambda>entry f. if f = ''comm'' then ProcRead (''redis-server'' @ [newline]) else ProcGone),
     process_cmdline = (\<lambda>_. None), process_fds = (\<lambda>_. Inr [(''6'', Some ''socket:[77]'')]), process_cwd = (\<lambda>_. None),
     socket_table = (\<lambda>p. if p = ''/proc/net/tcp'' then Some ''0: 00000000:0050 0:0 0A 0 0 0 0 0 77'' else None),
     namespace_link = (\<lambda>_. Inr ''net:[1]'')\<rparr>"

definition example_reach :: socket_addr where
  "example_reach = \<lparr>addr_ip = V4 [CHR 0x7F, CHR 0x00, CHR 0x00, CHR 0x01], addr_port = 80\<rparr>"

lemma char_facts: "char_of (0 :: nat) = CHR 0x00" "char_of (Suc 0) = CHR 0x01" "char_of (127 :: nat) = CHR 0x7F"
  by code_simp+

lemma four: "replicate 4 x = [x, x, x, x]"
  by (simp add: eval_nat_numeral)

lemma example_census: "resident_servers example_redis_host = [\<lparr>resident_pid = 7, resident_kind = Redis\<rparr>]"
proof -
  have "pid_of_entry ''7'' = Some 7" "pid_of_entry ''self'' = None"
    by (simp_all add: pid_of_entry_def parse_unsigned_def parse_radix_def strip_prefix_def starts_with_def radix_digit_def valid_utf8_ascii_Cons between_def)
  moreover have "kind_from_program (trim_end_matches newline (''redis-server'' @ [newline])) = Some Redis" by code_simp
  ultimately show ?thesis
    by (simp add: resident_servers_def resident_census_def census_step_def example_redis_host_def parent_of_def Let_def)
qed

lemma example_held: "held_sockets example_redis_host 7 = Inr [77]"
proof -
  have "parse_signed 64 ''6'' = Some 6" "inode_of ''socket:[77]'' = Some 77" "valid_utf8 ''6''" "valid_utf8 ''socket:[77]''"
    by (simp_all add: parse_signed_def inode_of_def parse_unsigned_def parse_radix_def strip_prefix_def strip_suffix_def starts_with_def
      radix_digit_def valid_utf8_ascii_Cons between_def)
  then show ?thesis by (simp add: held_sockets_def example_redis_host_def sockets_among_def List.map_filter_simps)
qed

lemma example_listeners: "inet_listeners True (socket_table example_redis_host) ''/proc/net''
    = Some [\<lparr>listener_address = \<lparr>addr_ip = V4 [CHR 0x00, CHR 0x00, CHR 0x00, CHR 0x00], addr_port = 80\<rparr>, listener_inode = 77\<rparr>]"
proof -
  let ?line = "''0: 00000000:0050 0:0 0A 0 0 0 0 0 77''"
  have words: "split_whitespace ?line = [''0:'', ''00000000:0050'', ''0:0'', ''0A'', ''0'', ''0'', ''0'', ''0'', ''0'', ''77'']"
    and alone: "lines ?line = [?line]" "text_holds ''local_address'' ?line = False"
    and paths: "text_joined ''/proc/net'' ''tcp'' = ''/proc/net/tcp''" "text_joined ''/proc/net'' ''tcp6'' = ''/proc/net/tcp6''"
    by code_simp+
  have zero: "ne_bytes True 0 = [CHR 0x00, CHR 0x00, CHR 0x00, CHR 0x00]" by (simp add: ne_bytes_def le_bytes_def char_facts)
  have "inet_listener_of True False ?line = Some \<lparr>listener_address = \<lparr>addr_ip = V4 [CHR 0x00, CHR 0x00, CHR 0x00, CHR 0x00], addr_port = 80\<rparr>, listener_inode = 77\<rparr>"
    unfolding inet_listener_of_def words
    by (simp add: Let_def split_once_def ipv4_of_def word_of_def zero parse_unsigned_def parse_radix_def strip_prefix_def starts_with_def radix_digit_def)
  then show ?thesis
    using paths alone by (simp add: inet_listeners_def example_redis_host_def table_listeners_def List.map_filter_simps)
qed

lemma server_reach_at: "server_reach (server_at s title ns addresses) =
    ok_or (unreached_failed ''it listens on no TCP port, and rastro dials nothing else'') (tcp_reach_of addresses (titled_port title))"
  by (simp add: server_at_def Let_def)

lemma example_discovered:
  "\<exists>d. discover True example_redis_host ''/proc'' = [d] \<and> server_reach d = Inr example_reach"
proof -
  have paths: "text_joined ''/proc'' ''net'' = ''/proc/net''" by code_simp
  have "namespace_of_in (namespace_link example_redis_host) ''/proc'' 7 = Inr \<lparr>namespace_path = text_joined (text_joined ''/proc'' (show_nat 7)) ''ns/net'', namespace_ours = True\<rparr>"
    by (simp add: namespace_of_in_def example_redis_host_def)
  moreover have "tcp_reach_of [\<lparr>addr_ip = V4 [CHR 0x00, CHR 0x00, CHR 0x00, CHR 0x00], addr_port = 80\<rparr>] None = Some example_reach"
    by (simp add: tcp_reach_of_def nearest_of_def example_reach_def char_facts four)
  moreover have "titled_port (title_of example_redis_host \<lparr>resident_pid = 7, resident_kind = Redis\<rparr>) = None"
  proof -
    have "title_of example_redis_host \<lparr>resident_pid = 7, resident_kind = Redis\<rparr> = ''redis-server''"
      by (simp add: title_of_def example_redis_host_def)
    moreover have "split_whitespace ''redis-server'' = [''redis-server'']" by code_simp
    ultimately show ?thesis by (simp add: titled_port_def nth_opt_def)
  qed
  ultimately have "server_reach (discovered True example_redis_host ''/proc'' (inet_listeners True (socket_table example_redis_host) ''/proc/net'')
      \<lparr>resident_pid = 7, resident_kind = Redis\<rparr>) = Inr example_reach"
    using example_held by (simp add: discovered_def example_listeners server_reach_at addresses_held_def)
  moreover have "map unkeyed (discover True example_redis_host ''/proc'') =
      [unkeyed (discovered True example_redis_host ''/proc'' (inet_listeners True (socket_table example_redis_host) ''/proc/net'') \<lparr>resident_pid = 7, resident_kind = Redis\<rparr>)]"
    using discover_unkeyed[of True example_redis_host "''/proc''"] by (simp add: example_census paths)
  then obtain d where d: "discover True example_redis_host ''/proc'' = [d]"
    "unkeyed d = unkeyed (discovered True example_redis_host ''/proc'' (inet_listeners True (socket_table example_redis_host) ''/proc/net'') \<lparr>resident_pid = 7, resident_kind = Redis\<rparr>)"
    by (auto simp: map_eq_Cons_conv)
  ultimately show ?thesis using unkeyed_eqD(1)[OF d(2)] by simp
qed

theorem only_held_sockets_are_dialled_witness:
  "\<exists>d \<in> set (discover True example_redis_host ''/proc''). server_reach d = Inr example_reach \<and>
     (\<exists>ls l. sockets_seen True example_redis_host ''/proc'' d = Some ls \<and> l \<in> set ls \<and> reaches (listener_address l) example_reach)"
proof -
  from example_discovered obtain d where d: "d \<in> set (discover True example_redis_host ''/proc'')" "server_reach d = Inr example_reach" by auto
  with only_held_sockets_are_dialled[OF d] show ?thesis by blast
qed

text \<open>C35. Every server on the box has its own entry in the document, under a key no other has: as many as there are servers, and each
  what reading that server gave.\<close>

theorem every_server_is_in_the_document:
  assumes "read_installation D P encode little h proc installed budget W = Some i"
  shows "set (redis_instances i) = {(server_key s, r) | s r. s \<in> set (discover little h proc) \<and> server_instance D P encode budget W s = Some r}
    \<and> length (redis_instances i) = length (resident_servers h) \<and> distinct (map fst (redis_instances i))"
proof -
  have "length (discover little h proc) = length (map unkeyed (discover little h proc))" by simp
  also have "\<dots> = length (resident_servers h)" unfolding discover_unkeyed by simp
  finally show ?thesis using installation_instances[OF assms] by (simp add: btree_sorted_def strict_sorted_iff)
qed

theorem every_server_is_in_the_document_witness:
  "\<exists>i. read_installation id example_parser concat True example_redis_host ''/proc'' [Redis] 0 (\<lambda>_. (1, example_world)) = Some i \<and>
     length (redis_instances i) = 1"
proof -
  have census: "length (resident_servers example_redis_host) = 1" by (simp add: example_census)
  have "read_installation id example_parser concat True example_redis_host ''/proc'' [Redis] 0 (\<lambda>_. (1, example_world)) \<noteq> None"
  proof -
    have "server_instance id example_parser concat 0 (\<lambda>_. (1, example_world)) = (\<lambda>s. Some (record_lack (LackFailed
        (''not read: the facet's time budget of '' @ duration_shown 0 @ '' was spent on the servers before it'')) (unasked s)))" (is "_ = (\<lambda>s. Some (?g s))")
      by (rule ext) (simp add: server_instance_def)
    moreover have "all_returned (map (\<lambda>s. Some (?g s)) ds) = Some (map ?g ds)" for ds
      by (simp add: all_returned_iff)
    ultimately show ?thesis by (simp add: read_installation_def)
  qed
  then obtain i where i: "read_installation id example_parser concat True example_redis_host ''/proc'' [Redis] 0 (\<lambda>_. (1, example_world)) = Some i" by auto
  with every_server_is_in_the_document[OF i] census show ?thesis by simp
qed

text \<open>A reply to \<open>CONFIG GET *\<close> is taken exactly where it is names and values in turn, no name empty and none given twice, and then every
  setting is kept under its name, in the order of the names and not the server's.\<close>

theorem settings_are_read_whole:
  "config_get_parse r = Inr m \<longleftrightarrow> (\<exists>ss. r = ArrayReply (settings_reply ss) \<and> named_ok ss \<and> distinct (map fst ss) \<and> m = btree_collect ss)"
  by (rule config_get_iff)



section \<open>What other programs and the kernel say\<close>




text \<open>C38. The answer of a tool is everything it wrote, on both streams, of a run that ended well in its time, or there is no
  answer: nothing is cut off at the output bound.\<close>

theorem tools_answer_whole:
  assumes "reads_within j whole_out whole_err" "limit_output (tool_limits t) \<noteq> -1"
    and "snd (run_capturing_stderr t j) = Inr r"
  shows "output_stdout r = whole_out \<and> output_stderr r = whole_err \<and> valid_utf8 whole_out \<and> valid_utf8 whole_err \<and>
    (\<exists>status. job_exits j (remaining_time t (wait_elapsed j)) = Some status \<and> exit_success status)"
  using assms by (rule run_whole)

definition example_job :: job where
  "example_job = \<lparr>job_communicates = None,
     job_reads = (\<lambda>time bound. if unat bound < 2 then Inl ReadTimedOut else Inr (''ok'', '''')),
     job_exits = (\<lambda>_. Some \<lparr>exit_success = True, exit_text = ''Exited(0)''\<rparr>), job_exits_killed = (\<lambda>_. None), read_elapsed = 1, wait_elapsed = 2\<rparr>"

definition example_tool :: canonical_tool where
  "example_tool = \<lparr>tool_program = ''ip'', tool_path = ''/bin/ip'', tool_limits = \<lparr>limit_time = 9, limit_output = 5\<rparr>\<rparr>"

theorem tools_answer_whole_witness:
  "\<exists>r. snd (run_capturing_stderr example_tool example_job) = Inr r \<and> output_stdout r = ''ok''"
proof -
  have reads: "reads_within example_job ''ok'' ''''" by (auto simp: reads_within_def example_job_def)
  have "unat (6 :: u64) = 6" "unat (5 :: u64) = 5" by simp_all
  then have "\<exists>r. snd (run_capturing_stderr example_tool example_job) = Inr r"
    by (simp add: run_capturing_stderr_def tool_capture_def tool_reap_def example_job_def example_tool_def saturating_add_def
      decoded_stream_def remaining_time_def Let_def valid_utf8_ascii_Cons between_def)
  then obtain r where r: "snd (run_capturing_stderr example_tool example_job) = Inr r" by blast
  moreover have "limit_output (tool_limits example_tool) \<noteq> -1" by (simp add: example_tool_def)
  ultimately show ?thesis using tools_answer_whole[OF reads _ r] by blast
qed

text \<open>C39. A table of sockets the kernel prints is read as exactly the sockets in it that offer something, on a machine of
  either byte order.\<close>

theorem socket_tables_round_trip:
  assumes "header_ok header" "list_all (row_ok table) rs"
  shows "proc_net_inet_parse little table (table_printed header rs) =
    Inr (map (row_meant little table) (filter (\<lambda>k. socket_state k = offered_state table) (map printed_socket rs)))"
  using assms by (rule inet_table_read_back)

definition example_socket :: kernel_socket where
  "example_socket = \<lparr>socket_words = [16777343], socket_port = 22, socket_state = ''0A'', socket_inode = 5\<rparr>"

definition example_row :: printed_row where
  "example_row = \<lparr>printed_words = [([], ''0:''), ('' '', ''0100007F:0016''), ('' '', ''0:0''), ('' '', ''0A''), ('' '', ''0''), ('' '', ''0''),
     ('' '', ''0''), ('' '', ''0''), ('' '', ''0''), ('' '', ''5'')], printed_trail = '' '', printed_socket = example_socket\<rparr>"

lemma digit_facts: "char_of (48 :: nat) = CHR ''0''" "char_of (49 :: nat) = CHR ''1''" "char_of (53 :: nat) = CHR ''5''" "char_of (54 :: nat) = CHR ''6''"
  "char_of (55 :: nat) = CHR ''7''" "char_of (70 :: nat) = CHR ''F''"
  by code_simp+

lemma example_row_ok: "row_ok Tcp example_row"
proof -
  have "word ''0:''" "word ''0100007F:0016''" "word ''0:0''" "word ''0A''" "word ''0''" "word ''5''"
    by (rule word_ascii; simp add: between_def)+
  moreover have "address_printed example_socket = ''0100007F:0016''"
    by (simp add: address_printed_def example_socket_def hex_printed_def upper_digit_def upt_conv_Cons digit_facts)
  moreover have "show_nat (unat (socket_inode example_socket)) = ''5''"
    by (simp add: example_socket_def show_nat_def positional.simps digit_def digit_facts)
  moreover have "text_holds ''local_address'' (trim (line_of example_row)) = False" unfolding example_row_def by code_simp
  ultimately show ?thesis
    by (simp add: row_ok_def example_row_def example_socket_def prints_def gaps_ok_def line_of_def newline_def carriage_return_def)
qed

theorem socket_tables_round_trip_witness:
  "proc_net_inet_parse True Tcp (table_printed ''sl local_address'' [example_row]) =
    Inr [row_meant True Tcp example_socket]"
proof -
  have header: "header_ok ''sl local_address''" by code_simp
  show ?thesis
    using socket_tables_round_trip[OF header, of Tcp "[example_row]" True] example_row_ok
    by (simp add: example_row_def example_socket_def)
qed






end
