(* ===== verification/KeyedTables.thy ===== *)
theory KeyedTables
  imports BTree
begin

text \<open>
  A table filled entry by entry that refuses a key it already holds, as the collectors fill theirs
  (\<open>BTreeMap::insert\<close> answering an earlier value is an error): an entry that could not be read stops it too.
\<close>

fun keyed_once :: "('k::linorder \<Rightarrow> 'e) \<Rightarrow> ('e + 'k \<times> 'v) list \<Rightarrow> ('k, 'v) btree \<Rightarrow> 'e + ('k, 'v) btree" where
  "keyed_once twice [] table = Inr table"
| "keyed_once twice (r # rs) table = and_then r (\<lambda>(k, v).
     if btree_get k table \<noteq> None then Inl (twice k) else keyed_once twice rs (btree_insert k v table))"

lemma keyed_once_from:
  "btree_sorted table \<Longrightarrow> keyed_once twice rs table = Inr filled \<longleftrightarrow>
    (\<exists>kvs. rs = map Inr kvs \<and> distinct (map fst kvs) \<and> (\<forall>k \<in> set (map fst kvs). btree_get k table = None) \<and>
      filled = foldl (\<lambda>m (k, v). btree_insert k v m) table kvs)"
proof (induction rs arbitrary: table)
  case (Cons r rs)
  show ?case
  proof (cases r)
    case (Inl e)
    then show ?thesis by (auto simp: Cons_eq_map_conv)
  next
    case (Inr kv)
    obtain k v where kv: "kv = (k, v)" by (cases kv)
    show ?thesis
    proof (cases "btree_get k table")
      case (Some w)
      then show ?thesis by (auto simp: Inr kv Cons_eq_map_conv)
    next
      case None
      note step = Cons.IH[OF btree_sorted_insert[OF Cons.prems], of k v]
      have "keyed_once twice (r # rs) table = Inr filled \<longleftrightarrow> (\<exists>kvs. rs = map Inr kvs \<and> distinct (map fst kvs) \<and>
          (\<forall>k' \<in> set (map fst kvs). btree_get k' (btree_insert k v table) = None) \<and>
          filled = foldl (\<lambda>m (k, v). btree_insert k v m) (btree_insert k v table) kvs)"
        using step None by (simp add: Inr kv)
      also have "\<dots> \<longleftrightarrow> (\<exists>kvs. rs = map Inr kvs \<and> k \<notin> set (map fst kvs) \<and> distinct (map fst kvs) \<and>
          (\<forall>k' \<in> set (map fst kvs). btree_get k' table = None) \<and>
          filled = foldl (\<lambda>m (k, v). btree_insert k v m) (btree_insert k v table) kvs)"
        by (rule ex_cong) (auto simp: btree_get_insert[OF Cons.prems] split: if_splits)
      also have "\<dots> \<longleftrightarrow> (\<exists>kvs. r # rs = map Inr kvs \<and> distinct (map fst kvs) \<and> (\<forall>k \<in> set (map fst kvs). btree_get k table = None) \<and>
          filled = foldl (\<lambda>m (k, v). btree_insert k v m) table kvs)"
        using None by (fastforce simp: Inr kv Cons_eq_map_conv)
      finally show ?thesis .
    qed
  qed
qed auto

text \<open>A table comes out when every entry could be read and no key came twice, and it is those entries.\<close>

lemma keyed_once_Inr_iff:
  "keyed_once twice rs [] = Inr filled \<longleftrightarrow> (\<exists>kvs. rs = map Inr kvs \<and> distinct (map fst kvs) \<and> filled = btree_collect kvs)"
  using keyed_once_from[of "[]" twice rs filled] by (simp add: btree_get_def btree_collect_def)

lemma keyed_once_distinct: "distinct (map fst kvs) \<Longrightarrow> keyed_once twice (map Inr kvs) [] = Inr (btree_collect kvs)"
  by (auto simp: keyed_once_Inr_iff)

end
