(* ===== verification/KernelModules.thy ===== *)
theory KernelModules
  imports TextWords Values KeyedTables SetOrder Claims
begin

text \<open>
  The kernel modules of the host (\<open>collectors/modules\<close>): the table of \<open>/proc/modules\<close>, its lines, and the observation of
  each module.  A table the kernel prints is read back module for module.
\<close>

section \<open>Values\<close>

datatype kernel_module_name = ModuleName (module_text: non_empty_text)

instantiation kernel_module_name :: linorder
begin

definition less_eq_kernel_module_name :: "kernel_module_name \<Rightarrow> kernel_module_name \<Rightarrow> bool" where
  "less_eq_kernel_module_name m n \<longleftrightarrow> module_text m \<le> module_text n"

definition less_kernel_module_name :: "kernel_module_name \<Rightarrow> kernel_module_name \<Rightarrow> bool" where
  "less_kernel_module_name m n \<longleftrightarrow> module_text m < module_text n"

instance
  by standard (auto simp: less_eq_kernel_module_name_def less_kernel_module_name_def kernel_module_name.expand)

end

definition kernel_module_name_new :: "str \<Rightarrow> kernel_module_name collected" where
  "kernel_module_name_new v = map_ok ModuleName (non_empty_text_new v ''module name'')"

definition module_str :: "kernel_module_name \<Rightarrow> str" where
  "module_str n = text_str (module_text n)"

datatype module_state = ModuleLive | ModuleLoading | ModuleUnloading

definition module_state_parse :: "str \<Rightarrow> module_state collected" where
  "module_state_parse v =
     (if v = ''Live'' then Inr ModuleLive else if v = ''Loading'' then Inr ModuleLoading
      else if v = ''Unloading'' then Inr ModuleUnloading
      else Inl (CollectionError ''{other:?} is not a module state the kernel reports'' [v]))"

fun module_state_str :: "module_state \<Rightarrow> str" where
  "module_state_str ModuleLive = ''live''"
| "module_state_str ModuleLoading = ''loading''"
| "module_state_str ModuleUnloading = ''unloading''"

datatype reference_count = Counted i64 | NotTracked

fun reference_count_observed :: "reference_count \<Rightarrow> observation" where
  "reference_count_observed (Counted n) = integer n"
| "reference_count_observed NotTracked = null"

datatype removability = Removable | Permanent | RemovabilityUnknown

fun removability_str :: "removability \<Rightarrow> str" where
  "removability_str Removable = ''removable''"
| "removability_str Permanent = ''permanent''"
| "removability_str RemovabilityUnknown = ''unknown''"

datatype taint_flag = ProprietaryModule | ForcedModule | OutOfSpecificationSystem | ForcedUnload | MachineCheckException | BadPage
  | UserspaceRequested | KernelDied | AcpiTableOverridden | WarningIssued | StagingDriver | FirmwareWorkaround | OutOfTreeModule
  | UnsignedModule | SoftLockup | LivePatched | Auxiliary | RandstructPlugin | InKernelTest | FwctlMutatingDebug
  | UnrecognisedTaint str

text \<open>The letters in the order of the source, each with its flag.\<close>

definition taint_letters :: "(str \<times> taint_flag) list" where
  "taint_letters =
     [(''P'', ProprietaryModule), (''F'', ForcedModule), (''S'', OutOfSpecificationSystem), (''R'', ForcedUnload),
      (''M'', MachineCheckException), (''B'', BadPage), (''U'', UserspaceRequested), (''D'', KernelDied),
      (''A'', AcpiTableOverridden), (''W'', WarningIssued), (''C'', StagingDriver), (''I'', FirmwareWorkaround),
      (''O'', OutOfTreeModule), (''E'', UnsignedModule), (''L'', SoftLockup), (''K'', LivePatched), (''X'', Auxiliary),
      (''T'', RandstructPlugin), (''N'', InKernelTest), (''J'', FwctlMutatingDebug)]"

definition taint_from_letter :: "str \<Rightarrow> taint_flag" where
  "taint_from_letter letter = (case map_of taint_letters letter of Some flag \<Rightarrow> flag | None \<Rightarrow> UnrecognisedTaint letter)"

fun taint_name :: "taint_flag \<Rightarrow> str" where
  "taint_name ProprietaryModule = ''proprietary_module''"
| "taint_name ForcedModule = ''forced_module''"
| "taint_name OutOfSpecificationSystem = ''out_of_specification_system''"
| "taint_name ForcedUnload = ''forced_unload''"
| "taint_name MachineCheckException = ''machine_check_exception''"
| "taint_name BadPage = ''bad_page''"
| "taint_name UserspaceRequested = ''userspace_requested''"
| "taint_name KernelDied = ''kernel_died''"
| "taint_name AcpiTableOverridden = ''acpi_table_overridden''"
| "taint_name WarningIssued = ''warning_issued''"
| "taint_name StagingDriver = ''staging_driver''"
| "taint_name FirmwareWorkaround = ''firmware_workaround''"
| "taint_name OutOfTreeModule = ''out_of_tree_module''"
| "taint_name UnsignedModule = ''unsigned_module''"
| "taint_name SoftLockup = ''soft_lockup''"
| "taint_name LivePatched = ''live_patched''"
| "taint_name Auxiliary = ''auxiliary''"
| "taint_name RandstructPlugin = ''randstruct_plugin''"
| "taint_name InKernelTest = ''in_kernel_test''"
| "taint_name FwctlMutatingDebug = ''fwctl_mutating_debug''"
| "taint_name (UnrecognisedTaint letter) = ''unrecognised_'' @ letter"

text \<open>The derived order of the flags: the order of the constructors, then the letter.\<close>

definition taint_place :: "taint_flag \<Rightarrow> nat" where
  "taint_place flag = length (takeWhile (\<lambda>e. snd e \<noteq> flag) taint_letters)"

definition compare_taints :: "taint_flag \<Rightarrow> taint_flag \<Rightarrow> comparison" where
  "compare_taints f g = then_with (cmp_of (taint_place f) (taint_place g))
     (case (f, g) of (UnrecognisedTaint a, UnrecognisedTaint b) \<Rightarrow> cmp_of a b | _ \<Rightarrow> Equal)"

section \<open>Modules\<close>

record kernel_module =
  module_size :: byte_size
  module_state :: module_state
  module_dependants :: "kernel_module_name list"
  module_removability :: removability
  module_taints :: "taint_flag list"
  module_references :: reference_count

definition dependants_new :: "kernel_module_name list \<Rightarrow> kernel_module_name list" where
  "dependants_new ms = dedup (sort_by cmp_of ms)"

definition taint_flags_new :: "taint_flag list \<Rightarrow> taint_flag list" where
  "taint_flags_new fs = dedup (sort_by compare_taints fs)"

definition kernel_module_observed :: "hashes \<Rightarrow> kernel_module \<Rightarrow> observation" where
  "kernel_module_observed H m = object
     [(''size_bytes'', integer (bytes (module_size m))),
      (''state'', text_of (module_state_str (module_state m))),
      (''dependants'', set_of H (map (\<lambda>d. text_of (module_str d)) (module_dependants m))),
      (''removability'', text_of (removability_str (module_removability m))),
      (''taints'', set_of H (map (\<lambda>t. text_of (taint_name t)) (module_taints m))),
      (''reference_count'', volatile (reference_count_observed (module_references m)))]"

type_synonym module_table = "(kernel_module_name, kernel_module) btree"

definition module_table_new :: "(kernel_module_name \<times> kernel_module) list \<Rightarrow> module_table collected" where
  "module_table_new ms = keyed_once
     (\<lambda>n. CollectionError ''the module {:?} was reported twice, so the table was misread'' [module_str n]) (map Inr ms) []"

definition module_table_observed :: "hashes \<Rightarrow> module_table \<Rightarrow> observation" where
  "module_table_observed H t = object (map (\<lambda>(n, m). (module_str n, kernel_module_observed H m)) t)"

section \<open>A line of \<open>/proc/modules\<close>\<close>

record proc_modules_line =
  line_module :: str
  line_size :: str
  line_references :: str
  line_dependants :: str
  line_state :: str
  line_taints :: "str option"

definition proc_modules_line_parse :: "str \<Rightarrow> proc_modules_line collected" where
  "proc_modules_line_parse l = (case split_whitespace l of
      [n, columns, references, dependants, state, address] \<Rightarrow>
        Inr \<lparr>line_module = n, line_size = columns, line_references = references, line_dependants = dependants, line_state = state, line_taints = None\<rparr>
    | [n, columns, references, dependants, state, address, taints] \<Rightarrow>
        Inr \<lparr>line_module = n, line_size = columns, line_references = references, line_dependants = dependants, line_state = state, line_taints = Some taints\<rparr>
    | columns \<Rightarrow> Inl (CollectionError ''expected six columns in a /proc/modules line, or seven when tainted, got {}: {line:?}''
        [show_nat (length columns), l]))"

definition to_reference_count :: "proc_modules_line \<Rightarrow> reference_count collected" where
  "to_reference_count l =
     (if line_references l = ''-'' then Inr NotTracked
      else (case parse_signed 64 (line_references l) of
          Some n \<Rightarrow> Inr (Counted (word_of_int n))
        | None \<Rightarrow> Inl (CollectionError ''{:?} is not a module reference count'' [line_references l])))"

definition to_module_size :: "proc_modules_line \<Rightarrow> byte_size collected" where
  "to_module_size l = (case parse_unsigned 64 (line_size l) of
      Some n \<Rightarrow> byte_size_new (word_of_nat n) ''module size''
    | None \<Rightarrow> Inl (CollectionError ''{:?} is not a module size in bytes'' [line_size l]))"

definition dependant_elements :: "proc_modules_line \<Rightarrow> str list" where
  "dependant_elements l = filter (\<lambda>e. e \<noteq> [] \<and> e \<noteq> ''-'') (split_on (CHR '','') (line_dependants l))"

definition permanent_mark :: str where
  "permanent_mark = ''[permanent]''"

definition to_dependants :: "proc_modules_line \<Rightarrow> kernel_module_name list collected" where
  "to_dependants l = map_ok dependants_new (collect_results (map kernel_module_name_new (filter (\<lambda>e. e \<noteq> permanent_mark) (dependant_elements l))))"

definition to_removability :: "proc_modules_line \<Rightarrow> reference_count \<Rightarrow> removability" where
  "to_removability l references =
     (if references = NotTracked then RemovabilityUnknown
      else if permanent_mark \<in> set (dependant_elements l) then Permanent else Removable)"

definition to_taints :: "proc_modules_line \<Rightarrow> taint_flag list collected" where
  "to_taints l = (case line_taints l of
      None \<Rightarrow> Inr []
    | Some column \<Rightarrow>
        map_ok (\<lambda>letters. taint_flags_new (map taint_from_letter (filter (\<lambda>c. c \<noteq> ''-'' \<and> c \<noteq> ''+'') (chars_of letters))))
          (ok_or (CollectionError ''expected a parenthesised taint column, got {column:?}'' [column])
            (Option.bind (strip_prefix ''('' column) (strip_suffix '')''))))"

definition to_module_entry :: "proc_modules_line \<Rightarrow> (kernel_module_name \<times> kernel_module) collected" where
  "to_module_entry l =
     and_then (kernel_module_name_new (line_module l)) (\<lambda>n.
     and_then (to_reference_count l) (\<lambda>references.
     and_then (to_module_size l) (\<lambda>extent.
     and_then (module_state_parse (line_state l)) (\<lambda>state.
     and_then (to_dependants l) (\<lambda>dependants.
     map_ok (\<lambda>taints. (n, \<lparr>module_size = extent, module_state = state, module_dependants = dependants,
         module_removability = to_removability l references, module_taints = taints, module_references = references\<rparr>))
       (to_taints l))))))"

definition proc_modules_parse :: "str \<Rightarrow> module_table collected" where
  "proc_modules_parse table =
     and_then (collect_results (map (\<lambda>l. and_then (proc_modules_line_parse l) to_module_entry)
       (filter (\<lambda>l. trim l \<noteq> []) (lines table)))) module_table_new"

text \<open>The files: whether the table exists, whether procfs is mounted, what reading gives.\<close>

definition modules_read :: "str + str \<Rightarrow> module_table collected" where
  "modules_read contents = (case contents of
      Inl error \<Rightarrow> Inl (CollectionError ''could not read {}: {error}'' [''/proc/modules'', error])
    | Inr table \<Rightarrow> proc_modules_parse table)"

definition modules_presence :: "bool \<Rightarrow> bool \<Rightarrow> presence" where
  "modules_presence table_exists procfs_mounted =
     (if table_exists then Present else if procfs_mounted then Absent
      else Undetermined (CollectionError ''{} is not mounted, so whether this kernel has modules cannot be told'' [''/proc'']))"

definition modules_collect :: "hashes \<Rightarrow> str + str \<Rightarrow> observation collected" where
  "modules_collect H contents = map_ok (module_table_observed H) (modules_read contents)"

section \<open>Every flag has a name of its own\<close>

lemma taint_from_letter_cases:
  obtains (known) "(letter, taint_from_letter letter) \<in> set taint_letters" | (unknown) "taint_from_letter letter = UnrecognisedTaint letter"
    "letter \<notin> fst ` set taint_letters"
  by (cases "map_of taint_letters letter") (auto simp: taint_from_letter_def map_of_eq_None_iff dest: map_of_SomeD)

lemma taint_names_distinct: "distinct (map (taint_name \<circ> snd) taint_letters)" "distinct (map snd taint_letters)" "distinct (map fst taint_letters)"
  by (simp_all add: taint_letters_def)

lemma known_taint_recognised: "list_all (\<lambda>(l, t). \<not> starts_with ''unrecognised_'' (taint_name t)) taint_letters"
  by (simp add: taint_letters_def starts_with_def)

lemma unrecognised_prefix: "starts_with ''unrecognised_'' (taint_name (UnrecognisedTaint letter))"
  by (simp add: starts_with_def)

lemma taint_known_or_not:
  assumes "(l, taint_from_letter l) \<in> set taint_letters" "taint_from_letter k = UnrecognisedTaint k"
  shows "taint_name (taint_from_letter l) \<noteq> taint_name (taint_from_letter k)"
proof
  assume "taint_name (taint_from_letter l) = taint_name (taint_from_letter k)"
  moreover have "\<not> starts_with ''unrecognised_'' (taint_name (taint_from_letter l))"
    using known_taint_recognised assms(1) by (auto simp only: list_all_iff split: prod.splits)
  ultimately show False using unrecognised_prefix assms(2) by simp
qed

lemma taint_names_apart:
  assumes "taint_name (taint_from_letter a) = taint_name (taint_from_letter b)"
  shows "a = b"
proof (cases a rule: taint_from_letter_cases)
  case known
  note a = this
  show ?thesis
  proof (cases b rule: taint_from_letter_cases)
    case known
    with a assms have "(a, taint_from_letter a) = (b, taint_from_letter b)"
      using taint_names_distinct(1) unfolding distinct_map by (intro inj_onD[of "taint_name \<circ> snd"]) auto
    then show ?thesis by simp
  next
    case unknown
    then show ?thesis using a assms taint_known_or_not[of a b] by simp
  qed
next
  case unknown
  note a = this
  show ?thesis
  proof (cases b rule: taint_from_letter_cases)
    case known
    then show ?thesis using a assms taint_known_or_not[of b a] by simp
  next
    case unknown
    with a assms show ?thesis by simp
  qed
qed

section \<open>A table the kernel prints is read back\<close>

text \<open>A module as the kernel knows it: the modules that use it in some order, whether it can be unloaded, the letters of its taints.\<close>

record loaded_module =
  loaded_name :: str
  loaded_size :: nat
  loaded_references :: "nat option"
  loaded_users :: "str list"
  loaded_permanent :: bool
  loaded_state :: str
  loaded_address :: str
  loaded_taints :: "str option"

definition users_printed :: "loaded_module \<Rightarrow> str" where
  "users_printed m =
     (let elements = loaded_users m @ (if loaded_permanent m then [permanent_mark] else [])
      in if elements = [] then ''-'' else concat (map (\<lambda>e. e @ '','') elements))"

definition module_words :: "loaded_module \<Rightarrow> str list" where
  "module_words m =
     [loaded_name m, show_nat (loaded_size m), (case loaded_references m of Some n \<Rightarrow> show_nat n | None \<Rightarrow> ''-''), users_printed m,
      loaded_state m, loaded_address m] @ (case loaded_taints m of Some letters \<Rightarrow> [''('' @ letters @ '')''] | None \<Rightarrow> [])"

definition module_meant :: "loaded_module \<Rightarrow> (kernel_module_name \<times> kernel_module) option" where
  "module_meant m = (case module_state_parse (loaded_state m) of
      Inl e \<Rightarrow> None
    | Inr state \<Rightarrow> Some (ModuleName (NonEmptyText (loaded_name m)),
        \<lparr>module_size = ByteSize (word_of_nat (loaded_size m)), module_state = state,
         module_dependants = dependants_new (map (\<lambda>u. ModuleName (NonEmptyText u)) (loaded_users m)),
         module_removability = (case loaded_references m of None \<Rightarrow> RemovabilityUnknown | Some n \<Rightarrow> if loaded_permanent m then Permanent else Removable),
         module_taints = (case loaded_taints m of None \<Rightarrow> []
            | Some letters \<Rightarrow> taint_flags_new (map taint_from_letter (filter (\<lambda>c. c \<noteq> ''-'' \<and> c \<noteq> ''+'') (chars_of letters)))),
         module_references = (case loaded_references m of Some n \<Rightarrow> Counted (word_of_nat n) | None \<Rightarrow> NotTracked)\<rparr>))"

definition user_ok :: "str \<Rightarrow> bool" where
  "user_ok u \<longleftrightarrow> u \<noteq> [] \<and> CHR '','' \<notin> set u \<and> u \<noteq> ''-'' \<and> u \<noteq> permanent_mark"

definition module_ok :: "loaded_module \<Rightarrow> bool" where
  "module_ok m \<longleftrightarrow> loaded_name m \<noteq> [] \<and> list_all user_ok (loaded_users m) \<and> loaded_size m < 2 ^ 63 \<and>
     (case loaded_references m of Some n \<Rightarrow> n < 2 ^ 63 | None \<Rightarrow> True) \<and> result_ok (module_state_parse (loaded_state m)) \<noteq> None"

lemma split_on_commas:
  "list_all (\<lambda>e. CHR '','' \<notin> set e) es \<Longrightarrow> split_on (CHR '','') (concat (map (\<lambda>e. e @ '','') es)) = es @ [[]]"
  by (induction es) (simp_all add: split_on_append)

lemma permanent_mark_plain: "CHR '','' \<notin> set permanent_mark" "permanent_mark \<noteq> []" "permanent_mark \<noteq> ''-''"
  by (simp_all add: permanent_mark_def)

lemma users_read:
  assumes "list_all user_ok (loaded_users m)" "line_dependants l = users_printed m"
  shows "dependant_elements l = loaded_users m @ (if loaded_permanent m then [permanent_mark] else [])"
proof -
  let ?es = "loaded_users m @ (if loaded_permanent m then [permanent_mark] else [])"
  have ok: "list_all (\<lambda>e. CHR '','' \<notin> set e \<and> e \<noteq> [] \<and> e \<noteq> ''-'') ?es"
    using assms(1) permanent_mark_plain by (auto simp: list_all_iff user_ok_def)
  show ?thesis
  proof (cases "?es = []")
    case True
    then have "line_dependants l = ''-''" using assms(2) by (auto simp: users_printed_def split: if_splits)
    moreover have "filter (\<lambda>e. e \<noteq> [] \<and> e \<noteq> ''-'') (split_on (CHR '','') ''-'') = []" by code_simp
    ultimately show ?thesis using True by (simp add: dependant_elements_def)
  next
    case False
    then have "line_dependants l = concat (map (\<lambda>e. e @ '','') ?es)" using assms(2) by (simp add: users_printed_def Let_def)
    then have "split_on (CHR '','') (line_dependants l) = ?es @ [[]]" using ok split_on_commas[of ?es] by (simp add: list_all_iff)
    moreover have "filter (\<lambda>e. e \<noteq> [] \<and> e \<noteq> ''-'') ?es = ?es" using ok by (simp add: list_all_iff)
    ultimately show ?thesis by (simp add: dependant_elements_def)
  qed
qed

lemma module_names_read:
  "list_all (\<lambda>u. u \<noteq> []) us \<Longrightarrow> collect_results (map kernel_module_name_new us) = Inr (map (\<lambda>u. ModuleName (NonEmptyText u)) us)"
  by (induction us) (simp_all add: kernel_module_name_new_def non_empty_text_new_def)

lemma parse_signed_show: "n < 2 ^ 63 \<Longrightarrow> parse_signed 64 (show_nat n) = Some (int n)"
proof -
  assume n: "n < 2 ^ 63"
  have "strip_prefix ''-'' (show_nat n) = None"
  proof (cases "strip_prefix ''-'' (show_nat n)")
    case (Some r)
    then have "CHR ''-'' \<in> set (positional 10 n)" by (simp add: strip_prefix_Some_iff show_nat_def)
    then obtain k where "k < 10" "CHR ''-'' = digit k" using positional_digits[of 10 "CHR ''-''" n] by auto
    then have "of_char (CHR ''-'') = (48 + k :: nat)" using of_char_digit[of k] by simp
    then show ?thesis by simp
  qed simp
  moreover have "parse_radix 63 10 (show_nat n) = Some n" using parse_show_nat[of n 63] n by (simp add: parse_unsigned_def)
  ultimately show ?thesis by (simp add: parse_signed_def)
qed

lemma show_nat_not_dash: "show_nat n \<noteq> ''-''"
proof
  assume "show_nat n = ''-''"
  then have "CHR ''-'' \<in> set (positional 10 n)" by (simp add: show_nat_def)
  then obtain k where "k < 10" "CHR ''-'' = digit k" using positional_digits[of 10 "CHR ''-''" n] by auto
  then have "of_char (CHR ''-'') = (48 + k :: nat)" using of_char_digit[of k] by simp
  then show False by simp
qed

lemma size_read:
  assumes "n < 2 ^ 63" "line_size l = show_nat n"
  shows "to_module_size l = Inr (ByteSize (word_of_nat n))"
proof -
  have "parse_unsigned 64 (line_size l) = Some n" using assms parse_show_nat[of n 64] by simp
  moreover have "unat (word_of_nat n :: u64) = n" using assms by (simp add: unat_of_nat take_bit_nat_eq_self)
  ultimately show ?thesis using assms(1) by (simp add: to_module_size_def byte_size_new_def i64_of_u64_def)
qed

lemma entry_read:
  assumes "module_ok m" "list_all word (module_words m)" "gaps_ok ws" "space trail" "map snd ws = module_words m"
  shows "and_then (proc_modules_line_parse (spaced ws trail)) to_module_entry = ok_or e (module_meant m)"
proof -
  let ?l = "\<lparr>line_module = loaded_name m, line_size = show_nat (loaded_size m),
    line_references = (case loaded_references m of Some n \<Rightarrow> show_nat n | None \<Rightarrow> ''-''), line_dependants = users_printed m,
    line_state = loaded_state m, line_taints = map_option (\<lambda>letters. ''('' @ letters @ '')'') (loaded_taints m)\<rparr>"
  have "split_whitespace (spaced ws trail) = module_words m" using assms split_whitespace_spaced by metis
  then have "proc_modules_line_parse (spaced ws trail) = Inr ?l"
    unfolding proc_modules_line_parse_def by (cases "loaded_taints m") (simp_all add: module_words_def)
  moreover have "to_module_size ?l = Inr (ByteSize (word_of_nat (loaded_size m)))"
    using assms(1) by (intro size_read) (simp_all add: module_ok_def)
  moreover have references: "to_reference_count ?l = Inr (case loaded_references m of Some n \<Rightarrow> Counted (word_of_nat n) | None \<Rightarrow> NotTracked)"
    using assms(1) parse_signed_show show_nat_not_dash
    by (auto simp: to_reference_count_def module_ok_def split: option.splits)
  moreover have elements: "dependant_elements ?l = loaded_users m @ (if loaded_permanent m then [permanent_mark] else [])"
    using assms(1) by (intro users_read) (simp_all add: module_ok_def)
  have users: "list_all user_ok (loaded_users m)" using assms(1) by (simp add: module_ok_def)
  then have "filter (\<lambda>e. e \<noteq> permanent_mark) (dependant_elements ?l) = loaded_users m"
    unfolding elements by (auto simp: list_all_iff user_ok_def filter_id_conv)
  then have "to_dependants ?l = Inr (dependants_new (map (\<lambda>u. ModuleName (NonEmptyText u)) (loaded_users m)))"
    using module_names_read[of "loaded_users m"] users by (simp add: to_dependants_def list_all_iff user_ok_def)
  moreover have "permanent_mark \<in> set (dependant_elements ?l) \<longleftrightarrow> loaded_permanent m"
    unfolding elements using users by (auto simp: list_all_iff user_ok_def)
  then have "to_removability ?l (case loaded_references m of Some n \<Rightarrow> Counted (word_of_nat n) | None \<Rightarrow> NotTracked) =
      (case loaded_references m of None \<Rightarrow> RemovabilityUnknown | Some n \<Rightarrow> if loaded_permanent m then Permanent else Removable)"
    by (simp add: to_removability_def split: option.split)
  moreover have "to_taints ?l = Inr (case loaded_taints m of None \<Rightarrow> []
            | Some letters \<Rightarrow> taint_flags_new (map taint_from_letter (filter (\<lambda>c. c \<noteq> ''-'' \<and> c \<noteq> ''+'') (chars_of letters))))"
  proof (cases "loaded_taints m")
    case (Some letters)
    have "Option.bind (strip_prefix ''('' (''('' @ letters @ '')'')) (strip_suffix '')'') = Some letters"
      by (simp add: strip_prefix_def starts_with_def strip_suffix_Some_iff)
    with Some show ?thesis by (simp add: to_taints_def)
  qed (simp add: to_taints_def)
  moreover have "kernel_module_name_new (loaded_name m) = Inr (ModuleName (NonEmptyText (loaded_name m)))"
    using assms(1) by (simp add: module_ok_def kernel_module_name_new_def non_empty_text_new_def)
  ultimately show ?thesis
    using assms(1) by (cases "module_state_parse (loaded_state m)") (simp_all add: to_module_entry_def module_meant_def module_ok_def)
qed

text \<open>A whole table: the modules in the order the kernel prints them, each line with the blanks between its columns.\<close>

record printed_module =
  printed_columns :: "(str \<times> str) list"
  printed_end :: str
  printed_as :: loaded_module

definition module_line :: "printed_module \<Rightarrow> str" where
  "module_line p = spaced (printed_columns p) (printed_end p)"

definition printed_module_ok :: "printed_module \<Rightarrow> bool" where
  "printed_module_ok p \<longleftrightarrow> module_ok (printed_as p) \<and> list_all word (module_words (printed_as p)) \<and> gaps_ok (printed_columns p) \<and>
     space (printed_end p) \<and> map snd (printed_columns p) = module_words (printed_as p) \<and>
     newline \<notin> set (module_line p) \<and> last (module_line p) \<noteq> carriage_return"

definition modules_printed :: "printed_module list \<Rightarrow> str" where
  "modules_printed ps = concat (map (\<lambda>p. module_line p @ [newline]) ps)"

lemma module_line_words: "printed_module_ok p \<Longrightarrow> split_whitespace (module_line p) = module_words (printed_as p)"
  using split_whitespace_spaced[of "printed_columns p" "printed_end p"] by (simp add: printed_module_ok_def module_line_def)

lemma module_line_kept:
  assumes "printed_module_ok p"
  shows "trim (module_line p) \<noteq> []" "module_line p \<noteq> []"
proof -
  have "split_whitespace (module_line p) \<noteq> []" using module_line_words[OF assms] by (simp add: module_words_def)
  moreover have "split_whitespace [] = []" by code_simp
  moreover have "split_whitespace (trim (module_line p)) = split_whitespace (module_line p)"
    using assms spaced_valid[of "printed_columns p" "printed_end p"] split_whitespace_trim
    by (simp add: printed_module_ok_def module_line_def)
  ultimately show "trim (module_line p) \<noteq> []" "module_line p \<noteq> []" by metis+
qed

lemma module_line_read:
  assumes "printed_module_ok p"
  shows "\<exists>entry. module_meant (printed_as p) = Some entry \<and> and_then (proc_modules_line_parse (module_line p)) to_module_entry = Inr entry"
proof -
  obtain state where "module_state_parse (loaded_state (printed_as p)) = Inr state"
    using assms by (cases "module_state_parse (loaded_state (printed_as p))") (auto simp: printed_module_ok_def module_ok_def)
  moreover have "and_then (proc_modules_line_parse (module_line p)) to_module_entry = ok_or e (module_meant (printed_as p))" for e
    unfolding module_line_def using assms by (intro entry_read) (simp_all add: printed_module_ok_def)
  ultimately show ?thesis by (simp add: module_meant_def)
qed

lemma module_lines_read:
  "list_all printed_module_ok ps \<Longrightarrow>
    collect_results (map (\<lambda>l. and_then (proc_modules_line_parse l) to_module_entry) (map module_line ps)) =
      Inr (map (\<lambda>p. the (module_meant (printed_as p))) ps)"
proof (induction ps)
  case (Cons p ps)
  then obtain entry where "module_meant (printed_as p) = Some entry"
    "and_then (proc_modules_line_parse (module_line p)) to_module_entry = Inr entry" using module_line_read by force
  with Cons show ?case by simp
qed simp

lemma modules_read_back:
  assumes "list_all printed_module_ok ps" "distinct (map (loaded_name \<circ> printed_as) ps)"
  shows "proc_modules_parse (modules_printed ps) = Inr (btree_collect (map (\<lambda>p. the (module_meant (printed_as p))) ps))"
proof -
  have "lines (concat (map (\<lambda>l. l @ [newline]) (map module_line ps))) = map module_line ps"
    using assms(1) by (intro lines_concat) (auto simp: list_all_iff printed_module_ok_def)
  then have lines: "lines (modules_printed ps) = map module_line ps" by (simp add: modules_printed_def comp_def)
  have kept: "filter (\<lambda>l. trim l \<noteq> []) (map module_line ps) = map module_line ps"
    using assms(1) module_line_kept(1) by (auto simp: list_all_iff filter_id_conv)
  have "fst (the (module_meant (printed_as p))) = ModuleName (NonEmptyText (loaded_name (printed_as p)))" if "p \<in> set ps" for p
    using module_line_read[of p] assms(1) that by (auto simp: list_all_iff module_meant_def split: sum.splits)
  then have "map fst (map (\<lambda>p. the (module_meant (printed_as p))) ps) = map (\<lambda>n. ModuleName (NonEmptyText n)) (map (loaded_name \<circ> printed_as) ps)"
    by simp
  then have "distinct (map fst (map (\<lambda>p. the (module_meant (printed_as p))) ps))"
    using assms(2) by (simp add: distinct_map inj_on_def del: map_map)
  then show ?thesis
    unfolding proc_modules_parse_def lines kept module_lines_read[OF assms(1)]
    by (simp add: module_table_new_def keyed_once_distinct del: map_map)
qed

end
