(* ===== verification/Sysctl.thy ===== *)
theory Sysctl
  imports CanonicalTool Values BTree SetOrder Lossy Claims
begin

text \<open>
  What the running kernel is tuned to (\<open>collectors/sysctl\<close>): the names of the parameters and the judgements they carry, what an entry
  of \<open>/proc/sys\<close> contributes, and the walk of the tree.  A tree is read whole, each parameter under the one name its path spells.
\<close>

section \<open>Values\<close>

datatype readability = Readable | WriteOnly

definition any_read_bit :: "32 word" where
  "any_read_bit = 0x124"

definition readability_of_mode :: "32 word \<Rightarrow> readability" where
  "readability_of_mode mode = (if and mode any_read_bit = 0 then WriteOnly else Readable)"

datatype sysctl_value = Reported str | Withheld | Refused str

definition reported :: "str \<Rightarrow> sysctl_value" where
  "reported written = Reported (if written \<noteq> [] \<and> last written = newline then butlast written else written)"

fun sysctl_value_observed :: "sysctl_value \<Rightarrow> observation" where
  "sysctl_value_observed (Reported v) = text_of v"
| "sysctl_value_observed Withheld = null"
| "sysctl_value_observed (Refused reason) = incomplete (object [(''error'', text_of reason)])"

datatype sysctl_key = SysctlKey (sysctl_text: non_empty_text)

instantiation sysctl_key :: linorder
begin

definition less_eq_sysctl_key :: "sysctl_key \<Rightarrow> sysctl_key \<Rightarrow> bool" where
  "less_eq_sysctl_key k l \<longleftrightarrow> sysctl_text k \<le> sysctl_text l"

definition less_sysctl_key :: "sysctl_key \<Rightarrow> sysctl_key \<Rightarrow> bool" where
  "less_sysctl_key k l \<longleftrightarrow> sysctl_text k < sysctl_text l"

instance
  by standard (auto simp: less_eq_sysctl_key_def less_sysctl_key_def sysctl_key.expand)

end

definition sysctl_str :: "sysctl_key \<Rightarrow> str" where
  "sysctl_str k = text_str (sysctl_text k)"

definition dots_as_slashes :: "str \<Rightarrow> str" where
  "dots_as_slashes s = map (\<lambda>c. if c = CHR ''.'' then CHR ''/'' else c) s"

fun dotted :: "str list \<Rightarrow> str \<Rightarrow> str collected" where
  "dotted [] spelled = Inr spelled"
| "dotted (s # ss) spelled =
     (if s = [] then Inl (CollectionError ''a sysctl key cannot have an empty segment'' [])
      else dotted ss ((if spelled \<noteq> [] then spelled @ ''.'' else spelled) @ dots_as_slashes s))"

definition sysctl_key_of :: "str list \<Rightarrow> sysctl_key collected" where
  "sysctl_key_of ss =
     (if ss = [] then Inl (CollectionError ''a sysctl key needs at least one segment'' [])
      else and_then (dotted ss []) (\<lambda>spelled. map_ok SysctlKey (non_empty_text_new spelled ''sysctl key'')))"

definition self_changing :: "str list" where
  "self_changing = [''fs.aio-nr'', ''fs.dentry-state'', ''fs.file-nr'', ''fs.inode-nr'', ''fs.inode-state'', ''fs.quota.allocated_dquots'',
     ''fs.quota.cache_hits'', ''fs.quota.drops'', ''fs.quota.free_dquots'', ''fs.quota.lookups'', ''fs.quota.reads'', ''fs.quota.syncs'',
     ''fs.quota.warnings'', ''fs.quota.writes'', ''kernel.ns_last_pid'', ''kernel.pty.nr'', ''kernel.random.entropy_avail'',
     ''kernel.random.uuid'', ''net.netfilter.nf_conntrack_count'']"

definition changes_on_its_own :: "sysctl_key \<Rightarrow> bool" where
  "changes_on_its_own k \<longleftrightarrow> sysctl_str k \<in> set self_changing"

definition secret_parameters :: "str list" where
  "secret_parameters = [''net.ipv4.tcp_fastopen_key'']"

definition secret_leaves :: "str list" where
  "secret_leaves = [''stable_secret'']"

definition last_segment :: "sysctl_key \<Rightarrow> str" where
  "last_segment k = last (split_on (CHR ''.'') (sysctl_str k))"

definition holds_a_secret :: "sysctl_key \<Rightarrow> bool" where
  "holds_a_secret k \<longleftrightarrow> sysctl_str k \<in> set secret_parameters \<or> last_segment k \<in> set secret_leaves"

section \<open>The parameters\<close>

type_synonym sysctl_parameters = "(sysctl_key, sysctl_value) btree"

definition parameters_new :: "(sysctl_key \<times> sysctl_value) list \<Rightarrow> sysctl_parameters" where
  "parameters_new ps = btree_collect ps"

definition parameter_observed :: "sysctl_key \<Rightarrow> sysctl_value \<Rightarrow> observation" where
  "parameter_observed k v =
     (let ob = sysctl_value_observed v;
          ob = (if changes_on_its_own k then volatile ob else ob)
      in if holds_a_secret k then sensitive ob else ob)"

definition parameters_observed :: "sysctl_parameters \<Rightarrow> observation" where
  "parameters_observed ps = object (map (\<lambda>(k, v). (sysctl_str k, parameter_observed k v)) ps)"

section \<open>An entry of \<open>/proc/sys\<close>\<close>

datatype entry_reading = ReadBytes str | Declined | RefusedRead str

definition decoded_value :: "sysctl_key \<Rightarrow> str \<Rightarrow> str collected" where
  "decoded_value k held =
     (if valid_utf8 held then Inr held else Inl (CollectionError ''{} holds a value that is not valid UTF-8'' [sysctl_str k]))"

definition classify :: "str list \<Rightarrow> 32 word \<Rightarrow> entry_reading \<Rightarrow> (sysctl_key \<times> sysctl_value) option collected" where
  "classify ss mode reading =
     (if readability_of_mode mode = WriteOnly then Inr None
      else and_then (sysctl_key_of ss) (\<lambda>k.
        map_ok (\<lambda>v. Some (k, v))
          (case reading of
             ReadBytes held \<Rightarrow> map_ok reported (decoded_value k held)
           | Declined \<Rightarrow> Inr Withheld
           | RefusedRead reason \<Rightarrow> Inr (Refused reason))))"

section \<open>The walk of the tree\<close>

datatype node_kind = DirectoryNode | FileNode | OtherNode

datatype read_error = PermissionDenied str | OtherError str

record sys_host =
  lists_names :: "str \<Rightarrow> str + (str + str) list"
  node_at :: "str \<Rightarrow> str + node_kind \<times> 32 word"
  file_holds :: "str \<Rightarrow> read_error + str"
  is_directory :: "str \<Rightarrow> bool"
  path_exists :: "str \<Rightarrow> bool"

record proc_sys =
  sys_root :: str
  sys_procfs :: str

definition proc_sys_new :: proc_sys where
  "proc_sys_new = \<lparr>sys_root = ''/proc/sys'', sys_procfs = ''/proc''\<rparr>"

datatype sys_child = DirectoryChild "str list" | ParameterChild sysctl_key sysctl_value

definition sys_path :: "str \<Rightarrow> str list \<Rightarrow> str" where
  "sys_path root ss = foldl text_joined root ss"

fun entry_reading_of :: "read_error + str \<Rightarrow> entry_reading" where
  "entry_reading_of (Inr held) = ReadBytes held"
| "entry_reading_of (Inl (PermissionDenied e)) = RefusedRead e"
| "entry_reading_of (Inl (OtherError e)) = Declined"

definition child_of :: "sys_host \<Rightarrow> str \<Rightarrow> str list \<Rightarrow> str \<Rightarrow> sys_child option collected" where
  "child_of h root ss n =
     (let ss = ss @ [n]; path = sys_path root ss
      in and_then (map_err (\<lambda>e. CollectionError ''could not stat {}: {error}'' [path, e]) (node_at h path)) (\<lambda>(kind, mode).
        if kind = DirectoryNode then Inr (Some (DirectoryChild ss))
        else if kind \<noteq> FileNode then Inr None
        else map_ok (map_option (\<lambda>(k, v). ParameterChild k v)) (classify ss mode (entry_reading_of (file_holds h path)))))"

definition sys_children_of :: "sys_host \<Rightarrow> str \<Rightarrow> str list \<Rightarrow> sys_child list collected" where
  "sys_children_of h root ss =
     (let directory = sys_path root ss
      in and_then (map_err (\<lambda>e. CollectionError ''could not list {}: {error}'' [directory, e]) (lists_names h directory)) (\<lambda>entries.
         and_then (collect_results (map (map_ok lossy \<circ> map_err (\<lambda>e. CollectionError ''could not list an entry of {}: {error}'' [directory, e])) entries)) (\<lambda>names.
         map_ok (List.map_filter id) (collect_results (map (child_of h root ss) (sort_by cmp_of names))))))"

definition directories_in :: "sys_child list \<Rightarrow> str list list" where
  "directories_in cs = List.map_filter (\<lambda>c. case c of DirectoryChild ss \<Rightarrow> Some ss | ParameterChild k v \<Rightarrow> None) cs"

definition parameters_in :: "sys_child list \<Rightarrow> (sysctl_key \<times> sysctl_value) list" where
  "parameters_in cs = List.map_filter (\<lambda>c. case c of DirectoryChild ss \<Rightarrow> None | ParameterChild k v \<Rightarrow> Some (k, v)) cs"

text \<open>The stack of directories still to list, the one pushed last first.  On a tree that never ends the walk does not return.\<close>

partial_function (option) sys_walk ::
    "sys_host \<Rightarrow> str \<Rightarrow> str list list \<Rightarrow> (sysctl_key \<times> sysctl_value) list \<Rightarrow> (sysctl_key \<times> sysctl_value) list collected option" where
  "sys_walk h root pending found =
     (case pending of
        [] \<Rightarrow> Some (Inr found)
      | ss # pending \<Rightarrow>
          (case sys_children_of h root ss of
             Inl e \<Rightarrow> Some (Inl e)
           | Inr cs \<Rightarrow> sys_walk h root (rev (directories_in cs) @ pending) (found @ parameters_in cs)))"

definition sysctl_read :: "sys_host \<Rightarrow> proc_sys \<Rightarrow> sysctl_parameters collected option" where
  "sysctl_read h p = map_option (map_ok parameters_new) (sys_walk h (sys_root p) [[]] [])"

definition sysctl_presence :: "sys_host \<Rightarrow> proc_sys \<Rightarrow> presence" where
  "sysctl_presence h p =
     (if is_directory h (sys_root p) then Present
      else if path_exists h (text_joined (sys_procfs p) ''self'') then Absent
      else Undetermined (CollectionError ''{} is not mounted, so whether this kernel has tunable parameters cannot be told'' [sys_procfs p]))"

definition sysctl_collect :: "sys_host \<Rightarrow> proc_sys \<Rightarrow> observation collected option" where
  "sysctl_collect h p = map_option (map_ok parameters_observed) (sysctl_read h p)"

section \<open>The name of a parameter spells its path\<close>

lemma dots_as_slashes_plain: "CHR ''.'' \<notin> set (dots_as_slashes s)"
  by (auto simp: dots_as_slashes_def)

lemma dots_as_slashes_inj:
  assumes "dots_as_slashes s = dots_as_slashes t" "CHR ''/'' \<notin> set s" "CHR ''/'' \<notin> set t"
  shows "s = t"
  using assms by (induction s arbitrary: t) (auto simp: dots_as_slashes_def Cons_eq_map_conv split: if_splits)

fun dot_joined :: "str list \<Rightarrow> str" where
  "dot_joined [] = []"
| "dot_joined [s] = s"
| "dot_joined (s # t # ss) = s @ CHR ''.'' # dot_joined (t # ss)"

lemma dot_joined_empty: "list_all (\<lambda>s. s \<noteq> []) ss \<Longrightarrow> dot_joined ss = [] \<longleftrightarrow> ss = []"
  by (cases ss rule: dot_joined.cases) auto

lemma split_on_dot_joined: "ss \<noteq> [] \<Longrightarrow> list_all (\<lambda>s. CHR ''.'' \<notin> set s) ss \<Longrightarrow> split_on (CHR ''.'') (dot_joined ss) = ss"
  by (induction ss rule: dot_joined.induct) (simp_all add: split_on_append split_on_fresh)

lemma dotted_more:
  "list_all (\<lambda>s. s \<noteq> []) ss \<Longrightarrow> spelled \<noteq> [] \<Longrightarrow>
    dotted ss spelled = Inr (dot_joined (spelled # map dots_as_slashes ss))"
proof (induction ss arbitrary: spelled)
  case (Cons s ss)
  have "dot_joined ((a @ CHR ''.'' # b) # cs) = a @ CHR ''.'' # dot_joined (b # cs)" for a b cs
    by (cases cs) simp_all
  with Cons show ?case by simp
qed simp

lemma sysctl_key_spelled:
  assumes "ss \<noteq> []" "list_all (\<lambda>s. s \<noteq> []) ss"
  shows "sysctl_key_of ss = Inr (SysctlKey (NonEmptyText (dot_joined (map dots_as_slashes ss))))"
proof -
  obtain s rest where ss: "ss = s # rest" using assms(1) by (cases ss) auto
  then have "dotted ss [] = Inr (dot_joined (map dots_as_slashes ss))"
    using assms(2) dotted_more[of rest "dots_as_slashes s"] by (simp add: dots_as_slashes_def)
  moreover have "dot_joined (map dots_as_slashes ss) \<noteq> []"
    using assms by (subst dot_joined_empty) (auto simp: list_all_iff dots_as_slashes_def)
  ultimately show ?thesis using assms(1) by (simp add: sysctl_key_of_def non_empty_text_new_def)
qed

lemma sysctl_key_needs: "sysctl_key_of ss = Inr k \<Longrightarrow> ss \<noteq> [] \<and> list_all (\<lambda>s. s \<noteq> []) ss"
proof -
  have "dotted ss spelled = Inr r \<Longrightarrow> list_all (\<lambda>s. s \<noteq> []) ss" for ss spelled r
    by (induction ss arbitrary: spelled) (auto split: if_splits)
  then show "sysctl_key_of ss = Inr k \<Longrightarrow> ss \<noteq> [] \<and> list_all (\<lambda>s. s \<noteq> []) ss"
    by (auto simp: sysctl_key_of_def and_then_Inr_iff split: if_splits)
qed

lemma sysctl_key_inj:
  assumes "sysctl_key_of ss = Inr k" "sysctl_key_of ts = Inr k"
    and "list_all (\<lambda>s. CHR ''/'' \<notin> set s) ss" "list_all (\<lambda>s. CHR ''/'' \<notin> set s) ts"
  shows "ss = ts"
proof -
  have joined: "dot_joined (map dots_as_slashes ss) = dot_joined (map dots_as_slashes ts)"
    using assms(1,2) sysctl_key_spelled sysctl_key_needs by (metis Inr_inject sysctl_key.inject non_empty_text.inject)
  have "split_on (CHR ''.'') (dot_joined (map dots_as_slashes us)) = map dots_as_slashes us" if "us \<noteq> []" for us
    using that by (intro split_on_dot_joined) (simp_all add: list_all_iff dots_as_slashes_plain)
  then have "map dots_as_slashes ss = map dots_as_slashes ts"
    using joined sysctl_key_needs[OF assms(1)] sysctl_key_needs[OF assms(2)] by metis
  then show ?thesis
    using assms(3,4)
  proof (induction ss arbitrary: ts)
    case (Cons s ss)
    then obtain t ts' where "ts = t # ts'" by (cases ts) auto
    with Cons dots_as_slashes_inj[of s t] show ?case by simp
  qed simp
qed

lemma stable_secrets_recognised:
  assumes "sysctl_key_of (ss @ [''stable_secret'']) = Inr k"
  shows "holds_a_secret k"
proof -
  have "k = SysctlKey (NonEmptyText (dot_joined (map dots_as_slashes (ss @ [''stable_secret'']))))"
    using sysctl_key_spelled sysctl_key_needs[OF assms] assms by simp
  moreover have "split_on (CHR ''.'') (dot_joined (map dots_as_slashes (ss @ [''stable_secret'']))) = map dots_as_slashes (ss @ [''stable_secret''])"
    by (intro split_on_dot_joined) (simp_all add: list_all_iff dots_as_slashes_plain)
  ultimately show ?thesis by (simp add: holds_a_secret_def last_segment_def sysctl_str_def secret_leaves_def dots_as_slashes_def)
qed

section \<open>A tree is read whole\<close>

text \<open>The tree the kernel publishes: directories with their entries in the order they are listed, files, and anything else.\<close>

datatype sys_tree = SysFile "32 word" "read_error + str" | SysOther "32 word" | SysDirectory "32 word" sys_forest
  and sys_forest = NoMore | Entry str sys_tree sys_forest

primrec entry_names :: "sys_forest \<Rightarrow> str list" where
  "entry_names NoMore = []"
| "entry_names (Entry n t f) = n # entry_names f"

primrec tree_depicted :: "sys_host \<Rightarrow> str \<Rightarrow> str list \<Rightarrow> sys_tree \<Rightarrow> bool"
  and forest_depicted :: "sys_host \<Rightarrow> str \<Rightarrow> str list \<Rightarrow> sys_forest \<Rightarrow> bool" where
  "tree_depicted h root ss (SysFile mode held) \<longleftrightarrow>
     node_at h (sys_path root ss) = Inr (FileNode, mode) \<and> file_holds h (sys_path root ss) = held"
| "tree_depicted h root ss (SysOther mode) \<longleftrightarrow> node_at h (sys_path root ss) = Inr (OtherNode, mode)"
| "tree_depicted h root ss (SysDirectory mode f) \<longleftrightarrow>
     node_at h (sys_path root ss) = Inr (DirectoryNode, mode) \<and>
     lists_names h (sys_path root ss) = Inr (map Inr (entry_names f)) \<and> forest_depicted h root ss f"
| "forest_depicted h root ss NoMore \<longleftrightarrow> True"
| "forest_depicted h root ss (Entry n t f) \<longleftrightarrow> tree_depicted h root (ss @ [n]) t \<and> forest_depicted h root ss f"

definition name_ok :: "str \<Rightarrow> bool" where
  "name_ok n \<longleftrightarrow> n \<noteq> [] \<and> valid_utf8 n \<and> CHR ''/'' \<notin> set n"

text \<open>Names are what the kernel uses for names, and every value that is read is text.\<close>

definition file_ok :: "32 word \<Rightarrow> read_error + str \<Rightarrow> bool" where
  "file_ok mode held \<longleftrightarrow> readability_of_mode mode = WriteOnly \<or> (case held of Inr v \<Rightarrow> valid_utf8 v | Inl e \<Rightarrow> True)"

primrec sys_tree_ok :: "sys_tree \<Rightarrow> bool" and sys_forest_ok :: "sys_forest \<Rightarrow> bool" where
  "sys_tree_ok (SysFile mode held) \<longleftrightarrow> file_ok mode held"
| "sys_tree_ok (SysOther mode) \<longleftrightarrow> True"
| "sys_tree_ok (SysDirectory mode f) \<longleftrightarrow> sys_forest_ok f"
| "sys_forest_ok NoMore \<longleftrightarrow> True"
| "sys_forest_ok (Entry n t f) \<longleftrightarrow> name_ok n \<and> sys_tree_ok t \<and> sys_forest_ok f"

text \<open>What each file says, under its path, and what has to be listed to read a tree.\<close>

definition setting_meant :: "32 word \<Rightarrow> read_error + str \<Rightarrow> sysctl_value option" where
  "setting_meant mode held = (if readability_of_mode mode = WriteOnly then None
     else Some (case held of Inr v \<Rightarrow> reported v | Inl (PermissionDenied e) \<Rightarrow> Refused e | Inl (OtherError e) \<Rightarrow> Withheld))"

primrec tree_settings :: "str list \<Rightarrow> sys_tree \<Rightarrow> (str list \<times> sysctl_value) list"
  and forest_settings :: "str list \<Rightarrow> sys_forest \<Rightarrow> (str list \<times> sysctl_value) list" where
  "tree_settings ss (SysFile mode held) = (case setting_meant mode held of Some v \<Rightarrow> [(ss, v)] | None \<Rightarrow> [])"
| "tree_settings ss (SysOther mode) = []"
| "tree_settings ss (SysDirectory mode f) = forest_settings ss f"
| "forest_settings ss NoMore = []"
| "forest_settings ss (Entry n t f) = tree_settings (ss @ [n]) t @ forest_settings ss f"

primrec directories_of :: "str list \<Rightarrow> sys_forest \<Rightarrow> (str list \<times> sys_forest) list" where
  "directories_of ss NoMore = []"
| "directories_of ss (Entry n t f) = (case t of SysDirectory mode g \<Rightarrow> [(ss @ [n], g)] | _ \<Rightarrow> []) @ directories_of ss f"

primrec files_of :: "str list \<Rightarrow> sys_forest \<Rightarrow> (str list \<times> sysctl_value) list" where
  "files_of ss NoMore = []"
| "files_of ss (Entry n t f) = (case t of SysDirectory mode g \<Rightarrow> [] | _ \<Rightarrow> tree_settings (ss @ [n]) t) @ files_of ss f"

definition spelled_key :: "str list \<Rightarrow> sysctl_key" where
  "spelled_key ss = SysctlKey (NonEmptyText (dot_joined (map dots_as_slashes ss)))"

abbreviation keyed_by_path :: "str list \<times> sysctl_value \<Rightarrow> sysctl_key \<times> sysctl_value" where
  "keyed_by_path p \<equiv> (spelled_key (fst p), snd p)"

definition child_meant :: "str list \<Rightarrow> str \<Rightarrow> sys_tree \<Rightarrow> sys_child option" where
  "child_meant ss n t = (case t of SysDirectory mode g \<Rightarrow> Some (DirectoryChild (ss @ [n])) | SysOther mode \<Rightarrow> None
     | SysFile mode held \<Rightarrow> map_option (ParameterChild (spelled_key (ss @ [n]))) (setting_meant mode held))"

lemma child_read:
  assumes "tree_depicted h root (ss @ [n]) t" "sys_tree_ok t" "list_all (\<lambda>s. s \<noteq> []) (ss @ [n])"
  shows "child_of h root ss n = Inr (child_meant ss n t)"
proof (cases t)
  case (SysFile mode held)
  have "sysctl_key_of (ss @ [n]) = Inr (spelled_key (ss @ [n]))"
    unfolding spelled_key_def by (rule sysctl_key_spelled) (use assms(3) in simp_all)
  then show ?thesis
    using SysFile assms(1,2)
    by (auto simp: child_of_def Let_def child_meant_def classify_def setting_meant_def file_ok_def decoded_value_def
        split: sum.splits read_error.splits)
qed (use assms in \<open>simp_all add: child_of_def Let_def child_meant_def\<close>)

primrec entries_of :: "sys_forest \<Rightarrow> (str \<times> sys_tree) list" where
  "entries_of NoMore = []"
| "entries_of (Entry n t f) = (n, t) # entries_of f"

lemma entry_names_entries: "entry_names f = map fst (entries_of f)"
  by (induction f rule: sys_forest.induct[where ?P1.0 = "\<lambda>_. True"]) simp_all

lemma sys_entries_read:
  assumes "forest_depicted h root ss f" "sys_forest_ok f" "list_all (\<lambda>s. s \<noteq> []) ss"
  shows "map (child_of h root ss) (entry_names f) = map Inr (map (\<lambda>(n, t). child_meant ss n t) (entries_of f))"
  using assms
  by (induction f rule: sys_forest.induct[where ?P1.0 = "\<lambda>_. True"]) (simp_all add: child_read name_ok_def)

lemma names_read: "sys_forest_ok f \<Longrightarrow> collect_results (map (map_ok lossy \<circ> map_err e) (map Inr (entry_names f))) = Inr (entry_names f)"
  by (induction f rule: sys_forest.induct[where ?P1.0 = "\<lambda>_. True"]) (simp_all add: name_ok_def)

lemma map_filter_mset: "mset xs = mset ys \<Longrightarrow> mset (List.map_filter f xs) = mset (List.map_filter f ys)"
  by (simp add: map_filter_def)

lemma all_right:
  assumes "mset rs = mset (map Inr ms)"
  obtains found where "rs = map Inr found" "mset found = mset ms"
proof -
  have "set rs = set (map Inr ms)" using assms by (rule mset_eq_setD)
  then have "\<forall>r \<in> set rs. r = Inr (projr r)" by auto
  then have "rs = map Inr (map projr rs)" by (simp add: map_idI)
  moreover have "mset (map projr rs) = mset ms"
    using arg_cong[OF assms, of "image_mset projr"] by (simp add: image_mset.compositionality comp_def)
  ultimately show thesis by (rule that)
qed

lemma collect_all_right: "collect_results (map Inr xs) = Inr xs"
  by (simp add: collect_results_Inr_iff)

lemma meant_filtered: "List.map_filter id (map (\<lambda>(n, t). child_meant ss n t) es) = List.map_filter (\<lambda>(n, t). child_meant ss n t) es"
  by (induction es) (auto simp: List.map_filter_simps split: option.split)

lemma children_read:
  assumes "lists_names h (sys_path root ss) = Inr (map Inr (entry_names f))" "forest_depicted h root ss f" "sys_forest_ok f"
    and "list_all (\<lambda>s. s \<noteq> []) ss"
  obtains cs where "sys_children_of h root ss = Inr cs"
    "mset cs = mset (List.map_filter (\<lambda>(n, t). child_meant ss n t) (entries_of f))"
proof -
  let ?ms = "map (\<lambda>(n, t). child_meant ss n t) (entries_of f)"
  let ?read = "map (child_of h root ss) (sort_by cmp_of (entry_names f))"
  have "mset ?read = image_mset (child_of h root ss) (mset (entry_names f))" by simp
  also have "\<dots> = mset (map (child_of h root ss) (entry_names f))" by simp
  finally have "mset ?read = mset (map Inr ?ms)" unfolding sys_entries_read[OF assms(2-4)] .
  then obtain found where found: "?read = map Inr found" "mset found = mset ?ms" by (rule all_right)
  have "sys_children_of h root ss = Inr (List.map_filter id found)"
    unfolding sys_children_of_def Let_def assms(1)
    by (simp only: map_err.simps and_then.simps names_read[OF assms(3)] found(1) collect_all_right map_ok.simps)
  moreover have "mset (List.map_filter id found) = mset (List.map_filter (\<lambda>(n, t). child_meant ss n t) (entries_of f))"
    using map_filter_mset[OF found(2), of id] by (simp only: meant_filtered)
  ultimately show thesis by (rule that)
qed

lemma child_meant_sorts:
  "List.map_filter (\<lambda>c. case c of DirectoryChild ss \<Rightarrow> Some ss | ParameterChild k v \<Rightarrow> None) (List.map_filter (\<lambda>(n, t). child_meant ss n t) (entries_of f)) =
     map fst (directories_of ss f)"
  "List.map_filter (\<lambda>c. case c of DirectoryChild ss \<Rightarrow> None | ParameterChild k v \<Rightarrow> Some (k, v)) (List.map_filter (\<lambda>(n, t). child_meant ss n t) (entries_of f)) =
     map keyed_by_path (files_of ss f)"
  by (induction f rule: sys_forest.induct[where ?P1.0 = "\<lambda>_. True"])
    (auto simp: child_meant_def List.map_filter_simps split: sys_tree.splits option.splits)

text \<open>The settings of a tree are those of its files and those of its directories.\<close>

abbreviation settings_below :: "str list \<times> sys_forest \<Rightarrow> (str list \<times> sysctl_value) multiset" where
  "settings_below d \<equiv> mset (forest_settings (fst d) (snd d))"

lemma settings_parted:
  "mset (forest_settings ss f) = mset (files_of ss f) + (\<Sum>d \<in># mset (directories_of ss f). settings_below d)"
  by (induction f rule: sys_forest.induct[where ?P1.0 = "\<lambda>_. True"]) (auto split: sys_tree.split)

primrec tree_directories :: "sys_tree \<Rightarrow> nat" and forest_directories :: "sys_forest \<Rightarrow> nat" where
  "tree_directories (SysFile mode held) = 0"
| "tree_directories (SysOther mode) = 0"
| "tree_directories (SysDirectory mode f) = Suc (forest_directories f)"
| "forest_directories NoMore = 0"
| "forest_directories (Entry n t f) = tree_directories t + forest_directories f"

lemma directories_counted: "(\<Sum>d \<in># mset (directories_of ss f). Suc (forest_directories (snd d))) = forest_directories f"
  by (induction f rule: sys_forest.induct[where ?P1.0 = "\<lambda>_. True"]) (auto split: sys_tree.split)

definition directory_shown :: "sys_host \<Rightarrow> str \<Rightarrow> str list \<times> sys_forest \<Rightarrow> bool" where
  "directory_shown h root d \<longleftrightarrow> lists_names h (sys_path root (fst d)) = Inr (map Inr (entry_names (snd d))) \<and>
     forest_depicted h root (fst d) (snd d) \<and> sys_forest_ok (snd d) \<and> list_all (\<lambda>s. s \<noteq> []) (fst d)"

lemma directories_shown:
  assumes "forest_depicted h root ss f" "sys_forest_ok f" "list_all (\<lambda>s. s \<noteq> []) ss"
  shows "\<forall>d \<in> set (directories_of ss f). directory_shown h root d"
  using assms
  by (induction f rule: sys_forest.induct[where ?P1.0 = "\<lambda>_. True"]) (auto simp: directory_shown_def name_ok_def split: sys_tree.splits)

lemma mset_of_firsts:
  assumes "mset (map f xs) = mset ys"
  obtains zs where "mset zs = mset xs" "map f zs = ys"
  using assms
proof (induction ys arbitrary: xs thesis)
  case (Cons y ys)
  then have "y \<in> set (map f xs)" by (metis list.set_intros(1) set_mset_mset)
  then obtain a x b where xs: "xs = a @ x # b" "y = f x" by (auto dest: split_list)
  with Cons.prems(2) have "mset (map f (a @ b)) = mset ys" by simp
  with Cons.IH obtain zs where "mset zs = mset (a @ b)" "map f zs = ys" by blast
  with xs show ?case by (intro Cons.prems(1)[of "x # zs"]) simp_all
qed simp

lemma walk_reads_on:
  assumes "\<forall>d \<in> set pd. directory_shown h root d"
  shows "\<exists>r. sys_walk h root (map fst pd) found = Some (Inr r) \<and>
    mset r = mset found + image_mset keyed_by_path (\<Sum>d \<in># mset pd. settings_below d)"
  using assms
proof (induction "\<Sum>d \<in># mset pd. Suc (forest_directories (snd d))" arbitrary: pd found rule: less_induct)
  case less
  show ?case
  proof (cases pd)
    case Nil
    then show ?thesis by (simp add: sys_walk.simps)
  next
    case (Cons d rest)
    obtain ss f where d: "d = (ss, f)" by (cases d)
    from less.prems Cons have shown: "directory_shown h root (ss, f)" by (simp add: d)
    then obtain cs where cs: "sys_children_of h root ss = Inr cs"
      "mset cs = mset (List.map_filter (\<lambda>(n, t). child_meant ss n t) (entries_of f))"
      using children_read[of h root ss f] by (auto simp: directory_shown_def)
    have dirs: "mset (directories_in cs) = mset (map fst (directories_of ss f))"
      unfolding directories_in_def map_filter_mset[OF cs(2)] child_meant_sorts ..
    have files: "mset (parameters_in cs) = mset (map keyed_by_path (files_of ss f))"
      unfolding parameters_in_def map_filter_mset[OF cs(2)] child_meant_sorts ..
    have "mset (map fst (directories_of ss f)) = mset (rev (directories_in cs))" using dirs by simp
    then obtain zs where zs: "mset zs = mset (directories_of ss f)" "map fst zs = rev (directories_in cs)"
      by (rule mset_of_firsts)
    have "\<forall>d \<in> set (zs @ rest). directory_shown h root d"
      using directories_shown[of h root ss f] shown less.prems Cons mset_eq_setD[OF zs(1)] by (auto simp: directory_shown_def)
    moreover have "(\<Sum>d \<in># mset (zs @ rest). Suc (forest_directories (snd d))) < (\<Sum>d \<in># mset pd. Suc (forest_directories (snd d)))"
      using zs(1) directories_counted[of ss f] by (simp add: Cons d)
    ultimately obtain r where r: "sys_walk h root (map fst (zs @ rest)) (found @ parameters_in cs) = Some (Inr r)"
      "mset r = mset (found @ parameters_in cs) + image_mset keyed_by_path (\<Sum>d \<in># mset (zs @ rest). settings_below d)"
      using less.hyps by blast
    have "sys_walk h root (map fst pd) found = Some (Inr r)"
      using r(1) cs(1) zs(2) by (subst sys_walk.simps) (simp add: Cons d)
    moreover have "mset r = mset found + image_mset keyed_by_path (\<Sum>d \<in># mset pd. settings_below d)"
    proof -
      have "(\<Sum>d \<in># mset (zs @ rest). settings_below d) =
          (\<Sum>d \<in># mset (directories_of ss f). settings_below d) + (\<Sum>d \<in># mset rest. settings_below d)"
        by (simp only: mset_append zs(1) image_mset_union sum_mset.union)
      moreover have "(\<Sum>d \<in># mset pd. settings_below d) = mset (forest_settings ss f) + (\<Sum>d \<in># mset rest. settings_below d)"
        by (simp add: Cons d)
      moreover have "mset (found @ parameters_in cs) = mset found + image_mset keyed_by_path (mset (files_of ss f))"
        by (simp only: mset_append files mset_map)
      ultimately show ?thesis unfolding r(2) by (simp only: settings_parted[of ss f] image_mset_union add.assoc)
    qed
    ultimately show ?thesis by blast
  qed
qed

text \<open>What a host says of a path decides what the tree says of it.\<close>

lemma settings_decided:
  "tree_depicted h root ss t \<Longrightarrow> (ps, v) \<in> set (tree_settings ss t) \<Longrightarrow>
     \<exists>mode. node_at h (sys_path root ps) = Inr (FileNode, mode) \<and> setting_meant mode (file_holds h (sys_path root ps)) = Some v"
  "forest_depicted h root ss f \<Longrightarrow> (ps, v) \<in> set (forest_settings ss f) \<Longrightarrow>
     \<exists>mode. node_at h (sys_path root ps) = Inr (FileNode, mode) \<and> setting_meant mode (file_holds h (sys_path root ps)) = Some v"
  by (induction t and f arbitrary: ss and ss) (auto split: option.splits)

lemma settings_named:
  "sys_tree_ok t \<Longrightarrow> list_all name_ok ss \<Longrightarrow> (ps, v) \<in> set (tree_settings ss t) \<Longrightarrow> list_all name_ok ps"
  "sys_forest_ok f \<Longrightarrow> list_all name_ok ss \<Longrightarrow> (ps, v) \<in> set (forest_settings ss f) \<Longrightarrow> list_all name_ok ps"
proof (induction t and f arbitrary: ss and ss)
  case (Entry n t f)
  then show ?case using Entry.IH(1)[of "ss @ [n]"] Entry.IH(2)[of ss] by auto
qed (auto split: option.splits)

lemma settings_not_root: "(ps, v) \<in> set (forest_settings ss f) \<Longrightarrow> length ss < length ps"
proof -
  have "(ps, v) \<in> set (tree_settings ss t) \<Longrightarrow> length ss \<le> length ps" and "(ps, v) \<in> set (forest_settings ss f) \<Longrightarrow> length ss < length ps" for t
    by (induction t and f arbitrary: ss and ss) (fastforce split: option.splits)+
  then show "(ps, v) \<in> set (forest_settings ss f) \<Longrightarrow> length ss < length ps" by simp
qed

lemma collected_once:
  assumes "mset r = mset kvs" "\<And>k v w. (k, v) \<in> set kvs \<Longrightarrow> (k, w) \<in> set kvs \<Longrightarrow> v = w"
  shows "btree_get k (btree_collect r) = Some v \<longleftrightarrow> (k, v) \<in> set kvs"
proof -
  have set: "set r = set kvs" using assms(1) by (rule mset_eq_setD)
  have "map_of (rev r) k = Some v \<longleftrightarrow> (k, v) \<in> set r"
  proof
    assume "(k, v) \<in> set r"
    then obtain w where "map_of (rev r) k = Some w" by (metis domIff dom_map_of_conv_image_fst not_None_eq rev_rev_ident set_rev image_eqI fst_conv)
    with \<open>(k, v) \<in> set r\<close> assms(2) set show "map_of (rev r) k = Some v" by (auto dest!: map_of_SomeD)
  qed (auto dest: map_of_SomeD)
  then show ?thesis by (simp add: btree.get_collect set)
qed

text \<open>C24. The tree of kernel parameters is read whole: on any tree of directories, files and other nodes the walk returns, and
  what is recorded under a key is what the file whose path the key spells says: its value, that this run was refused it, or that
  the kernel declined to give one.  A file nobody may read has no key, and no key is there without its file.\<close>

theorem sysctl_tree_read:
  assumes "lists_names h (sys_root p) = Inr (map Inr (entry_names f))" "forest_depicted h (sys_root p) [] f" "sys_forest_ok f"
  shows "\<exists>ps. sysctl_read h p = Some (Inr ps) \<and>
    (\<forall>k v. btree_get k ps = Some v \<longleftrightarrow> (\<exists>ss. (ss, v) \<in> set (forest_settings [] f) \<and> sysctl_key_of ss = Inr k))"
proof -
  let ?settings = "forest_settings [] f"
  have "\<forall>d \<in> set [([], f)]. directory_shown h (sys_root p) d"
    using assms by (simp add: directory_shown_def sys_path_def)
  from walk_reads_on[OF this, of "[]"] obtain r where r: "sys_walk h (sys_root p) [[]] [] = Some (Inr r)"
    "mset r = mset (map keyed_by_path ?settings)" by auto
  have key: "sysctl_key_of ss = Inr (spelled_key ss)" "list_all (\<lambda>s. CHR ''/'' \<notin> set s) ss" if "(ss, v) \<in> set ?settings" for ss v
    using settings_named(2)[OF assms(3) _ that] settings_not_root[OF that] sysctl_key_spelled[of ss]
    by (auto simp: list_all_iff name_ok_def spelled_key_def)
  have once: "v = w" if "(k, v) \<in> set (map keyed_by_path ?settings)" "(k, w) \<in> set (map keyed_by_path ?settings)" for k v w
  proof -
    from that obtain ss ts where st: "(ss, v) \<in> set ?settings" "(ts, w) \<in> set ?settings" "k = spelled_key ss" "k = spelled_key ts" by auto
    then have "ss = ts" using key by (intro sysctl_key_inj[of ss k ts]) auto
    with settings_decided(2)[OF assms(2) st(1)] settings_decided(2)[OF assms(2) st(2)] show "v = w" by auto
  qed
  have "btree_get k (btree_collect r) = Some v \<longleftrightarrow> (\<exists>ss. (ss, v) \<in> set ?settings \<and> sysctl_key_of ss = Inr k)" for k v
  proof -
    have "btree_get k (btree_collect r) = Some v \<longleftrightarrow> (k, v) \<in> set (map keyed_by_path ?settings)"
      by (rule collected_once[OF r(2)]) (rule once)
    also have "\<dots> \<longleftrightarrow> (\<exists>ss. (ss, v) \<in> set ?settings \<and> spelled_key ss = k)"
      by (auto simp: image_iff intro!: bexI)
    also have "\<dots> \<longleftrightarrow> (\<exists>ss. (ss, v) \<in> set ?settings \<and> sysctl_key_of ss = Inr k)" using key(1) by (metis Inr_inject)
    finally show ?thesis .
  qed
  then show ?thesis using r(1) by (simp add: sysctl_read_def parameters_new_def)
qed

definition parameters_example :: sys_host where
  "parameters_example = \<lparr>
    lists_names = (\<lambda>p. if p = ''/proc/sys'' then Inr [Inr ''kernel'', Inr ''vm''] else if p = ''/proc/sys/kernel'' then Inr [Inr ''hostname''] else Inr []),
    node_at = (\<lambda>p. if p = ''/proc/sys/kernel/hostname'' then Inr (FileNode, 0x1A4) else Inr (DirectoryNode, 0x16D)),
    file_holds = (\<lambda>p. if p = ''/proc/sys/kernel/hostname'' then Inr (''box'' @ [newline]) else Inl (OtherError ''gone'')),
    is_directory = (\<lambda>p. True), path_exists = (\<lambda>p. True)\<rparr>"

definition example_forest :: sys_forest where
  "example_forest = Entry ''kernel'' (SysDirectory 0x16D (Entry ''hostname'' (SysFile 0x1A4 (Inr (''box'' @ [newline]))) NoMore))
     (Entry ''vm'' (SysDirectory 0x16D NoMore) NoMore)"

lemma example_depicted:
  "lists_names parameters_example (sys_root proc_sys_new) = Inr (map Inr (entry_names example_forest))"
  "forest_depicted parameters_example (sys_root proc_sys_new) [] example_forest"
  "sys_forest_ok example_forest"
  "sysctl_key_of [''kernel'', ''hostname''] = Inr (SysctlKey (NonEmptyText ''kernel.hostname''))"
  "([''kernel'', ''hostname''], Reported ''box'') \<in> set (forest_settings [] example_forest)"
  by code_simp+

theorem sysctl_tree_read_witness:
  "\<exists>ps. sysctl_read parameters_example proc_sys_new = Some (Inr ps) \<and> btree_get (SysctlKey (NonEmptyText ''kernel.hostname'')) ps = Some (Reported ''box'')"
  using sysctl_tree_read[OF example_depicted(1-3)] example_depicted(4,5) by blast

end
