(* ===== verification/Processes.thy ===== *)
theory Processes
  imports KernelModules Lossy Paths
begin

text \<open>
  The processes of the host (\<open>collectors/processes\<close>): the fields of \<open>/proc/<pid>/status\<close>, the command line, the control group,
  and the table.  What the kernel prints of a process is read back, and a process that departs while it is read is left out.
\<close>

section \<open>Values\<close>

datatype process_id = ProcessId "32 word"

fun as_u32 :: "process_id \<Rightarrow> 32 word" where
  "as_u32 (ProcessId n) = n"

definition process_id_parse :: "str \<Rightarrow> process_id collected" where
  "process_id_parse v = (case parse_unsigned 32 (trim v) of
      Some n \<Rightarrow> Inr (ProcessId (word_of_nat n))
    | None \<Rightarrow> Inl (CollectionError ''{value:?} is not a process id'' [v]))"

definition process_id_observed :: "process_id \<Rightarrow> observation" where
  "process_id_observed p = volatile (integer (ucast (as_u32 p)))"

datatype process_state = ProcessState (process_state_text: non_empty_text)

definition process_state_new :: "str \<Rightarrow> process_state collected" where
  "process_state_new v = map_ok ProcessState (non_empty_text_new v ''process state'')"

definition process_state_observed :: "process_state \<Rightarrow> observation" where
  "process_state_observed s = volatile (text_of (text_str (process_state_text s)))"

datatype control_group = ControlGroup (control_group_text: non_empty_text)

definition control_group_new :: "str \<Rightarrow> control_group collected" where
  "control_group_new v = map_ok ControlGroup (non_empty_text_new v ''control group'')"

definition control_group_observed :: "control_group \<Rightarrow> observation" where
  "control_group_observed g = text_of (text_str (control_group_text g))"

type_synonym command_line = "str list"

definition command_line_observed :: "command_line \<Rightarrow> observation" where
  "command_line_observed c = sequence (map text_of c)"

section \<open>A process\<close>

record host_process =
  process_named :: process_name
  process_command :: command_line
  process_user :: "32 word"
  process_group :: "32 word"
  process_control_group :: "control_group option"
  process_executable :: "absolute_path option"
  process_number :: process_id
  process_parent :: process_id
  process_status :: process_state
  process_threads :: i64

definition process_observed :: "host_process \<Rightarrow> observation" where
  "process_observed p = volatile (object
     [(''command_line'', command_line_observed (process_command p)),
      (''control_group'', case process_control_group p of Some g \<Rightarrow> control_group_observed g | None \<Rightarrow> null),
      (''executable'', case process_executable p of Some e \<Rightarrow> text_of (path_str e) | None \<Rightarrow> null),
      (''group_id'', integer (ucast (process_group p))),
      (''name'', process_name_observed (process_named p)),
      (''parent_process_id'', process_id_observed (process_parent p)),
      (''process_id'', process_id_observed (process_number p)),
      (''state'', process_state_observed (process_status p)),
      (''thread_count'', volatile (integer (process_threads p))),
      (''user_id'', integer (ucast (process_user p)))])"

text \<open>The derived order: field by field, in the order of the struct.\<close>

fun process_name_text :: "process_name \<Rightarrow> str" where
  "process_name_text (ProcessName t) = text_str t"

definition compare_host_processes :: "host_process \<Rightarrow> host_process \<Rightarrow> comparison" where
  "compare_host_processes p q =
     then_with (cmp_of (process_name_text (process_named p)) (process_name_text (process_named q)))
    (then_with (cmp_of (process_command p) (process_command q))
    (then_with (cmp_of (process_user p) (process_user q))
    (then_with (cmp_of (process_group p) (process_group q))
    (then_with (compare_options cmp_of (map_option (text_str \<circ> control_group_text) (process_control_group p))
                                       (map_option (text_str \<circ> control_group_text) (process_control_group q)))
    (then_with (compare_options cmp_of (process_executable p) (process_executable q))
    (then_with (cmp_of (as_u32 (process_number p)) (as_u32 (process_number q)))
    (then_with (cmp_of (as_u32 (process_parent p)) (as_u32 (process_parent q)))
    (then_with (cmp_of (text_str (process_state_text (process_status p))) (text_str (process_state_text (process_status q))))
      (cmp_of (sint (process_threads p)) (sint (process_threads q)))))))))))"

type_synonym process_table = "host_process list"

definition process_table_new :: "host_process list \<Rightarrow> process_table" where
  "process_table_new ps = sort_by compare_host_processes ps"

definition process_table_observed :: "hashes \<Rightarrow> process_table \<Rightarrow> observation" where
  "process_table_observed H t = set_by H [''name'', ''command_line''] (map process_observed t)"

section \<open>The files of a process\<close>

definition status_parse :: "str \<Rightarrow> (str, str) btree" where
  "status_parse status = btree_collect (map (\<lambda>(n, v). (trim n, trim v)) (List.map_filter (split_once (CHR '':'')) (lines status)))"

definition status_field :: "(str, str) btree \<Rightarrow> str \<Rightarrow> str collected" where
  "status_field status n = ok_or (CollectionError ''a process reported no {name:?} field'' [n]) (btree_get n status)"

definition real_id :: "str \<Rightarrow> 32 word collected" where
  "real_id l =
     and_then (ok_or (CollectionError ''{line:?} carries no ids, so the line was misread'' [l])
       (case split_whitespace l of [] \<Rightarrow> None | real # others \<Rightarrow> Some real)) (\<lambda>real.
     ok_or (CollectionError ''{real:?} is not a user or group id'' [real]) (map_option word_of_nat (parse_unsigned 32 real)))"

definition argument_separator :: char where
  "argument_separator = char_of (0 :: nat)"

definition parse_arguments :: "str \<Rightarrow> command_line" where
  "parse_arguments cmdline = (case strip_suffix [argument_separator] cmdline of
      None \<Rightarrow> filter (\<lambda>a. a \<noteq> []) (split_on argument_separator cmdline)
    | Some body \<Rightarrow> split_on argument_separator body)"

definition parse_control_group :: "str \<Rightarrow> control_group option collected" where
  "parse_control_group cgroup = (case find_map (strip_prefix ''0::'') (lines cgroup) of
      None \<Rightarrow> Inr None
    | Some l \<Rightarrow> if trim l = [] then Inr None else map_ok Some (control_group_new (trim l)))"

section \<open>Reading \<open>/proc\<close>\<close>

record process_read_failure =
  not_found :: bool
  os_error :: "int option"
  failure_shown :: str

definition esrch :: int where
  "esrch = 3"

definition departed :: "process_read_failure \<Rightarrow> bool" where
  "departed e \<longleftrightarrow> not_found e \<or> os_error e = Some esrch"

record processes_host =
  lists_entries :: "str \<Rightarrow> str + (str + str) list"
  reads_text :: "str \<Rightarrow> process_read_failure + str"
  reads_link :: "str \<Rightarrow> str option"
  has_entry :: "str \<Rightarrow> bool"

definition filesystem_is_mounted :: "processes_host \<Rightarrow> str \<Rightarrow> bool" where
  "filesystem_is_mounted h procfs \<longleftrightarrow> has_entry h (text_joined procfs ''self'')"

definition names_a_process :: "str \<Rightarrow> bool" where
  "names_a_process n \<longleftrightarrow> list_all (\<lambda>c. between 48 57 c) n \<and> n \<noteq> []"

definition process_ids :: "processes_host \<Rightarrow> str \<Rightarrow> process_id list collected" where
  "process_ids h procfs =
     and_then (map_err (\<lambda>e. CollectionError ''could not list {}: {error}'' [procfs, e]) (lists_entries h procfs)) (\<lambda>entries.
     map_ok (\<lambda>found. sort_by (\<lambda>p q. cmp_of (as_u32 p) (as_u32 q)) (concat found))
       (collect_results (map (\<lambda>entry.
          and_then (map_err (\<lambda>e. CollectionError ''could not list an entry of {}: {error}'' [procfs, e]) entry) (\<lambda>raw.
            if names_a_process (lossy raw) then map_ok (\<lambda>p. [p]) (process_id_parse (lossy raw)) else Inr [])) entries)))"

definition read_optional :: "processes_host \<Rightarrow> str \<Rightarrow> str option collected" where
  "read_optional h path = (case reads_text h path of
      Inr contents \<Rightarrow> Inr (Some contents)
    | Inl e \<Rightarrow> if departed e then Inr None else Inl (CollectionError ''could not read {}: {error}'' [path, failure_shown e]))"

definition read_executable :: "processes_host \<Rightarrow> str \<Rightarrow> absolute_path option" where
  "read_executable h directory =
     Option.bind (reads_link h (text_joined directory ''exe'')) (\<lambda>target. result_ok (absolute_path_new (lossy target) ''executable path''))"

definition process_directory :: "str \<Rightarrow> process_id \<Rightarrow> str" where
  "process_directory procfs p = text_joined procfs (show_nat (unat (as_u32 p)))"

definition process_from :: "(str, str) btree \<Rightarrow> str \<Rightarrow> str option \<Rightarrow> absolute_path option \<Rightarrow> process_id \<Rightarrow> host_process collected" where
  "process_from status cmdline cgroup executable p =
     and_then (and_then (status_field status ''Name'') process_name_new) (\<lambda>named.
     and_then (and_then (status_field status ''Uid'') real_id) (\<lambda>user.
     and_then (and_then (status_field status ''Gid'') real_id) (\<lambda>grp.
     and_then (case cgroup of Some g \<Rightarrow> parse_control_group g | None \<Rightarrow> Inr None) (\<lambda>control.
     and_then (and_then (status_field status ''PPid'') process_id_parse) (\<lambda>parent.
     and_then (and_then (status_field status ''State'') process_state_new) (\<lambda>state.
     map_ok (\<lambda>threads. \<lparr>process_named = named, process_command = parse_arguments cmdline, process_user = user, process_group = grp,
         process_control_group = control, process_executable = executable, process_number = p, process_parent = parent,
         process_status = state, process_threads = threads\<rparr>)
       (and_then (status_field status ''Threads'') (\<lambda>threads.
          ok_or (CollectionError ''a thread count is not a number'' []) (map_option word_of_int (parse_signed 64 threads))))))))))"

definition read_process :: "processes_host \<Rightarrow> str \<Rightarrow> process_id \<Rightarrow> host_process option collected" where
  "read_process h procfs p =
     (let directory = process_directory procfs p
      in and_then (read_optional h (text_joined directory ''status'')) (\<lambda>status.
         case status of None \<Rightarrow> Inr None | Some status \<Rightarrow>
         and_then (read_optional h (text_joined directory ''cmdline'')) (\<lambda>cmdline.
         case cmdline of None \<Rightarrow> Inr None | Some cmdline \<Rightarrow>
         and_then (read_optional h (text_joined directory ''cgroup'')) (\<lambda>cgroup.
         map_ok Some (process_from (status_parse status) cmdline cgroup (read_executable h directory) p)))))"

definition processes_read :: "processes_host \<Rightarrow> str \<Rightarrow> process_table collected" where
  "processes_read h procfs =
     and_then (process_ids h procfs) (\<lambda>ids.
     map_ok (\<lambda>found. process_table_new (List.map_filter id found)) (collect_results (map (read_process h procfs) ids)))"

definition processes_presence :: "processes_host \<Rightarrow> str \<Rightarrow> presence" where
  "processes_presence h procfs =
     (if filesystem_is_mounted h procfs then Present
      else Undetermined (CollectionError ''{} is not mounted, so what is running on this host cannot be told'' [procfs]))"

definition processes_collect :: "hashes \<Rightarrow> processes_host \<Rightarrow> str \<Rightarrow> observation collected" where
  "processes_collect H h procfs = map_ok (process_table_observed H) (processes_read h procfs)"

section \<open>What the kernel prints is read back\<close>

text \<open>The arguments, each ended by a zero byte.\<close>

definition arguments_printed :: "str list \<Rightarrow> str" where
  "arguments_printed as = concat (map (\<lambda>a. a @ [argument_separator]) as)"

lemma arguments_read_back:
  assumes "list_all (\<lambda>a. argument_separator \<notin> set a) as"
  shows "parse_arguments (arguments_printed as) = as"
proof (cases as rule: rev_cases)
  case Nil
  then show ?thesis by (simp add: arguments_printed_def parse_arguments_def strip_suffix_def strip_prefix_def starts_with_def)
next
  case (snoc init a)
  have body: "arguments_printed as = (arguments_printed init @ a) @ [argument_separator]"
    by (simp add: snoc arguments_printed_def)
  have "strip_suffix [argument_separator] (arguments_printed as) = Some (arguments_printed init @ a)"
    unfolding body by (simp add: strip_suffix_Some_iff)
  moreover have "split_on argument_separator (arguments_printed init @ a) = init @ [a]"
    using assms unfolding snoc
    by (induction init) (simp_all add: arguments_printed_def split_on_append split_on_fresh)
  ultimately show ?thesis by (simp add: parse_arguments_def snoc)
qed

text \<open>The status: a line for each field, its name, a colon, a tab and what the kernel says of it.\<close>

definition tab :: char where
  "tab = CHR 0x09"

lemma tab_facts: "tab \<noteq> newline" "tab \<noteq> carriage_return" "ascii_space tab" "CHR '':'' \<noteq> newline"
  by code_simp+

definition status_line :: "str \<times> str \<Rightarrow> str" where
  "status_line nv = fst nv @ CHR '':'' # tab # snd nv"

definition status_printed :: "(str \<times> str) list \<Rightarrow> str" where
  "status_printed nvs = concat (map (\<lambda>nv. status_line nv @ [newline]) nvs)"

definition printed_field_ok :: "str \<times> str \<Rightarrow> bool" where
  "printed_field_ok nv \<longleftrightarrow> trimmed (fst nv) \<and> trimmed (snd nv) \<and> CHR '':'' \<notin> set (fst nv) \<and> newline \<notin> set (fst nv) \<and> newline \<notin> set (snd nv)"

lemma status_read_back:
  assumes "list_all printed_field_ok nvs"
  shows "status_parse (status_printed nvs) = btree_collect nvs"
proof -
  note tab = tab_facts
  have end_ok: "last (status_line nv) \<noteq> carriage_return" if "printed_field_ok nv" for nv
  proof (cases "snd nv = []")
    case True
    then show ?thesis using tab by (simp add: status_line_def)
  next
    case False
    then have "last (snd nv) \<noteq> carriage_return"
      using that trimmed_last_not_return[of "snd nv"] by (simp add: printed_field_ok_def)
    then show ?thesis using False by (simp add: status_line_def)
  qed
  have "lines (concat (map (\<lambda>l. l @ [newline]) (map status_line nvs))) = map status_line nvs"
  proof (rule lines_concat)
    fix l assume "l \<in> set (map status_line nvs)"
    then obtain nv where nv: "l = status_line nv" "printed_field_ok nv" using assms by (auto simp: list_all_iff)
    then show "newline \<notin> set l \<and> (l = [] \<or> last l \<noteq> carriage_return)"
      using end_ok[OF nv(2)] tab by (auto simp: printed_field_ok_def status_line_def)
  qed
  then have lines: "lines (status_printed nvs) = map status_line nvs" by (simp add: status_printed_def comp_def)
  have "split_once (CHR '':'') (status_line nv) = Some (fst nv, tab # snd nv)" if "printed_field_ok nv" for nv
    unfolding split_once_Some_iff using that by (simp add: status_line_def printed_field_ok_def)
  then have "List.map_filter (split_once (CHR '':'')) (map status_line nvs) = map (\<lambda>nv. (fst nv, tab # snd nv)) nvs"
    using assms by (induction nvs) (simp_all add: List.map_filter_simps)
  moreover have "trim (tab # snd nv) = snd nv" "trim (fst nv) = fst nv" if "printed_field_ok nv" for nv
    using that trim_padded[of "snd nv" "[tab]" "[]"] tab(3) trim_trimmed by (simp_all add: printed_field_ok_def)
  ultimately have "map (\<lambda>(n, v). (trim n, trim v)) (List.map_filter (split_once (CHR '':'')) (map status_line nvs)) = nvs"
    using assms by (auto simp: list_all_iff intro!: map_idI)
  then show ?thesis by (simp add: status_parse_def lines)
qed

text \<open>A process as the kernel knows it.\<close>

record running_process =
  running_name :: str
  running_arguments :: "str list"
  running_user :: "32 word"
  running_group :: "32 word"
  running_cgroup :: "str option"
  running_executable :: "str option"
  running_number :: "32 word"
  running_parent :: "32 word"
  running_state :: str
  running_threads :: nat

definition status_says :: "(str \<times> str) list \<Rightarrow> running_process \<Rightarrow> bool" where
  "status_says nvs r \<longleftrightarrow> list_all printed_field_ok nvs \<and> distinct (map fst nvs) \<and>
     (''Name'', running_name r) \<in> set nvs \<and> (''State'', running_state r) \<in> set nvs \<and>
     (''PPid'', show_nat (unat (running_parent r))) \<in> set nvs \<and> (''Threads'', show_nat (running_threads r)) \<in> set nvs \<and>
     (\<exists>others. (''Uid'', show_nat (unat (running_user r)) @ tab # others) \<in> set nvs) \<and>
     (\<exists>others. (''Gid'', show_nat (unat (running_group r)) @ tab # others) \<in> set nvs)"

definition running_ok :: "running_process \<Rightarrow> bool" where
  "running_ok r \<longleftrightarrow> running_name r \<noteq> [] \<and> running_state r \<noteq> [] \<and> running_threads r < 2 ^ 63 \<and>
     list_all (\<lambda>a. argument_separator \<notin> set a) (running_arguments r) \<and>
     (case running_cgroup r of None \<Rightarrow> True | Some g \<Rightarrow> g \<noteq> [] \<and> trimmed g \<and> newline \<notin> set g)"

definition cgroup_printed :: "str \<Rightarrow> str" where
  "cgroup_printed g = ''0::'' @ g @ [newline]"

definition process_meant :: "running_process \<Rightarrow> absolute_path option \<Rightarrow> host_process" where
  "process_meant r executable = \<lparr>process_named = ProcessName (NonEmptyText (running_name r)), process_command = running_arguments r,
     process_user = running_user r, process_group = running_group r,
     process_control_group = map_option (\<lambda>g. ControlGroup (NonEmptyText g)) (running_cgroup r), process_executable = executable,
     process_number = ProcessId (running_number r), process_parent = ProcessId (running_parent r),
     process_status = ProcessState (NonEmptyText (running_state r)), process_threads = word_of_nat (running_threads r)\<rparr>"

lemma status_field_said: "list_all printed_field_ok nvs \<Longrightarrow> distinct (map fst nvs) \<Longrightarrow> (n, v) \<in> set nvs \<Longrightarrow>
    status_field (status_parse (status_printed nvs)) n = Inr v"
  by (simp add: status_field_def status_read_back btree.get_collect distinct_map map_of_eq_Some_iff rev_map[symmetric])

lemma real_id_said: "real_id (show_nat (unat (n :: 32 word)) @ tab # others) = Inr n"
proof -
  have "split_whitespace (show_nat (unat n) @ tab # others) = show_nat (unat n) # split_whitespace (tab # others)"
    by (rule split_whitespace_word) (simp_all add: show_nat_word tab_facts)
  moreover have "parse_unsigned 32 (show_nat (unat n)) = Some (unat n)" by (rule parse_show_nat) (use unsigned_less[where 'a = nat, of n] in simp)
  ultimately show ?thesis by (simp add: real_id_def)
qed

lemma process_id_said: "process_id_parse (show_nat (unat (n :: 32 word))) = Inr (ProcessId n)"
proof -
  have "trim (show_nat (unat n)) = show_nat (unat n)" by (simp add: trim_trimmed word_trimmed show_nat_word)
  moreover have "parse_unsigned 32 (show_nat (unat n)) = Some (unat n)" by (rule parse_show_nat) (use unsigned_less[where 'a = nat, of n] in simp)
  ultimately show ?thesis by (simp add: process_id_parse_def)
qed

lemma control_group_said:
  assumes "g \<noteq> []" "trimmed g" "newline \<notin> set g"
  shows "parse_control_group (cgroup_printed g) = Inr (Some (ControlGroup (NonEmptyText g)))"
proof -
  have "newline \<notin> set (''0::'' @ g)" "last (''0::'' @ g) \<noteq> carriage_return"
    using assms trimmed_last_not_return[of g] by (simp_all add: newline_def)
  then have "lines (concat (map (\<lambda>l. l @ [newline]) [''0::'' @ g])) = [''0::'' @ g]" by (intro lines_concat) auto
  then have "lines (cgroup_printed g) = [''0::'' @ g]" by (simp add: cgroup_printed_def)
  moreover have "strip_prefix ''0::'' (''0::'' @ g) = Some g" by (simp add: strip_prefix_def starts_with_def)
  ultimately show ?thesis
    using assms by (simp add: parse_control_group_def trim_trimmed control_group_new_def non_empty_text_new_def)
qed

lemma process_said:
  assumes "status_says nvs r" "running_ok r"
  shows "process_from (status_parse (status_printed nvs)) (arguments_printed (running_arguments r))
    (map_option cgroup_printed (running_cgroup r)) executable (ProcessId (running_number r)) = Inr (process_meant r executable)"
proof -
  have field: "status_field (status_parse (status_printed nvs)) n = Inr v" if "(n, v) \<in> set nvs" for n v
    using assms(1) that by (intro status_field_said) (simp_all add: status_says_def)
  obtain users groups where ids: "(''Uid'', show_nat (unat (running_user r)) @ tab # users) \<in> set nvs"
      "(''Gid'', show_nat (unat (running_group r)) @ tab # groups) \<in> set nvs"
    using assms(1) by (auto simp: status_says_def)
  have "status_field (status_parse (status_printed nvs)) ''Name'' = Inr (running_name r)"
    "status_field (status_parse (status_printed nvs)) ''State'' = Inr (running_state r)"
    "status_field (status_parse (status_printed nvs)) ''PPid'' = Inr (show_nat (unat (running_parent r)))"
    "status_field (status_parse (status_printed nvs)) ''Threads'' = Inr (show_nat (running_threads r))"
    using assms(1) by (auto intro!: field simp: status_says_def)
  moreover have "(case map_option cgroup_printed (running_cgroup r) of Some g \<Rightarrow> parse_control_group g | None \<Rightarrow> Inr None) =
      Inr (map_option (\<lambda>g. ControlGroup (NonEmptyText g)) (running_cgroup r))"
    using assms(2) control_group_said by (auto simp: running_ok_def split: option.split)
  moreover have "parse_signed 64 (show_nat (running_threads r)) = Some (int (running_threads r))"
    using assms(2) by (intro parse_signed_show) (simp add: running_ok_def)
  moreover have "parse_arguments (arguments_printed (running_arguments r)) = running_arguments r"
    using assms(2) by (intro arguments_read_back) (simp add: running_ok_def)
  ultimately show ?thesis
    using assms(2) field[OF ids(1)] field[OF ids(2)]
    by (simp add: process_from_def real_id_said process_id_said process_name_new_def process_state_new_def non_empty_text_new_def
        running_ok_def process_meant_def)
qed

text \<open>What the host holds of a process that runs, and of one that departed before it could be read.\<close>

definition process_shown :: "processes_host \<Rightarrow> str \<Rightarrow> process_id \<Rightarrow> running_process option \<Rightarrow> bool" where
  "process_shown h procfs p life =
     (let directory = process_directory procfs p
      in case life of
           Some r \<Rightarrow> running_ok r \<and> p = ProcessId (running_number r) \<and>
             (\<exists>nvs. status_says nvs r \<and> reads_text h (text_joined directory ''status'') = Inr (status_printed nvs)) \<and>
             reads_text h (text_joined directory ''cmdline'') = Inr (arguments_printed (running_arguments r)) \<and>
             (case running_cgroup r of Some g \<Rightarrow> reads_text h (text_joined directory ''cgroup'') = Inr (cgroup_printed g)
              | None \<Rightarrow> \<exists>e. reads_text h (text_joined directory ''cgroup'') = Inl e \<and> departed e)
         | None \<Rightarrow> (\<exists>e. reads_text h (text_joined directory ''status'') = Inl e \<and> departed e) \<or>
             (\<exists>status e. reads_text h (text_joined directory ''status'') = Inr status \<and>
                reads_text h (text_joined directory ''cmdline'') = Inl e \<and> departed e))"

lemma process_read_back:
  assumes "process_shown h procfs p life"
  shows "read_process h procfs p = Inr (map_option (\<lambda>r. process_meant r (read_executable h (process_directory procfs p))) life)"
proof (cases life)
  case None
  then show ?thesis using assms by (auto simp: process_shown_def read_process_def read_optional_def Let_def)
next
  case (Some r)
  then obtain nvs where r: "running_ok r" "p = ProcessId (running_number r)" "status_says nvs r"
    and texts: "read_optional h (text_joined (process_directory procfs p) ''status'') = Inr (Some (status_printed nvs))"
      "read_optional h (text_joined (process_directory procfs p) ''cmdline'') = Inr (Some (arguments_printed (running_arguments r)))"
      "read_optional h (text_joined (process_directory procfs p) ''cgroup'') = Inr (map_option cgroup_printed (running_cgroup r))"
    using assms by (auto simp: process_shown_def Let_def read_optional_def split: option.splits)
  then show ?thesis
    using process_said[OF r(3,1)] by (simp add: Some read_process_def Let_def flip: r(2))
qed

lemma processes_read_back:
  assumes "process_ids h procfs = Inr ids" "\<forall>p \<in> set ids. process_shown h procfs p (life p)"
  shows "processes_read h procfs = Inr (process_table_new
    (List.map_filter (\<lambda>p. map_option (\<lambda>r. process_meant r (read_executable h (process_directory procfs p))) (life p)) ids))"
proof -
  let ?read = "\<lambda>p. map_option (\<lambda>r. process_meant r (read_executable h (process_directory procfs p))) (life p)"
  have "map (read_process h procfs) ids = map Inr (map ?read ids)" using assms(2) process_read_back by simp
  then have "collect_results (map (read_process h procfs) ids) = Inr (map ?read ids)" by (simp only: collect_results_Inr_iff)
  moreover have "List.map_filter id (map ?read ids) = List.map_filter ?read ids"
    by (induction ids) (simp_all add: List.map_filter_simps split: option.split)
  ultimately show ?thesis by (simp add: processes_read_def assms(1))
qed

end
