(* ===== verification/LocaleFiles.thy ===== *)
theory LocaleFiles
  imports TextSplits Values KeyedTables Lossy Claims
begin

text \<open>
  What the host is localised to (\<open>collectors/locale\<close>): the settings of a locale file, with the quotes around a value
  taken off, and the files that hold them.  A file of settings is read back setting for setting, and a setting made twice is refused.
\<close>

section \<open>Values\<close>

datatype locale_setting = LocaleSetting (setting_text: non_empty_text)

instantiation locale_setting :: linorder
begin

definition less_eq_locale_setting :: "locale_setting \<Rightarrow> locale_setting \<Rightarrow> bool" where
  "less_eq_locale_setting m n \<longleftrightarrow> setting_text m \<le> setting_text n"

definition less_locale_setting :: "locale_setting \<Rightarrow> locale_setting \<Rightarrow> bool" where
  "less_locale_setting m n \<longleftrightarrow> setting_text m < setting_text n"

instance
  by standard (auto simp: less_eq_locale_setting_def less_locale_setting_def locale_setting.expand)

end

definition locale_setting_new :: "str \<Rightarrow> locale_setting collected" where
  "locale_setting_new v = map_ok LocaleSetting (non_empty_text_new v ''setting name'')"

definition locale_setting_str :: "locale_setting \<Rightarrow> str" where
  "locale_setting_str n = text_str (setting_text n)"

definition locale_quotes :: "char list" where
  "locale_quotes = [CHR 0x22, CHR 0x27]"

datatype locale_value = LocaleValue str

definition locale_value_new :: "str \<Rightarrow> locale_value" where
  "locale_value_new v =
     (let v = trim v
      in case find_map (\<lambda>quote. Option.bind (strip_prefix [quote] v) (strip_suffix [quote])) locale_quotes of
           Some inner \<Rightarrow> LocaleValue inner | None \<Rightarrow> LocaleValue v)"

fun locale_value_observed :: "locale_value \<Rightarrow> observation" where
  "locale_value_observed (LocaleValue v) = text_of v"

section \<open>The files\<close>

type_synonym locale_settings = "(locale_setting, locale_value) btree"
type_synonym localisation = "(str, locale_settings option) btree"

definition localisation_new :: "(absolute_path \<times> locale_settings option) list \<Rightarrow> localisation collected" where
  "localisation_new files = keyed_once (\<lambda>p. CollectionError ''{} was read twice'' [p]) (map (\<lambda>(p, s). Inr (path_str p, s)) files) []"

definition localisation_observed :: "localisation \<Rightarrow> observation" where
  "localisation_observed l = object (map (\<lambda>(p, held). (p,
     case held of Some held \<Rightarrow> object (map (\<lambda>(n, v). (locale_setting_str n, locale_value_observed v)) held) | None \<Rightarrow> null)) l)"

text \<open>What a line sets, if it sets anything.\<close>

definition locale_line :: "str \<Rightarrow> (locale_setting \<times> locale_value) collected option" where
  "locale_line l =
     (let l = trim l
      in if l = [] \<or> starts_with ''#'' l then None
         else map_option (\<lambda>(n, v). map_ok (\<lambda>n. (n, locale_value_new v)) (locale_setting_new (trim n))) (split_once (CHR ''='') l))"

definition locale_parse :: "str \<Rightarrow> locale_settings collected" where
  "locale_parse contents = keyed_once
     (\<lambda>n. CollectionError ''{:?} is set twice, so what the box is localised to depends on which line a reader takes'' [locale_setting_str n])
     (List.map_filter locale_line (lines contents)) []"

definition locale_paths :: "str list" where
  "locale_paths = [''/etc/locale.conf'', ''/etc/default/locale'', ''/etc/vconsole.conf'']"

datatype read_answer = Held str | Missing | Unreadable str

definition locale_path_of :: "str \<Rightarrow> absolute_path collected" where
  "locale_path_of p = absolute_path_new (lossy p) ''locale file''"

definition locale_read :: "(str \<Rightarrow> read_answer) \<Rightarrow> str list \<Rightarrow> localisation collected" where
  "locale_read reads paths =
     and_then (collect_results (map (\<lambda>p.
       and_then (case reads p of
           Held contents \<Rightarrow> map_ok Some (locale_parse contents)
         | Missing \<Rightarrow> Inr None
         | Unreadable e \<Rightarrow> Inl (CollectionError ''could not read {}: {error}'' [p, e])) (\<lambda>held.
       map_ok (\<lambda>path. (path, held)) (locale_path_of p))) paths)) localisation_new"

definition locale_presence :: presence where
  "locale_presence = Present"

definition locale_collect :: "(str \<Rightarrow> read_answer) \<Rightarrow> observation collected" where
  "locale_collect reads = map_ok localisation_observed (locale_read reads locale_paths)"

section \<open>A file of settings is read back\<close>

text \<open>A line of the file: a comment, a blank line, or a setting with its value quoted or bare.\<close>

datatype locale_printed = CommentLine str | BlankLine str | SettingLine str "char option" str

fun locale_printed_line :: "locale_printed \<Rightarrow> str" where
  "locale_printed_line (CommentLine s) = ''#'' @ s"
| "locale_printed_line (BlankLine s) = s"
| "locale_printed_line (SettingLine n (Some quote) v) = n @ ''='' @ quote # v @ [quote]"
| "locale_printed_line (SettingLine n None v) = n @ ''='' @ v"

fun locale_printed_ok :: "locale_printed \<Rightarrow> bool" where
  "locale_printed_ok (CommentLine s) \<longleftrightarrow> trimmed (''#'' @ s)"
| "locale_printed_ok (BlankLine s) \<longleftrightarrow> list_all ascii_space s"
| "locale_printed_ok (SettingLine n (Some quote) v) \<longleftrightarrow>
     n \<noteq> [] \<and> trimmed n \<and> CHR ''='' \<notin> set n \<and> \<not> starts_with ''#'' n \<and> quote \<in> set locale_quotes \<and> valid_utf8 v"
| "locale_printed_ok (SettingLine n None v) \<longleftrightarrow>
     n \<noteq> [] \<and> trimmed n \<and> CHR ''='' \<notin> set n \<and> \<not> starts_with ''#'' n \<and> trimmed v \<and> list_all (\<lambda>q. \<not> starts_with [q] v) locale_quotes"

fun setting_printed :: "locale_printed \<Rightarrow> (locale_setting \<times> locale_value) option" where
  "setting_printed (SettingLine n quote v) = Some (LocaleSetting (NonEmptyText n), LocaleValue v)"
| "setting_printed l = None"

lemma quoted_value:
  assumes "quote \<in> set locale_quotes" "valid_utf8 v"
  shows "locale_value_new (quote # v @ [quote]) = LocaleValue v" "trimmed (quote # v @ [quote])"
proof -
  have "list_all (\<lambda>q. between 0 127 q \<and> \<not> is_whitespace [q]) locale_quotes" by code_simp
  then have quote: "between 0 127 quote" "\<not> is_whitespace [quote]" using assms(1) by (auto simp: list_all_iff)
  show trimmed: "trimmed (quote # v @ [quote])" by (rule trimmed_wrapped) (use assms(2) quote in simp_all)
  have "find_map (\<lambda>q. Option.bind (strip_prefix [q] (quote # v @ [quote])) (strip_suffix [q])) qs = Some v" if "quote \<in> set qs" for qs
    using that
  proof (induction qs)
    case (Cons q qs)
    have found: "strip_prefix [quote] (quote # v @ [quote]) = Some (v @ [quote])" "strip_suffix [quote] (v @ [quote]) = Some v"
      by (simp_all add: strip_prefix_def starts_with_def strip_suffix_Some_iff)
    show ?case
    proof (cases "q = quote")
      case False
      then have "strip_prefix [q] (quote # v @ [quote]) = None" by (simp add: strip_prefix_def starts_with_def)
      with Cons False show ?thesis by simp
    qed (simp add: found)
  qed simp
  with assms(1) show "locale_value_new (quote # v @ [quote]) = LocaleValue v"
    unfolding locale_value_new_def trim_trimmed[OF trimmed] by simp
qed

lemma bare_value:
  assumes "trimmed v" "list_all (\<lambda>q. \<not> starts_with [q] v) locale_quotes"
  shows "locale_value_new v = LocaleValue v"
  using assms by (simp add: locale_value_new_def trim_trimmed locale_quotes_def strip_prefix_def)

lemma locale_line_read:
  assumes "locale_printed_ok l"
  shows "locale_line (locale_printed_line l) = map_option Inr (setting_printed l)"
proof (cases l)
  case (CommentLine s)
  with assms show ?thesis by (simp add: locale_line_def trim_trimmed starts_with_def)
next
  case (BlankLine s)
  have "trim s = []" using trim_padded[of "[]" s "[]"] BlankLine assms by (simp add: trimmed_def)
  with BlankLine show ?thesis by (simp add: locale_line_def)
next
  case (SettingLine n quote v)
  define shown where "shown = (case quote of Some q \<Rightarrow> q # v @ [q] | None \<Rightarrow> v)"
  have line: "locale_printed_line l = n @ ''='' @ shown" by (cases quote) (simp_all add: SettingLine shown_def)
  have n: "n \<noteq> []" "trimmed n" "CHR ''='' \<notin> set n" "\<not> starts_with ''#'' n" using assms by (cases quote; simp add: SettingLine)+
  have shown: "trimmed shown" "locale_value_new shown = LocaleValue v"
    using assms quoted_value bare_value by (cases quote; simp add: SettingLine shown_def)+
  have "trimmed ''=''" by code_simp
  then have "trim (n @ ''='' @ shown) = n @ ''='' @ shown"
    using n(2) shown(1) trimmed_append by (intro trim_trimmed) blast
  moreover have "\<not> starts_with ''#'' (n @ ''='' @ shown)" using n(1,4) by (cases n) (simp_all add: starts_with_def)
  moreover have "split_once (CHR ''='') (n @ ''='' @ shown) = Some (n, shown)"
    unfolding split_once_Some_iff using n(3) by simp
  ultimately show ?thesis
    using n shown unfolding locale_line_def line
    by (simp add: SettingLine trim_trimmed locale_setting_new_def non_empty_text_new_def)
qed

definition locale_printed_file :: "locale_printed list \<Rightarrow> str" where
  "locale_printed_file ls = concat (map (\<lambda>l. locale_printed_line l @ [newline]) ls)"

lemma locale_read_back:
  assumes "list_all locale_printed_ok ls"
    and "list_all (\<lambda>l. newline \<notin> set (locale_printed_line l) \<and>
      (locale_printed_line l = [] \<or> last (locale_printed_line l) \<noteq> carriage_return)) ls"
  shows "result_ok (locale_parse (locale_printed_file ls)) =
    (let settings = List.map_filter setting_printed ls
     in if distinct (map fst settings) then Some (btree_collect settings) else None)"
proof -
  let ?settings = "List.map_filter setting_printed ls"
  let ?twice = "\<lambda>n. CollectionError ''{:?} is set twice, so what the box is localised to depends on which line a reader takes'' [locale_setting_str n]"
  have "lines (concat (map (\<lambda>l. l @ [newline]) (map locale_printed_line ls))) = map locale_printed_line ls"
    using assms(2) by (intro lines_concat) (auto simp: list_all_iff)
  then have lines: "lines (locale_printed_file ls) = map locale_printed_line ls" by (simp add: locale_printed_file_def comp_def)
  have "List.map_filter locale_line (map locale_printed_line ls) = map Inr ?settings"
    using assms(1) locale_line_read by (induction ls) (simp_all add: List.map_filter_simps split: option.split)
  then have parse: "locale_parse (locale_printed_file ls) = keyed_once ?twice (map Inr ?settings) []"
    by (simp add: locale_parse_def lines)
  show ?thesis
  proof (cases "distinct (map fst ?settings)")
    case True
    then show ?thesis by (simp add: parse keyed_once_distinct)
  next
    case False
    then have "keyed_once ?twice (map Inr ?settings) [] \<noteq> Inr filled" for filled
      by (auto simp: keyed_once_Inr_iff inj_map_eq_map)
    then show ?thesis using False by (cases "locale_parse (locale_printed_file ls)") (auto simp: parse)
  qed
qed

end
