(* ===== verification/Clock.thy ===== *)
theory Clock
  imports TextWords Values Lossy Claims Systemd KeyedTables Views
begin

text \<open>
  How the host's clock is set (\<open>collectors/time\<close>), read from the files, and the timers systemd holds (\<open>collectors/timers\<close>).
  The zone of a link under the zone directory is found, the scale is the third line, and a timer's clock readings never show
  where volatile values are left out.
\<close>

section \<open>The clock\<close>

datatype timezone = Timezone non_empty_text

definition timezone_new :: "str \<Rightarrow> timezone collected" where
  "timezone_new v = map_ok Timezone (non_empty_text_new v ''timezone'')"

fun timezone_observed :: "timezone \<Rightarrow> observation" where
  "timezone_observed (Timezone t) = text_of (text_str t)"

record clock_settings =
  clock_zone :: "timezone option"
  clock_is_local :: bool
  clock_synchronised :: bool

definition clock_observed :: "clock_settings \<Rightarrow> observation" where
  "clock_observed c = object
     [(''local_real_time_clock'', boolean (clock_is_local c)),
      (''synchronised'', boolean (clock_synchronised c)),
      (''timezone'', case clock_zone c of Some z \<Rightarrow> timezone_observed z | None \<Rightarrow> null)]"

definition zoneinfo :: str where
  "zoneinfo = ''/usr/share/zoneinfo/''"

text \<open>The host's files: where a link points, what a file holds, and whether a name exists.\<close>

datatype clock_answer = ClockHolds str | ClockMissing | ClockUnreadable str

record clock_host =
  clock_link :: "str \<Rightarrow> str option"
  clock_file :: "str \<Rightarrow> clock_answer"
  clock_exists :: "str \<Rightarrow> bool"

record clock_files =
  timezone_file :: str
  localtime_file :: str
  adjtime_file :: str
  synchronised_file :: str

definition clock_files_new :: clock_files where
  "clock_files_new = \<lparr>timezone_file = ''/etc/timezone'', localtime_file = ''/etc/localtime'', adjtime_file = ''/etc/adjtime'',
     synchronised_file = ''/run/systemd/timesync/synchronized''\<rparr>"

definition clock_read_optional :: "clock_host \<Rightarrow> str \<Rightarrow> str option collected" where
  "clock_read_optional h path = (case clock_file h path of
      ClockHolds contents \<Rightarrow> Inr (Some contents)
    | ClockMissing \<Rightarrow> Inr None
    | ClockUnreadable e \<Rightarrow> Inl (CollectionError ''could not read {}: {error}'' [path, e]))"

definition read_timezone :: "clock_host \<Rightarrow> clock_files \<Rightarrow> timezone option collected" where
  "read_timezone h f = (case Option.bind (clock_link h (localtime_file f)) (\<lambda>target. cut_at zoneinfo (lossy target)) of
      Some (before, zone) \<Rightarrow> map_ok Some (timezone_new zone)
    | None \<Rightarrow> and_then (clock_read_optional h (timezone_file f)) (\<lambda>named.
        case map_option trim named of
          None \<Rightarrow> Inr None
        | Some zone \<Rightarrow> if zone = [] then Inr None else map_ok Some (timezone_new zone)))"

definition read_local_clock :: "clock_host \<Rightarrow> clock_files \<Rightarrow> bool collected" where
  "read_local_clock h f = map_ok (\<lambda>contents. case contents of
      None \<Rightarrow> False
    | Some contents \<Rightarrow> (case nth_opt 2 (lines contents) of Some scale \<Rightarrow> trim scale = ''LOCAL'' | None \<Rightarrow> False))
    (clock_read_optional h (adjtime_file f))"

definition clock_read :: "clock_host \<Rightarrow> clock_files \<Rightarrow> clock_settings collected" where
  "clock_read h f =
     and_then (read_timezone h f) (\<lambda>zone.
     map_ok (\<lambda>is_local. \<lparr>clock_zone = zone, clock_is_local = is_local, clock_synchronised = clock_exists h (synchronised_file f)\<rparr>)
       (read_local_clock h f))"

definition clock_presence :: presence where
  "clock_presence = Present"

definition clock_collect :: "clock_host \<Rightarrow> observation collected" where
  "clock_collect h = map_ok clock_observed (clock_read h clock_files_new)"

text \<open>A link that ends below the zone directory names the zone, whatever the text file says.\<close>

lemma zone_of_link:
  assumes "clock_link h (localtime_file f) = Some (before @ zoneinfo @ zone)" "valid_utf8 (before @ zoneinfo @ zone)" "zone \<noteq> []"
    and "\<And>u v. before @ butlast zoneinfo \<noteq> u @ zoneinfo @ v"
  shows "read_timezone h f = Inr (Some (Timezone (NonEmptyText zone)))"
proof -
  have "cut_at zoneinfo (before @ zoneinfo @ zone) = Some (before, zone)"
    by (rule cut_at_first) (use assms(4) in \<open>simp_all add: zoneinfo_def\<close>)
  with assms(1-3) show ?thesis by (simp add: read_timezone_def timezone_new_def non_empty_text_new_def)
qed

text \<open>The hardware clock is local time exactly when the third line of the file says so.\<close>

lemma scale_read:
  assumes "clock_file h (adjtime_file f) = ClockHolds (drift @ newline # adjusted @ newline # scale @ newline # rest)"
    and "newline \<notin> set drift" "newline \<notin> set adjusted" "newline \<notin> set scale" "trimmed scale"
  shows "read_local_clock h f = Inr (scale = ''LOCAL'')"
proof -
  have "lines (drift @ newline # adjusted @ newline # scale @ newline # rest) =
      without_return drift # without_return adjusted # without_return scale # lines rest"
    using assms(2-4) by (simp add: lines_append)
  moreover have "without_return scale = scale" using assms(5) by (simp add: trimmed_without_return)
  ultimately show ?thesis using assms(1,5) by (simp add: read_local_clock_def clock_read_optional_def nth_opt_def trim_trimmed)
qed

section \<open>Timers\<close>

type_synonym microseconds = i64

definition moment_observed :: "microseconds \<Rightarrow> observation" where
  "moment_observed m = volatile (integer m)"

record host_timer =
  timer_activates :: "unit_name option"
  timer_next :: "microseconds option"
  timer_last :: "microseconds option"

definition null_clock :: observation where
  "null_clock = volatile null"

definition host_timer_observed :: "host_timer \<Rightarrow> observation" where
  "host_timer_observed t = object
     [(''activates'', case timer_activates t of Some u \<Rightarrow> text_of (unit_str u) | None \<Rightarrow> null),
      (''last_trigger'', case timer_last t of Some m \<Rightarrow> moment_observed m | None \<Rightarrow> null_clock),
      (''next_elapse'', case timer_next t of Some m \<Rightarrow> moment_observed m | None \<Rightarrow> null_clock)]"

type_synonym timer_table = "(unit_name, host_timer) btree"

definition timer_table_new :: "(unit_name \<times> host_timer) list \<Rightarrow> timer_table collected" where
  "timer_table_new ts = keyed_once
     (\<lambda>n. CollectionError ''systemd reported the timer {:?} twice, so the output was misread'' [unit_str n]) (map Inr ts) []"

definition timer_table_observed :: "timer_table \<Rightarrow> observation" where
  "timer_table_observed t = object (map (\<lambda>(n, timer). (unit_str n, host_timer_observed timer)) t)"

text \<open>A row of the listing; what turns the listing into rows is a library.\<close>

record timer_row =
  row_timer :: str
  row_activates :: "str option"
  row_next :: "i64 option"
  row_last :: "i64 option"

definition optional_unit :: "str \<Rightarrow> unit_name option collected" where
  "optional_unit activates = (if activates = [] then Inr None else map_ok Some (unit_name_new activates))"

definition to_timer :: "timer_row \<Rightarrow> (unit_name \<times> host_timer) collected" where
  "to_timer r =
     and_then (optional_unit (case row_activates r of Some u \<Rightarrow> u | None \<Rightarrow> [])) (\<lambda>activates.
     map_ok (\<lambda>n. (n, \<lparr>timer_activates = activates, timer_next = row_next r, timer_last = row_last r\<rparr>)) (unit_name_new (row_timer r)))"

definition list_timers :: "str list" where
  "list_timers = [''list-timers'', ''--all'', ''--output=json'', ''--no-pager'']"

definition timers_parse :: "(str \<Rightarrow> str + timer_row list) \<Rightarrow> str \<Rightarrow> timer_table collected" where
  "timers_parse J out =
     and_then (map_err (\<lambda>error. CollectionError ''could not read what `systemctl list-timers` reported as JSON: {error}'' [error]) (J out)) (\<lambda>rows.
     and_then (collect_results (map to_timer rows)) timer_table_new)"

definition timers_read :: "(str \<Rightarrow> str + timer_row list) \<Rightarrow> (str list \<Rightarrow> str collected) \<Rightarrow> timer_table collected" where
  "timers_read J run = and_then (run list_timers) (timers_parse J)"

definition timers_presence :: "(str list \<Rightarrow> str collected) option \<Rightarrow> presence" where
  "timers_presence systemctl = (case systemctl of Some run \<Rightarrow> Present | None \<Rightarrow> Absent)"

definition timers_collect :: "(str \<Rightarrow> str + timer_row list) \<Rightarrow> (str list \<Rightarrow> str collected) option \<Rightarrow> observation collected" where
  "timers_collect J systemctl = (case systemctl of
      None \<Rightarrow> Inl (CollectionError ''systemd was not found, so there are no timers to read'' [])
    | Some run \<Rightarrow> map_ok timer_table_observed (timers_read J run))"

text \<open>The listing is accounted for: a table comes out when every row names a unit and none twice, and it is those rows.\<close>

lemma timers_accounted:
  assumes "J out = Inr rows"
  shows "timers_parse J out = Inr t \<longleftrightarrow>
    (\<exists>ts. map to_timer rows = map Inr ts \<and> distinct (map fst ts) \<and> t = btree_collect ts)"
proof -
  have "timers_parse J out = Inr t \<longleftrightarrow> (\<exists>ts. map to_timer rows = map Inr ts \<and> timer_table_new ts = Inr t)"
    by (simp add: timers_parse_def assms and_then_Inr_iff collect_results_Inr_iff)
  also have "\<dots> \<longleftrightarrow> (\<exists>ts. map to_timer rows = map Inr ts \<and> distinct (map fst ts) \<and> t = btree_collect ts)"
    by (auto simp: timer_table_new_def keyed_once_Inr_iff inj_map_eq_map)
  finally show ?thesis .
qed

text \<open>When the timers went off and will go off does not show where volatile values are dropped.\<close>

definition timer_settled :: "host_timer \<Rightarrow> host_timer" where
  "timer_settled t = t\<lparr>timer_next := None, timer_last := None\<rparr>"

lemma volatile_dropped: "view p = Diffable \<Longrightarrow> materialised H p w (volatile ob) = None"
  by (cases ob) (simp add: materialised_cases dropped_by_def)

lemma timer_shape_in_view:
  assumes "view p = Diffable"
  shows "materialised H p w (object [(''activates'', a), (''last_trigger'', volatile l), (''next_elapse'', volatile e)]) =
    Some (Observation Stable Public Whole Exact (Object (btree_collect (case materialised H p (disclosure p = Redacted \<and> w) a of Some a \<Rightarrow> [(''activates'', a)] | None \<Rightarrow> []))))"
proof -
  have "btree_collect [(''activates'', a), (''last_trigger'', volatile l), (''next_elapse'', volatile e)] =
      [(''activates'', a), (''last_trigger'', volatile l), (''next_elapse'', volatile e)]"
    by (rule btree_collect_sorted) (simp add: btree_sorted_def)
  then show ?thesis
    by (simp add: object_def unannotated_def materialised_cases[of H p w "Observation _ _ _ _ _"] dropped_by_def withheld_under_def
        List.map_filter_simps volatile_dropped[OF assms] split: option.split)
qed

lemma timer_in_view:
  assumes "view p = Diffable"
  shows "materialised H p w (host_timer_observed (timer_settled t)) = materialised H p w (host_timer_observed t)"
proof -
  have clock: "(case m of Some m \<Rightarrow> moment_observed m | None \<Rightarrow> null_clock) = volatile (case m of Some m \<Rightarrow> integer m | None \<Rightarrow> null)" for m
    by (simp add: moment_observed_def null_clock_def split: option.split)
  show ?thesis
    unfolding host_timer_observed_def clock timer_shape_in_view[OF assms] by (simp add: timer_settled_def)
qed

lemma btree_collect_mapped:
  "btree_collect (map (\<lambda>(n, x). (f n, g x)) t) = map (\<lambda>(k, x). (k, g x)) (btree_collect (map (\<lambda>(n, x). (f n, x)) t))"
proof (induction t rule: rev_induct)
  case (snoc nx t)
  have "btree_insert k (g v) (map (\<lambda>(k, x). (k, g x)) m) = map (\<lambda>(k, x). (k, g x)) (btree_insert k v m)" for k v m
    by (induction m) auto
  with snoc show ?case by (cases nx) (simp add: btree_collect_def)
qed (simp add: btree_collect_def)

lemma timers_in_view:
  assumes "view p = Diffable"
  shows "in_view H p (timer_table_observed (map (\<lambda>(n, t). (n, timer_settled t)) table)) = in_view H p (timer_table_observed table)"
proof -
  let ?keyed = "btree_collect (map (\<lambda>(n, t). (unit_str n, t)) table)"
  have entries: "btree_collect (map (\<lambda>(n, t). (unit_str n, g t)) table) = map (\<lambda>(k, t). (k, g t)) ?keyed" for g :: "host_timer \<Rightarrow> observation"
    using btree_collect_mapped[of unit_str g table] .
  have shown: "List.map_filter (\<lambda>(key, child). map_option (Pair key) (materialised H p w child)) (map (\<lambda>(k, t). (k, host_timer_observed (timer_settled t))) es) =
      List.map_filter (\<lambda>(key, child). map_option (Pair key) (materialised H p w child)) (map (\<lambda>(k, t). (k, host_timer_observed t)) es)" for w es
    by (induction es) (auto simp: List.map_filter_simps timer_in_view[OF assms] split: option.split)
  have settled: "btree_collect (map (\<lambda>(n, t). (unit_str n, host_timer_observed t)) (map (\<lambda>(n, t). (n, timer_settled t)) table)) =
      map (\<lambda>(k, t). (k, host_timer_observed (timer_settled t))) ?keyed"
    using entries[of "\<lambda>t. host_timer_observed (timer_settled t)"] by (simp add: comp_def case_prod_unfold)
  have materialised: "materialised H p False (unannotated (Object es)) = Some (Observation Stable Public Whole Exact (Object
      (btree_collect (List.map_filter (\<lambda>(key, child). map_option (Pair key) (materialised H p False child)) es))))" for es
    by (simp add: materialised_cases[of H p False "Observation _ _ _ _ _"] unannotated_def dropped_by_def withheld_under_def)
  show ?thesis
    unfolding timer_table_observed_def object_def in_view_def settled entries materialised shown ..
qed

end
