(* ===== verification/TextBlanks.thy ===== *)
theory TextBlanks
  imports TextWords
begin

text \<open>
  Fields cut at the first blank (\<open>split_once(char::is_whitespace)\<close>), as the readers of crontabs, keys and rules cut
  theirs: what was written with a blank between is found again.
\<close>

text \<open>\<open>split_once(char::is_whitespace)\<close>.\<close>

definition cut_at_blank :: "str \<Rightarrow> (str \<times> str) option" where
  "cut_at_blank s = (case dropWhile (\<lambda>ch. \<not> is_whitespace ch) (chars_of s) of
      [] \<Rightarrow> None
    | blank # rest \<Rightarrow> Some (concat (takeWhile (\<lambda>ch. \<not> is_whitespace ch) (chars_of s)), concat rest))"

lemma cut_at_blank_word:
  assumes "word t" "ascii_space c"
  shows "cut_at_blank (t @ c # rest) = Some (t, rest)"
proof -
  have t: "valid_utf8 t" "\<forall>ch \<in> set (chars_of t). \<not> is_whitespace ch" using assms(1) by (simp_all add: word_def)
  have c: "between 0 127 c" "is_whitespace [c]" using assms(2) by (simp_all add: ascii_space_def)
  have chars: "chars_of (t @ c # rest) = chars_of t @ [c] # chars_of rest"
    using t(1) c(1) by (simp add: chars_of_append chars_of_ascii_Cons)
  show ?thesis
    unfolding cut_at_blank_def chars using t(2) c(2) by (simp add: dropWhile_append2 takeWhile_append2)
qed

definition blank_ok :: "str \<Rightarrow> bool" where
  "blank_ok g \<longleftrightarrow> g \<noteq> [] \<and> space g"

text \<open>What follows the fields begins with no blank, so the blanks after a field are skipped to it.\<close>

definition inked :: "str \<Rightarrow> bool" where
  "inked s \<longleftrightarrow> s \<noteq> [] \<and> valid_utf8 s \<and> \<not> is_whitespace (hd (chars_of s))"

lemma trim_start_past:
  assumes "space g" "inked s"
  shows "trim_start (g @ s) = s"
proof -
  have "chars_of (g @ s) = chars_of g @ chars_of s" using space_chars(2)[OF assms(1)] by (rule chars_of_append)
  moreover have "chars_of s \<noteq> []" using assms(2) by (cases s) (auto simp: inked_def chars_of.simps)
  then have "dropWhile is_whitespace (chars_of g @ chars_of s) = chars_of s"
    using assms space_chars(3)[OF assms(1)] by (intro dropWhile_stops) (auto simp: inked_def)
  ultimately show ?thesis by (simp add: trim_start_def)
qed

lemma word_inked:
  assumes "word t" "valid_utf8 s"
  shows "inked (t @ s)"
proof -
  have "t \<noteq> []" "valid_utf8 t" "\<forall>ch \<in> set (chars_of t). \<not> is_whitespace ch" using assms(1) by (simp_all add: word_def)
  moreover from this have "chars_of t \<noteq> []" by (cases t) (simp_all add: chars_of.simps)
  ultimately show ?thesis using assms(2) by (simp add: inked_def chars_of_append valid_utf8_append)
qed

lemma inked_trimmed:
  assumes "inked (p @ s)" "valid_utf8 p" "trimmed s" "s \<noteq> []"
  shows "trimmed (p @ s)"
proof -
  have "chars_of s \<noteq> []" using assms(4) by (cases s) (simp_all add: chars_of.simps)
  then show ?thesis using assms by (simp add: inked_def trimmed_def chars_of_append)
qed

lemma field_cut:
  assumes "word t" "blank_ok g" "inked s"
  obtains g' where "cut_at_blank (t @ g @ s) = Some (t, g' @ s)" "space g'" "trim_start (g' @ s) = s"
proof -
  obtain c g' where g: "g = c # g'" "ascii_space c" "space g'" using assms(2) by (cases g) (auto simp: blank_ok_def)
  show thesis
  proof (rule that[of g'])
    show "cut_at_blank (t @ g @ s) = Some (t, g' @ s)" using cut_at_blank_word[OF assms(1) g(2), of "g' @ s"] by (simp add: g(1))
  qed (use g(3) trim_start_past[OF g(3) assms(3)] in simp_all)
qed

text \<open>A text that holds a character no white space does is not blank.\<close>

lemma trim_keeps_ink:
  assumes "\<And>ch. is_whitespace ch \<Longrightarrow> c \<notin> set ch" "c \<in> set l"
  shows "trim l \<noteq> []"
proof -
  have dropped: "c \<in> set (concat (dropWhile is_whitespace cs)) \<longleftrightarrow> c \<in> set (concat cs)" for cs
    using assms(1) by (induction cs) auto
  have rev_concat: "c \<in> set (concat (rev cs)) \<longleftrightarrow> c \<in> set (concat cs)" for cs :: "str list" by auto
  have "c \<in> set (trim_end l)" unfolding trim_end_def rev_concat dropped by (simp add: assms(2))
  then have "c \<in> set (trim l)" unfolding trim_def trim_start_def dropped by simp
  then show ?thesis by auto
qed

lemma colon_is_ink: "is_whitespace ch \<Longrightarrow> CHR '':'' \<notin> set ch"
  by (auto simp: is_whitespace_def split: list.splits)

lemma worded_not_blank:
  assumes "word t" "ascii_space c" "valid_utf8 s"
  shows "trim (t @ c # s) \<noteq> []"
proof
  assume blank: "trim (t @ c # s) = []"
  have "valid_utf8 (t @ c # s)" using assms by (simp add: word_def valid_utf8_append valid_utf8_ascii_Cons ascii_space_def)
  moreover have "split_whitespace (t @ c # s) = t # split_whitespace (c # s)" by (rule split_whitespace_word) (use assms in simp_all)
  moreover have "split_whitespace [] = []" by code_simp
  ultimately show False using split_whitespace_trim[of "t @ c # s"] blank by simp
qed

text \<open>Lines joined by line feeds are found again, and none is empty between two feeds.\<close>

lemma lines_joined:
  "ls \<noteq> [] \<Longrightarrow> (\<And>l. l \<in> set ls \<Longrightarrow> newline \<notin> set l \<and> l \<noteq> [] \<and> last l \<noteq> carriage_return) \<Longrightarrow> lines (joined_with [newline] ls) = ls"
proof (induction ls rule: induct_list012)
  case (2 l)
  then show ?case by (simp add: lines_def split_on_fresh)
next
  case (3 l m ls)
  from "3.prems"(2)[of l] have "last l \<noteq> carriage_return" by simp
  then have "without_return l = l" by (auto simp: without_return_def strip_suffix_Some_iff split: option.split)
  with 3 show ?case by (simp add: lines_append)
qed simp

lemma no_empty_line:
  "list_all (\<lambda>l. l \<noteq> [] \<and> newline \<notin> set l) ls \<Longrightarrow> concat (map (\<lambda>l. l @ [newline]) ls) \<noteq> u @ newline # newline # v"
proof (induction ls arbitrary: u)
  case (Cons l ls)
  show ?case
  proof
    assume eq: "concat (map (\<lambda>l. l @ [newline]) (l # ls)) = u @ newline # newline # v"
    let ?rest = "concat (map (\<lambda>l. l @ [newline]) ls)"
    from eq have "l @ newline # ?rest = u @ newline # newline # v" by simp
    then consider "u = l" "?rest = newline # v" | u' where "u = l @ newline # u'" "?rest = u' @ newline # newline # v"
      using Cons.prems by (auto simp: append_eq_append_conv2 append_eq_Cons_conv Cons_eq_append_conv)
    then show False
    proof cases
      case 1
      then show False using Cons.prems by (cases ls) (auto simp: Cons_eq_append_conv neq_Nil_conv)
    next
      case 2
      then show False using Cons by auto
    qed
  qed
qed simp

lemma joined_lines_feed: "ls \<noteq> [] \<Longrightarrow> joined_with [newline] ls @ [newline] = concat (map (\<lambda>l. l @ [newline]) ls)"
  by (induction ls rule: induct_list012) simp_all

lemma joined_lines_apart:
  assumes "ls \<noteq> []" "list_all (\<lambda>l. l \<noteq> [] \<and> newline \<notin> set l) ls"
  shows "apart [newline, newline] (joined_with [newline] ls)"
  using no_empty_line[OF assms(2)] joined_lines_feed[OF assms(1)] by (simp add: apart_def cut_at_None_iff)

end
