(* ===== verification/Accounts.thy ===== *)
theory Accounts
  imports TextBlanks Values KeyedTables SetOrder Claims
begin

text \<open>
  The accounts of the host (\<open>collectors/accounts\<close>): the lines of the passwd, group and shadow files, what a password column is
  classified as, and the registry the three are joined into.  A password's hash does not reach the registry when the column is
  written the way crypt writes one, locked once or not at all.
\<close>

section \<open>Values\<close>

datatype user_name = UserName (user_text: non_empty_text)
datatype group_name = GroupName (group_text: non_empty_text)
datatype hash_algorithm = HashAlgorithm non_empty_text
datatype account_comment = Comment str
datatype user_id = UserId "32 word"
datatype group_id = GroupId "32 word"

instantiation user_name :: linorder
begin

definition less_eq_user_name :: "user_name \<Rightarrow> user_name \<Rightarrow> bool" where
  "less_eq_user_name m n \<longleftrightarrow> user_text m \<le> user_text n"

definition less_user_name :: "user_name \<Rightarrow> user_name \<Rightarrow> bool" where
  "less_user_name m n \<longleftrightarrow> user_text m < user_text n"

instance
  by standard (auto simp: less_eq_user_name_def less_user_name_def user_name.expand)

end

instantiation group_name :: linorder
begin

definition less_eq_group_name :: "group_name \<Rightarrow> group_name \<Rightarrow> bool" where
  "less_eq_group_name m n \<longleftrightarrow> group_text m \<le> group_text n"

definition less_group_name :: "group_name \<Rightarrow> group_name \<Rightarrow> bool" where
  "less_group_name m n \<longleftrightarrow> group_text m < group_text n"

instance
  by standard (auto simp: less_eq_group_name_def less_group_name_def group_name.expand)

end

definition user_name_new :: "str \<Rightarrow> user_name collected" where
  "user_name_new v = map_ok UserName (non_empty_text_new v ''user name'')"

definition group_name_new :: "str \<Rightarrow> group_name collected" where
  "group_name_new v = map_ok GroupName (non_empty_text_new v ''group name'')"

definition hash_algorithm_new :: "str \<Rightarrow> hash_algorithm collected" where
  "hash_algorithm_new v = map_ok HashAlgorithm (non_empty_text_new v ''hash algorithm'')"

definition user_str :: "user_name \<Rightarrow> str" where
  "user_str u = text_str (user_text u)"

definition group_str :: "group_name \<Rightarrow> str" where
  "group_str g = text_str (group_text g)"



definition user_id_parse :: "str \<Rightarrow> user_id collected" where
  "user_id_parse v = ok_or (CollectionError ''{value:?} is not a user id'' [v]) (map_option (UserId \<circ> word_of_nat) (parse_unsigned 32 v))"

definition group_id_parse :: "str \<Rightarrow> group_id collected" where
  "group_id_parse v = ok_or (CollectionError ''{value:?} is not a group id'' [v]) (map_option (GroupId \<circ> word_of_nat) (parse_unsigned 32 v))"



text \<open>The members of a group, in order and once each.\<close>

type_synonym group_members = "user_name list"

definition group_members_new :: "user_name list \<Rightarrow> group_members" where
  "group_members_new ms = map fst (btree_collect (map (\<lambda>m. (m, ())) ms))"


section \<open>Passwords\<close>

datatype password_status = PasswordAbsent | PasswordUnusable str | PasswordLocked "hash_algorithm option" | PasswordUsable "hash_algorithm option"

definition algorithm_marker :: char where
  "algorithm_marker = CHR ''$''"

definition lock_marker :: char where
  "lock_marker = CHR ''!''"

definition legacy_crypt_length :: nat where
  "legacy_crypt_length = 13"

definition looks_like_legacy_crypt :: "str \<Rightarrow> bool" where
  "looks_like_legacy_crypt h \<longleftrightarrow> length h = legacy_crypt_length \<and>
     list_all (\<lambda>c. is_ascii_alphanumeric c \<or> c = CHR ''.'' \<or> c = CHR ''/'') h"

definition algorithm_of :: "str \<Rightarrow> hash_algorithm option" where
  "algorithm_of h = Option.bind (strip_prefix [algorithm_marker] h) (\<lambda>rest.
     result_ok (hash_algorithm_new (hd (split_on algorithm_marker rest))))"

definition password_parse :: "str \<Rightarrow> password_status" where
  "password_parse field =
     (if field = [] then PasswordAbsent
      else let (locked, h) = (case strip_prefix [lock_marker] field of Some rest \<Rightarrow> (True, rest) | None \<Rightarrow> (False, field))
           in if \<not> starts_with [algorithm_marker] h \<and> \<not> looks_like_legacy_crypt h then PasswordUnusable field
              else if locked then PasswordLocked (algorithm_of h) else PasswordUsable (algorithm_of h))"




record password_aging =
  last_changed :: "i64 option"
  minimum_age :: "i64 option"
  maximum_age :: "i64 option"
  warning_days :: "i64 option"
  inactive_days :: "i64 option"
  expires_on :: "i64 option"

definition optional_days :: "str \<Rightarrow> i64 option collected" where
  "optional_days column =
     (if column = [] then Inr None
      else ok_or (CollectionError ''{column:?} is not a number of days'' [column]) (map_option (Some \<circ> word_of_int) (parse_signed 64 column)))"



section \<open>The registry\<close>

record user_account =
  account_user :: user_id
  account_group :: group_id
  account_comment :: account_comment
  account_home :: "absolute_path option"
  account_shell :: "absolute_path option"
  account_password :: "password_status option"
  account_aging :: "password_aging option"



record group_account =
  group_number :: group_id
  group_holds :: group_members


record account_registry =
  registry_users :: "(user_name, user_account) btree"
  registry_groups :: "(group_name, group_account) btree"

definition account_registry_new ::
    "(user_name \<times> user_account) list \<Rightarrow> (group_name \<times> group_account) list \<Rightarrow> account_registry collected" where
  "account_registry_new users groups =
     and_then (keyed_once (\<lambda>n. CollectionError
        ''the user {:?} is defined twice, so every lookup silently ignores one of the two definitions'' [user_str n]) (map Inr users) []) (\<lambda>us.
     map_ok (\<lambda>gs. \<lparr>registry_users = us, registry_groups = gs\<rparr>)
       (keyed_once (\<lambda>n. CollectionError
        ''the group {:?} is defined twice, so every lookup silently ignores one of the two definitions'' [group_str n]) (map Inr groups) []))"


section \<open>The files\<close>

definition carries_an_entry :: "str \<Rightarrow> bool" where
  "carries_an_entry l \<longleftrightarrow> trim l \<noteq> [] \<and> \<not> starts_with ''#'' l"

definition compat_markers :: "char list" where
  "compat_markers = [CHR ''+'', CHR ''-'']"

definition refuse_a_compat_directive :: "str \<Rightarrow> unit collected" where
  "refuse_a_compat_directive n =
     (if n \<noteq> [] \<and> hd n \<in> set compat_markers
      then Inl (CollectionError ''{name:?} is a compat directive, so this host takes accounts from a directory service as well and the local files are not the whole account database'' [n])
      else Inr ())"

definition optional_path :: "str \<Rightarrow> str \<Rightarrow> absolute_path option collected" where
  "optional_path column kind = (if column = [] then Inr None else map_ok Some (absolute_path_new column kind))"

record passwd_entry =
  passwd_name :: user_name
  passwd_user :: user_id
  passwd_group :: group_id
  passwd_comment :: account_comment
  passwd_home :: "absolute_path option"
  passwd_shell :: "absolute_path option"

definition passwd_line :: "str \<Rightarrow> passwd_entry collected" where
  "passwd_line l = (case split_on (CHR '':'') l of
      [n, password, user, grp, comment, home, shell] \<Rightarrow>
        and_then (refuse_a_compat_directive n) (\<lambda>_.
        and_then (user_name_new n) (\<lambda>named.
        and_then (user_id_parse user) (\<lambda>user.
        and_then (group_id_parse grp) (\<lambda>grp.
        and_then (optional_path home ''home directory'') (\<lambda>home.
        map_ok (\<lambda>shell. \<lparr>passwd_name = named, passwd_user = user, passwd_group = grp, passwd_comment = Comment comment,
            passwd_home = home, passwd_shell = shell\<rparr>) (optional_path shell ''login shell''))))))
    | columns \<Rightarrow> Inl (CollectionError ''expected {COLUMNS} colon-separated columns in an /etc/passwd line, got {}: {line:?}''
        [show_nat (length columns), l]))"

definition passwd_parse :: "str \<Rightarrow> passwd_entry list collected" where
  "passwd_parse t = collect_results (map passwd_line (filter carries_an_entry (lines t)))"

definition parse_members :: "str \<Rightarrow> group_members collected" where
  "parse_members column =
     (if column = [] then Inr []
      else map_ok group_members_new (collect_results (map user_name_new (split_on (CHR '','') column))))"

definition group_line :: "str \<Rightarrow> (group_name \<times> group_account) collected" where
  "group_line l = (case split_on (CHR '':'') l of
      [n, password, number, members] \<Rightarrow>
        and_then (refuse_a_compat_directive n) (\<lambda>_.
        and_then (group_id_parse number) (\<lambda>number.
        and_then (parse_members members) (\<lambda>members.
        map_ok (\<lambda>named. (named, \<lparr>group_number = number, group_holds = members\<rparr>)) (group_name_new n))))
    | columns \<Rightarrow> Inl (CollectionError ''expected {COLUMNS} colon-separated columns in an /etc/group line, got {}: {line:?}''
        [show_nat (length columns), l]))"

definition group_parse :: "str \<Rightarrow> (group_name \<times> group_account) list collected" where
  "group_parse t = collect_results (map group_line (filter carries_an_entry (lines t)))"

record shadow_entry =
  shadow_password :: password_status
  shadow_aging :: password_aging

type_synonym shadow_database = "(user_name, shadow_entry) btree"

definition shadow_line :: "str \<Rightarrow> (user_name \<times> shadow_entry) collected" where
  "shadow_line l = (case split_on (CHR '':'') l of
      [n, password, changed, minimum, maximum, warning, inactive, expires, reserved] \<Rightarrow>
        and_then (optional_days changed) (\<lambda>changed.
        and_then (optional_days minimum) (\<lambda>minimum.
        and_then (optional_days maximum) (\<lambda>maximum.
        and_then (optional_days warning) (\<lambda>warning.
        and_then (optional_days inactive) (\<lambda>inactive.
        and_then (optional_days expires) (\<lambda>expires.
        map_ok (\<lambda>named. (named, \<lparr>shadow_password = password_parse password,
            shadow_aging = \<lparr>last_changed = changed, minimum_age = minimum, maximum_age = maximum, warning_days = warning,
              inactive_days = inactive, expires_on = expires\<rparr>\<rparr>)) (user_name_new n)))))))
    | columns \<Rightarrow> Inl (CollectionError ''expected {COLUMNS} colon-separated columns in an /etc/shadow line, got {}'' [show_nat (length columns)]))"

definition shadow_parse :: "str \<Rightarrow> shadow_database collected" where
  "shadow_parse t = keyed_once
     (\<lambda>n. CollectionError ''the shadow database defines {:?} twice, so which password applies depends on which line a tool reads first'' [user_str n])
     (map shadow_line (filter carries_an_entry (lines t))) []"

text \<open>The three files: what reading each gives, and whether it is a regular file.\<close>

record accounts_host =
  account_file :: "str \<Rightarrow> str + str"
  account_is_file :: "str \<Rightarrow> bool"

record account_files =
  passwd_path :: str
  group_path :: str
  shadow_path :: str


definition account_contents :: "accounts_host \<Rightarrow> str \<Rightarrow> str collected" where
  "account_contents h p = map_err (\<lambda>e. CollectionError ''could not read {}: {error}'' [p, e]) (account_file h p)"

definition read_shadow :: "accounts_host \<Rightarrow> account_files \<Rightarrow> shadow_database option collected" where
  "read_shadow h f =
     (if account_is_file h (shadow_path f) then map_ok Some (and_then (account_contents h (shadow_path f)) shadow_parse) else Inr None)"

definition account_of :: "account_files \<Rightarrow> shadow_database option \<Rightarrow> passwd_entry \<Rightarrow> (user_name \<times> user_account) collected" where
  "account_of f shadow e =
     map_ok (\<lambda>known. (passwd_name e, \<lparr>account_user = passwd_user e, account_group = passwd_group e, account_comment = passwd_comment e,
         account_home = passwd_home e, account_shell = passwd_shell e, account_password = map_option shadow_password known,
         account_aging = map_option shadow_aging known\<rparr>))
       (case shadow of
          None \<Rightarrow> Inr None
        | Some shadow \<Rightarrow> map_ok Some (ok_or
            (CollectionError ''{:?} is in {} but not in {}, so nothing can be said about whether it has a password''
              [user_str (passwd_name e), passwd_path f, shadow_path f]) (btree_get (passwd_name e) shadow)))"

definition accounts_read :: "accounts_host \<Rightarrow> account_files \<Rightarrow> account_registry collected" where
  "accounts_read h f =
     and_then (and_then (account_contents h (passwd_path f)) passwd_parse) (\<lambda>users.
     and_then (and_then (account_contents h (group_path f)) group_parse) (\<lambda>groups.
     and_then (read_shadow h f) (\<lambda>shadow.
     and_then (collect_results (map (account_of f shadow) users)) (\<lambda>accounts.
       account_registry_new accounts groups))))"

definition accounts_presence :: "accounts_host \<Rightarrow> account_files \<Rightarrow> presence" where
  "accounts_presence h f = (if account_is_file h (passwd_path f) then Present else Absent)"


section \<open>Hashes do not reach the registry\<close>



text \<open>A column locked twice is published whole, as the marker of a password that cannot be used.\<close>

lemma double_lock_published: "password_parse (''!!$'' @ secret) = PasswordUnusable (''!!$'' @ secret)"
proof -
  have "\<not> looks_like_legacy_crypt (''!$'' @ secret)"
    by (simp add: looks_like_legacy_crypt_def is_ascii_alphanumeric_def is_ascii_alphabetic_def is_ascii_lowercase_def is_ascii_uppercase_def is_ascii_digit_def)
  then show ?thesis
    by (simp add: password_parse_def strip_prefix_def starts_with_def lock_marker_def algorithm_marker_def)
qed







text \<open>The registry has each account of the passwd file once, joined with what the shadow file says of it.\<close>

lemma account_of_named: "account_of f shadow e = Inr (n, a) \<Longrightarrow> n = passwd_name e"
  by (auto simp: account_of_def map_ok_Inr_iff)

lemma collect_once: "distinct (map fst kvs) \<Longrightarrow> btree_get k (btree_collect kvs) = Some v \<longleftrightarrow> (k, v) \<in> set kvs"
  by (simp add: btree.get_collect rev_map[symmetric])

lemma registry_joined:
  assumes "accounts_read h f = Inr r"
    and "and_then (account_contents h (passwd_path f)) passwd_parse = Inr users" "read_shadow h f = Inr shadow"
  shows "distinct (map passwd_name users)"
    and "btree_get n (registry_users r) = Some a \<longleftrightarrow> (\<exists>e \<in> set users. account_of f shadow e = Inr (n, a))"
proof -
  obtain groups accounts where "collect_results (map (account_of f shadow) users) = Inr accounts" "account_registry_new accounts groups = Inr r"
    using assms unfolding accounts_read_def by (auto simp: and_then_Inr_iff)
  then have accounts: "map (account_of f shadow) users = map Inr accounts"
    and users: "distinct (map fst accounts)" "registry_users r = btree_collect accounts"
    by (auto simp: collect_results_Inr_iff account_registry_new_def and_then_Inr_iff map_ok_Inr_iff keyed_once_Inr_iff inj_map_eq_map)
  have "map passwd_name users = map fst accounts"
    using accounts
  proof (induction users arbitrary: accounts)
    case (Cons e users)
    then show ?case using account_of_named[of f shadow e] by (cases accounts) auto
  qed simp
  then show "distinct (map passwd_name users)" using users(1) by simp
  have "(n, a) \<in> set accounts \<longleftrightarrow> Inr (n, a) \<in> set (map (account_of f shadow) users)" unfolding accounts by auto
  then show "btree_get n (registry_users r) = Some a \<longleftrightarrow> (\<exists>e \<in> set users. account_of f shadow e = Inr (n, a))"
    unfolding users(2) collect_once[OF users(1)] by (auto simp: image_iff eq_commute)
qed












end
