(* ===== verification/Cron.thy ===== *)
theory Cron
  imports TextBlanks Values KeyedTables SetOrder Lossy Claims Paths
begin

text \<open>
  What cron runs (\<open>collectors/cron\<close>): the two dialects of a crontab, the tables and the sources they are read from.
  A line of a schedule, an account and a command is read back as that job, and a crontab line by line.
\<close>

section \<open>Values\<close>

datatype schedule = Schedule non_empty_text
datatype cron_command = CronCommand non_empty_text
datatype job_owner = JobOwner non_empty_text
datatype script_name = ScriptName (script_text: non_empty_text)

definition schedule_new :: "str \<Rightarrow> schedule collected" where
  "schedule_new v = map_ok Schedule (non_empty_text_new (joined_with '' '' (split_whitespace v)) ''schedule'')"

fun schedule_str :: "schedule \<Rightarrow> str" where
  "schedule_str (Schedule t) = text_str t"

definition is_at_boot :: "schedule \<Rightarrow> bool" where
  "is_at_boot s \<longleftrightarrow> schedule_str s = ''@reboot''"

definition cron_command_new :: "str \<Rightarrow> cron_command collected" where
  "cron_command_new v = map_ok CronCommand (non_empty_text_new v ''cron command'')"

definition job_owner_new :: "str \<Rightarrow> job_owner collected" where
  "job_owner_new v = map_ok JobOwner (non_empty_text_new v ''job owner'')"

definition script_name_new :: "str \<Rightarrow> script_name collected" where
  "script_name_new v = map_ok ScriptName (non_empty_text_new v ''script name'')"

definition schedule_observed :: "schedule \<Rightarrow> observation" where
  "schedule_observed s = text_of (schedule_str s)"

fun cron_command_observed :: "cron_command \<Rightarrow> observation" where
  "cron_command_observed (CronCommand t) = text_of (text_str t)"

fun job_owner_observed :: "job_owner \<Rightarrow> observation" where
  "job_owner_observed (JobOwner t) = text_of (text_str t)"

definition script_name_observed :: "script_name \<Rightarrow> observation" where
  "script_name_observed n = text_of (text_str (script_text n))"

section \<open>Tables\<close>

record cron_job =
  job_schedule :: schedule
  job_owned :: "job_owner option"
  job_command :: cron_command

definition cron_job_observed :: "cron_job \<Rightarrow> observation" where
  "cron_job_observed j = object
     [(''command'', cron_command_observed (job_command j)),
      (''owner'', case job_owned j of Some u \<Rightarrow> job_owner_observed u | None \<Rightarrow> null),
      (''runs_at_boot'', boolean (is_at_boot (job_schedule j))),
      (''schedule'', schedule_observed (job_schedule j))]"

record cron_table =
  cron_environment :: "(environment_variable_name, str) btree"
  cron_jobs :: "cron_job list"
  cron_scripts :: "script_name list"

definition crontab_new :: "(environment_variable_name \<times> str) list \<Rightarrow> cron_job list \<Rightarrow> cron_table collected" where
  "crontab_new environment jobs =
     map_ok (\<lambda>assigned. \<lparr>cron_environment = assigned, cron_jobs = jobs, cron_scripts = []\<rparr>)
       (keyed_once (\<lambda>n. CollectionError
         ''{:?} is set twice, so what every job in this file runs with depends on which line cron takes'' [text_str (variable_text n)])
         (map Inr environment) [])"

definition scripts_new :: "script_name list \<Rightarrow> cron_table" where
  "scripts_new scripts = \<lparr>cron_environment = [], cron_jobs = [],
     cron_scripts = sort_by (\<lambda>a b. cmp_of (text_str (script_text a)) (text_str (script_text b))) scripts\<rparr>"

definition cron_table_observed :: "hashes \<Rightarrow> cron_table \<Rightarrow> observation" where
  "cron_table_observed H t = object
     [(''environment'', object (map (\<lambda>(n, v). (text_str (variable_text n), text_of v)) (cron_environment t))),
      (''jobs'', set_of H (map cron_job_observed (cron_jobs t))),
      (''scripts'', sequence (map script_name_observed (cron_scripts t)))]"

type_synonym cron_state = "(str, cron_table option) btree"

definition cron_state_new :: "(str \<times> cron_table option) list \<Rightarrow> cron_state collected" where
  "cron_state_new sources = keyed_once (\<lambda>s. CollectionError ''{source:?} was read twice'' [s]) (map Inr sources) []"

definition cron_state_observed :: "hashes \<Rightarrow> cron_state \<Rightarrow> observation" where
  "cron_state_observed H s = object (map (\<lambda>(source, t). (source, case t of Some t \<Rightarrow> cron_table_observed H t | None \<Rightarrow> null)) s)"

section \<open>The grammar\<close>

datatype owner_column = OwnerPresent | OwnerAbsent

definition schedule_fields :: nat where
  "schedule_fields = 5"

definition name_character :: "char \<Rightarrow> bool" where
  "name_character c \<longleftrightarrow> is_ascii_alphanumeric c \<or> c = CHR ''_''"

definition cron_assignment :: "str \<Rightarrow> (str \<times> str) option" where
  "cron_assignment l = Option.bind (split_once (CHR ''='') l) (\<lambda>(n, v).
     let n = trim n
     in if n = [] \<or> \<not> (is_ascii_alphabetic (hd n) \<or> hd n = CHR ''_'') \<or> \<not> list_all name_character n then None else Some (n, trim v))"

fun past_fields :: "nat \<Rightarrow> str \<Rightarrow> str \<Rightarrow> str collected" where
  "past_fields 0 l remainder = Inr remainder"
| "past_fields (Suc n) l remainder =
     and_then (ok_or (CollectionError ''expected {SCHEDULE_FIELDS} schedule fields and a command: {line:?}'' [l]) (cut_at_blank remainder))
       (\<lambda>(field, rest). past_fields n l (trim_start rest))"

definition split_schedule :: "str \<Rightarrow> (schedule \<times> str) collected" where
  "split_schedule l =
     (if starts_with ''@'' l
      then and_then (ok_or (CollectionError ''{line:?} is a schedule with no command after it'' [l]) (cut_at_blank l)) (\<lambda>(shorthand, rest).
        map_ok (\<lambda>s. (s, trim_start rest)) (schedule_new shorthand))
      else and_then (past_fields schedule_fields l l) (\<lambda>remainder.
        map_ok (\<lambda>s. (s, remainder)) (schedule_new (take (length l - length remainder) l))))"

definition parse_job :: "str \<Rightarrow> owner_column \<Rightarrow> cron_job collected" where
  "parse_job l column =
     and_then (split_schedule l) (\<lambda>(s, rest).
     and_then (case column of
         OwnerAbsent \<Rightarrow> Inr (None, rest)
       | OwnerPresent \<Rightarrow>
           and_then (ok_or (CollectionError ''a system crontab line needs an account and a command after its schedule: {line:?}'' [l]) (cut_at_blank rest))
             (\<lambda>(owner, command). map_ok (\<lambda>u. (Some u, command)) (job_owner_new owner))) (\<lambda>(owner, command).
     map_ok (\<lambda>c. \<lparr>job_schedule = s, job_owned = owner, job_command = c\<rparr>) (cron_command_new (trim command))))"

datatype cron_entry = Assigned environment_variable_name str | Scheduled cron_job

definition cron_line :: "owner_column \<Rightarrow> str \<Rightarrow> cron_entry collected option" where
  "cron_line column l =
     (let l = trim l
      in if l = [] \<or> starts_with ''#'' l then None
         else Some (case cron_assignment l of
             Some (n, v) \<Rightarrow> map_ok (\<lambda>n. Assigned n v) (environment_variable_name_new n)
           | None \<Rightarrow> map_ok Scheduled (parse_job l column)))"

definition assignments_in :: "cron_entry list \<Rightarrow> (environment_variable_name \<times> str) list" where
  "assignments_in es = List.map_filter (\<lambda>e. case e of Assigned n v \<Rightarrow> Some (n, v) | Scheduled j \<Rightarrow> None) es"

definition jobs_in :: "cron_entry list \<Rightarrow> cron_job list" where
  "jobs_in es = List.map_filter (\<lambda>e. case e of Assigned n v \<Rightarrow> None | Scheduled j \<Rightarrow> Some j) es"

definition crontab_parse :: "str \<Rightarrow> owner_column \<Rightarrow> cron_table collected" where
  "crontab_parse contents column =
     and_then (collect_results (List.map_filter (cron_line column) (lines contents))) (\<lambda>es. crontab_new (assignments_in es) (jobs_in es))"

section \<open>The sources\<close>

datatype cron_answer = CronHolds str | CronMissing | CronUnreadable str

record cron_host =
  cron_file :: "str \<Rightarrow> cron_answer"
  cron_lists :: "str \<Rightarrow> str + (str + str) list"
  cron_is_directory :: "str \<Rightarrow> bool"

record cron_files =
  system_crontab :: str
  drop_ins :: str
  spool :: str
  run_parts :: "str list"

definition cron_files_new :: cron_files where
  "cron_files_new = \<lparr>system_crontab = ''/etc/crontab'', drop_ins = ''/etc/cron.d'', spool = ''/var/spool/cron/crontabs'',
     run_parts = [''/etc/cron.hourly'', ''/etc/cron.daily'', ''/etc/cron.weekly'', ''/etc/cron.monthly'']\<rparr>"

definition cron_read_optional :: "cron_host \<Rightarrow> str \<Rightarrow> str option collected" where
  "cron_read_optional h p = (case cron_file h p of
      CronHolds contents \<Rightarrow> Inr (Some contents)
    | CronMissing \<Rightarrow> Inr None
    | CronUnreadable e \<Rightarrow> Inl (CollectionError ''could not read {}: {error}'' [p, e]))"

definition read_crontab :: "cron_host \<Rightarrow> str \<Rightarrow> owner_column \<Rightarrow> cron_table option collected" where
  "read_crontab h p column =
     and_then (cron_read_optional h p) (\<lambda>contents. case contents of
       None \<Rightarrow> Inr None
     | Some contents \<Rightarrow> map_err (\<lambda>e. CollectionError (''in {}: '' @ template e) (p # arguments e))
         (map_ok Some (crontab_parse contents column)))"

definition cron_reads_name :: "str \<Rightarrow> bool" where
  "cron_reads_name n \<longleftrightarrow> list_all (\<lambda>c. is_ascii_alphanumeric c \<or> c = CHR ''_'' \<or> c = CHR ''-'') n \<and> n \<noteq> []"

text \<open>The names in a directory, in the order of the paths they make; a name that is kept is ASCII, so it is its own text.\<close>

definition cron_entries :: "cron_host \<Rightarrow> str \<Rightarrow> str list collected" where
  "cron_entries h directory =
     (if \<not> cron_is_directory h directory then Inr []
      else and_then (map_err (\<lambda>e. CollectionError ''could not list {}: {error}'' [directory, e]) (cron_lists h directory)) (\<lambda>entries.
        map_ok (\<lambda>names. sort_by cmp_of (filter (\<lambda>n. cron_reads_name (lossy n)) names))
          (collect_results (map (map_err (\<lambda>e. CollectionError ''could not list an entry of {}: {error}'' [directory, e])) entries))))"

definition read_scripts :: "cron_host \<Rightarrow> str \<Rightarrow> cron_table option collected" where
  "read_scripts h directory =
     (if \<not> cron_is_directory h directory then Inr None
      else and_then (cron_entries h directory) (\<lambda>names.
        map_ok (\<lambda>scripts. Some (scripts_new scripts)) (collect_results (map (\<lambda>n. script_name_new (lossy n)) names))))"

definition crontabs_in :: "cron_host \<Rightarrow> str \<Rightarrow> owner_column \<Rightarrow> (str \<Rightarrow> str) \<Rightarrow> (str \<times> cron_table option) list collected" where
  "crontabs_in h directory column key =
     and_then (cron_entries h directory) (\<lambda>names.
     collect_results (map (\<lambda>n. map_ok (Pair (key n)) (read_crontab h (text_joined directory n) column)) names))"

definition cron_read :: "cron_host \<Rightarrow> cron_files \<Rightarrow> cron_state collected" where
  "cron_read h f =
     and_then (read_crontab h (system_crontab f) OwnerPresent) (\<lambda>system.
     and_then (crontabs_in h (drop_ins f) OwnerPresent (\<lambda>n. lossy (text_joined (drop_ins f) n))) (\<lambda>dropped.
     and_then (crontabs_in h (spool f) OwnerAbsent lossy) (\<lambda>accounts.
     and_then (collect_results (map (\<lambda>d. map_ok (Pair (lossy d)) (read_scripts h d)) (run_parts f))) (\<lambda>scripts.
       cron_state_new ((lossy (system_crontab f), system) # dropped @ accounts @ scripts)))))"

definition cron_presence :: presence where
  "cron_presence = Present"

definition cron_collect :: "hashes \<Rightarrow> cron_host \<Rightarrow> observation collected" where
  "cron_collect H h = map_ok (cron_state_observed H) (cron_read h cron_files_new)"

section \<open>A crontab is read back\<close>

text \<open>A job as it is written: its schedule, its account where the dialect has one, and its command, with the blanks between them.\<close>

datatype written_job = WrittenJob (written_fields: "(str \<times> str) list") (written_owner: "(str \<times> str) option") (written_command: str)

fun fields_written :: "(str \<times> str) list \<Rightarrow> str \<Rightarrow> str" where
  "fields_written [] rest = rest"
| "fields_written ((t, g) # ts) rest = t @ g @ fields_written ts rest"

definition job_written :: "written_job \<Rightarrow> str" where
  "job_written j = fields_written (written_fields j)
     ((case written_owner j of Some (u, g) \<Rightarrow> u @ g | None \<Rightarrow> []) @ written_command j)"

definition begins_schedule :: "char \<Rightarrow> bool" where
  "begins_schedule c \<longleftrightarrow> between 33 126 c \<and> \<not> is_ascii_alphabetic c \<and> c \<noteq> CHR ''_'' \<and> c \<noteq> CHR ''#''"

definition written_job_ok :: "owner_column \<Rightarrow> written_job \<Rightarrow> bool" where
  "written_job_ok column j \<longleftrightarrow> list_all (\<lambda>(t, g). word t \<and> blank_ok g) (written_fields j) \<and>
     (case written_fields j of [] \<Rightarrow> False | (t, g) # ts \<Rightarrow> begins_schedule (hd t) \<and>
        (if hd t = CHR ''@'' then ts = [] else length ts = 4)) \<and>
     (case written_owner j of Some (u, g) \<Rightarrow> column = OwnerPresent \<and> word u \<and> blank_ok g | None \<Rightarrow> column = OwnerAbsent) \<and>
     written_command j \<noteq> [] \<and> trimmed (written_command j)"

definition job_meant :: "written_job \<Rightarrow> cron_job" where
  "job_meant j = \<lparr>job_schedule = Schedule (NonEmptyText (joined_with '' '' (map fst (written_fields j)))),
     job_owned = map_option (\<lambda>(u, g). JobOwner (NonEmptyText u)) (written_owner j),
     job_command = CronCommand (NonEmptyText (written_command j))\<rparr>"

abbreviation field_ok :: "str \<times> str \<Rightarrow> bool" where
  "field_ok f \<equiv> (case f of (t, g) \<Rightarrow> word t \<and> blank_ok g)"

definition fields_prefix :: "(str \<times> str) list \<Rightarrow> str" where
  "fields_prefix fs = concat (map (\<lambda>(t, g). t @ g) fs)"

lemma fields_written_prefix: "fields_written fs rest = fields_prefix fs @ rest"
  by (induction fs) (auto simp: fields_prefix_def)

lemma fields_prefix_valid: "list_all field_ok fs \<Longrightarrow> valid_utf8 (fields_prefix fs)"
  by (induction fs) (auto simp: fields_prefix_def blank_ok_def word_def valid_utf8_append space_chars)

lemma inked_fields: "list_all field_ok fs \<Longrightarrow> inked rest \<Longrightarrow> inked (fields_written fs rest)"
proof (cases fs)
  case (Cons f ts)
  assume "list_all field_ok fs" "inked rest"
  then have "valid_utf8 (snd f @ fields_written ts rest)" "word (fst f)"
    using Cons fields_prefix_valid[of ts] by (auto simp: fields_written_prefix blank_ok_def space_chars valid_utf8_append inked_def)
  then show ?thesis using word_inked[of "fst f"] Cons by (cases f) simp
qed simp

lemma split_fields: "list_all field_ok fs \<Longrightarrow> split_whitespace (fields_prefix fs) = map fst fs"
proof (induction fs)
  case (Cons f fs)
  obtain t g where f: "f = (t, g)" by (cases f)
  with Cons.prems have "word t" "g \<noteq> []" "space g" by (simp_all add: blank_ok_def)
  then have "split_whitespace (t @ g @ fields_prefix fs) = t # split_whitespace (g @ fields_prefix fs)"
    by (intro split_whitespace_word) (auto simp: space_def list_all_iff)
  with Cons show ?case by (simp add: f fields_prefix_def split_whitespace_gap blank_ok_def)
qed (simp add: fields_prefix_def split_whitespace_def)

lemma past_fields_written:
  "list_all field_ok fs \<Longrightarrow> inked rest \<Longrightarrow> past_fields (length fs) l (fields_written fs rest) = Inr rest"
proof (induction fs)
  case (Cons f fs)
  obtain t g where f: "f = (t, g)" by (cases f)
  have "inked (fields_written fs rest)" using Cons.prems by (intro inked_fields) simp_all
  then obtain g' where "cut_at_blank (t @ g @ fields_written fs rest) = Some (t, g' @ fields_written fs rest)"
    "trim_start (g' @ fields_written fs rest) = fields_written fs rest"
    using field_cut[of t g] Cons.prems by (auto simp: f)
  with Cons show ?case by (simp add: f)
qed simp

lemma joined_words_nonempty: "list_all field_ok fs \<Longrightarrow> fs \<noteq> [] \<Longrightarrow> joined_with '' '' (map fst fs) \<noteq> []"
  by (cases fs; cases "tl fs") (auto simp: word_def)

lemma schedule_split:
  assumes "list_all field_ok fs" "inked rest" "fs \<noteq> []" "if hd (fst (hd fs)) = CHR ''@'' then length fs = 1 else length fs = 5"
  shows "split_schedule (fields_written fs rest) = Inr (Schedule (NonEmptyText (joined_with '' '' (map fst fs))), rest)"
proof -
  obtain t g ts where fs: "fs = (t, g) # ts" using assms(3) by (cases fs) auto
  have t: "t \<noteq> []" using assms(1) by (simp add: fs word_def)
  have schedule: "schedule_new (fields_prefix fs) = Inr (Schedule (NonEmptyText (joined_with '' '' (map fst fs))))"
    using joined_words_nonempty[OF assms(1,3)] by (simp add: schedule_new_def split_fields[OF assms(1)] non_empty_text_new_def)
  have at: "starts_with ''@'' (fields_written fs rest) \<longleftrightarrow> hd t = CHR ''@''" using t by (cases t) (auto simp: fs starts_with_def)
  show ?thesis
  proof (cases "hd t = CHR ''@''")
    case True
    then have ts: "ts = []" using assms(4) by (simp add: fs)
    obtain g' where cut: "cut_at_blank (t @ g @ rest) = Some (t, g' @ rest)" "trim_start (g' @ rest) = rest"
      using field_cut[of t g rest] assms(1,2) by (auto simp: fs)
    have "split_whitespace t = [t]" using split_whitespace_word[of t "[]"] assms(1) by (simp add: fs split_whitespace_def)
    then have "schedule_new t = Inr (Schedule (NonEmptyText t))" using t by (simp add: schedule_new_def non_empty_text_new_def)
    with True at cut show ?thesis by (simp add: split_schedule_def fs ts)
  next
    case False
    then have "length fs = schedule_fields" using assms(4) by (simp add: fs schedule_fields_def)
    then have "past_fields schedule_fields l (fields_written fs rest) = Inr rest" for l
      using past_fields_written[OF assms(1,2), of l] by simp
    moreover have "take (length (fields_written fs rest) - length rest) (fields_written fs rest) = fields_prefix fs"
      by (simp add: fields_written_prefix)
    ultimately show ?thesis using False at schedule by (simp add: split_schedule_def)
  qed
qed

lemma job_read_back:
  assumes "written_job_ok column j"
  shows "parse_job (job_written j) column = Inr (job_meant j)"
proof -
  let ?fs = "written_fields j" and ?c = "written_command j"
  have fs: "list_all field_ok ?fs" "?fs \<noteq> []" "if hd (fst (hd ?fs)) = CHR ''@'' then length ?fs = 1 else length ?fs = 5"
    and c: "?c \<noteq> []" "trimmed ?c"
    using assms by (auto simp: written_job_ok_def split: list.splits if_splits)
  have inked_c: "inked ?c" using c by (simp add: inked_def trimmed_def)
  have command: "cron_command_new ?c = Inr (CronCommand (NonEmptyText ?c))" using c by (simp add: cron_command_new_def non_empty_text_new_def)
  show ?thesis
  proof (cases "written_owner j")
    case None
    then have "column = OwnerAbsent" using assms by (simp add: written_job_ok_def)
    moreover have "split_schedule (job_written j) = Inr (Schedule (NonEmptyText (joined_with '' '' (map fst ?fs))), ?c)"
      using schedule_split[OF fs(1) inked_c fs(2,3)] None by (simp add: job_written_def)
    ultimately show ?thesis using command c by (simp add: parse_job_def job_meant_def None trim_trimmed)
  next
    case (Some ug)
    obtain u g where ug: "ug = (u, g)" by (cases ug)
    have owner: "column = OwnerPresent" "word u" "blank_ok g" using assms by (simp_all add: written_job_ok_def Some ug)
    then have "inked (u @ g @ ?c)"
      using inked_c by (intro word_inked) (simp_all add: blank_ok_def space_chars valid_utf8_append inked_def)
    then have "split_schedule (job_written j) = Inr (Schedule (NonEmptyText (joined_with '' '' (map fst ?fs))), u @ g @ ?c)"
      using schedule_split[OF fs(1) _ fs(2,3)] Some by (simp add: job_written_def ug)
    moreover obtain g' where "cut_at_blank (u @ g @ ?c) = Some (u, g' @ ?c)" "space g'" using field_cut[OF owner(2,3) inked_c] by metis
    moreover have "trim (g' @ ?c) = ?c" using trim_padded[of ?c g' "[]"] c calculation(3) by (simp add: space_def)
    moreover have "u \<noteq> []" using owner(2) by (simp add: word_def)
    ultimately show ?thesis
      using command owner(1) by (simp add: parse_job_def job_meant_def Some ug job_owner_new_def non_empty_text_new_def)
  qed
qed

lemma trim_keeps_first:
  assumes "between 0 127 c" "\<not> is_whitespace [c]"
  shows "\<exists>r. trim (c # s) = c # r"
proof -
  have "dropWhile is_whitespace (rev (chars_of (c # s))) = dropWhile is_whitespace (rev (chars_of s)) @ [[c]] \<or>
      (\<exists>x. dropWhile is_whitespace (rev (chars_of (c # s))) = x @ [[c]])"
    using assms by (simp add: chars_of_ascii_Cons dropWhile_append)
  then obtain x where "dropWhile is_whitespace (rev (chars_of (c # s))) = x @ [[c]]" by blast
  then have "trim_end (c # s) = c # concat (rev x)" by (simp add: trim_end_def)
  then show ?thesis using assms by (simp add: trim_def trim_start_def chars_of_ascii_Cons)
qed

lemma begins_schedule_ink: "begins_schedule c \<Longrightarrow> between 0 127 c \<and> \<not> is_whitespace [c]"
  by (auto simp: begins_schedule_def between_def is_whitespace_def Let_def)

text \<open>A line that begins the way a schedule does is not taken for an assignment, nor for a comment.\<close>

lemma not_an_assignment:
  assumes "begins_schedule c"
  shows "cron_assignment (c # l) = None"
proof (cases "split_once (CHR ''='') (c # l)")
  case (Some nv)
  obtain n v where nv: "nv = (n, v)" by (cases nv)
  from Some have "c # l = n @ CHR ''='' # v" by (simp add: nv split_once_Some_iff)
  then consider "n = []" | n' where "n = c # n'" by (cases n) auto
  then show ?thesis
  proof cases
    case 1
    moreover have "trim [] = []" by code_simp
    ultimately show ?thesis by (simp add: cron_assignment_def Some nv)
  next
    case (2 n')
    then obtain r where "trim n = c # r" using trim_keeps_first begins_schedule_ink[OF assms] by blast
    then show ?thesis using assms by (simp add: cron_assignment_def Some nv begins_schedule_def)
  qed
qed (simp add: cron_assignment_def)

lemma written_job_line:
  assumes "written_job_ok column j"
  shows "cron_line column (job_written j) = Some (Inr (Scheduled (job_meant j)))" "job_written j \<noteq> []" "trimmed (job_written j)"
proof -
  obtain t g ts where fs: "written_fields j = (t, g) # ts" "begins_schedule (hd t)" "word t"
    using assms by (auto simp: written_job_ok_def split: list.splits)
  then obtain c t' where t: "t = c # t'" "begins_schedule c" by (cases t) (auto simp: word_def)
  then obtain l where l: "job_written j = c # l" by (simp add: job_written_def fs)
  let ?p = "fields_prefix (written_fields j) @ (case written_owner j of Some (u, g) \<Rightarrow> u @ g | None \<Rightarrow> [])"
  have p: "job_written j = ?p @ written_command j" by (simp add: job_written_def fields_written_prefix)
  have valid: "valid_utf8 ?p"
    using assms fields_prefix_valid[of "written_fields j"]
    by (auto simp: written_job_ok_def valid_utf8_append blank_ok_def space_chars word_def split: option.splits)
  have c: "written_command j \<noteq> []" "trimmed (written_command j)" using assms by (simp_all add: written_job_ok_def)
  have "valid_utf8 (job_written j)" unfolding p valid_utf8_append[OF valid] using c by (simp add: trimmed_def)
  then have "inked (job_written j)" using begins_schedule_ink[OF t(2)] by (simp add: inked_def l chars_of_ascii_Cons)
  then show trimmed: "trimmed (job_written j)" using valid c inked_trimmed[of ?p "written_command j"] unfolding p by blast
  show "job_written j \<noteq> []" by (simp add: l)
  have "\<not> starts_with ''#'' (job_written j)" using t(2) by (simp add: l starts_with_def begins_schedule_def)
  moreover have "cron_assignment (job_written j) = None" using not_an_assignment[OF t(2)] by (simp add: l)
  ultimately show "cron_line column (job_written j) = Some (Inr (Scheduled (job_meant j)))"
    using job_read_back[OF assms] \<open>job_written j \<noteq> []\<close> by (simp add: cron_line_def trim_trimmed[OF trimmed])
qed

text \<open>A file: comments, blank lines, assignments and jobs.\<close>

datatype crontab_line = CronComment str | CronBlank str | CronAssignment str str | CronJobLine written_job

fun crontab_line_written :: "crontab_line \<Rightarrow> str" where
  "crontab_line_written (CronComment s) = ''#'' @ s"
| "crontab_line_written (CronBlank s) = s"
| "crontab_line_written (CronAssignment n v) = n @ ''='' @ v"
| "crontab_line_written (CronJobLine j) = job_written j"

fun crontab_line_ok :: "owner_column \<Rightarrow> crontab_line \<Rightarrow> bool" where
  "crontab_line_ok column (CronComment s) \<longleftrightarrow> trimmed (''#'' @ s)"
| "crontab_line_ok column (CronBlank s) \<longleftrightarrow> space s"
| "crontab_line_ok column (CronAssignment n v) \<longleftrightarrow>
     n \<noteq> [] \<and> (is_ascii_alphabetic (hd n) \<or> hd n = CHR ''_'') \<and> list_all name_character n \<and> trimmed v"
| "crontab_line_ok column (CronJobLine j) \<longleftrightarrow> written_job_ok column j"

fun crontab_entry_meant :: "crontab_line \<Rightarrow> cron_entry option" where
  "crontab_entry_meant (CronAssignment n v) = Some (Assigned (EnvironmentVariableName (NonEmptyText n)) v)"
| "crontab_entry_meant (CronJobLine j) = Some (Scheduled (job_meant j))"
| "crontab_entry_meant l = None"

lemma name_character_plain: "name_character c \<Longrightarrow> between 33 126 c \<and> c \<noteq> CHR ''='' \<and> c \<noteq> CHR ''#''"
  by (auto simp: name_character_def is_ascii_alphanumeric_def is_ascii_alphabetic_def is_ascii_lowercase_def is_ascii_uppercase_def
      is_ascii_digit_def between_def)

lemma crontab_line_read:
  assumes "crontab_line_ok column l"
  shows "cron_line column (crontab_line_written l) = map_option Inr (crontab_entry_meant l)"
proof (cases l)
  case (CronComment s)
  then show ?thesis using assms by (simp add: cron_line_def trim_trimmed starts_with_def)
next
  case (CronBlank s)
  have "trim s = []" using trim_padded[of "[]" s "[]"] assms by (simp add: CronBlank trimmed_def space_def)
  then show ?thesis by (simp add: CronBlank cron_line_def)
next
  case (CronJobLine j)
  then show ?thesis using written_job_line[of column j] assms by simp
next
  case (CronAssignment n v)
  have n: "n \<noteq> []" "is_ascii_alphabetic (hd n) \<or> hd n = CHR ''_''" "list_all name_character n" and v: "trimmed v"
    using assms by (simp_all add: CronAssignment)
  then have plain: "list_all (between 33 126) n" "CHR ''='' \<notin> set n" "hd n \<noteq> CHR ''#''"
    using name_character_plain by (auto simp: list_all_iff)
  then have trimmed_n: "trimmed n" using word_trimmed[OF word_ascii[OF n(1)]] by blast
  have "trimmed ''=''" by code_simp
  then have "trim (n @ ''='' @ v) = n @ ''='' @ v" using trimmed_n v trimmed_append by (intro trim_trimmed) blast
  moreover have "split_once (CHR ''='') (n @ ''='' @ v) = Some (n, v)" unfolding split_once_Some_iff using plain(2) by simp
  then have "cron_assignment (n @ ''='' @ v) = Some (n, v)"
    using n v trimmed_n by (simp add: cron_assignment_def trim_trimmed)
  moreover have "\<not> starts_with ''#'' (n @ ''='' @ v)" using n(1) plain(3) by (cases n) (simp_all add: starts_with_def)
  ultimately show ?thesis
    using n(1) plain(2)
    by (simp add: CronAssignment cron_line_def environment_variable_name_new_def non_empty_text_new_def)
qed

definition crontab_written :: "crontab_line list \<Rightarrow> str" where
  "crontab_written ls = concat (map (\<lambda>l. crontab_line_written l @ [newline]) ls)"

lemma crontab_read_back:
  assumes "list_all (crontab_line_ok column) ls"
    and "list_all (\<lambda>l. newline \<notin> set (crontab_line_written l) \<and>
      (crontab_line_written l = [] \<or> last (crontab_line_written l) \<noteq> carriage_return)) ls"
  shows "crontab_parse (crontab_written ls) column =
    crontab_new (assignments_in (List.map_filter crontab_entry_meant ls)) (jobs_in (List.map_filter crontab_entry_meant ls))"
proof -
  have "lines (concat (map (\<lambda>l. l @ [newline]) (map crontab_line_written ls))) = map crontab_line_written ls"
    using assms(2) by (intro lines_concat) (auto simp: list_all_iff)
  then have lines: "lines (crontab_written ls) = map crontab_line_written ls" by (simp add: crontab_written_def comp_def)
  have "List.map_filter (cron_line column) (map crontab_line_written ls) = map Inr (List.map_filter crontab_entry_meant ls)"
    using assms(1) crontab_line_read by (induction ls) (simp_all add: List.map_filter_simps split: option.split)
  then have "collect_results (List.map_filter (cron_line column) (lines (crontab_written ls))) = Inr (List.map_filter crontab_entry_meant ls)"
    unfolding lines by (simp only: collect_results_Inr_iff)
  then show ?thesis by (simp add: crontab_parse_def)
qed

text \<open>A crontab in the spool under a name with a dot is not read, whatever account the name is.\<close>

lemma dotted_account_unread:
  assumes "cron_entries h directory = Inr names" "CHR ''.'' \<in> set n" "valid_utf8 n"
  shows "n \<notin> set names"
proof -
  have "\<not> cron_reads_name n"
    using assms(2) by (auto simp: cron_reads_name_def list_all_iff is_ascii_alphanumeric_def is_ascii_alphabetic_def is_ascii_lowercase_def
        is_ascii_uppercase_def is_ascii_digit_def intro!: bexI[of _ "CHR ''.''"])
  then show ?thesis
    using assms(1,3) by (auto simp: cron_entries_def and_then_Inr_iff map_ok_Inr_iff split: if_splits)
qed

end
