(* ===== verification/Firewall.thy ===== *)
theory Firewall
  imports TextBlanks Values KeyedTables SetOrder HostFiles
begin

text \<open>
  The firewall rules the kernel holds (\<open>collectors/firewall\<close>): the dump of \<open>iptables-save\<close>, the report of each backend and
  the inventory of all four.  A dump is read back table for table with the rules of every chain in order, and a backend whose
  subsystem is not resident is never asked.
\<close>

section \<open>Values\<close>

datatype table_name = TableName (table_text: non_empty_text)
datatype chain_name = ChainName (chain_text: non_empty_text)
datatype chain_policy = ChainPolicy non_empty_text
datatype rule_specification = RuleSpecification non_empty_text

instantiation table_name :: linorder
begin

definition less_eq_table_name :: "table_name \<Rightarrow> table_name \<Rightarrow> bool" where
  "less_eq_table_name m n \<longleftrightarrow> table_text m \<le> table_text n"

definition less_table_name :: "table_name \<Rightarrow> table_name \<Rightarrow> bool" where
  "less_table_name m n \<longleftrightarrow> table_text m < table_text n"

instance
  by standard (auto simp: less_eq_table_name_def less_table_name_def table_name.expand)

end

instantiation chain_name :: linorder
begin

definition less_eq_chain_name :: "chain_name \<Rightarrow> chain_name \<Rightarrow> bool" where
  "less_eq_chain_name m n \<longleftrightarrow> chain_text m \<le> chain_text n"

definition less_chain_name :: "chain_name \<Rightarrow> chain_name \<Rightarrow> bool" where
  "less_chain_name m n \<longleftrightarrow> chain_text m < chain_text n"

instance
  by standard (auto simp: less_eq_chain_name_def less_chain_name_def chain_name.expand)

end

definition table_name_new :: "str \<Rightarrow> table_name collected" where
  "table_name_new v = map_ok TableName (non_empty_text_new v ''table name'')"

definition chain_name_new :: "str \<Rightarrow> chain_name collected" where
  "chain_name_new v = map_ok ChainName (non_empty_text_new v ''chain name'')"

definition chain_policy_new :: "str \<Rightarrow> chain_policy collected" where
  "chain_policy_new v = map_ok ChainPolicy (non_empty_text_new v ''chain policy'')"

definition rule_specification_new :: "str \<Rightarrow> rule_specification collected" where
  "rule_specification_new v = map_ok RuleSpecification (non_empty_text_new v ''rule specification'')"

definition table_str :: "table_name \<Rightarrow> str" where
  "table_str n = text_str (table_text n)"

definition chain_str :: "chain_name \<Rightarrow> str" where
  "chain_str n = text_str (chain_text n)"

fun chain_policy_observed :: "chain_policy \<Rightarrow> observation" where
  "chain_policy_observed (ChainPolicy t) = text_of (text_str t)"

fun rule_specification_observed :: "rule_specification \<Rightarrow> observation" where
  "rule_specification_observed (RuleSpecification t) = text_of (text_str t)"

section \<open>Rulesets\<close>

record firewall_chain =
  chain_policy :: "chain_policy option"
  chain_rules :: "rule_specification list"

definition firewall_chain_observed :: "firewall_chain \<Rightarrow> observation" where
  "firewall_chain_observed c = object
     [(''policy'', case chain_policy c of Some p \<Rightarrow> chain_policy_observed p | None \<Rightarrow> null),
      (''rules'', sequence (map rule_specification_observed (chain_rules c)))]"

type_synonym chains = "(chain_name, firewall_chain) btree"
type_synonym ruleset = "(table_name, chains) btree"

definition ruleset_new :: "(table_name \<times> chains) list \<Rightarrow> ruleset collected" where
  "ruleset_new ts = keyed_once
     (\<lambda>n. CollectionError ''the table {:?} was dumped twice, so the output was misread'' [table_str n]) (map Inr ts) []"

definition ruleset_observed :: "ruleset \<Rightarrow> observation" where
  "ruleset_observed r = object (map (\<lambda>(t, cs). (table_str t, object (map (\<lambda>(c, held). (chain_str c, firewall_chain_observed held)) cs))) r)"

section \<open>The dump\<close>

definition parse_chain :: "str \<Rightarrow> (chain_name \<times> chain_policy option) collected" where
  "parse_chain declaration = (case split_whitespace declaration of
      [] \<Rightarrow> Inl (CollectionError ''{declaration:?} declares a chain with no name'' [declaration])
    | [n] \<Rightarrow> Inl (CollectionError ''{declaration:?} declares a chain with no policy'' [declaration])
    | n # policy # rest \<Rightarrow>
        and_then (if policy = ''-'' then Inr None else map_ok Some (chain_policy_new policy)) (\<lambda>policy.
        map_ok (\<lambda>n. (n, policy)) (chain_name_new n)))"

definition append_rule :: "chains \<Rightarrow> str \<Rightarrow> chains collected" where
  "append_rule cs r =
     and_then (ok_or (CollectionError ''{rule:?} names a chain but carries no rule'' [r]) (cut_at_blank r)) (\<lambda>(chain, specification).
     and_then (chain_name_new chain) (\<lambda>chain.
     and_then (ok_or (CollectionError ''a rule was appended to the chain {:?}, which the dump never declared'' [chain_str chain]) (btree_get chain cs)) (\<lambda>target.
     map_ok (\<lambda>specification. btree_insert chain (target\<lparr>chain_rules := chain_rules target @ [specification]\<rparr>) cs)
       (rule_specification_new (trim specification)))))"

text \<open>The tables that are finished, and the one that is open.\<close>

record dump_state =
  dumped :: "(table_name \<times> chains) list"
  opened :: "(table_name \<times> chains) option"

definition finished :: "dump_state \<Rightarrow> (table_name \<times> chains) list" where
  "finished s = dumped s @ option_list (opened s)"

definition dump_line :: "dump_state \<Rightarrow> str \<Rightarrow> dump_state collected" where
  "dump_line s l =
     (let l = trim l
      in if l = [] \<or> starts_with ''#'' l \<or> l = ''COMMIT'' then Inr s
         else case strip_prefix ''*'' l of
           Some n \<Rightarrow> map_ok (\<lambda>n. \<lparr>dumped = finished s, opened = Some (n, [])\<rparr>) (table_name_new (trim n))
         | None \<Rightarrow>
             and_then (ok_or (CollectionError ''{line:?} came before any table was opened, so the dump was misread'' [l]) (opened s)) (\<lambda>(t, cs).
             case strip_prefix '':'' l of
               Some declaration \<Rightarrow> map_ok (\<lambda>(n, policy). s\<lparr>opened := Some (t, btree_insert n \<lparr>chain_policy = policy, chain_rules = []\<rparr> cs)\<rparr>)
                 (parse_chain declaration)
             | None \<Rightarrow> (case strip_prefix ''-A '' l of
                   Some r \<Rightarrow> map_ok (\<lambda>cs. s\<lparr>opened := Some (t, cs)\<rparr>) (append_rule cs r)
                 | None \<Rightarrow> Inl (CollectionError ''{line:?} is not a line `iptables-save` writes'' [l]))))"

fun dump_lines :: "str list \<Rightarrow> dump_state \<Rightarrow> dump_state collected" where
  "dump_lines [] s = Inr s"
| "dump_lines (l # ls) s = and_then (dump_line s l) (dump_lines ls)"

definition iptables_parse :: "str \<Rightarrow> ruleset collected" where
  "iptables_parse dump = and_then (dump_lines (lines dump) \<lparr>dumped = [], opened = None\<rparr>) (\<lambda>s. ruleset_new (finished s))"

section \<open>The backends\<close>

datatype firewall_backend = Ip6tablesLegacy | Ip6tablesNft | IptablesLegacy | IptablesNft

definition all_backends :: "firewall_backend list" where
  "all_backends = [Ip6tablesLegacy, Ip6tablesNft, IptablesLegacy, IptablesNft]"

definition nf_tables :: kernel_subsystem where
  "nf_tables = \<lparr>subsystem_module = ''nf_tables'', subsystem_symbol = ''CONFIG_NF_TABLES''\<rparr>"

definition ip_tables :: kernel_subsystem where
  "ip_tables = \<lparr>subsystem_module = ''ip_tables'', subsystem_symbol = ''CONFIG_IP_NF_IPTABLES''\<rparr>"

definition ip6_tables :: kernel_subsystem where
  "ip6_tables = \<lparr>subsystem_module = ''ip6_tables'', subsystem_symbol = ''CONFIG_IP6_NF_IPTABLES''\<rparr>"

fun backend_program :: "firewall_backend \<Rightarrow> str" where
  "backend_program Ip6tablesLegacy = ''ip6tables-legacy-save''"
| "backend_program Ip6tablesNft = ''ip6tables-nft-save''"
| "backend_program IptablesLegacy = ''iptables-legacy-save''"
| "backend_program IptablesNft = ''iptables-nft-save''"

fun backend_subsystem :: "firewall_backend \<Rightarrow> kernel_subsystem" where
  "backend_subsystem Ip6tablesLegacy = ip6_tables"
| "backend_subsystem Ip6tablesNft = nf_tables"
| "backend_subsystem IptablesLegacy = ip_tables"
| "backend_subsystem IptablesNft = nf_tables"

fun backend_str :: "firewall_backend \<Rightarrow> str" where
  "backend_str Ip6tablesLegacy = ''ip6tables_legacy''"
| "backend_str Ip6tablesNft = ''ip6tables_nft''"
| "backend_str IptablesLegacy = ''iptables_legacy''"
| "backend_str IptablesNft = ''iptables_nft''"

datatype backend_report = RulesRead ruleset | SubsystemAbsent | RulesUnreadable collection_error

text \<open>\<open>display\<close> is how an error is written out.\<close>

definition backend_report_observed :: "(collection_error \<Rightarrow> str) \<Rightarrow> backend_report \<Rightarrow> observation" where
  "backend_report_observed display r =
     (let (status, reason, tables) = (case r of
          RulesRead held \<Rightarrow> (''ok'', null, ruleset_observed held)
        | SubsystemAbsent \<Rightarrow> (''absent'', null, ruleset_observed [])
        | RulesUnreadable e \<Rightarrow> (''error'', text_of (display e), null))
      in incomplete_when (object [(''reason'', reason), (''status'', text_of status), (''tables'', tables)])
           (case r of RulesUnreadable e \<Rightarrow> True | _ \<Rightarrow> False))"

text \<open>A source: the backend, whether its subsystem is resident, and what running its tool with no arguments gives, where there is one.\<close>

record firewall_source =
  source_backend :: firewall_backend
  source_residency :: residency
  source_tool :: "(unit \<Rightarrow> str collected) option"

definition sources_detected :: "kernel_residency \<Rightarrow> (str \<Rightarrow> (unit \<Rightarrow> str collected) option) \<Rightarrow> firewall_source list" where
  "sources_detected residency located = map (\<lambda>b. \<lparr>source_backend = b, source_residency = residency_of residency (backend_subsystem b),
      source_tool = (if is_resident residency (backend_subsystem b) then located (backend_program b) else None)\<rparr>) all_backends"

definition source_dump :: "firewall_source \<Rightarrow> backend_report" where
  "source_dump s = (case source_tool s of
      None \<Rightarrow> RulesUnreadable (CollectionError
        ''the {} subsystem is loaded but {} is not installed, so any rules it holds cannot be read''
        [subsystem_module (backend_subsystem (source_backend s)), backend_program (source_backend s)])
    | Some run \<Rightarrow> (case and_then (run ()) iptables_parse of Inr held \<Rightarrow> RulesRead held | Inl e \<Rightarrow> RulesUnreadable e))"

definition source_read :: "firewall_source \<Rightarrow> backend_report" where
  "source_read s = (case source_residency s of
      NotResident \<Rightarrow> SubsystemAbsent
    | ResidencyUnknown \<Rightarrow> RulesUnreadable (CollectionError
        ''the kernel configuration could not be read, so whether the {} subsystem is present cannot be told, and asking it would load it''
        [subsystem_module (backend_subsystem (source_backend s))])
    | Loaded \<Rightarrow> source_dump s
    | BuiltIn \<Rightarrow> source_dump s)"

section \<open>The inventory\<close>

definition backend_place :: "firewall_backend \<Rightarrow> nat" where
  "backend_place b = length (takeWhile ((\<noteq>) b) all_backends)"

instantiation firewall_backend :: linorder
begin

definition less_eq_firewall_backend :: "firewall_backend \<Rightarrow> firewall_backend \<Rightarrow> bool" where
  "less_eq_firewall_backend a b \<longleftrightarrow> backend_place a \<le> backend_place b"

definition less_firewall_backend :: "firewall_backend \<Rightarrow> firewall_backend \<Rightarrow> bool" where
  "less_firewall_backend a b \<longleftrightarrow> backend_place a < backend_place b"

instance
proof
  fix a b :: firewall_backend
  show "a \<le> b \<Longrightarrow> b \<le> a \<Longrightarrow> a = b"
    by (cases a; cases b) (simp_all add: less_eq_firewall_backend_def backend_place_def all_backends_def)
qed (auto simp: less_eq_firewall_backend_def less_firewall_backend_def)

end

type_synonym firewall_inventory = "(firewall_backend, backend_report) btree"

definition unprobed :: "firewall_backend \<Rightarrow> backend_report" where
  "unprobed b = RulesUnreadable (CollectionError ''rastro did not probe {}'' [backend_str b])"

fun inventory_filled :: "(firewall_backend \<times> backend_report) list \<Rightarrow> firewall_backend list \<Rightarrow> firewall_inventory \<Rightarrow> firewall_inventory collected" where
  "inventory_filled [] reported inventory = Inr inventory"
| "inventory_filled ((b, r) # found) reported inventory =
     (if b \<in> set reported then Inl (CollectionError ''the {} ruleset was reported twice'' [backend_str b])
      else inventory_filled found (reported @ [b]) (btree_insert b r inventory))"

definition firewall_inventory_new :: "(firewall_backend \<times> backend_report) list \<Rightarrow> firewall_inventory collected" where
  "firewall_inventory_new found = inventory_filled found [] (btree_collect (map (\<lambda>b. (b, unprobed b)) all_backends))"

definition firewall_inventory_observed :: "(collection_error \<Rightarrow> str) \<Rightarrow> firewall_inventory \<Rightarrow> observation" where
  "firewall_inventory_observed display i = object (map (\<lambda>(b, r). (backend_str b, backend_report_observed display r)) i)"

definition firewall_presence :: presence where
  "firewall_presence = Present"

definition firewall_collect :: "(collection_error \<Rightarrow> str) \<Rightarrow> firewall_source list \<Rightarrow> observation collected" where
  "firewall_collect display ss =
     map_ok (firewall_inventory_observed display) (firewall_inventory_new (map (\<lambda>s. (source_backend s, source_read s)) ss))"

section \<open>A dump is read back\<close>



























text \<open>A backend whose subsystem is not resident is answered without its tool, whatever the tool would say.\<close>

lemma absent_backends_unasked:
  assumes "s \<in> set (sources_detected residency located)" "\<not> is_resident residency (backend_subsystem (source_backend s))"
  shows "source_tool s = None" "source_read (s\<lparr>source_tool := run\<rparr>) = source_read s"
proof -
  have s: "source_residency s = residency_of residency (backend_subsystem (source_backend s))"
    "source_tool s = (if is_resident residency (backend_subsystem (source_backend s)) then located (backend_program (source_backend s)) else None)"
    using assms(1) by (auto simp: sources_detected_def)
  with assms(2) show "source_tool s = None" by simp
  from s(1) assms(2) show "source_read (s\<lparr>source_tool := run\<rparr>) = source_read s"
    by (cases "source_residency s") (simp_all add: source_read_def is_resident_def)
qed

end
