(* ===== verification/SshAccess.thy ===== *)
theory SshAccess
  imports TextBlanks Values BTree SetOrder Lossy Paths Claims
begin

text \<open>
  Who may log in over ssh (\<open>collectors/ssh_access\<close>): the settings \<open>sshd -T\<close> dumps, the keys of an authorised keys file, and the
  files the server searches for each account.  A line of options, a key and a comment is read back as it was written, as long as
  no quoted option escapes a quote.
\<close>

section \<open>Values\<close>

datatype key_type = KeyType non_empty_text
datatype public_key = PublicKey non_empty_text
datatype key_option = KeyOption (option_text: non_empty_text)
datatype key_comment = KeyComment str

definition type_prefixes :: "str list" where
  "type_prefixes = [''ssh-'', ''ecdsa-'', ''sk-ssh-'', ''sk-ecdsa-'', ''rsa-sha2-'']"

definition looks_like_key_type :: "str \<Rightarrow> bool" where
  "looks_like_key_type field \<longleftrightarrow> list_ex (\<lambda>p. starts_with p field) type_prefixes"

definition key_type_new :: "str \<Rightarrow> key_type collected" where
  "key_type_new v = map_ok KeyType (non_empty_text_new v ''key type'')"

definition public_key_new :: "str \<Rightarrow> public_key collected" where
  "public_key_new v = map_ok PublicKey (non_empty_text_new v ''public key'')"

definition key_option_new :: "str \<Rightarrow> key_option collected" where
  "key_option_new v = map_ok KeyOption (non_empty_text_new v ''key option'')"

fun key_type_observed :: "key_type \<Rightarrow> observation" where
  "key_type_observed (KeyType t) = text_of (text_str t)"

fun public_key_observed :: "public_key \<Rightarrow> observation" where
  "public_key_observed (PublicKey t) = text_of (text_str t)"

definition key_option_observed :: "key_option \<Rightarrow> observation" where
  "key_option_observed k = text_of (text_str (option_text k))"

fun key_comment_observed :: "key_comment \<Rightarrow> observation" where
  "key_comment_observed (KeyComment c) = text_of c"

record authorized_key =
  key_type_of :: key_type
  key_material :: public_key
  key_comment_of :: key_comment
  key_options :: "key_option list"

definition authorized_key_observed :: "hashes \<Rightarrow> authorized_key \<Rightarrow> observation" where
  "authorized_key_observed H k = object
     [(''comment'', key_comment_observed (key_comment_of k)),
      (''key'', public_key_observed (key_material k)),
      (''key_type'', key_type_observed (key_type_of k)),
      (''options'', set_of H (map key_option_observed (key_options k))),
      (''restricted'', boolean (key_options k \<noteq> []))]"

section \<open>The keys of a file\<close>

definition quotation :: char where
  "quotation = CHR 0x22"

fun options_end :: "str list \<Rightarrow> bool \<Rightarrow> str \<Rightarrow> (str \<times> str) option" where
  "options_end [] inside before = None"
| "options_end (ch # chs) inside before =
     (if ch = [quotation] then options_end chs (\<not> inside) (before @ ch)
      else if is_whitespace ch \<and> \<not> inside then Some (before, trim_start (concat (ch # chs)))
      else options_end chs inside (before @ ch))"

definition options_field :: "str \<Rightarrow> (str \<times> str) option" where
  "options_field l = (case split_whitespace l of
      [] \<Rightarrow> None
    | first # others \<Rightarrow>
        if looks_like_key_type first then None
        else Some (case options_end (chars_of l) False [] of Some found \<Rightarrow> found | None \<Rightarrow> (l, [])))"

definition push_option :: "key_option list \<Rightarrow> str \<Rightarrow> key_option list collected" where
  "push_option options opt =
     (if trim opt = [] then Inr options else map_ok (\<lambda>opt. options @ [opt]) (key_option_new (trim opt)))"

fun options_split :: "str list \<Rightarrow> bool \<Rightarrow> str \<Rightarrow> key_option list \<Rightarrow> key_option list collected" where
  "options_split [] inside current options = push_option options current"
| "options_split (ch # chs) inside current options =
     (if ch = [quotation] then options_split chs (\<not> inside) (current @ ch) options
      else if ch = '','' \<and> \<not> inside then and_then (push_option options current) (options_split chs inside [])
      else options_split chs inside (current @ ch) options)"

definition key_split_options :: "str \<Rightarrow> key_option list collected" where
  "key_split_options field = options_split (chars_of field) False [] []"

definition quoted_length :: nat where
  "quoted_length = 40"

definition key_elided :: "str \<Rightarrow> str" where
  "key_elided l = (let head = take quoted_length (chars_of l)
     in if length head < length (chars_of l) then concat head @ ''...'' else concat head)"

definition key_line :: "str \<Rightarrow> authorized_key collected" where
  "key_line l =
     and_then (case options_field l of
         Some (field, rest) \<Rightarrow> map_ok (\<lambda>options. (options, rest)) (key_split_options field)
       | None \<Rightarrow> Inr ([], l)) (\<lambda>(options, rest).
     and_then (ok_or (CollectionError ''an authorized_keys line needs a type and a key: {}'' [key_elided l]) (cut_at_blank rest)) (\<lambda>(kind, rest).
     let (material, remark) = (case cut_at_blank (trim_start rest) of Some (k, c) \<Rightarrow> (k, trim c) | None \<Rightarrow> (trim rest, []))
     in and_then (key_type_new kind) (\<lambda>kind.
        map_ok (\<lambda>material. \<lparr>key_type_of = kind, key_material = material, key_comment_of = KeyComment remark,
            key_options = sort_by (\<lambda>a b. cmp_of (text_str (option_text a)) (text_str (option_text b))) options\<rparr>)
          (public_key_new material))))"

definition keys_parse :: "str \<Rightarrow> authorized_key list collected" where
  "keys_parse contents = collect_results (map key_line (filter (\<lambda>l. l \<noteq> [] \<and> \<not> starts_with ''#'' l) (map trim (lines contents))))"

section \<open>The server's settings\<close>

record ssh_server =
  permit_root_login :: setting_value
  password_authentication :: setting_value
  public_key_authentication :: setting_value
  authorized_keys_files :: "str list"
  authorized_keys_command :: setting_value

fun ssh_setting_observed :: "setting_value \<Rightarrow> observation" where
  "ssh_setting_observed (SettingValue t) = text_of (text_str t)"

definition ssh_server_observed :: "ssh_server \<Rightarrow> observation" where
  "ssh_server_observed s = object
     [(''authorized_keys_command'', ssh_setting_observed (authorized_keys_command s)),
      (''authorized_keys_files'', sequence (map text_of (authorized_keys_files s))),
      (''password_authentication'', ssh_setting_observed (password_authentication s)),
      (''permit_root_login'', ssh_setting_observed (permit_root_login s)),
      (''public_key_authentication'', ssh_setting_observed (public_key_authentication s))]"

definition sshd_settings :: "str \<Rightarrow> (str, str) btree" where
  "sshd_settings dump = btree_collect (map (\<lambda>(n, v). (trim n, trim v)) (List.map_filter (\<lambda>l. cut_at_blank (trim l)) (lines dump)))"

definition sshd_field :: "(str, str) btree \<Rightarrow> str \<Rightarrow> str collected" where
  "sshd_field held n = ok_or (CollectionError ''`sshd -T` reported no {name:?} setting'' [n]) (btree_get n held)"

definition sshd_setting :: "(str, str) btree \<Rightarrow> str \<Rightarrow> setting_value collected" where
  "sshd_setting held n = and_then (sshd_field held n) (\<lambda>v. setting_value_new v ''sshd setting'')"

definition sshd_parse :: "str \<Rightarrow> ssh_server collected" where
  "sshd_parse dump =
     (let held = sshd_settings dump
      in and_then (sshd_setting held ''permitrootlogin'') (\<lambda>root.
         and_then (sshd_setting held ''passwordauthentication'') (\<lambda>password.
         and_then (sshd_setting held ''pubkeyauthentication'') (\<lambda>keys.
         and_then (sshd_field held ''authorizedkeysfile'') (\<lambda>files.
         map_ok (\<lambda>command. \<lparr>permit_root_login = root, password_authentication = password, public_key_authentication = keys,
             authorized_keys_files = split_whitespace files, authorized_keys_command = command\<rparr>)
           (sshd_setting held ''authorizedkeyscommand''))))))"

section \<open>The files of each account\<close>

datatype key_answer = KeysHeld str | KeysMissing | KeysUnreadable str

record ssh_host =
  sshd_dump :: "str collected"
  passwd_text :: "str + str"
  keys_at :: "str \<Rightarrow> key_answer"

text \<open>\<open>str::replace\<close>.\<close>

definition replaced :: "str \<Rightarrow> str \<Rightarrow> str \<Rightarrow> str" where
  "replaced pattern by s = joined_with by (split_text pattern s)"

definition keys_path :: "str \<Rightarrow> str \<Rightarrow> str \<Rightarrow> str" where
  "keys_path pattern account home = text_joined home (replaced ''%%'' ''%'' (replaced ''%u'' account (replaced ''%h'' home pattern)))"

definition keys_read_optional :: "ssh_host \<Rightarrow> str \<Rightarrow> str option collected" where
  "keys_read_optional h p = (case keys_at h p of
      KeysHeld contents \<Rightarrow> Inr (Some contents)
    | KeysMissing \<Rightarrow> Inr None
    | KeysUnreadable e \<Rightarrow> Inl (CollectionError ''could not read {}: {error}'' [p, e]))"

definition homes_line :: "str \<Rightarrow> str \<Rightarrow> (str \<times> str) option collected" where
  "homes_line passwd l =
     (let l = trim l
      in if l = [] \<or> starts_with ''#'' l then Inr None
         else case split_on (CHR '':'') l of
           [account, password, user, grp, comment, home, shell] \<Rightarrow> Inr (if account = [] \<or> home = [] then None else Some (account, home))
         | columns \<Rightarrow> Inl (CollectionError ''expected {PASSWD_COLUMNS} colon-separated columns in {}, got {}'' [passwd, show_nat (length columns)]))"

definition homes_read :: "ssh_host \<Rightarrow> str \<Rightarrow> (str, str) btree collected" where
  "homes_read h passwd =
     and_then (map_err (\<lambda>e. CollectionError ''could not read {}: {error}'' [passwd, e]) (passwd_text h)) (\<lambda>contents.
     map_ok (\<lambda>homes. btree_collect (List.map_filter id homes)) (collect_results (map (homes_line passwd) (lines contents))))"

text \<open>Each pattern in turn: whether any file was found, and the keys so far.\<close>

fun account_keys :: "ssh_host \<Rightarrow> str \<Rightarrow> str \<Rightarrow> str list \<Rightarrow> bool \<times> authorized_key list \<Rightarrow> (bool \<times> authorized_key list) collected" where
  "account_keys h account home [] acc = Inr acc"
| "account_keys h account home (pattern # patterns) (found, keys) =
     (let path = keys_path pattern account home
      in and_then (keys_read_optional h path) (\<lambda>contents. case contents of
           None \<Rightarrow> account_keys h account home patterns (found, keys)
         | Some contents \<Rightarrow>
             and_then (map_err (\<lambda>e. CollectionError (''in {}: '' @ template e) (path # arguments e)) (keys_parse contents)) (\<lambda>more.
               account_keys h account home patterns (True, keys @ more))))"

definition ssh_read_accounts :: "ssh_host \<Rightarrow> str \<Rightarrow> ssh_server \<Rightarrow> (str \<times> authorized_key list) list collected" where
  "ssh_read_accounts h passwd server =
     and_then (homes_read h passwd) (\<lambda>homes.
     map_ok (List.map_filter id) (collect_results (map (\<lambda>(account, home).
        map_ok (\<lambda>(found, keys). if found then Some (account, keys) else None)
          (account_keys h account home (authorized_keys_files server) (False, []))) homes)))"

record ssh_access =
  ssh_server_of :: ssh_server
  ssh_accounts :: "(str, authorized_key list) btree"

definition ssh_access_new :: "ssh_server \<Rightarrow> (str \<times> authorized_key list) list \<Rightarrow> ssh_access" where
  "ssh_access_new server accounts = \<lparr>ssh_server_of = server, ssh_accounts = foldl (\<lambda>filed (account, keys).
     btree_insert account ((case btree_get account filed of Some held \<Rightarrow> held | None \<Rightarrow> []) @ keys) filed) [] accounts\<rparr>"

definition ssh_access_observed :: "hashes \<Rightarrow> ssh_access \<Rightarrow> observation" where
  "ssh_access_observed H a = object
     [(''accounts'', object (map (\<lambda>(account, keys). (account, sequence (map (authorized_key_observed H) keys))) (ssh_accounts a))),
      (''server'', ssh_server_observed (ssh_server_of a))]"

definition ssh_read :: "ssh_host \<Rightarrow> str \<Rightarrow> ssh_access collected" where
  "ssh_read h passwd =
     and_then (and_then (sshd_dump h) sshd_parse) (\<lambda>server.
     map_ok (ssh_access_new server) (ssh_read_accounts h passwd server))"

definition ssh_presence :: "ssh_host option \<Rightarrow> presence" where
  "ssh_presence h = (case h of Some h \<Rightarrow> Present | None \<Rightarrow> Absent)"

definition ssh_collect :: "hashes \<Rightarrow> ssh_host option \<Rightarrow> observation collected" where
  "ssh_collect H h = (case h of
      None \<Rightarrow> Inl (CollectionError ''no ssh server was found, so there is no ssh access to read'' [])
    | Some h \<Rightarrow> map_ok (ssh_access_observed H) (ssh_read h ''/etc/passwd''))"

section \<open>A line of keys is read back\<close>

text \<open>An option with its quotes closed, and no comma or blank outside them.\<close>

fun closed_option :: "str list \<Rightarrow> bool \<Rightarrow> bool" where
  "closed_option [] inside \<longleftrightarrow> \<not> inside"
| "closed_option (ch # chs) inside \<longleftrightarrow>
     (if ch = [quotation] then closed_option chs (\<not> inside)
      else if \<not> inside \<and> (is_whitespace ch \<or> ch = '','') then False else closed_option chs inside)"

definition key_option_ok :: "str \<Rightarrow> bool" where
  "key_option_ok s \<longleftrightarrow> s \<noteq> [] \<and> trimmed s \<and> closed_option (chars_of s) False"

record written_key =
  key_written_options :: "str list"
  key_written_type :: str
  key_written_material :: str
  key_written_comment :: str

definition key_written :: "written_key \<Rightarrow> str" where
  "key_written k = (if key_written_options k = [] then [] else joined_with '','' (key_written_options k) @ '' '') @
     key_written_type k @ '' '' @ key_written_material k @ (if key_written_comment k = [] then [] else '' '' @ key_written_comment k)"

definition key_meant :: "written_key \<Rightarrow> authorized_key" where
  "key_meant k = \<lparr>key_type_of = KeyType (NonEmptyText (key_written_type k)), key_material = PublicKey (NonEmptyText (key_written_material k)),
     key_comment_of = KeyComment (key_written_comment k),
     key_options = sort_by (\<lambda>a b. cmp_of (text_str (option_text a)) (text_str (option_text b)))
       (map (\<lambda>s. KeyOption (NonEmptyText s)) (key_written_options k))\<rparr>"

definition written_key_ok :: "written_key \<Rightarrow> bool" where
  "written_key_ok k \<longleftrightarrow> list_all key_option_ok (key_written_options k) \<and> word (key_written_type k) \<and> word (key_written_material k) \<and>
     trimmed (key_written_comment k) \<and> looks_like_key_type (key_written_type k) \<and>
     (key_written_options k = [] \<or> \<not> looks_like_key_type (key_written k))"

lemma options_end_closed:
  "closed_option chs inside \<Longrightarrow> options_end (chs @ beyond) inside before = options_end beyond False (before @ concat chs)"
  by (induction chs arbitrary: inside before) (auto split: if_splits)

lemma options_split_closed:
  "closed_option chs inside \<Longrightarrow> options_split (chs @ beyond) inside current options = options_split beyond False (current @ concat chs) options"
  by (induction chs arbitrary: inside current) (auto split: if_splits)

lemma option_chars: "key_option_ok s \<Longrightarrow> closed_option (chars_of s) False \<and> concat (chars_of s) = s \<and> valid_utf8 s"
  by (simp add: key_option_ok_def trimmed_def)

lemma separators: "between 0 127 (CHR '','')" "between 0 127 (CHR '' '')" "\<not> is_whitespace '',''" "is_whitespace '' ''" "'','' \<noteq> [quotation]" "'' '' \<noteq> [quotation]"
  by code_simp+

lemma joined_options_end:
  "os \<noteq> [] \<Longrightarrow> list_all key_option_ok os \<Longrightarrow>
    options_end (chars_of (joined_with '','' os @ CHR '' '' # beyond)) False before = Some (before @ joined_with '','' os, trim_start (CHR '' '' # beyond))"
proof (induction os arbitrary: before rule: induct_list012)
  case (2 s)
  then have "closed_option (chars_of s) False" "concat (chars_of s) = s" "valid_utf8 s" using option_chars by auto
  moreover have "concat (chars_of (CHR '' '' # beyond)) = CHR '' '' # beyond" by simp
  ultimately show ?case
    using separators by (simp add: chars_of_append chars_of_ascii_Cons options_end_closed)
next
  case (3 s t os)
  then have s: "closed_option (chars_of s) False" "concat (chars_of s) = s" "valid_utf8 s" using option_chars by auto
  with 3 show ?case
    using separators by (simp add: chars_of_append chars_of_ascii_Cons options_end_closed)
qed simp

lemma push_option_ok: "key_option_ok s \<Longrightarrow> push_option options s = Inr (options @ [KeyOption (NonEmptyText s)])"
  by (simp add: push_option_def key_option_ok_def trim_trimmed key_option_new_def non_empty_text_new_def)

lemma joined_options_split:
  "os \<noteq> [] \<Longrightarrow> list_all key_option_ok os \<Longrightarrow>
    options_split (chars_of (joined_with '','' os)) False [] options = Inr (options @ map (\<lambda>s. KeyOption (NonEmptyText s)) os)"
proof (induction os arbitrary: options rule: induct_list012)
  case (2 s)
  then have "closed_option (chars_of s) False" "concat (chars_of s) = s" using option_chars by auto
  then show ?case using 2 options_split_closed[of "chars_of s" False "[]" "[]" options] by (simp add: push_option_ok)
next
  case (3 s t os)
  then have s: "closed_option (chars_of s) False" "concat (chars_of s) = s" "valid_utf8 s" using option_chars by auto
  with 3 show ?case
    using separators by (simp add: chars_of_append chars_of_ascii_Cons options_split_closed push_option_ok)
qed simp

lemma runs_first: "hd (runs sep xs) = takeWhile (\<lambda>x. \<not> sep x) xs \<and> runs sep xs \<noteq> []"
  by (induction xs) (auto split: list.split)

text \<open>The first word of a line is where the line begins.\<close>

lemma first_word_begins:
  assumes "inked l"
  obtains first others rest where "split_whitespace l = first # others" "l = first @ rest"
proof -
  obtain ch chs where chars: "chars_of l = ch # chs" "\<not> is_whitespace ch" using assms by (cases "chars_of l") (cases l; auto simp: inked_def chars_of.simps)+
  let ?first = "takeWhile (\<lambda>ch. \<not> is_whitespace ch) (chars_of l)"
  obtain rs where runs: "runs is_whitespace (chars_of l) = ?first # rs"
    using runs_first[of is_whitespace "chars_of l"] by (cases "runs is_whitespace (chars_of l)") auto
  have "?first \<noteq> []" using chars by simp
  then have "split_whitespace l = concat ?first # map concat (filter (\<lambda>r. r \<noteq> []) rs)" by (simp add: split_whitespace_def runs)
  moreover have "l = concat ?first @ concat (dropWhile (\<lambda>ch. \<not> is_whitespace ch) (chars_of l))"
    by (simp flip: concat_append)
  ultimately show thesis by (rule that)
qed

lemma starts_with_append: "starts_with p s \<Longrightarrow> starts_with p (s @ t)"
  unfolding starts_with_def by (metis append_take_drop_id append.assoc append_eq_conv_conj)

lemma joined_options_valid: "list_all key_option_ok os \<Longrightarrow> valid_utf8 (joined_with '','' os)"
proof (induction os rule: induct_list012)
  case (3 s t os)
  moreover have "valid_utf8 '',''" by code_simp
  ultimately show ?case using option_chars[of s] by (simp add: valid_utf8_append valid_utf8_ascii_Cons separators)
qed (auto simp: option_chars)

lemma key_read_back:
  assumes "written_key_ok k"
  shows "key_line (key_written k) = Inr (key_meant k)"
proof -
  let ?os = "key_written_options k" and ?t = "key_written_type k" and ?m = "key_written_material k" and ?c = "key_written_comment k"
  define tail where "tail = ?m @ (if ?c = [] then [] else '' '' @ ?c)"
  have ok: "list_all key_option_ok ?os" "word ?t" "word ?m" "trimmed ?c" using assms by (simp_all add: written_key_ok_def)
  have blank: "ascii_space (CHR '' '')" by (rule ascii_space_blank)
  have valid_tail: "valid_utf8 (if ?c = [] then [] else '' '' @ ?c)" using ok(4) separators by (simp add: trimmed_def valid_utf8_ascii_Cons)
  then have inked_tail: "inked tail" unfolding tail_def using ok(3) by (intro word_inked)
  have rest: "inked (?t @ '' '' @ tail)"
    using ok(2) inked_tail separators by (intro word_inked) (simp_all add: inked_def valid_utf8_ascii_Cons)
  have parts: "key_written k = (if ?os = [] then [] else joined_with '','' ?os @ '' '') @ ?t @ '' '' @ tail"
    by (simp add: key_written_def tail_def)
  have "(case options_field (key_written k) of Some (field, rest) \<Rightarrow> map_ok (\<lambda>options. (options, rest)) (key_split_options field) | None \<Rightarrow> Inr ([], key_written k)) =
      Inr (map (\<lambda>s. KeyOption (NonEmptyText s)) ?os, ?t @ '' '' @ tail)"
  proof (cases "?os = []")
    case True
    have "split_whitespace (?t @ CHR '' '' # tail) = ?t # split_whitespace (CHR '' '' # tail)"
      using ok(2) blank by (intro split_whitespace_word) simp_all
    then show ?thesis using True assms by (simp add: parts options_field_def written_key_ok_def)
  next
    case False
    have "\<exists>c os. joined_with '','' ?os = c @ os \<and> key_option_ok c" using False ok(1) by (cases ?os; cases "tl ?os") auto
    then obtain c os where first: "joined_with '','' ?os = c @ os" "key_option_ok c" by blast
    have "valid_utf8 (joined_with '','' ?os)" by (rule joined_options_valid[OF ok(1)])
    then have "valid_utf8 (key_written k)" using rest False by (simp add: parts valid_utf8_append inked_def valid_utf8_ascii_Cons separators)
    moreover have "chars_of (key_written k) = chars_of c @ chars_of (os @ '' '' @ ?t @ '' '' @ tail)"
      using first False option_chars[OF first(2)] by (simp add: parts chars_of_append)
    moreover have "chars_of c \<noteq> []" "\<not> is_whitespace (hd (chars_of c))" "key_written k \<noteq> []"
      using first False by (auto simp: parts key_option_ok_def trimmed_def)
    ultimately have "inked (key_written k)" by (simp add: inked_def)
    then obtain w ws after where w: "split_whitespace (key_written k) = w # ws" "key_written k = w @ after" by (rule first_word_begins)
    have "\<not> looks_like_key_type (key_written k)" using assms False by (simp add: written_key_ok_def)
    then have "\<not> looks_like_key_type w"
      unfolding w(2) looks_like_key_type_def list_ex_iff using starts_with_append by blast
    moreover have "options_end (chars_of (key_written k)) False [] = Some (joined_with '','' ?os, ?t @ '' '' @ tail)"
      using joined_options_end[OF False ok(1), of "?t @ '' '' @ tail" "[]"] trim_start_past[of "'' ''" "?t @ '' '' @ tail"] rest blank False
      by (simp add: parts)
    ultimately have "options_field (key_written k) = Some (joined_with '','' ?os, ?t @ '' '' @ tail)"
      using w(1) by (simp add: options_field_def)
    moreover have "key_split_options (joined_with '','' ?os) = Inr (map (\<lambda>s. KeyOption (NonEmptyText s)) ?os)"
      using joined_options_split[OF False ok(1), of "[]"] by (simp add: key_split_options_def)
    ultimately show ?thesis by simp
  qed
  moreover have "cut_at_blank (?t @ CHR '' '' # tail) = Some (?t, tail)" by (rule cut_at_blank_word[OF ok(2) blank])
  moreover have "trim_start tail = tail" using trim_start_past[of "[]" tail] inked_tail by simp
  moreover have "(case cut_at_blank tail of Some (k, c) \<Rightarrow> (k, trim c) | None \<Rightarrow> (trim tail, [])) = (?m, ?c)"
  proof (cases "?c = []")
    case True
    then have "tail = ?m" by (simp add: tail_def)
    moreover have "dropWhile (\<lambda>ch. \<not> is_whitespace ch) (chars_of ?m) = []" using ok(3) by (simp add: word_def)
    then have "cut_at_blank ?m = None" by (simp only: cut_at_blank_def list.case)
    ultimately show ?thesis using True ok(3) by (simp add: trim_trimmed word_trimmed)
  next
    case False
    then show ?thesis using cut_at_blank_word[OF ok(3) blank, of ?c] ok(4) by (simp add: tail_def trim_trimmed)
  qed
  moreover have "?t \<noteq> []" "?m \<noteq> []" using ok(2,3) by (simp_all add: word_def)
  ultimately show ?thesis
    by (simp add: key_line_def key_meant_def key_type_new_def public_key_new_def non_empty_text_new_def Let_def)
qed

text \<open>An escaped quote closes the quotes, so a command that holds one is cut at the blank after it.\<close>

definition escaped_line :: str where
  "escaped_line = ''command='' @ [quotation] @ ''echo '' @ [CHR 0x5C, quotation] @ ''a b'' @ [CHR 0x5C, quotation, quotation] @ '' ssh-rsa AAAA''"

lemma escaped_quote_misread:
  "map_ok (\<lambda>k. (key_type_of k, key_material k)) (key_line escaped_line) =
    Inr (KeyType (NonEmptyText (''b'' @ [CHR 0x5C, quotation, quotation])), PublicKey (NonEmptyText ''ssh-rsa''))"
  by code_simp

end
