(* ===== verification/Packages.thy ===== *)
theory Packages
  imports TextBlanks Values KeyedTables Observation Claims
begin

text \<open>
  The packages installed on the host (\<open>collectors/packages\<close>): what \<open>dpkg-query\<close> prints and what the apk database holds, a set
  of packages for each manager, and the inventory with every manager in it.  What dpkg prints and what apk stores is read back
  package for package, and a stanza that names two packages is refused.
\<close>

section \<open>Values\<close>

datatype package_name = PackageName (package_text: non_empty_text)
datatype package_version = PackageVersion (version_text: non_empty_text)
datatype architecture = Architecture (architecture_text: non_empty_text)
datatype selection_state = SelectionState (selection_text: non_empty_text)
datatype installation_state = InstallationState (installation_text: non_empty_text)
datatype error_flag = ErrorFlag (flag_text: non_empty_text)
datatype package_manager = Apk | Dpkg

instantiation package_name :: linorder
begin

definition less_eq_package_name :: "package_name \<Rightarrow> package_name \<Rightarrow> bool" where
  "less_eq_package_name m n \<longleftrightarrow> package_text m \<le> package_text n"

definition less_package_name :: "package_name \<Rightarrow> package_name \<Rightarrow> bool" where
  "less_package_name m n \<longleftrightarrow> package_text m < package_text n"

instance
  by standard (auto simp: less_eq_package_name_def less_package_name_def package_name.expand)

end

instantiation package_manager :: linorder
begin

definition less_eq_package_manager :: "package_manager \<Rightarrow> package_manager \<Rightarrow> bool" where
  "less_eq_package_manager m n \<longleftrightarrow> (m = Dpkg \<longrightarrow> n = Dpkg)"

definition less_package_manager :: "package_manager \<Rightarrow> package_manager \<Rightarrow> bool" where
  "less_package_manager m n \<longleftrightarrow> m = Apk \<and> n = Dpkg"

instance
proof
  fix m n k :: package_manager
  show "m < n \<longleftrightarrow> m \<le> n \<and> \<not> n \<le> m"
    by (cases m; cases n) (simp_all add: less_eq_package_manager_def less_package_manager_def)
  show "m \<le> n \<Longrightarrow> n \<le> m \<Longrightarrow> m = n"
    by (cases m; cases n) (simp_all add: less_eq_package_manager_def)
qed (auto simp: less_eq_package_manager_def)

end

definition all_managers :: "package_manager list" where
  "all_managers = [Apk, Dpkg]"

fun manager_str :: "package_manager \<Rightarrow> str" where
  "manager_str Apk = ''apk''"
| "manager_str Dpkg = ''dpkg''"

definition package_name_new :: "str \<Rightarrow> package_name collected" where
  "package_name_new v = map_ok PackageName (non_empty_text_new v ''package name'')"

definition package_version_new :: "str \<Rightarrow> package_version collected" where
  "package_version_new v = map_ok PackageVersion (non_empty_text_new v ''package version'')"

definition architecture_new :: "str \<Rightarrow> architecture collected" where
  "architecture_new v = map_ok Architecture (non_empty_text_new v ''architecture'')"

definition selection_state_new :: "str \<Rightarrow> selection_state collected" where
  "selection_state_new v = map_ok SelectionState (non_empty_text_new v ''selection state'')"

definition installation_state_new :: "str \<Rightarrow> installation_state collected" where
  "installation_state_new v = map_ok InstallationState (non_empty_text_new v ''installation state'')"

definition error_flag_new :: "str \<Rightarrow> error_flag collected" where
  "error_flag_new v = map_ok ErrorFlag (non_empty_text_new v ''error flag'')"

definition package_str :: "package_name \<Rightarrow> str" where
  "package_str n = text_str (package_text n)"

section \<open>Packages\<close>

record installation_status =
  status_selection :: selection_state
  status_state :: installation_state
  status_flag :: error_flag

definition installation_status_observed :: "installation_status \<Rightarrow> observation" where
  "installation_status_observed s = object
     [(''selection'', text_of (text_str (selection_text (status_selection s)))),
      (''state'', text_of (text_str (installation_text (status_state s)))),
      (''error_flag'', text_of (text_str (flag_text (status_flag s))))]"

record package =
  package_version :: package_version
  package_architecture :: architecture
  package_status :: "installation_status option"

definition package_observed :: "package \<Rightarrow> observation" where
  "package_observed p = object
     ([(''version'', text_of (text_str (version_text (package_version p)))),
       (''architecture'', text_of (text_str (architecture_text (package_architecture p))))] @
      (case package_status p of Some s \<Rightarrow> [(''status'', installation_status_observed s)] | None \<Rightarrow> []))"

type_synonym package_set = "(package_name, package) btree"

definition package_set_new :: "(package_name \<times> package) list \<Rightarrow> package_set collected" where
  "package_set_new ps = keyed_once
     (\<lambda>n. CollectionError ''the package {:?} was reported twice, so the output was misread'' [package_str n]) (map Inr ps) []"

definition package_set_observed :: "package_set \<Rightarrow> observation" where
  "package_set_observed s = object (map (\<lambda>(n, p). (package_str n, package_observed p)) s)"

type_synonym package_inventory = "(package_manager, package_set option) btree"

fun managers_filled :: "(package_manager \<times> package_set) list \<Rightarrow> package_inventory \<Rightarrow> package_inventory collected" where
  "managers_filled [] inventory = Inr inventory"
| "managers_filled ((m, held) # found) inventory =
     (if Option.bind (btree_get m inventory) id \<noteq> None
      then Inl (CollectionError ''the {} package manager was reported twice'' [manager_str m])
      else managers_filled found (btree_insert m (Some held) inventory))"

definition package_inventory_new :: "(package_manager \<times> package_set) list \<Rightarrow> package_inventory collected" where
  "package_inventory_new found = managers_filled found (btree_collect (map (\<lambda>m. (m, None)) all_managers))"

definition package_inventory_observed :: "package_inventory \<Rightarrow> observation" where
  "package_inventory_observed i = object (map (\<lambda>(m, held). (manager_str m, case held of Some s \<Rightarrow> package_set_observed s | None \<Rightarrow> null)) i)"

section \<open>dpkg\<close>

definition tabulator :: char where
  "tabulator = CHR 0x09"

definition dpkg_line :: "str \<Rightarrow> (package_name \<times> package) collected" where
  "dpkg_line l = (case split_on tabulator l of
      [n, version, arch, selection, state, flag] \<Rightarrow>
        and_then (package_version_new version) (\<lambda>version.
        and_then (architecture_new arch) (\<lambda>arch.
        and_then (selection_state_new selection) (\<lambda>selection.
        and_then (installation_state_new state) (\<lambda>state.
        and_then (error_flag_new flag) (\<lambda>flag.
        map_ok (\<lambda>n. (n, \<lparr>package_version = version, package_architecture = arch,
            package_status = Some \<lparr>status_selection = selection, status_state = state, status_flag = flag\<rparr>\<rparr>)) (package_name_new n))))))
    | columns \<Rightarrow> Inl (CollectionError ''expected six tab-separated fields from dpkg-query: {line:?}'' [l]))"

definition dpkg_parse :: "str \<Rightarrow> package_set collected" where
  "dpkg_parse out = and_then (collect_results (map dpkg_line (filter (\<lambda>l. trim l \<noteq> []) (lines out)))) package_set_new"

definition dpkg_arguments :: "str list" where
  "dpkg_arguments = [''-W'', ''-f=${binary:Package}'' @ [tabulator] @ ''${Version}'' @ [tabulator] @ ''${Architecture}'' @ [tabulator] @
     ''${db:Status-Want}'' @ [tabulator] @ ''${db:Status-Status}'' @ [tabulator] @ ''${db:Status-Eflag}'' @ [newline]]"

definition dpkg_read :: "(str list \<Rightarrow> str collected) \<Rightarrow> package_set collected" where
  "dpkg_read run = and_then (run dpkg_arguments) dpkg_parse"

section \<open>apk\<close>

definition apk_installed :: str where
  "apk_installed = ''/lib/apk/db/installed''"

definition apk_field :: "str \<Rightarrow> str \<Rightarrow> str collected" where
  "apk_field stanza prefix = ok_or (CollectionError ''a package in the apk database has no {prefix:?} field: {stanza:?}'' [prefix, stanza])
     (find_map (strip_prefix prefix) (lines stanza))"

definition apk_stanza :: "str \<Rightarrow> (package_name \<times> package) collected" where
  "apk_stanza stanza =
     (let names = length (filter (starts_with ''P:'') (lines stanza))
      in if 1 < names
         then Inl (CollectionError ''a stanza in the apk database carries {names} {NAME:?} fields, so two ran together: {stanza:?}'' [show_nat names, ''P:'', stanza])
         else and_then (apk_field stanza ''P:'') (\<lambda>n.
           and_then (and_then (apk_field stanza ''V:'') package_version_new) (\<lambda>version.
           and_then (and_then (apk_field stanza ''A:'') architecture_new) (\<lambda>arch.
           map_ok (\<lambda>n. (n, \<lparr>package_version = version, package_architecture = arch, package_status = None\<rparr>)) (package_name_new n)))))"

definition apk_parse :: "str \<Rightarrow> package_set collected" where
  "apk_parse database =
     and_then (collect_results (map apk_stanza (filter (\<lambda>s. trim s \<noteq> []) (split_text [newline, newline] database)))) package_set_new"

definition apk_read :: "(str \<Rightarrow> str + str) \<Rightarrow> package_set collected" where
  "apk_read reads = and_then (map_err (\<lambda>e. CollectionError ''could not read {}: {error}'' [apk_installed, e]) (reads apk_installed)) apk_parse"

section \<open>The collector\<close>

datatype package_source = ApkSource "str \<Rightarrow> str + str" | DpkgSource "str list \<Rightarrow> str collected"

fun source_manager :: "package_source \<Rightarrow> package_manager" where
  "source_manager (ApkSource reads) = Apk"
| "source_manager (DpkgSource run) = Dpkg"

fun package_source_read :: "package_source \<Rightarrow> package_set collected" where
  "package_source_read (ApkSource reads) = apk_read reads"
| "package_source_read (DpkgSource run) = dpkg_read run"

definition package_sources_detected :: "(str \<Rightarrow> bool) \<Rightarrow> (str \<Rightarrow> str + str) \<Rightarrow> (str \<Rightarrow> (str list \<Rightarrow> str collected) option) \<Rightarrow> package_source list" where
  "package_sources_detected is_file reads located = List.map_filter (\<lambda>m. case m of
      Apk \<Rightarrow> (if is_file apk_installed then Some (ApkSource reads) else None)
    | Dpkg \<Rightarrow> map_option DpkgSource (located ''dpkg-query'')) all_managers"

definition packages_presence :: presence where
  "packages_presence = Present"

definition packages_collect :: "package_source list \<Rightarrow> observation collected" where
  "packages_collect ss =
     and_then (collect_results (map (\<lambda>s. map_ok (Pair (source_manager s)) (package_source_read s)) ss)) (\<lambda>found.
     map_ok package_inventory_observed (package_inventory_new found))"

fun database_of :: "package_manager \<Rightarrow> str" where
  "database_of Apk = ''/lib/apk/db''"
| "database_of Dpkg = ''/var/lib/dpkg''"

definition packages_claims :: "package_source list \<Rightarrow> filesystem_claim list" where
  "packages_claims ss = map claim_churns (List.map_filter (\<lambda>s. result_ok (walked_tree_new (database_of (source_manager s)))) ss)"

section \<open>What dpkg prints is read back\<close>

record dpkg_package =
  dpkg_name :: str
  dpkg_version :: str
  dpkg_architecture :: str
  dpkg_selection :: str
  dpkg_state :: str
  dpkg_flag :: str

definition dpkg_columns :: "dpkg_package \<Rightarrow> str list" where
  "dpkg_columns p = [dpkg_name p, dpkg_version p, dpkg_architecture p, dpkg_selection p, dpkg_state p, dpkg_flag p]"

definition dpkg_printed_line :: "dpkg_package \<Rightarrow> str" where
  "dpkg_printed_line p = joined_with [tabulator] (dpkg_columns p)"

definition dpkg_package_ok :: "dpkg_package \<Rightarrow> bool" where
  "dpkg_package_ok p \<longleftrightarrow> list_all (\<lambda>c. word c \<and> newline \<notin> set c \<and> tabulator \<notin> set c \<and> last c \<noteq> carriage_return) (dpkg_columns p)"

definition dpkg_meant :: "dpkg_package \<Rightarrow> package_name \<times> package" where
  "dpkg_meant p = (PackageName (NonEmptyText (dpkg_name p)),
     \<lparr>package_version = PackageVersion (NonEmptyText (dpkg_version p)), package_architecture = Architecture (NonEmptyText (dpkg_architecture p)),
      package_status = Some \<lparr>status_selection = SelectionState (NonEmptyText (dpkg_selection p)),
        status_state = InstallationState (NonEmptyText (dpkg_state p)), status_flag = ErrorFlag (NonEmptyText (dpkg_flag p))\<rparr>\<rparr>)"

lemma split_joined_columns: "ps \<noteq> [] \<Longrightarrow> list_all (\<lambda>p. c \<notin> set p) ps \<Longrightarrow> split_on c (joined_with [c] ps) = ps"
  by (induction ps rule: induct_list012) (simp_all add: split_on_fresh split_on_append)

lemma dpkg_line_read:
  assumes "dpkg_package_ok p"
  shows "dpkg_line (dpkg_printed_line p) = Inr (dpkg_meant p)"
proof -
  have "split_on tabulator (dpkg_printed_line p) = dpkg_columns p"
    unfolding dpkg_printed_line_def using assms by (intro split_joined_columns) (simp_all add: dpkg_columns_def dpkg_package_ok_def)
  then show ?thesis
    using assms by (simp add: dpkg_line_def dpkg_columns_def dpkg_package_ok_def word_def dpkg_meant_def non_empty_text_new_def
        package_name_new_def package_version_new_def architecture_new_def selection_state_new_def installation_state_new_def error_flag_new_def)
qed

lemma dpkg_line_shape:
  assumes "dpkg_package_ok p"
  shows "trim (dpkg_printed_line p) \<noteq> []" "newline \<notin> set (dpkg_printed_line p)" "last (dpkg_printed_line p) \<noteq> carriage_return"
proof -
  have tab: "ascii_space tabulator" "tabulator \<noteq> newline" by code_simp+
  then have ascii: "between 0 127 tabulator" by (simp add: ascii_space_def)
  have words: "list_all word (dpkg_columns p)" using assms by (auto simp: dpkg_package_ok_def list_all_iff)
  have "valid_utf8 (joined_with [tabulator] (tl (dpkg_columns p)))"
    using words ascii by (simp add: dpkg_columns_def word_def valid_utf8_append valid_utf8_ascii_Cons)
  then have "trim (dpkg_name p @ tabulator # joined_with [tabulator] (tl (dpkg_columns p))) \<noteq> []"
    using words tab(1) by (intro worded_not_blank) (simp_all add: dpkg_columns_def)
  then show "trim (dpkg_printed_line p) \<noteq> []" by (simp add: dpkg_printed_line_def dpkg_columns_def)
  show "newline \<notin> set (dpkg_printed_line p)" "last (dpkg_printed_line p) \<noteq> carriage_return"
    using assms tab(2) by (simp_all add: dpkg_printed_line_def dpkg_columns_def dpkg_package_ok_def word_def)
qed

definition dpkg_printed :: "dpkg_package list \<Rightarrow> str" where
  "dpkg_printed ps = concat (map (\<lambda>p. dpkg_printed_line p @ [newline]) ps)"

lemma dpkg_read_back:
  assumes "list_all dpkg_package_ok ps" "distinct (map dpkg_name ps)"
  shows "dpkg_parse (dpkg_printed ps) = Inr (btree_collect (map dpkg_meant ps))"
proof -
  have "lines (concat (map (\<lambda>l. l @ [newline]) (map dpkg_printed_line ps))) = map dpkg_printed_line ps"
    using assms(1) dpkg_line_shape by (intro lines_concat) (auto simp: list_all_iff)
  then have lines: "lines (dpkg_printed ps) = map dpkg_printed_line ps" by (simp add: dpkg_printed_def comp_def)
  have kept: "filter (\<lambda>l. trim l \<noteq> []) (map dpkg_printed_line ps) = map dpkg_printed_line ps"
    using assms(1) dpkg_line_shape(1) by (auto simp: list_all_iff filter_id_conv)
  have "map dpkg_line (map dpkg_printed_line ps) = map Inr (map dpkg_meant ps)"
    using assms(1) dpkg_line_read by (auto simp: list_all_iff)
  then have "collect_results (map dpkg_line (filter (\<lambda>l. trim l \<noteq> []) (lines (dpkg_printed ps)))) = Inr (map dpkg_meant ps)"
    unfolding lines kept by (simp only: collect_results_Inr_iff)
  moreover have "map fst (map dpkg_meant ps) = map (\<lambda>n. PackageName (NonEmptyText n)) (map dpkg_name ps)" by (simp add: dpkg_meant_def)
  then have "distinct (map fst (map dpkg_meant ps))" using assms(2) by (simp add: distinct_map inj_on_def del: map_map)
  ultimately show ?thesis by (simp add: dpkg_parse_def package_set_new_def keyed_once_distinct del: map_map)
qed

section \<open>What apk stores is read back\<close>

text \<open>A stanza: fields of a letter and a value, one of them each of the name, the version and the architecture.\<close>

definition stanza_lines :: "(char \<times> str) list \<Rightarrow> str list" where
  "stanza_lines fs = map (\<lambda>(c, v). c # '':'' @ v) fs"

definition stanza_printed :: "(char \<times> str) list \<Rightarrow> str" where
  "stanza_printed fs = joined_with [newline] (stanza_lines fs)"

definition stanza_ok :: "(char \<times> str) list \<Rightarrow> bool" where
  "stanza_ok fs \<longleftrightarrow> list_all (\<lambda>(c, v). c \<noteq> newline \<and> newline \<notin> set v \<and> (v = [] \<or> last v \<noteq> carriage_return)) fs \<and>
     length (filter (\<lambda>f. fst f = CHR ''P'') fs) = 1 \<and>
     (\<forall>c \<in> {CHR ''P'', CHR ''V'', CHR ''A''}. case map_of fs c of Some v \<Rightarrow> v \<noteq> [] | None \<Rightarrow> False)"

definition stanza_meant :: "(char \<times> str) list \<Rightarrow> package_name \<times> package" where
  "stanza_meant fs = (PackageName (NonEmptyText (the (map_of fs (CHR ''P'')))),
     \<lparr>package_version = PackageVersion (NonEmptyText (the (map_of fs (CHR ''V'')))),
      package_architecture = Architecture (NonEmptyText (the (map_of fs (CHR ''A'')))), package_status = None\<rparr>)"

lemma stanza_lines_found: "find_map (strip_prefix (c # '':'')) (stanza_lines fs) = map_of fs c"
  by (induction fs) (auto simp: stanza_lines_def strip_prefix_def starts_with_def)

lemma stanza_names_counted: "length (filter (starts_with ''P:'') (stanza_lines fs)) = length (filter (\<lambda>f. fst f = CHR ''P'') fs)"
  by (induction fs) (auto simp: stanza_lines_def starts_with_def)

lemma stanza_shape:
  assumes "stanza_ok fs"
  shows "lines (stanza_printed fs) = stanza_lines fs" "apart [newline, newline] (stanza_printed fs)" "trim (stanza_printed fs) \<noteq> []"
proof -
  have nonempty: "stanza_lines fs \<noteq> []" using assms by (cases fs) (auto simp: stanza_ok_def stanza_lines_def)
  have colon: "CHR '':'' \<noteq> newline" "CHR '':'' \<noteq> carriage_return" by code_simp+
  have line: "newline \<notin> set l \<and> l \<noteq> [] \<and> last l \<noteq> carriage_return" if l: "l \<in> set (stanza_lines fs)" for l
  proof -
    obtain c v where cv: "l = c # CHR '':'' # v" "(c, v) \<in> set fs" using l by (auto simp: stanza_lines_def)
    then have "c \<noteq> newline" "newline \<notin> set v" "v = [] \<or> last v \<noteq> carriage_return" using assms by (auto simp: stanza_ok_def list_all_iff)
    then show ?thesis using colon by (auto simp: cv(1))
  qed
  show "lines (stanza_printed fs) = stanza_lines fs" unfolding stanza_printed_def using nonempty line by (intro lines_joined) auto
  show "apart [newline, newline] (stanza_printed fs)"
    unfolding stanza_printed_def using nonempty line by (intro joined_lines_apart) (auto simp: list_all_iff)
  obtain c v gs where "fs = (c, v) # gs" using nonempty by (cases fs) (auto simp: stanza_lines_def)
  then have "CHR '':'' \<in> set (stanza_printed fs)" by (cases gs) (auto simp: stanza_printed_def stanza_lines_def)
  then show "trim (stanza_printed fs) \<noteq> []" using trim_keeps_ink[OF colon_is_ink] by blast
qed

lemma stanza_read_back:
  assumes "stanza_ok fs"
  shows "apk_stanza (stanza_printed fs) = Inr (stanza_meant fs)"
proof -
  have "apk_field (stanza_printed fs) (c # '':'') = Inr v" if "map_of fs c = Some v" for c v
    using that by (simp add: apk_field_def stanza_shape(1)[OF assms] stanza_lines_found)
  moreover obtain n v a where "map_of fs (CHR ''P'') = Some n" "map_of fs (CHR ''V'') = Some v" "map_of fs (CHR ''A'') = Some a"
    "n \<noteq> []" "v \<noteq> []" "a \<noteq> []" using assms by (auto simp: stanza_ok_def split: option.splits)
  moreover have "length (filter (starts_with ''P:'') (lines (stanza_printed fs))) = 1"
    using assms by (simp add: stanza_shape(1)[OF assms] stanza_names_counted stanza_ok_def)
  ultimately show ?thesis
    by (simp add: apk_stanza_def stanza_meant_def package_name_new_def package_version_new_def architecture_new_def non_empty_text_new_def)
qed

definition apk_printed :: "(char \<times> str) list list \<Rightarrow> str" where
  "apk_printed ss = concat (map (\<lambda>fs. stanza_printed fs @ [newline, newline]) ss)"

lemma apk_stanzas: "list_all stanza_ok ss \<Longrightarrow> split_text [newline, newline] (apk_printed ss) = map stanza_printed ss @ [[]]"
proof (induction ss)
  case Nil
  show ?case by (simp add: apk_printed_def split_text.simps)
next
  case (Cons fs ss)
  then show ?case using split_text_apart[OF stanza_shape(2)[of fs], of "apk_printed ss"] by (simp add: apk_printed_def)
qed

lemma apk_read_back:
  assumes "list_all stanza_ok ss" "distinct (map (\<lambda>fs. map_of fs (CHR ''P'')) ss)"
  shows "apk_parse (apk_printed ss) = Inr (btree_collect (map stanza_meant ss))"
proof -
  have "trim [] = []" by code_simp
  then have kept: "filter (\<lambda>s. trim s \<noteq> []) (split_text [newline, newline] (apk_printed ss)) = map stanza_printed ss"
    using assms(1) stanza_shape(3) by (auto simp: apk_stanzas list_all_iff filter_id_conv)
  have "map apk_stanza (map stanza_printed ss) = map Inr (map stanza_meant ss)"
    using assms(1) stanza_read_back by (auto simp: list_all_iff)
  then have "collect_results (map apk_stanza (filter (\<lambda>s. trim s \<noteq> []) (split_text [newline, newline] (apk_printed ss)))) = Inr (map stanza_meant ss)"
    unfolding kept by (simp only: collect_results_Inr_iff)
  moreover have "distinct (map fst (map stanza_meant ss))"
  proof -
    have some: "\<exists>n. map_of fs (CHR ''P'') = Some n" if "fs \<in> set ss" for fs
      using that assms(1) by (auto simp: list_all_iff stanza_ok_def split: option.splits)
    have "map (\<lambda>fs. map_of fs (CHR ''P'')) ss = map (Some \<circ> text_str \<circ> package_text) (map fst (map stanza_meant ss))"
      using some by (force simp: stanza_meant_def)
    then have "distinct (map (Some \<circ> text_str \<circ> package_text) (map fst (map stanza_meant ss)))" using assms(2) by (simp only:)
    then show ?thesis by (rule distinct_map[THEN iffD1, THEN conjunct1])
  qed
  ultimately show ?thesis by (simp add: apk_parse_def package_set_new_def keyed_once_distinct del: map_map)
qed

end
