(* ===== verification/Spec2Isabelle.thy ===== *)
theory Spec2Isabelle
  imports Determinism Shortfall Selection Output Operator Walk Mounts MountTable Globs NginxText NginxFiles
    Units CanonicalTool HostFiles Sockets RedisInventory Guarantees KernelModules Sysctl Processes
    LocaleFiles Clock Accounts Cron Firewall SshAccess Packages
begin

text \<open>
  A verification library for \<open>rastro\<close>, which takes a fingerprint of a Linux host: collectors read one
  subject each, a run turns their answers into facets, and the fingerprint of those facets is written as
  canonical JSON, so that two documents of one host can be compared byte for byte.

  \<^bold>\<open>The parts and the theories that model them.\<close>

  The document model (\<open>crates/rastro-fingerprint\<close>).  \<open>Annotations\<close> holds scalars, annotations, presentations,
  digests and redaction; \<open>BTree\<close> the sorted association list that stands for a \<open>BTreeMap\<close>, behind a locale;
  \<open>Observation\<close> the observation tree, its constructors (\<open>observation.rs\<close>) and the borrowed view;
  \<open>SetOrder\<close> the comparison that orders sets and the owned view (\<open>observation/order.rs\<close>);
  \<open>Canon\<close> the tree a view shows with its sets in order, on which that comparison is plainly structural;
  \<open>Views\<close> the laws of both; \<open>Facets\<close> facets, identifiers and \<open>Fingerprint::from_facets\<close>; \<open>Wire\<close> the value
  \<open>json.rs\<close> hands to \<open>serde_json\<close>, whose printer is a parameter; \<open>Shortfall\<close> what a run reports as lost.

  The collector port (\<open>crates/rastro-collector\<close>).  \<open>Values\<close> holds the shared value objects, \<open>Claims\<close> the port
  itself and the claims collectors make on the filesystem walk, \<open>HostRun\<close> the worker threads of
  \<open>fingerprint_host.rs\<close> as a step relation: a state holds the cursor, what every worker is doing, the
  facets collected and the events told, and a step is one atomic action of one thread.
  \<open>Determinism\<close> joins the run with the document.

  The program (\<open>crates/rastro/src\<close>).  \<open>Config\<close> and \<open>Selection\<close> hold \<open>config.rs\<close> and the registry's decisions
  (\<open>collectors.rs\<close>); \<open>Operator\<close> the flags, the credentials and the warnings before a run (\<open>cli.rs\<close>,
  \<open>credentials.rs\<close>, \<open>preflight.rs\<close>, \<open>privilege.rs\<close>); \<open>Timestamp\<close> and \<open>Output\<close> the default file name and the
  writing of the document (\<open>output.rs\<close>), over a table of names and a store of files, where any call may
  fail and another process may act between two of them.

  The filesystem collector.  \<open>WalkPolicy\<close> is the table of rules that says how much of each tree is read;
  \<open>FileEntry\<close> one path's facts and their digest; \<open>Walk\<close> the walk itself, its inventory and the mount table's
  part in it.  The host is a record of what each call answers.  The walk's loop is a partial function: that
  it returns is proved, on every tree whose reachable paths are of bounded length.

  What the collectors share.  \<open>MountTable\<close> is the host paths that show a process's path (\<open>mount_table.rs\<close>);
  \<open>Globs\<close> the patterns service configurations include files by (\<open>file_glob.rs\<close>); \<open>CanonicalTool\<close> the running of
  another program within its limits (\<open>canonical_tool\<close>), the process being a record of what each call on it
  answers; \<open>HostFiles\<close> files inside another process's root, network namespaces and kernel residency;
  \<open>ProcSockets\<close> the kernel's socket tables and who holds a socket (\<open>proc_sockets\<close>); \<open>Systemd\<close> the vocabulary of units
  and what \<open>systemctl show\<close> prints (\<open>systemd\<close>); \<open>KeyedTables\<close> the table refused where two entries have one key.

  Services.  \<open>NginxSyntax\<close> is nginx's grammar, \<open>NginxText\<close> its round trip, \<open>NginxModel\<close> and \<open>NginxDirectives\<close>
  what the directives mean, \<open>NginxFiles\<close> the files and their includes.  \<open>RedisModel\<close>, \<open>RedisReplies\<close>,
  \<open>RedisConnection\<close>, \<open>RedisServers\<close> and \<open>RedisInventory\<close> are the redis collector: what it records, the replies
  it reads, the bounded conversation with a server, which servers it finds and where it reaches them, and what it
  asks.  \<open>Units\<close> and \<open>EnvironmentFiles\<close> are systemd's units and the files their environments come from.
  \<open>Messages\<close> renders the error texts that reach the document.

  The host.  \<open>Mounts\<close> is the mount table, \<open>Sockets\<close> the listening sockets, \<open>KernelModules\<close> \<open>/proc/modules\<close>,
  \<open>Sysctl\<close> the tree under \<open>/proc/sys\<close>, whose walk is a partial function, \<open>Processes\<close> the process table,
  \<open>LocaleFiles\<close> the locale settings, \<open>Clock\<close> the time zone and systemd's timers, \<open>Accounts\<close> users, groups and what
  is recorded of passwords, \<open>Cron\<close> the crontabs and script directories, \<open>Firewall\<close> the packet filter's dumps,
  \<open>SshAccess\<close> the keys accounts accept and the server's settings, \<open>Packages\<close> what dpkg and apk have installed.
  Each holds the collector's value objects, its model, its source and its \<open>collect\<close>, and, of a file or listing
  it reads, the printed form and that what is read of it is what was printed.

  \<open>Guarantees\<close> and \<open>Determinism\<close> hold properties that span components.

  Shared.  \<open>Prelude\<close> holds results, comparators and the sort by one; \<open>Text\<close>, \<open>TextFields\<close>, \<open>TextSplits\<close>,
  \<open>TextWords\<close>, \<open>TextBlanks\<close>, \<open>Lossy\<close> and \<open>Paths\<close> what the source uses of \<open>str\<close>, \<open>char\<close>, \<open>from_str_radix\<close>,
  \<open>from_utf8_lossy\<close> and \<open>std::path\<close>.

  \<^bold>\<open>Conventions.\<close>  A \<open>String\<close> is its UTF-8 bytes, \<open>i64\<close> and \<open>u64\<close> are 64-bit words, a \<open>Result\<close> is a sum
  with the error on the left, an \<open>Option\<close> an option.  The text of an error is kept as its template and its
  arguments, since only the wire renders it.  A \<open>BTreeSet\<close> or \<open>BTreeMap\<close> is a list strictly sorted by key.
  Crates (hash functions, the JSON printer, the TOML parser) and the machine (files, clocks,
  other programs) are parameters of the definitions that use them.

  \<^bold>\<open>Interfaces.\<close>  The comparators of \<open>Prelude\<close> (a total preorder, and one whose equality is identity) are
  locales; the sorts are proved about them once and every order of the program, the set order, the order
  of facets, claimants and inventory entries, is an interpretation.  The map behind objects is a locale
  interpreted on \<open>BTree\<close>.

  \<^bold>\<open>Loops and bounds.\<close>  A loop over a list is structural recursion, one that counts down a function with its
  measure.  The walks of the file system and of \<open>/proc/sys\<close> are partial functions, and that they return is proved:
  the first on every tree whose reachable paths are of bounded length, the second on every finite tree.  Nginx's parser is
  given one more than the characters left as fuel, its includes one more than the readable files, and both are proved
  to be enough.  A question to a server ends by its deadline; a run of the worker threads ends because every step
  leaves less work.

  \<^bold>\<open>What the properties show.\<close>  One host, one document: neither the schedule of the threads nor the order of
  registration nor the order items were found in reaches the bytes written.  Views agree, drop
  what they say and withhold what is sensitive.  A run ends, holds each facet once and never mistakes a
  failure for absence.  The walk's table has one answer per path, claims seal what two collectors contest,
  the walk accounts for every path it comes to and stays out of sealed trees.  The output is written whole
  or not at all and never over a file the operator did not say to replace, but for the case of a link that
  \<open>links_are_written_through\<close> states.  Credentials and mount tables round-trip, patterns name what their
  language holds, dates follow the calendar.  A server is dialled only where the
  kernel shows it, is sent five questions, whole, and holds rastro no longer than its deadline.  No hash of a password
  reaches the document, provided the column is one \<open>crypt\<close> writes with at most one lock; the kernel's parameters are
  read whole; a packet filter's dump, a socket table and an environment are read back as they were.

  \<^bold>\<open>Not modelled.\<close>  Block devices, containers, elasticsearch, exporters, network, pam, postgresql, rabbitmq and
  repositories, which mostly hand another program's JSON to \<open>serde\<close>, and the host and invocation facets; the
  manifest says why of each.  Nginx's master process, X.509 and the binary's build answer; rendering of other error texts;
  terminal output; most \<open>Debug\<close> implementations; panics; the reading of files and the running of tools, which are
  parameters.
\<close>

section \<open>Inputs the witnesses use\<close>

definition example_hashes :: hashes where
  "example_hashes = \<lparr> sha256 = (\<lambda>s. s), xxh3_64 = (\<lambda>s. of_nat (length s)) \<rparr>"

definition example_env :: wire_env where
  "example_env = \<lparr> hashing = example_hashes, render_message = template \<rparr>"

definition example_collector :: "str \<Rightarrow> concurrency \<Rightarrow> observation \<Rightarrow> collector_port" where
  "example_collector n k ob = \<lparr> collector_name = FacetName n,
     collector_identity = \<lparr> identity_id = CollectorId n, identity_version = CollectorVersion ''1'' \<rparr>,
     collector_category = State, collector_presence = Present, collector_collect = Inr ob,
     collector_claims = [], collector_concurrency = k \<rparr>"

lemma facet_of_example: "facet_of (example_collector n k ob) = \<lparr> name = FacetName n,
    collector = \<lparr> identity_id = CollectorId n, identity_version = CollectorVersion ''1'' \<rparr>,
    category = State, outcome = FacetOk ob \<rparr>"
  by (simp add: example_collector_def facet_of_def facet_new_def)

text \<open>A process whose pid moved between two runs.\<close>

definition example_process :: "int \<Rightarrow> observation" where
  "example_process pid = object [(''name'', text_of ''sshd''), (''pid'', volatile (integer (word_of_int pid)))]"

lemma example_process_ok: "keys_ok (example_process pid)"
  by (intro stored_keys_ok[of example_hashes]) (auto simp: example_process_def marks_ok leaf_ok intro!: object_ok)

lemma example_process_settled:
  "without_dropped diffable (example_process pid) = without_dropped diffable (example_process 0)"
  by (subst (1 2) without_dropped.simps)
    (simp add: example_process_def object_def unannotated_def btree_collect_def dropped_by_def
      diffable_def presentation_from_def text_of_def integer_def scalar_def)

section \<open>The determinism contract\<close>

text \<open>
  C1. Two runs whose facets agree once everything the view drops is left out write the same bytes
  in that view, whatever order the collectors were registered in, whatever order the threads
  finished in, and whatever printer turns the document into text.
\<close>

theorem runs_agree_byte_for_byte:
  assumes "reached cs s" "run_over s" "reached ds t" "run_over t"
    and "mset (map (settled p \<circ> facet_of) cs) = mset (map (settled p \<circ> facet_of) ds)"
    and "\<forall>c \<in> set cs \<union> set ds. facet_ok (facet_of c)"
    and "run_result s = Inr fp"
  shows "\<exists>fp'. run_result t = Inr fp' \<and> to_canonical_json pretty E fp p = to_canonical_json pretty E fp' p"
proof -
  have "mset (map (settled p) (map facet_of cs)) = mset (map (settled p) (map facet_of ds))"
    using assms(5) by (simp add: multiset.map_comp)
  then show ?thesis
    using assms(6,7) unfolding run_result_facets[OF assms(1,2)] run_result_facets[OF assms(3,4)]
    by (intro settled_documents) auto
qed

lemma runs_agree_byte_for_byte_witness:
  "\<exists>s t fp fp'. reached [example_collector ''a'' Shared (example_process 7), example_collector ''b'' Exclusive null] s
     \<and> reached [example_collector ''b'' Exclusive null, example_collector ''a'' Shared (example_process 9)] t
     \<and> run_result s = Inr fp \<and> run_result t = Inr fp'
     \<and> to_canonical_json (\<lambda>_. []) example_env fp diffable = to_canonical_json (\<lambda>_. []) example_env fp' diffable"
proof -
  let ?cs = "[example_collector ''a'' Shared (example_process 7), example_collector ''b'' Exclusive null]"
  let ?ds = "[example_collector ''b'' Exclusive null, example_collector ''a'' Shared (example_process 9)]"
  obtain s where s: "reached ?cs s" "run_over s" using run_ends by blast
  obtain t where t: "reached ?ds t" "run_over t" using run_ends by blast
  have settled: "settled diffable (facet_of (example_collector ''a'' Shared (example_process 7)))
      = settled diffable (facet_of (example_collector ''a'' Shared (example_process 9)))"
    using example_process_settled[of 7] example_process_settled[of 9]
    by (simp add: settled_def facet_of_example)
       (simp add: dropped_by_def example_process_def object_def unannotated_def)
  obtain fp where fp: "run_result s = Inr fp"
    unfolding run_result_facets[OF s] from_facets_Inr_iff by (simp add: facet_of_example)
  have "\<forall>c \<in> set ?cs \<union> set ?ds. facet_ok (facet_of c)"
    by (auto simp: facet_ok_def facet_of_example example_process_ok stored_keys_ok[OF leaf_ok(1)])
  with runs_agree_byte_for_byte[OF s t, of diffable fp "\<lambda>_. []" example_env] settled fp s t
  show ?thesis by fastforce
qed

section \<open>The order of a set\<close>

text \<open>
  C2. A set is the same observation however its items arrived: the order it is stored in depends on
  the items alone, annotations and all, at every depth.
\<close>

theorem same_items_same_set:
  assumes "mset items = mset items'" "\<forall>item \<in> set items. stored_ok H item"
  shows "set_by H leading items = set_by H leading items'"
  using assms by (intro set_by_mset) auto

lemma same_items_same_set_witness:
  "set_by example_hashes [''k''] [sensitive (object [(''k'', integer 1)]), null, object [(''k'', integer 1)]]
     = set_by example_hashes [''k''] [null, object [(''k'', integer 1)], sensitive (object [(''k'', integer 1)])]"
  by (rule same_items_same_set) (auto simp: marks_ok leaf_ok intro!: object_ok)

text \<open>
  C3. The comparison \<open>order.rs\<close> sorts by is a total preorder on what a view shows of well-formed
  observations, and leaves two of them equal exactly where the view shows the same tree of both.
\<close>

theorem comparison_orders_what_is_shown:
  assumes "vkeys_ok x" "vkeys_ok y" "vkeys_ok z"
  shows "compare H y x = reverse (compare H x y)
    \<and> (compare H x y \<noteq> Greater \<longrightarrow> compare H y z \<noteq> Greater \<longrightarrow> compare H x z \<noteq> Greater)
    \<and> (compare H x y = Equal \<longleftrightarrow> canon H x = canon H y)"
proof (intro conjI impI)
  note eqs = compare_canon[OF assms(1,2)] compare_canon[OF assms(2,1)] compare_canon[OF assms(2,3)] compare_canon[OF assms(1,3)]
  show "compare H y x = reverse (compare H x y)" by (simp add: eqs shown.cmp_swap[of "canon H x"])
  show "compare H x z \<noteq> Greater" if "compare H x y \<noteq> Greater" "compare H y z \<noteq> Greater"
    using that shown.cmp_trans[of "canon H x" "canon H y" "canon H z"] by (simp add: eqs)
  show "compare H x y = Equal \<longleftrightarrow> canon H x = canon H y"
    using shown.cmp_eq[of "canon H x" "canon H y"] shown.cmp_refl[of "canon H x"] by (auto simp: eqs)
qed

lemma comparison_orders_what_is_shown_witness:
  "compare example_hashes (Visible (integer 9) diffable False) (Visible (integer 10) diffable False)
     = reverse (compare example_hashes (Visible (integer 10) diffable False) (Visible (integer 9) diffable False))"
  using comparison_orders_what_is_shown[of "Visible (integer 10) diffable False" "Visible (integer 9) diffable False"
      "Visible null diffable False" example_hashes]
  by (simp add: stored_keys_ok[OF leaf_ok(1)] stored_keys_ok[OF leaf_ok(3)])

text \<open>
  C4. What a view lists of a set depends on the items alone, and is sorted by what that view shows:
  a value the view drops or withholds cannot order what it shows.
\<close>

theorem set_listing_follows_what_is_shown:
  assumes "mset items = mset items'" "\<forall>item \<in> set items. keys_ok item"
  shows "map (canon H) (set_iter H items leading p w) = map (canon H) (set_iter H items' leading p w)
    \<and> sorted_by (compare_led_shown leading) (map (canon H) (set_iter H items leading p w))"
proof (rule conjI)
  have "\<forall>item \<in> set items'. keys_ok item" using assms by (metis set_mset_mset)
  moreover have "mset (map (canon H) (visible_items items p w)) = mset (map (canon H) (visible_items items' p w))"
    using mset_map_filter_cong[OF assms(1), of "visible_under p w"] by (simp add: visible_items_def)
  ultimately show "map (canon H) (set_iter H items leading p w) = map (canon H) (set_iter H items' leading p w)"
    using assms(2) by (simp add: canon_set_iter led.sort_by_mset[OF _ subset_UNIV])
  show "sorted_by (compare_led_shown leading) (map (canon H) (set_iter H items leading p w))"
    using assms(2) by (simp add: canon_set_iter led.sorted_sort_by)
qed

lemma set_listing_follows_what_is_shown_witness:
  "map (canon example_hashes) (set_iter example_hashes [example_process 9, example_process 7] [''pid''] diffable False)
     = map (canon example_hashes) (set_iter example_hashes [example_process 7, example_process 9] [''pid''] diffable False)"
  by (rule set_listing_follows_what_is_shown[THEN conjunct1]) (auto simp: example_process_ok)

section \<open>Views of a tree\<close>

text \<open>
  C5. The owned view and the borrowed one are one rule: \<open>in_view\<close> drops a value exactly where
  \<open>visible_in\<close> does, and where it keeps it the two show the same tree.
\<close>

theorem views_agree:
  assumes "keys_ok ob"
  shows "map_option (tree_of H) (in_view H p ob) = map_option (canon H) (visible_in p ob)"
  unfolding in_view_def visible_in_def by (rule materialised_tree[OF assms])

lemma views_agree_witness:
  "map_option (tree_of example_hashes) (in_view example_hashes diffable (example_process 7))
     = map_option (canon example_hashes) (visible_in diffable (example_process 7))"
  by (rule views_agree) (rule example_process_ok)



text \<open>
  C7. Under a redacting presentation every scalar shown at or below a value marked sensitive is a
  null that was never withheld, or the fixed-width stand-in: the recipe's name and a digest.
\<close>

theorem sensitive_values_shown_as_digests:
  assumes "visible_in p ob = Some v" "disclosure p = Redacted" "sensitivity_of ob = Sensitive"
    and "s \<in> set (tree_scalars (canon H v))"
  shows "s = Null \<or> (\<exists>d. s = Text (redaction_prefix @ digest_text d))"
proof -
  from assms(1-3) have "withheld_of v" "presentation_of v = p"
    by (auto simp: visible_in_def visible_under_def withheld_under_def split: if_splits)
  with assms(2,4) obtain s0 where "s = shown H s0 True" using withheld_scalars by blast
  with shown_withheld[of H s0] show ?thesis by auto
qed

lemma sensitive_values_shown_as_digests_witness:
  "\<exists>v s. visible_in complete (sensitive (text_of ''hunter2'')) = Some v
     \<and> s \<in> set (tree_scalars (canon example_hashes v)) \<and> (\<exists>d. s = Text (redaction_prefix @ digest_text d))"
proof -
  let ?ob = "sensitive (text_of ''hunter2'')"
  let ?v = "Visible ?ob complete True"
  have v: "visible_in complete ?ob = Some ?v"
    by (simp add: visible_in_def visible_under_def dropped_by_def withheld_under_def complete_def
        presentation_from_def text_of_def scalar_def unannotated_def)
  have c: "canon example_hashes ?v = ShownScalar (shown example_hashes (Text ''hunter2'') True)"
    by (subst canon.simps) (simp add: text_of_def scalar_def unannotated_def)
  have "shown example_hashes (Text ''hunter2'') True \<noteq> Null"
    by (simp add: shown_def redacted_def Let_def)
  then show ?thesis using sensitive_values_shown_as_digests[OF v, of "shown example_hashes (Text ''hunter2'') True" example_hashes] v c
    by (auto simp: complete_def presentation_from_def text_of_def scalar_def unannotated_def)
qed

section \<open>The run\<close>

text \<open>
  C8. Whatever order the workers draw, ask, report and push in, a run that has ended holds each
  collector's facet exactly once, and returns the fingerprint of those facets (or the refusal of
  the same duplicate name).
\<close>

theorem every_schedule_one_result:
  assumes "reached cs s" "run_over s"
  shows "mset (collected s) = mset (map facet_of cs) \<and> run_result s = from_facets (map facet_of cs)"
  using run_over_facets[OF run_ok_reached[OF assms(1)] assms(2)] run_result_facets[OF assms] by simp

lemma every_schedule_one_result_witness:
  "\<exists>s. reached [example_collector ''b'' Shared null, example_collector ''a'' Exclusive null] s
     \<and> mset (map name (collected s)) = {#FacetName ''a'', FacetName ''b''#}"
proof -
  let ?cs = "[example_collector ''b'' Shared null, example_collector ''a'' Exclusive null]"
  obtain s where "reached ?cs s" "run_over s" using run_ends by blast
  with every_schedule_one_result[OF this] show ?thesis by (auto simp: facet_of_example mset_map)
qed

text \<open>
  C9. Every run ends: from any state some schedule reaches the end, a state that is not over always
  has a thread that can move, and no schedule is longer than the work that is left.
\<close>

theorem every_run_ends:
  "(\<exists>s'. (run_step cs)\<^sup>*\<^sup>* s s' \<and> run_over s')
     \<and> (run_over s \<or> (\<exists>s'. run_step cs s s'))
     \<and> ((run_step cs ^^ n) s s'' \<longrightarrow> n \<le> steps_left cs s)"
  using run_ends[of cs s] run_progress[of s cs] run_bounded[of n cs s s''] by auto

lemma every_run_ends_witness:
  "\<exists>s'. reached [example_collector ''a'' Shared null] s' \<and> run_over s'"
  using every_run_ends[of "[example_collector ''a'' Shared null]" "run_start [example_collector ''a'' Shared null]"]
  by blast

text \<open>
  C10. While an exclusive collector runs, every worker has left its loop, no facet is in any
  worker's hands, and there were never more than four of them.
\<close>

theorem exclusive_collectors_run_alone:
  assumes "reached cs s" "alone s = Some c"
  shows "(\<forall>w \<in> set (workers s). w = Joined) \<and> length (workers s) \<le> at_once
    \<and> mset (collected s) + mset (map facet_of (waiting s)) + {#facet_of c#} = mset (map facet_of cs)"
proof -
  have ok: "run_ok cs s" by (rule run_ok_reached[OF assms(1)])
  then have joined: "\<forall>w \<in> set (workers s). w = Joined" and "length (workers s) \<le> at_once"
    using assms(2) by (auto simp: run_ok_def)
  moreover have "length (shared_of cs) \<le> cursor s"
    using joined ok by (cases "workers s") (auto simp: run_ok_def at_once_def)
  moreover have "map in_hand (workers s) = replicate (length (workers s)) {#}"
    using joined by (intro nth_equalityI) (auto dest: bspec[OF _ nth_mem])
  ultimately show ?thesis
    using ok assms(2) by (simp add: run_ok_def facets_due_def sum_replicate_empty)
qed

lemma exclusive_collectors_run_alone_witness:
  "\<exists>s. reached [example_collector ''fs'' Exclusive null] s \<and> alone s \<noteq> None \<and> collected s = []"
proof -
  let ?c = "example_collector ''fs'' Exclusive null"
  let ?s = "(run_start [?c])\<lparr> waiting := [], alone := Some ?c, events := [Started (FacetName ''fs'')] \<rparr>"
  have start: "run_start [?c] = \<lparr> cursor = 0, workers = [], collected = [], waiting = [?c], alone = None, events = [] \<rparr>"
    by (simp add: run_start_def shared_of_def exclusive_of_def example_collector_def at_once_def)
  have name: "collector_name ?c = FacetName ''fs''" by (simp add: example_collector_def)
  have "run_step [?c] (run_start [?c]) ?s"
    using run_step.alone_started[of "run_start [?c]" ?c "[]" "[?c]"] unfolding name by (simp add: start)
  then have "reached [?c] ?s" by blast
  moreover have "alone ?s = Some ?c" by simp
  ultimately show ?thesis using exclusive_collectors_run_alone[of "[?c]" ?s ?c] by (intro exI[of _ ?s]) (simp add: start)
qed

section \<open>The document\<close>

text \<open>
  C11. \<open>Fingerprint::from_facets\<close> accepts exactly the facets whose names differ, keeps every one of
  them in strictly ascending order of name, and otherwise names a name two of them share; the
  order they are given in never shows.
\<close>

theorem fingerprint_holds_each_name_once:
  "(case from_facets fs of
      Inr fp \<Rightarrow> distinct (map name fs) \<and> mset (facets fp) = mset fs \<and> sorted_wrt (\<lambda>l r. name l < name r) (facets fp)
    | Inl e \<Rightarrow> \<exists>n l r. e = DuplicateFacetName (facet_name_str n) \<and> {#l, r#} \<subseteq># mset fs \<and> name l = n \<and> name r = n)
   \<and> (mset fs = mset gs \<longrightarrow> from_facets fs = from_facets gs)"
  using from_facets_sorted[of fs] from_facets_Inl[of fs] from_facets_Inr_iff[of fs] from_facets_mset[of fs gs]
  by (auto split: sum.split)

lemma fingerprint_holds_each_name_once_witness:
  "from_facets (map facet_of [example_collector ''b'' Shared null, example_collector ''a'' Shared null])
     = from_facets (map facet_of [example_collector ''a'' Shared null, example_collector ''b'' Shared null])"
  using fingerprint_holds_each_name_once[of "map facet_of [example_collector ''b'' Shared null, example_collector ''a'' Shared null]"
      "map facet_of [example_collector ''a'' Shared null, example_collector ''b'' Shared null]"]
  by (simp add: add_mset_commute)


text \<open>
  C13. The operator is told of a shortfall exactly when something is missing: a facet failed, or
  some node anywhere in a facet's tree is marked incomplete or approximate; and each failed facet
  and each count is reported under its own name.
\<close>

theorem shortfall_reports_every_loss:
  "(shortfall_empty (shortfall_of fp) \<longleftrightarrow> (\<forall>f \<in> set (facets fp). whole f))
   \<and> set (failed (shortfall_of fp)) =
       {\<lparr> failed_name = name f, failed_reason = m \<rparr> |f m. f \<in> set (facets fp) \<and> outcome f = FacetError m}
   \<and> set (incomplete_facets (shortfall_of fp)) =
       {\<lparr> counted_name = name f,
          counted_items = length (filter (\<lambda>x. completeness_of x = Incomplete) (nodes ob)) \<rparr> |f ob.
        f \<in> set (facets fp) \<and> outcome f = FacetOk ob \<and> (\<exists>x \<in> set (nodes ob). completeness_of x = Incomplete)}"
  unfolding set_shortfall(1,2) shortfall_empty_iff incomplete_items_nodes
  by (auto simp: filter_empty_conv)

lemma shortfall_reports_every_loss_witness:
  "\<not> shortfall_empty (shortfall_of (Fingerprint [facet_of (example_collector ''fs'' Exclusive (incomplete null))]))
   \<and> shortfall_empty (shortfall_of (Fingerprint [facet_of (example_collector ''fs'' Exclusive null)]))"
  using shortfall_reports_every_loss[of "Fingerprint [facet_of (example_collector ''fs'' Exclusive (incomplete null))]"]
    shortfall_reports_every_loss[of "Fingerprint [facet_of (example_collector ''fs'' Exclusive null)]"]
  by (simp add: facet_of_example whole_def nodes.simps[of null] nodes.simps[of "incomplete null"])
    (simp add: null_def scalar_def unannotated_def)

text \<open>
  \<open>Observation::keyed\<close> keeps every entry it was given under its key, or refuses, naming a key
  that was given twice; it never drops an entry silently.
\<close>

theorem keyed_keeps_every_entry_or_refuses:
  "case keyed entries of
      Inr ob \<Rightarrow> distinct (map fst entries)
        \<and> (\<exists>es. content_of ob = Object es \<and> btree_sorted es \<and> set es = set entries)
    | Inl e \<Rightarrow> (\<exists>key. e = RepeatedKey key) \<and> \<not> distinct (map fst entries)"
  using keyed_loop_spec[of "[]" entries]
  by (auto simp: keyed_def unannotated_def split: sum.splits)

section \<open>The walk's table\<close>

definition example_tree :: "str \<Rightarrow> walked_tree" where
  "example_tree s = WalkedTree (AbsolutePath (NonEmptyText s))"

definition example_rule :: "str \<Rightarrow> content_policy \<Rightarrow> policy_rule" where
  "example_rule s k = rule_shipped (example_tree s) k"

lemma tree_str_example [simp]: "tree_str (example_tree s) = s"
  by (simp add: example_tree_def tree_str_def)

lemma example_tree_ok: "starts_with ''/'' s \<Longrightarrow> s = ''/'' \<or> last s \<noteq> CHR ''/'' \<Longrightarrow> tree_ok (example_tree s)"
  by (auto simp: tree_ok_def path_ok_def is_root_def example_tree_def tree_str_def)

lemma tree_example_rule [simp]: "tree (example_rule s k) = example_tree s"
  by (simp add: example_rule_def rule_shipped_def)

lemma example_tree_inject [simp]: "example_tree s = example_tree t \<longleftrightarrow> s = t"
  by (simp add: example_tree_def)

lemmas example_table = walk_policy_new_iff is_root_def starts_with_def example_tree_ok

text \<open>
  C14. A table that was accepted answers for every path, with the one rule whose tree contains the
  path and is strictly deeper than every other that does; the order the rules are listed in does
  not matter.
\<close>

theorem most_specific_rule_answers:
  assumes "walk_policy_new rs = Inr p" "\<forall>r \<in> set rs. tree_ok (tree r)"
  shows "(\<exists>r. rule_for p path = Some r \<and> r \<in> set rs \<and> contains (tree r) path
      \<and> (\<forall>r' \<in> set rs. contains (tree r') path \<longrightarrow> r' \<noteq> r \<longrightarrow> depth (tree r') < depth (tree r)))
    \<and> (mset rs' = mset rs \<longrightarrow> (\<exists>q. walk_policy_new rs' = Inr q \<and> rule_for q path = rule_for p path))"
proof (intro conjI impI)
  have p: "rules p = rs" and ok: "policy_ok p" using assms by (auto simp: walk_policy_new_iff policy_ok_def)
  obtain r where r: "rule_for p path = Some r" using rule_for_total[OF ok] by blast
  with rule_for_spec[OF ok, of path r] p
  show "\<exists>r. rule_for p path = Some r \<and> r \<in> set rs \<and> contains (tree r) path
      \<and> (\<forall>r' \<in> set rs. contains (tree r') path \<longrightarrow> r' \<noteq> r \<longrightarrow> depth (tree r') < depth (tree r))" by auto
  assume perm: "mset rs' = mset rs"
  then have sets: "set rs' = set rs" and "mset (map tree rs') = mset (map tree rs)" by (auto dest: mset_eq_setD)
  then have "walk_policy_new rs' = Inr (WalkPolicy rs')"
    using assms(1) unfolding walk_policy_new_iff by (metis mset_eq_imp_distinct_iff)
  moreover from this have "policy_ok (WalkPolicy rs')"
    using assms(2) sets by (auto simp: walk_policy_new_iff policy_ok_def)
  ultimately show "\<exists>q. walk_policy_new rs' = Inr q \<and> rule_for q path = rule_for p path"
    using rule_for_set[OF _ ok, of "WalkPolicy rs'"] sets p by auto
qed

lemma most_specific_rule_answers_witness:
  "rule_for (WalkPolicy [example_rule ''/'' MetadataOnly, example_rule ''/var'' Churns]) (tree_path (example_tree ''/var/log''))
     = Some (example_rule ''/var'' Churns)"
proof -
  let ?rs = "[example_rule ''/'' MetadataOnly, example_rule ''/var'' Churns]"
  have "walk_policy_new ?rs = Inr (WalkPolicy ?rs)" by (simp add: example_table)
  moreover have "\<forall>r \<in> set ?rs. tree_ok (tree r)" by (simp add: example_table)
  ultimately obtain r where r: "rule_for (WalkPolicy ?rs) (tree_path (example_tree ''/var/log'')) = Some r" "r \<in> set ?rs"
    "\<forall>r' \<in> set ?rs. contains (tree r') (tree_path (example_tree ''/var/log'')) \<longrightarrow> r' \<noteq> r \<longrightarrow> depth (tree r') < depth (tree r)"
    using most_specific_rule_answers[of ?rs "WalkPolicy ?rs" "tree_path (example_tree ''/var/log'')"] by blast
  have "contains (example_tree ''/var'') (tree_path (example_tree ''/var/log''))" by code_simp
  moreover have "depth (example_tree ''/'') = 0" by (rule depth_root) (simp add: is_root_def)
  ultimately have "r \<noteq> example_rule ''/'' MetadataOnly" using r(3)
    by (auto simp: example_rule_def rule_shipped_def)
  with r show ?thesis by simp
qed

text \<open>
  C15. The table a run walks under does not depend on the order its collectors were registered in:
  either way it holds the same rules and answers for every path alike.
\<close>

theorem registration_order_does_not_matter:
  assumes "claimed_policy cs n = Inr p" "mset cs = mset ds"
    and "\<forall>c \<in> set cs. \<forall>claim \<in> set (collector_claims c). tree_ok (claim_tree claim)"
  shows "\<exists>q. claimed_policy ds n = Inr q \<and> set (rules q) = set (rules p) \<and> rule_for q path = rule_for p path"
proof -
  from claimed_policy_mset[OF assms(2) _ assms(1)] assms(3)
  obtain q where "claimed_policy ds n = Inr q" "set (rules q) = set (rules p)" "policy_ok p" "policy_ok q" by blast
  with rule_for_set[of q p path] show ?thesis by blast
qed

definition example_claimant :: "str \<Rightarrow> filesystem_claim list \<Rightarrow> collector_port" where
  "example_claimant n claims = (example_collector n Shared null)\<lparr> collector_claims := claims \<rparr>"

lemma registration_order_does_not_matter_witness:
  "\<exists>p q. claimed_policy [example_claimant ''redis'' [claim_churns (example_tree ''/srv'')],
        example_claimant ''nginx'' [claim_metadata_only (example_tree ''/srv'')]] \<lparr> narrowed_metadata_only = [], narrowed_churns = [], narrowed_sealed = [] \<rparr> = Inr p
     \<and> claimed_policy [example_claimant ''nginx'' [claim_metadata_only (example_tree ''/srv'')],
        example_claimant ''redis'' [claim_churns (example_tree ''/srv'')]] \<lparr> narrowed_metadata_only = [], narrowed_churns = [], narrowed_sealed = [] \<rparr> = Inr q
     \<and> set (rules q) = set (rules p)"
proof -
  let ?a = "example_claimant ''redis'' [claim_churns (example_tree ''/srv'')]"
  let ?b = "example_claimant ''nginx'' [claim_metadata_only (example_tree ''/srv'')]"
  let ?n = "\<lparr> narrowed_metadata_only = [], narrowed_churns = [], narrowed_sealed = [] \<rparr>"
  have trees: "\<forall>c \<in> set [?a, ?b]. \<forall>claim \<in> set (collector_claims c). tree_ok (claim_tree claim)"
    by (simp add: example_claimant_def claim_churns_def claim_metadata_only_def claim_of_def example_table)
  obtain shipped where shipped: "built_in = Inr shipped" "policy_ok shipped" using built_in_ok by blast
  have "\<exists>p. fold_claims [?a, ?b] shipped = Inr p \<and> policy_ok p" using fold_claims_ok[OF shipped(2), of "[?a, ?b]"] trees by blast
  then obtain p where p: "fold_claims [?a, ?b] shipped = Inr p" "policy_ok p" by blast
  then have "claimed_policy [?a, ?b] ?n = Inr p"
    unfolding claimed_policy_def shipped(1) and_then.simps p(1)
    by (cases p) (simp add: narrowed_rules_def configured_iff policy_ok_def)
  from registration_order_does_not_matter[OF this _ trees, of "[?b, ?a]"] this show ?thesis by auto
qed

text \<open>
  What folding claims into a table does to each tree: untouched where nobody claimed it; the
  reading asked for, under the claimant's name, where one claim is all there is; and sealed, under
  every claimant in sorted order, the moment there is more than one of them, agreeing or not.
\<close>

theorem contested_trees_are_sealed:
  assumes "fcs = filter (\<lambda>fc. claim_tree (snd fc) = t) asked"
  shows "(fcs = [] \<longrightarrow> rule_at (claims_into asked rs) t = rule_at rs t)
    \<and> (\<forall>f c. rule_at rs t = None \<longrightarrow> fcs = [(f, c)] \<longrightarrow> rule_at (claims_into asked rs) t
        = Some \<lparr> tree = t, content = content_policy_of (claim_reading c), claimants = [claimant_of f c] \<rparr>)
    \<and> (length fcs + (case rule_at rs t of None \<Rightarrow> 0 | Some _ \<Rightarrow> 1) > 1 \<longrightarrow> fcs \<noteq> [] \<longrightarrow>
        (\<exists>r. rule_at (claims_into asked rs) t = Some r \<and> tree r = t \<and> content r = Sealed
          \<and> sorted_by compare_claimants (claimants r)
          \<and> mset (claimants r) = mset (case rule_at rs t of None \<Rightarrow> [] | Some r \<Rightarrow> claimants r)
              + mset (map (\<lambda>fc. claimant_of (fst fc) (snd fc)) fcs)))"
  unfolding assms using claims_on_tree(1)[of t asked rs] claims_on_tree(2)[of rs t asked] claims_on_tree(3)[of t asked rs]
  by (intro conjI allI impI) simp_all

lemma contested_trees_are_sealed_witness:
  "\<exists>r. rule_at (claims_into [(FacetName ''redis'', claim_churns (example_tree ''/srv'')),
        (FacetName ''nginx'', claim_churns (example_tree ''/srv''))] [example_rule ''/'' MetadataOnly]) (example_tree ''/srv'') = Some r
      \<and> content r = Sealed"
  using contested_trees_are_sealed[OF refl, of "example_tree ''/srv''"
      "[(FacetName ''redis'', claim_churns (example_tree ''/srv'')), (FacetName ''nginx'', claim_churns (example_tree ''/srv''))]"
      "[example_rule ''/'' MetadataOnly]"]
  by (auto simp: rule_at_def claim_churns_def claim_of_def)

text \<open>
  The operator's rules win: each governs its own tree whatever was claimed there, and every
  rule over a tree they did not name stays as it was.
\<close>

theorem operator_rules_win:
  assumes "policy_ok p" "configured p rs = Inr q" "\<forall>r \<in> set rs. tree_ok (tree r)"
  shows "(\<forall>r \<in> set rs. rule_for q (tree_path (tree r)) = Some r)
    \<and> (\<forall>r :: policy_rule. tree r \<notin> tree ` set rs \<longrightarrow> (r \<in> set (rules q) \<longleftrightarrow> r \<in> set (rules p)))"
proof (intro conjI ballI allI impI)
  have ok: "policy_ok q" using configured_ok[OF assms(1,2)] assms(3) by blast
  from assms(2) have q: "set (rules q) = {r \<in> set (rules p). tree r \<notin> tree ` set rs} \<union> set rs"
    by (auto simp: configured_iff)
  fix r assume r: "r \<in> set rs"
  have "depth (tree r') < depth (tree r)"
    if "r' \<in> set (rules q)" "contains (tree r') (tree_path (tree r))" "r' \<noteq> r" for r'
  proof (rule contains_depth)
    show "tree r' \<noteq> tree r" using that(1,3) r q ok by (auto simp: policy_ok_def distinct_map inj_on_def)
  qed (use that r q ok in \<open>auto simp: policy_ok_def\<close>)
  moreover have "contains (tree r) (tree_path (tree r))" by (simp add: contains_iff tree_str_def)
  ultimately show "rule_for q (tree_path (tree r)) = Some r" using rule_for_spec[OF ok] r q by blast
next
  fix r :: policy_rule assume "tree r \<notin> tree ` set rs"
  with assms(2) show "r \<in> set (rules q) \<longleftrightarrow> r \<in> set (rules p)" by (auto simp: configured_iff)
qed

lemma operator_rules_win_witness:
  "\<exists>q. configured (WalkPolicy [example_rule ''/'' MetadataOnly, example_rule ''/srv'' Sealed])
        [rule_configured (example_tree ''/srv'') Churns] = Inr q
     \<and> policy_for q (tree_path (example_tree ''/srv'')) = Some Churns"
proof -
  let ?p = "WalkPolicy [example_rule ''/'' MetadataOnly, example_rule ''/srv'' Sealed]"
  let ?r = "rule_configured (example_tree ''/srv'') Churns"
  have p: "policy_ok ?p" by (auto simp: policy_ok_def example_table)
  have t: "tree ?r = example_tree ''/srv''" by (simp add: rule_configured_def)
  have q: "configured ?p [?r] = Inr (WalkPolicy [example_rule ''/'' MetadataOnly, ?r])"
    by (simp add: configured_iff t example_table)
  with operator_rules_win[OF p q] show ?thesis
    by (simp add: t policy_for_def example_table) (simp add: rule_configured_def)
qed

text \<open>
  A claim is not always a narrowing of what the walk reads: a more specific claim inside a tree
  another collector sealed makes the table answer for paths under it again.
\<close>

theorem claim_can_reopen_a_sealed_tree:
  "let p = WalkPolicy [example_rule ''/'' MetadataOnly, example_rule ''/srv'' Sealed];
       path = tree_path (example_tree ''/srv/data/x'')
   in policy_for p path = Some Sealed
     \<and> (case claimed p (FacetName ''redis'') [claim_metadata_only (example_tree ''/srv/data'')] of
          Inl _ \<Rightarrow> False
        | Inr q \<Rightarrow> policy_for q path = Some MetadataOnly)"
  by code_simp

section \<open>What the operator left running\<close>

text \<open>
  C16. A selection runs exactly the collectors the config does not name, every metadata collector
  among them; a name that matches no collector, or a metadata one, is refused and never ignored.
\<close>

theorem selection_only_narrows:
  assumes "distinct (map collector_name cs)"
  shows "case selected cs conf of
      Inr s \<Rightarrow> running s = filter (\<lambda>c. facet_name_str (collector_name c) \<notin> set (exclude conf)) cs
        \<and> (\<forall>c \<in> set cs. collector_category c = Metadata \<longrightarrow> c \<in> set (running s))
        \<and> (\<forall>n \<in> set (exclude conf). \<exists>c \<in> set cs. facet_name_str (collector_name c) = n \<and> collector_category c = State)
    | Inl _ \<Rightarrow> \<exists>n \<in> set (exclude conf). \<forall>c \<in> set cs. facet_name_str (collector_name c) = n \<longrightarrow> collector_category c = Metadata"
proof (cases "selected cs conf")
  case (Inr s)
  with selected_Inr[OF Inr] metadata_runs[OF Inr assms] show ?thesis by simp
next
  case (Inl e)
  then have "\<nexists>u. check_excluded cs (exclude conf) = Inr u"
    by (cases "check_excluded cs (exclude conf)") (auto simp: selected_def)
  then obtain n where n: "n \<in> set (exclude conf)"
    "\<nexists>c. find (\<lambda>c. facet_name_str (collector_name c) = n) cs = Some c \<and> collector_category c \<noteq> Metadata"
    unfolding check_excluded_Inr_iff by blast
  have "collector_category c = Metadata" if c: "c \<in> set cs" "facet_name_str (collector_name c) = n" for c
  proof -
    obtain d where d: "find (\<lambda>c. facet_name_str (collector_name c) = n) cs = Some d"
      using c by (cases "find (\<lambda>c. facet_name_str (collector_name c) = n) cs") (auto simp: find_None_iff)
    then have "d \<in> set cs" "collector_name d = collector_name c"
      using c(2) by (auto simp: find_Some_iff intro!: facet_name.expand)
    with c(1) assms have "d = c" by (auto simp: distinct_map inj_on_def)
    with d n(2) show ?thesis by blast
  qed
  with Inl n(1) show ?thesis by auto
qed

lemma selection_only_narrows_witness:
  "\<exists>s. selected [example_collector ''a'' Shared null, example_collector ''b'' Shared null] (config_default\<lparr> exclude := [''a''] \<rparr>) = Inr s
     \<and> running s = [example_collector ''b'' Shared null]"
proof -
  let ?cs = "[example_collector ''a'' Shared null, example_collector ''b'' Shared null]"
  let ?conf = "config_default\<lparr> exclude := [''a''] \<rparr>"
  have names: "collector_name (example_collector n k ob) = FacetName n" "collector_category (example_collector n k ob) = State"
    for n k ob by (simp_all add: example_collector_def)
  obtain s where s: "selected ?cs ?conf = Inr s" by (simp add: selected_def names)
  have "distinct (map collector_name ?cs)" by (simp add: names)
  from selection_only_narrows[OF this, of ?conf] s show ?thesis by (auto simp: names)
qed

text \<open>
  Two config files that list the same things, in whatever order and however often, are the same
  config, and each list of it is strictly sorted; so the effective config in the document changes
  only when its meaning does.
\<close>

theorem config_meaning_is_canonical:
  assumes "from_str s = Inr c" "from_str t = Inr d" "same_meaning c d"
  shows "config_parse from_str s = config_parse from_str t
    \<and> (\<exists>e. config_parse from_str s = Inr e \<and> same_meaning e c \<and> sorted_wrt (<) (exclude e)
        \<and> sorted_wrt (<) (walk_metadata_only e) \<and> sorted_wrt (<) (walk_churns e) \<and> sorted_wrt (<) (walk_sealed e))"
proof
  show "config_parse from_str s = config_parse from_str t" by (rule config_parse_same[OF assms])
  obtain e where e: "config_parse from_str s = Inr e" using assms(1) by (simp add: config_parse_def)
  with config_parse_lists[OF e] assms(1) show "\<exists>e. config_parse from_str s = Inr e \<and> same_meaning e c
        \<and> sorted_wrt (<) (exclude e) \<and> sorted_wrt (<) (walk_metadata_only e)
        \<and> sorted_wrt (<) (walk_churns e) \<and> sorted_wrt (<) (walk_sealed e)" by auto
qed

definition example_parser :: "unit toml_parser" where
  "example_parser toml = (if toml = [] then Inl ()
     else Inr (config_default\<lparr> exclude := map (\<lambda>c. [c]) toml \<rparr>))"

lemma config_meaning_is_canonical_witness:
  "config_parse example_parser ''bab'' = config_parse example_parser ''ab''"
  using config_meaning_is_canonical[of example_parser "''bab''" "config_default\<lparr> exclude := [''b'', ''a'', ''b''] \<rparr>"
      "''ab''" "config_default\<lparr> exclude := [''a'', ''b''] \<rparr>"]
  by (simp add: example_parser_def same_meaning_def insert_commute)

end
